(* ===== verification/Prelude.thy ===== *)
theory Prelude
  imports Main "HOL-Library.Word" "HOL-Library.AList" "HOL-Library.Multiset"
begin

text \<open>
  Shared vocabulary of the development: machine integers and bytes, errors as values, the
  state-and-error combinators the worker's operations are composed with, the string and slice
  functions of the Rust standard library that the sources call, and the lemma collections
  (\<open>slash_simps\<close> for \<open>'/'\<close>-separated keys, \<open>u64_simps\<close> for 64-bit sizes,
  \<open>sr_simps\<close> for the state-and-error combinators).

  A Rust \<open>String\<close> is a sequence of UTF-8 bytes, so it is modelled by \<open>string\<close>, whose
  characters are bytes; every delimiter the program looks for is ASCII, where bytes and
  characters agree. \<open>usize\<close> is 64 bits wide.
\<close>

unbundle bit_operations_syntax

named_theorems slash_simps
named_theorems u64_simps
named_theorems sr_simps

section \<open>Integers, bytes, errors\<close>

type_synonym u8 = "8 word"
type_synonym u16 = "16 word"
type_synonym u32 = "32 word"
type_synonym u64 = "64 word"
type_synonym bytes = "u8 list"

text \<open>
  An \<open>anyhow::Error\<close>: a message, a message wrapped around an inner error by
  \<open>.context(..)\<close>, or the worker's typed \<open>Stalled\<close> error. \<open>Panic\<close> is a Rust panic
  (an out-of-range slice), which no \<open>?\<close> returns; \<open>Hang\<close> stands for a call that has not
  returned within the steps it was given.
\<close>

datatype error = Msg string | Ctx string error | Stalled u64 | Panic | Hang

type_synonym 'a result = "error + 'a"

text \<open>A task that panicked or never came back does nothing more.\<close>

fun lost :: "error \<Rightarrow> bool" where
  "lost Panic = True"
| "lost Hang = True"
| "lost (Ctx m e) = lost e"
| "lost (Msg m) = False"
| "lost (Stalled n) = False"

fun rbind :: "'a result \<Rightarrow> ('a \<Rightarrow> 'b result) \<Rightarrow> 'b result" where
  "rbind (Inl e) f = Inl e"
| "rbind (Inr x) f = f x"

definition with_ctx :: "string \<Rightarrow> 'a result \<Rightarrow> 'a result" where
  "with_ctx m r = (case r of Inl e \<Rightarrow> Inl (Ctx m e) | Inr x \<Rightarrow> Inr x)"

definition ok_or :: "error \<Rightarrow> 'a option \<Rightarrow> 'a result" where
  "ok_or e r = (case r of None \<Rightarrow> Inl e | Some x \<Rightarrow> Inr x)"

definition is_ok :: "'a result \<Rightarrow> bool" where
  "is_ok r = (case r of Inl _ \<Rightarrow> False | Inr _ \<Rightarrow> True)"

lemma rbind_eq_Inr: "rbind r f = Inr y \<longleftrightarrow> (\<exists>x. r = Inr x \<and> f x = Inr y)"
  by (cases r) auto

lemma rbind_eq_Inl: "rbind r f = Inl e \<longleftrightarrow> r = Inl e \<or> (\<exists>x. r = Inr x \<and> f x = Inl e)"
  by (cases r) auto

lemma with_ctx_Inr [simp]: "with_ctx m (Inr x) = Inr x"
  and with_ctx_Inl [simp]: "with_ctx m (Inl e) = Inl (Ctx m e)"
  and with_ctx_eq_Inr [simp]: "with_ctx m r = Inr x \<longleftrightarrow> r = Inr x"
  by (auto simp: with_ctx_def split: sum.splits)

lemma ok_or_simps [simp]:
  "ok_or e None = Inl e" "ok_or e (Some x) = Inr x" "ok_or e r = Inr x \<longleftrightarrow> r = Some x"
  by (auto simp: ok_or_def split: option.splits)

lemma is_ok_simps [simp]: "is_ok (Inl e) = False" "is_ok (Inr x) = True"
  by (simp_all add: is_ok_def)

section \<open>State and errors\<close>

text \<open>
  An operation that works on shared state and may fail returns the state it leaves behind
  together with its result: an error does not undo the effects that came before it.
\<close>

type_synonym ('s, 'a) sr = "'s \<Rightarrow> 's \<times> 'a result"

definition sret :: "'a \<Rightarrow> ('s, 'a) sr" where
  "sret x = (\<lambda>s. (s, Inr x))"

definition serr :: "error \<Rightarrow> ('s, 'a) sr" where
  "serr e = (\<lambda>s. (s, Inl e))"

definition sbind :: "('s, 'a) sr \<Rightarrow> ('a \<Rightarrow> ('s, 'b) sr) \<Rightarrow> ('s, 'b) sr" where
  "sbind m f = (\<lambda>s. case m s of (s', r) \<Rightarrow> (case r of Inl e \<Rightarrow> (s', Inl e) | Inr x \<Rightarrow> f x s'))"

text \<open>\<open>attempt m\<close> runs \<open>m\<close> and hands its result on as a value: \<open>let _ = m\<close>, \<open>if let Ok(x) = m\<close>.\<close>

definition attempt :: "('s, 'a) sr \<Rightarrow> ('s, 'a result) sr" where
  "attempt m = (\<lambda>s. case m s of (s', r) \<Rightarrow> (s', Inr r))"

definition slift :: "'a result \<Rightarrow> ('s, 'a) sr" where
  "slift r = (\<lambda>s. (s, r))"

definition sctx :: "string \<Rightarrow> ('s, 'a) sr \<Rightarrow> ('s, 'a) sr" where
  "sctx c m = (\<lambda>s. case m s of (s', r) \<Rightarrow> (s', with_ctx c r))"

text \<open>A \<open>for\<close> loop with an accumulator, left by the first error.\<close>

fun sfold :: "('b \<Rightarrow> 'a \<Rightarrow> ('s, 'b) sr) \<Rightarrow> 'b \<Rightarrow> 'a list \<Rightarrow> ('s, 'b) sr" where
  "sfold f acc [] = sret acc"
| "sfold f acc (x # xs) = sbind (f acc x) (\<lambda>acc'. sfold f acc' xs)"

lemma sbind_sret [sr_simps]: "sbind (sret x) f = f x"
  and sbind_serr [sr_simps]: "sbind (serr e) f = serr e"
  and sbind_slift_Inl [sr_simps]: "sbind (slift (Inl e)) f = serr e"
  and sbind_slift_Inr [sr_simps]: "sbind (slift (Inr x)) f = f x"
  by (simp_all add: sbind_def sret_def serr_def slift_def)

lemma sr_apply [sr_simps]:
  "sret x s = (s, Inr x)" "serr e s = (s, Inl e)" "slift r s = (s, r)"
  by (simp_all add: sret_def serr_def slift_def)

lemma sbind_apply [sr_simps]:
  "sbind m f s = (case m s of (s', Inl e) \<Rightarrow> (s', Inl e) | (s', Inr x) \<Rightarrow> f x s')"
  by (simp add: sbind_def split: prod.splits sum.splits)

lemma attempt_apply [sr_simps]: "attempt m s = (fst (m s), Inr (snd (m s)))"
  by (simp add: attempt_def split: prod.splits)

lemma sctx_apply [sr_simps]: "sctx c m s = (fst (m s), with_ctx c (snd (m s)))"
  by (simp add: sctx_def split: prod.splits)

section \<open>Checked, saturating and rounded arithmetic\<close>

definition checked_add :: "'a::len word \<Rightarrow> 'a word \<Rightarrow> 'a word option" where
  "checked_add a b = (if unat a + unat b < 2 ^ LENGTH('a) then Some (a + b) else None)"

definition checked_sub :: "'a::len word \<Rightarrow> 'a word \<Rightarrow> 'a word option" where
  "checked_sub a b = (if b \<le> a then Some (a - b) else None)"

definition saturating_add :: "'a::len word \<Rightarrow> 'a word \<Rightarrow> 'a word" where
  "saturating_add a b = (if unat a + unat b < 2 ^ LENGTH('a) then a + b else - 1)"

definition saturating_sub :: "'a::len word \<Rightarrow> 'a word \<Rightarrow> 'a word" where
  "saturating_sub a b = (if b \<le> a then a - b else 0)"

definition saturating_mul :: "'a::len word \<Rightarrow> 'a word \<Rightarrow> 'a word" where
  "saturating_mul a b = (if unat a * unat b < 2 ^ LENGTH('a) then a * b else - 1)"

definition div_ceil :: "'a::len word \<Rightarrow> 'a word \<Rightarrow> 'a word" where
  "div_ceil a b = (let d = a div b; r = a mod b in if 0 < r then d + 1 else d)"

lemma unat_add_exact [u64_simps]:
  "unat a + unat b < 2 ^ LENGTH('a) \<Longrightarrow> unat (a + b) = unat a + unat (b :: 'a::len word)"
  by (simp add: unat_word_ariths)

lemma unat_mult_exact [u64_simps]:
  "unat a * unat b < 2 ^ LENGTH('a) \<Longrightarrow> unat (a * b) = unat a * unat (b :: 'a::len word)"
  by (simp add: unat_word_ariths)

lemma unat_sub_exact [u64_simps]:
  "b \<le> a \<Longrightarrow> unat (a - b) = unat a - unat (b :: 'a::len word)"
  by (rule unat_sub)

lemma unat_bound: "unat (a :: 'a::len word) < 2 ^ LENGTH('a)"
  by (rule unsigned_less)

lemma unat_minus_one_max: "unat (- 1 :: 'a::len word) = 2 ^ LENGTH('a) - 1"
  by (simp add: unat_word_ariths unsigned_minus_1_eq_mask mask_eq_exp_minus_1)

lemma unat_saturating_add:
  "unat (saturating_add a b) = min (unat a + unat b) (2 ^ LENGTH('a) - 1)"
  for a b :: "'a::len word"
  by (auto simp: saturating_add_def unat_add_exact unat_minus_one_max)

lemma unat_saturating_sub: "unat (saturating_sub a b) = unat a - unat b"
  by (auto simp: saturating_sub_def unat_sub_exact word_le_nat_alt)

lemma unat_saturating_mul:
  "unat (saturating_mul a b) = min (unat a * unat b) (2 ^ LENGTH('a) - 1)"
  for a b :: "'a::len word"
  by (auto simp: saturating_mul_def unat_mult_exact unat_minus_one_max)

lemma checked_add_Some:
  "checked_add a b = Some c \<longleftrightarrow> unat a + unat b < 2 ^ LENGTH('a) \<and> c = a + b"
  for a b :: "'a::len word"
  by (auto simp: checked_add_def)

lemma checked_sub_Some: "checked_sub a b = Some c \<longleftrightarrow> b \<le> a \<and> c = a - b"
  by (auto simp: checked_sub_def)

text \<open>Rounded-up division, on naturals; the word version agrees with it.\<close>

definition ceil_div :: "nat \<Rightarrow> nat \<Rightarrow> nat" where
  "ceil_div a b = (if a mod b = 0 then a div b else Suc (a div b))"

lemma unat_div_ceil [u64_simps]:
  assumes "2 \<le> unat b"
  shows "unat (div_ceil a b) = ceil_div (unat a) (unat (b :: 'a::len word))"
proof (cases "a mod b = 0")
  case True
  then have "unat a mod unat b = 0" by (metis unat_0 unat_mod)
  with True show ?thesis by (simp add: div_ceil_def ceil_div_def unat_div)
next
  case False
  then have r: "unat a mod unat b \<noteq> 0" by (metis unat_eq_zero unat_mod)
  have "unat a div unat b < unat a"
    using assms r by (intro div_less_dividend) (auto intro: Nat.gr0I)
  then have "unat a div unat b + 1 < 2 ^ LENGTH('a)"
    using unat_bound [of a] by linarith
  then have "unat (a div b + 1) = unat a div unat b + 1"
    by (subst unat_add_exact) (simp_all add: unat_div)
  with False r show ?thesis by (simp add: div_ceil_def ceil_div_def word_neq_0_conv)
qed

lemma ceil_div_bounds:
  assumes "0 < b"
  shows "a \<le> ceil_div a b * b" "0 < a \<Longrightarrow> (ceil_div a b - 1) * b < a"
proof -
  have a: "a = a div b * b + a mod b" by simp
  show "a \<le> ceil_div a b * b"
  proof (cases "a mod b = 0")
    case False
    have "a mod b < b" using assms by simp
    with a have "a \<le> a div b * b + b" by linarith
    with False show ?thesis by (simp add: ceil_div_def)
  qed (use a in \<open>simp add: ceil_div_def\<close>)
  show "0 < a \<Longrightarrow> (ceil_div a b - 1) * b < a"
  proof (cases "a mod b = 0")
    case True
    assume "0 < a"
    with True have "a div b \<noteq> 0" by (metis a add.right_neutral less_irrefl mult_0)
    then have "(a div b - 1) * b < a div b * b" using assms by simp
    also have "\<dots> = a" using True a by simp
    finally show ?thesis using True by (simp add: ceil_div_def)
  next
    case False
    with a have "a div b * b < a" by linarith
    with False show ?thesis by (simp add: ceil_div_def)
  qed
qed

lemma ceil_div_unique:
  assumes "a \<le> n * b" "(n - 1) * b < a" "0 < n"
  shows "ceil_div a b = n"
proof -
  have b: "0 < b" using assms(1,2) by (cases b) auto
  have "0 < a" using assms(2) by simp
  note B = ceil_div_bounds [OF b, of a]
  have "(ceil_div a b - 1) * b < n * b" using B(2) [OF \<open>0 < a\<close>] assms(1) by linarith
  then have "ceil_div a b - 1 < n" by simp
  moreover have "(n - 1) * b < ceil_div a b * b" using B(1) assms(2) by linarith
  then have "n - 1 < ceil_div a b" by simp
  ultimately show ?thesis using assms(3) by linarith
qed

lemma ceil_div_0 [simp]: "ceil_div 0 b = 0"
  by (simp add: ceil_div_def)

lemma ceil_div_pos: "0 < a \<Longrightarrow> 0 < b \<Longrightarrow> 0 < ceil_div a b"
  using ceil_div_bounds(1) [of b a] by (cases "ceil_div a b") auto

lemma ceil_div_add:
  assumes "0 < b"
  shows "(a + b - 1) div b = ceil_div a b"
proof (cases "a = 0")
  case False
  define n where "n = (a + b - 1) div b"
  have dm: "a + b - 1 = n * b + (a + b - 1) mod b" unfolding n_def by simp
  have lt: "(a + b - 1) mod b < b" using assms by simp
  have pos: "0 < n" unfolding n_def using False assms by (simp add: div_greater_zero_iff)
  then have nb: "n * b = (n - 1) * b + b" by (cases n) simp_all
  have "ceil_div a b = n"
    by (rule ceil_div_unique) (use dm lt nb pos False assms in linarith)+
  then show ?thesis by (simp add: n_def)
qed (use assms in simp)

end
