(* ===== verification/Strings.thy ===== *)
theory Strings
  imports Prelude
begin

text \<open>
  The slice and string functions of the Rust standard library the program uses, as executable
  definitions: \<open>chunks\<close>, \<open>split\<close>, \<open>join\<close>, \<open>trim_end_matches\<close>,
  \<open>rfind\<close>, \<open>rsplit_once\<close>, \<open>strip_prefix\<close>, big-endian bytes, UTF-8
  validation, upper-case hex. The lemmas are the algebra of \<open>'/'\<close>-separated keys every
  component relies on (collection \<open>slash_simps\<close>) and the facts about \<open>chunks\<close> behind the
  encrypted file format.
\<close>

section \<open>Chunks\<close>

text \<open>\<open>slice.chunks(n)\<close>; the sources only call it with a positive constant.\<close>

function chunks :: "nat \<Rightarrow> 'a list \<Rightarrow> 'a list list" where
  "chunks n xs = (if xs = [] \<or> n = 0 then [] else take n xs # chunks n (drop n xs))"
  by pat_completeness auto
termination
  by (relation "measure (\<lambda>(n, xs). length xs)") auto

declare chunks.simps [simp del]

lemma chunks_Nil [simp]: "chunks n [] = []"
  by (simp add: chunks.simps)

lemma chunks_step: "xs \<noteq> [] \<Longrightarrow> 0 < n \<Longrightarrow> chunks n xs = take n xs # chunks n (drop n xs)"
  by (simp add: chunks.simps [of n xs])

lemma chunks_eq_Nil [simp]: "0 < n \<Longrightarrow> chunks n xs = [] \<longleftrightarrow> xs = []"
  by (cases "xs = []") (simp_all add: chunks_step)

lemma concat_chunks [simp]: "0 < n \<Longrightarrow> concat (chunks n xs) = xs"
proof (induction n xs rule: chunks.induct)
  case (1 n xs)
  then show ?case by (cases "xs = []") (simp_all add: chunks_step)
qed

lemma chunks_small: "0 < length xs \<Longrightarrow> length xs \<le> n \<Longrightarrow> chunks n xs = [xs]"
  using chunks_step [of xs n] by auto

lemma chunks_append_full: "length a = n \<Longrightarrow> 0 < n \<Longrightarrow> chunks n (a @ b) = a # chunks n b"
  using chunks_step [of "a @ b" n] by auto

lemma length_chunks: "0 < n \<Longrightarrow> length (chunks n xs) = ceil_div (length xs) n"
proof (induction n xs rule: chunks.induct)
  case (1 n xs)
  show ?case
  proof (cases "length xs \<le> n")
    case True
    then show ?thesis
    proof (cases "xs = []")
      case False
      with True 1 have "ceil_div (length xs) n = 1"
        by (intro ceil_div_unique) auto
      with True False show ?thesis by (simp add: chunks_small)
    qed simp
  next
    case False
    then have ne: "xs \<noteq> []" by auto
    with 1 have IH: "length (chunks n (drop n xs)) = ceil_div (length xs - n) n" by simp
    let ?m = "ceil_div (length xs - n) n"
    have pos: "0 < length xs - n" using False by simp
    note B = ceil_div_bounds [OF 1(2), of "length xs - n"]
    have m: "0 < ?m" by (rule ceil_div_pos [OF pos 1(2)])
    have "length xs \<le> Suc ?m * n" using B(1) by simp
    moreover have "?m * n = (?m - 1) * n + n" using m by (cases ?m) auto
    then have "(Suc ?m - 1) * n < length xs" using B(2) [OF pos] False by simp
    ultimately have "ceil_div (length xs) n = Suc ?m" by (rule ceil_div_unique) simp
    with ne IH 1(2) show ?thesis by (simp add: chunks_step)
  qed
qed

lemma chunks_nonempty: "0 < n \<Longrightarrow> c \<in> set (chunks n xs) \<Longrightarrow> c \<noteq> []"
proof (induction n xs rule: chunks.induct)
  case (1 n xs)
  then show ?case by (cases "xs = []") (auto simp: chunks_step)
qed

lemma chunks_length_le: "0 < n \<Longrightarrow> c \<in> set (chunks n xs) \<Longrightarrow> length c \<le> n"
proof (induction n xs rule: chunks.induct)
  case (1 n xs)
  then show ?case by (cases "xs = []") (auto simp: chunks_step)
qed

lemma chunks_butlast_full: "0 < n \<Longrightarrow> c \<in> set (butlast (chunks n xs)) \<Longrightarrow> length c = n"
proof (induction n xs rule: chunks.induct)
  case (1 n xs)
  show ?case
  proof (cases "length xs \<le> n")
    case True
    with 1 show ?thesis by (cases "xs = []") (auto simp: chunks_small)
  next
    case False
    then have ne: "xs \<noteq> []" by auto
    from False 1 have d: "chunks n (drop n xs) \<noteq> []" by simp
    have "chunks n xs = take n xs # chunks n (drop n xs)"
      by (rule chunks_step [OF ne 1(2)])
    with 1 ne False d show ?thesis by auto
  qed
qed

lemma chunks_drop: "0 < n \<Longrightarrow> drop k (chunks n xs) = chunks n (drop (k * n) xs)"
proof (induction k arbitrary: xs)
  case (Suc k)
  show ?case
  proof (cases "xs = []")
    case False
    with Suc have "drop (Suc k) (chunks n xs) = chunks n (drop (k * n) (drop n xs))"
      by (simp add: chunks_step)
    then show ?thesis by (simp add: add.commute)
  qed simp
qed simp

text \<open>\<open>&xs[a..b]\<close>: \<open>None\<close> is the panic on a range outside the slice.\<close>

definition slice :: "'a list \<Rightarrow> nat \<Rightarrow> nat \<Rightarrow> 'a list option" where
  "slice xs a b = (if a \<le> b \<and> b \<le> length xs then Some (take (b - a) (drop a xs)) else None)"

lemma slice_append [simp]:
  "a = length xs \<Longrightarrow> b = length xs + length ys \<Longrightarrow> slice (xs @ ys @ zs) a b = Some ys"
  by (simp add: slice_def)

section \<open>Splitting and joining\<close>

fun split_on :: "char \<Rightarrow> string \<Rightarrow> string list" where
  "split_on c [] = [[]]"
| "split_on c (x # xs) =
     (if x = c then [] # split_on c xs
      else (case split_on c xs of [] \<Rightarrow> [[x]] | y # ys \<Rightarrow> (x # y) # ys))"

fun join_with :: "char \<Rightarrow> string list \<Rightarrow> string" where
  "join_with c [] = []"
| "join_with c [x] = x"
| "join_with c (x # y # ys) = x @ c # join_with c (y # ys)"

abbreviation slash :: char where
  "slash \<equiv> CHR ''/''"

definition trim_end_matches :: "char \<Rightarrow> string \<Rightarrow> string" where
  "trim_end_matches c s = rev (dropWhile (\<lambda>x. x = c) (rev s))"

definition trim_matches :: "char \<Rightarrow> string \<Rightarrow> string" where
  "trim_matches c s = trim_end_matches c (dropWhile (\<lambda>x. x = c) s)"

text \<open>\<open>s.rsplit(c).next()\<close>: the part after the last \<open>c\<close>, the whole string without one.\<close>

definition last_part :: "char \<Rightarrow> string \<Rightarrow> string" where
  "last_part c s = last (split_on c s)"

fun rfind :: "char \<Rightarrow> string \<Rightarrow> nat option" where
  "rfind c [] = None"
| "rfind c (x # xs) =
     (case rfind c xs of Some i \<Rightarrow> Some (Suc i) | None \<Rightarrow> (if x = c then Some 0 else None))"

definition rsplit_once :: "char \<Rightarrow> string \<Rightarrow> (string \<times> string) option" where
  "rsplit_once c s =
     (case rfind c s of None \<Rightarrow> None | Some i \<Rightarrow> Some (take i s, drop (Suc i) s))"

definition ends_with :: "char \<Rightarrow> string \<Rightarrow> bool" where
  "ends_with c s = (s \<noteq> [] \<and> last s = c)"

definition starts_with :: "string \<Rightarrow> string \<Rightarrow> bool" where
  "starts_with p s = (take (length p) s = p)"

definition strip_prefix :: "string \<Rightarrow> string \<Rightarrow> string option" where
  "strip_prefix p s = (if starts_with p s then Some (drop (length p) s) else None)"

lemma split_on_nonempty [simp]: "split_on c s \<noteq> []"
  by (cases s) (auto split: list.splits)

lemma split_on_no_sep [slash_simps]: "c \<notin> set s \<Longrightarrow> split_on c s = [s]"
  by (induction s) auto

lemma split_on_append [slash_simps]: "split_on c (a @ c # b) = split_on c a @ split_on c b"
proof (induction a)
  case (Cons x a)
  then show ?case by (auto split: list.splits)
qed simp

lemma split_on_parts: "p \<in> set (split_on c s) \<Longrightarrow> c \<notin> set p"
proof (induction s arbitrary: p)
  case (Cons x s)
  then show ?case by (fastforce split: list.splits if_splits)
qed simp

lemma split_on_subset: "p \<in> set (split_on c s) \<Longrightarrow> set p \<subseteq> set s"
proof (induction s arbitrary: p)
  case (Cons x s)
  then show ?case by (fastforce split: list.splits if_splits)
qed simp

lemma join_with_Cons: "ys \<noteq> [] \<Longrightarrow> join_with c (x # ys) = x @ c # join_with c ys"
  by (cases ys) auto

lemma join_with_append:
  "xs \<noteq> [] \<Longrightarrow> ys \<noteq> [] \<Longrightarrow> join_with c (xs @ ys) = join_with c xs @ c # join_with c ys"
proof (induction xs)
  case (Cons x xs)
  then show ?case by (cases "xs = []") (simp_all add: join_with_Cons)
qed simp

lemma join_split [simp]: "join_with c (split_on c s) = s"
proof (induction s)
  case (Cons x s)
  obtain y ys where s: "split_on c s = y # ys" by (cases "split_on c s") auto
  show ?case
  proof (cases "x = c")
    case True
    with Cons show ?thesis by (simp add: join_with_Cons)
  next
    case False
    with Cons s show ?thesis by (cases ys) auto
  qed
qed simp

lemma split_join:
  "xs \<noteq> [] \<Longrightarrow> (\<forall>x \<in> set xs. c \<notin> set x) \<Longrightarrow> split_on c (join_with c xs) = xs"
proof (induction xs)
  case (Cons x xs)
  then show ?case
    by (cases "xs = []") (simp_all add: split_on_no_sep join_with_Cons split_on_append)
qed simp

lemma last_part_no_sep [slash_simps]: "c \<notin> set s \<Longrightarrow> last_part c s = s"
  by (simp add: last_part_def split_on_no_sep)

lemma last_part_append [slash_simps]: "c \<notin> set b \<Longrightarrow> last_part c (a @ c # b) = b"
  by (simp add: last_part_def split_on_append split_on_no_sep)

lemma last_part_no_slash: "c \<notin> set (last_part c s)"
  unfolding last_part_def by (rule split_on_parts [of _ c s]) simp

lemma trim_end_no_match [slash_simps]:
  "s = [] \<or> last s \<noteq> c \<Longrightarrow> trim_end_matches c s = s"
  by (cases s rule: rev_cases) (auto simp: trim_end_matches_def)

lemma trim_end_snoc [slash_simps]: "trim_end_matches c (s @ [c]) = trim_end_matches c s"
  by (simp add: trim_end_matches_def)

lemma trim_end_result: "trim_end_matches c s = [] \<or> last (trim_end_matches c s) \<noteq> c"
proof (cases "dropWhile (\<lambda>x. x = c) (rev s)")
  case (Cons y ys)
  then have "y \<noteq> c" by (metis (mono_tags) hd_dropWhile list.distinct(1) list.sel(1))
  with Cons show ?thesis by (simp add: trim_end_matches_def)
qed (simp add: trim_end_matches_def)

lemma trim_end_idem [simp]: "trim_end_matches c (trim_end_matches c s) = trim_end_matches c s"
  using trim_end_result [of c s] by (auto simp: trim_end_no_match)

lemma not_ends_with_trim: "\<not> ends_with c (trim_end_matches c s)"
  using trim_end_result [of c s] by (auto simp: ends_with_def)

lemma rfind_None: "rfind c s = None \<longleftrightarrow> c \<notin> set s"
  by (induction s) (auto split: option.splits)

lemma rfind_append [slash_simps]: "c \<notin> set b \<Longrightarrow> rfind c (a @ c # b) = Some (length a)"
  by (induction a) (auto simp: rfind_None [THEN iffD2])

lemma rfind_Some:
  "rfind c s = Some i \<Longrightarrow> i < length s \<and> s = take i s @ c # drop (Suc i) s \<and> c \<notin> set (drop (Suc i) s)"
proof (induction s arbitrary: i)
  case (Cons x s)
  then show ?case by (auto simp: rfind_None split: option.splits if_splits)
qed simp

lemma rsplit_once_append [slash_simps]:
  "c \<notin> set b \<Longrightarrow> rsplit_once c (a @ c # b) = Some (a, b)"
  by (simp add: rsplit_once_def rfind_append)

lemma rsplit_once_None: "rsplit_once c s = None \<longleftrightarrow> c \<notin> set s"
  using rfind_None [of c s] by (auto simp: rsplit_once_def split: option.splits)

lemma starts_with_iff: "starts_with p s \<longleftrightarrow> (\<exists>t. s = p @ t)"
  unfolding starts_with_def by (metis append_eq_conv_conj append_take_drop_id)

lemma strip_prefix_append [slash_simps, simp]: "strip_prefix p (p @ s) = Some s"
  by (simp add: strip_prefix_def starts_with_def)

lemma strip_prefix_Some: "strip_prefix p s = Some t \<longleftrightarrow> s = p @ t"
  by (auto simp: strip_prefix_def starts_with_iff)

lemma ends_with_snoc [slash_simps, simp]: "ends_with c (s @ [x]) \<longleftrightarrow> x = c"
  by (simp add: ends_with_def)

lemma ends_with_obtain: "ends_with c s \<Longrightarrow> \<exists>t. s = t @ [c]"
  unfolding ends_with_def by (metis append_butlast_last_id)

section \<open>Big-endian bytes\<close>

definition u16_to_be :: "u16 \<Rightarrow> bytes" where
  "u16_to_be w = [ucast (drop_bit 8 w), ucast w]"

definition u16_from_be :: "u8 \<Rightarrow> u8 \<Rightarrow> u16" where
  "u16_from_be a b = push_bit 8 (ucast a) OR ucast b"

definition u32_to_be :: "u32 \<Rightarrow> bytes" where
  "u32_to_be w = [ucast (drop_bit 24 w), ucast (drop_bit 16 w), ucast (drop_bit 8 w), ucast w]"

lemma length_u32_to_be [simp]: "length (u32_to_be w) = 4"
  by (simp add: u32_to_be_def)

lemma length_u16_to_be [simp]: "length (u16_to_be w) = 2"
  by (simp add: u16_to_be_def)

lemma u16_from_to_be [simp]: "u16_from_be (ucast (drop_bit 8 w)) (ucast w) = w"
  unfolding u16_from_be_def by (rule bit_word_eqI) (auto simp: bit_simps)

definition u32_from_be :: "u8 \<Rightarrow> u8 \<Rightarrow> u8 \<Rightarrow> u8 \<Rightarrow> u32" where
  "u32_from_be a b c d =
     push_bit 24 (ucast a) OR push_bit 16 (ucast b) OR push_bit 8 (ucast c) OR ucast d"

lemma u32_from_to_be:
  "u32_from_be (ucast (drop_bit 24 w)) (ucast (drop_bit 16 w)) (ucast (drop_bit 8 w)) (ucast w) = w"
  unfolding u32_from_be_def
proof (rule bit_word_eqI)
  fix n :: nat
  consider "n < 8" | "8 \<le> n" "n < 16" | "16 \<le> n" "n < 24" | "24 \<le> n" by linarith
  moreover assume "n < LENGTH(32)"
  ultimately show "bit (push_bit 24 (ucast (ucast (drop_bit 24 w) :: u8)) OR
      push_bit 16 (ucast (ucast (drop_bit 16 w) :: u8)) OR
      push_bit 8 (ucast (ucast (drop_bit 8 w) :: u8)) OR ucast (ucast w :: u8) :: u32) n = bit w n"
    by cases (auto simp: bit_simps)
qed

lemma u32_to_be_inj: "u32_to_be v = u32_to_be w \<longleftrightarrow> v = w"
proof
  assume "u32_to_be v = u32_to_be w"
  then have "u32_from_be (ucast (drop_bit 24 v)) (ucast (drop_bit 16 v)) (ucast (drop_bit 8 v)) (ucast v)
    = u32_from_be (ucast (drop_bit 24 w)) (ucast (drop_bit 16 w)) (ucast (drop_bit 8 w)) (ucast w)"
    by (simp add: u32_to_be_def)
  then show "v = w" by (simp only: u32_from_to_be)
qed simp

section \<open>UTF-8 and hex\<close>

definition as_bytes :: "string \<Rightarrow> bytes" where
  "as_bytes s = map of_char s"

definition cont_byte :: "u8 \<Rightarrow> bool" where
  "cont_byte b = (0x80 \<le> b \<and> b \<le> 0xBF)"

text \<open>The well-formed byte sequences \<open>String::from_utf8\<close> accepts (Unicode, table 3-7).\<close>

fun utf8_valid :: "bytes \<Rightarrow> bool" where
  "utf8_valid [] = True"
| "utf8_valid (a # r) =
    (if a \<le> 0x7F then utf8_valid r
     else case r of [] \<Rightarrow> False
     | b # r2 \<Rightarrow>
       if 0xC2 \<le> a \<and> a \<le> 0xDF then cont_byte b \<and> utf8_valid r2
       else case r2 of [] \<Rightarrow> False
       | c # r3 \<Rightarrow>
         if 0xE0 \<le> a \<and> a \<le> 0xEF then
           (if a = 0xE0 then 0xA0 \<le> b \<and> b \<le> 0xBF
            else if a = 0xED then 0x80 \<le> b \<and> b \<le> 0x9F else cont_byte b)
           \<and> cont_byte c \<and> utf8_valid r3
         else case r3 of [] \<Rightarrow> False
         | d # r4 \<Rightarrow>
           0xF0 \<le> a \<and> a \<le> 0xF4 \<and>
           (if a = 0xF0 then 0x90 \<le> b \<and> b \<le> 0xBF
            else if a = 0xF4 then 0x80 \<le> b \<and> b \<le> 0x8F else cont_byte b)
           \<and> cont_byte c \<and> cont_byte d \<and> utf8_valid r4)"

definition from_utf8 :: "bytes \<Rightarrow> string option" where
  "from_utf8 bs = (if utf8_valid bs then Some (map (\<lambda>b. char_of (unat b)) bs) else None)"

lemma char_of_unat_of_char: "char_of (unat (of_char c :: u8)) = c"
proof -
  have "unat (of_char c :: u8) = of_char c"
    unfolding of_nat_of_char [symmetric, where 'a = "8 word"] unat_of_nat by simp
  then show ?thesis by simp
qed

lemma from_utf8_as_bytes: "utf8_valid (as_bytes s) \<Longrightarrow> from_utf8 (as_bytes s) = Some s"
  by (simp add: from_utf8_def as_bytes_def char_of_unat_of_char comp_def)

definition hex_digit :: "nat \<Rightarrow> char" where
  "hex_digit n = (if n < 10 then char_of (48 + n) else char_of (55 + n))"

definition hex_upper :: "bytes \<Rightarrow> string" where
  "hex_upper bs = concat (map (\<lambda>b. [hex_digit (unat b div 16), hex_digit (unat b mod 16)]) bs)"

definition is_upper_hex :: "char \<Rightarrow> bool" where
  "is_upper_hex c = ((48 \<le> (of_char c :: nat) \<and> (of_char c :: nat) \<le> 57) \<or>
     (65 \<le> (of_char c :: nat) \<and> (of_char c :: nat) \<le> 70))"

lemma length_hex_upper [simp]: "length (hex_upper bs) = 2 * length bs"
  by (induction bs) (simp_all add: hex_upper_def)

lemma is_upper_hex_digit: "n < 16 \<Longrightarrow> is_upper_hex (hex_digit n)"
  by (auto simp: hex_digit_def is_upper_hex_def)

lemma hex_upper_chars: "c \<in> set (hex_upper bs) \<Longrightarrow> is_upper_hex c"
proof -
  have "unat (b :: u8) div 16 < 16" for b
    using unat_bound [of b] by simp
  then show "c \<in> set (hex_upper bs) \<Longrightarrow> is_upper_hex c"
    by (auto simp: hex_upper_def is_upper_hex_digit)
qed

lemma hex_upper_no_slash: "slash \<notin> set (hex_upper bs)"
  using hex_upper_chars [of slash bs] by (auto simp: is_upper_hex_def)

section \<open>Decimal numbers\<close>

fun nat_str :: "nat \<Rightarrow> string" where
  "nat_str n = (if n < 10 then [char_of (48 + n)] else nat_str (n div 10) @ [char_of (48 + n mod 10)])"

declare nat_str.simps [simp del]

end
