(* ===== verification/Interfaces.thy ===== *)
theory Interfaces
  imports Strings
begin

text \<open>
  The contracts several components share, as locales. Each is interpreted on the model's own
  definitions in the theory of the component that provides them, and the properties use the
  interpreted facts:
  \<^item> \<open>codec\<close>: a fallible encoder with its decoder (name padding, directory listings' kind index,
    ciphertext sizes, chunk counters);
  \<^item> \<open>inv_machine\<close>: a state machine driven by events whose steps keep an invariant (transfer batch,
    transfer row, rate limiter, manifest buffer);
  \<^item> \<open>keyed_map\<close>: a component that keeps records under keys (files and folders of a manifest,
    buffered directories, known hosts).
\<close>

section \<open>Encoders and decoders\<close>

locale codec =
  fixes enc :: "'a \<Rightarrow> 'b result"
    and dec :: "'b \<Rightarrow> 'a result"
    and okv :: "'a \<Rightarrow> bool"
  assumes dec_enc: "okv x \<Longrightarrow> enc x = Inr y \<Longrightarrow> dec y = Inr x"
begin

lemma enc_injective:
  assumes "okv x" "okv y" "enc x = Inr z" "enc y = Inr z"
  shows "x = y"
proof -
  from assms have "dec z = Inr x" "dec z = Inr y" by (auto intro: dec_enc)
  then show ?thesis by simp
qed

lemma dec_image: "okv x \<Longrightarrow> enc x = Inr y \<Longrightarrow> \<exists>x'. dec y = Inr x' \<and> enc x' = Inr y"
  by (auto intro: dec_enc)

end

section \<open>State machines with an invariant\<close>

locale inv_machine =
  fixes step :: "'s \<Rightarrow> 'e \<Rightarrow> 's"
    and inv :: "'s \<Rightarrow> bool"
    and enabled :: "'s \<Rightarrow> 'e \<Rightarrow> bool"
  assumes step_inv: "inv s \<Longrightarrow> enabled s e \<Longrightarrow> inv (step s e)"
begin

fun admissible :: "'s \<Rightarrow> 'e list \<Rightarrow> bool" where
  "admissible s [] = True"
| "admissible s (e # es) = (enabled s e \<and> admissible (step s e) es)"

lemma run_inv: "inv s \<Longrightarrow> admissible s es \<Longrightarrow> inv (foldl step s es)"
  by (induction es arbitrary: s) (auto intro: step_inv)

lemma run_inv_free: "(\<And>s e. enabled s e) \<Longrightarrow> inv s \<Longrightarrow> inv (foldl step s es)"
  by (induction es arbitrary: s) (auto intro: step_inv)

lemma run_append_inv:
  "inv s \<Longrightarrow> admissible s (es @ fs) \<Longrightarrow> inv (foldl step s es) \<and> admissible (foldl step s es) fs"
  by (induction es arbitrary: s) (auto intro: step_inv)

end

section \<open>Records kept under keys\<close>

locale keyed_map =
  fixes look :: "'m \<Rightarrow> 'k \<Rightarrow> 'v option"
    and put :: "'k \<Rightarrow> 'v \<Rightarrow> 'm \<Rightarrow> 'm"
    and del :: "'k \<Rightarrow> 'm \<Rightarrow> 'm"
  assumes look_put: "look (put k v m) k' = (if k' = k then Some v else look m k')"
    and look_del: "look (del k m) k' = (if k' = k then None else look m k')"
begin

text \<open>Moving a record from one key to another, possibly in another map.\<close>

lemma rekey:
  assumes "look m a = Some v" "a \<noteq> b"
  shows "look (put b w (del a m)) a = None"
    and "look (put b w (del a m)) b = Some w"
    and "k \<noteq> a \<Longrightarrow> k \<noteq> b \<Longrightarrow> look (put b w (del a m)) k = look m k"
  using assms by (auto simp: look_put look_del)

lemma put_put_same: "look (put k v (put k w m)) = look (put k v m)"
  by (auto simp: look_put fun_eq_iff)

lemma del_put_same: "look (del k (put k v m)) = look (del k m)"
  by (auto simp: look_put look_del fun_eq_iff)

lemma put_look_same: "look m k = Some v \<Longrightarrow> look (put k v m) = look m"
  by (auto simp: look_put fun_eq_iff)

end

end
