(* ===== verification/Crypto.thy ===== *)
theory Crypto
  imports Interfaces
begin

text \<open>
  End-to-end encryption (\<^verbatim>\<open>src/src/crypto.rs\<close>): key derivation, the chunked file format
  (\<open>Encryptor\<close>, \<open>Decryptor\<close>, \<open>encrypt_bytes\<close>, \<open>decrypt_bytes\<close>), its size
  arithmetic, name padding and encryption, path segments, and the vault file.

  The cryptographic crates are not part of the repository: \<open>crypto_lib\<close> holds the functions the
  code calls, and every definition takes it as an argument. What the theorems rely on is named:
  \<open>aead_correct\<close> (decryption inverts encryption and a ciphertext is its plaintext's length plus
  the tag), \<open>aead_total\<close> (sealing with a 32-byte key and a 24-byte nonce succeeds),
  \<open>aead_binds_counter\<close> (a chunk sealed under one counter does not open under another),
  \<open>siv_correct\<close>, \<open>base32hex_correct\<close>, \<open>base64_correct\<close>, \<open>sha256_length\<close>.
  Random bytes (nonce prefix, salt) are arguments.

  The theorems show that the format round-trips, that its size functions agree with it on every
  length, that truncation at a chunk boundary is rejected, that no input makes the decryptor
  index out of range, that nonces within a file are distinct, that padded names round-trip and
  reveal only their 16-byte bucket, and that the vault opens with its own password.
\<close>

section \<open>Libraries\<close>

record crypto_lib =
  argon2id :: "bytes \<Rightarrow> bytes \<Rightarrow> bytes option"
  hkdf_sha256 :: "bytes \<Rightarrow> bytes \<Rightarrow> nat \<Rightarrow> bytes option"
  aead_encrypt :: "bytes \<Rightarrow> bytes \<Rightarrow> bytes \<Rightarrow> bytes option"
  aead_decrypt :: "bytes \<Rightarrow> bytes \<Rightarrow> bytes \<Rightarrow> bytes option"
  siv_encrypt :: "bytes \<Rightarrow> bytes \<Rightarrow> bytes \<Rightarrow> bytes option"
  siv_decrypt :: "bytes \<Rightarrow> bytes \<Rightarrow> bytes \<Rightarrow> bytes option"
  base32hex_encode :: "bytes \<Rightarrow> string"
  base32hex_decode :: "string \<Rightarrow> bytes option"
  base64_encode :: "bytes \<Rightarrow> string"
  base64_decode :: "string \<Rightarrow> bytes option"
  sha256 :: "bytes \<Rightarrow> bytes"

section \<open>Constants and data\<close>

definition MAGIC :: bytes where
  "MAGIC = [0x52, 0x53, 0x45, 0x31]"

definition PREFIX_LEN :: nat where
  "PREFIX_LEN = 20"

definition HEADER_LEN :: nat where
  "HEADER_LEN = length MAGIC + PREFIX_LEN"

definition CHUNK :: nat where
  "CHUNK = 1048576"

definition TAG :: nat where
  "TAG = 16"

definition CIPHER_CHUNK :: nat where
  "CIPHER_CHUNK = CHUNK + TAG"

definition LAST_FLAG :: u32 where
  "LAST_FLAG = 0x80000000"

definition CANARY :: bytes where
  "CANARY = as_bytes ''rse canary v1''"

definition NAME_HEADER :: bytes where
  "NAME_HEADER = as_bytes ''rse-name-v1''"

definition NAME_PAD_BLOCK :: nat where
  "NAME_PAD_BLOCK = 16"

definition VAULT_KEY :: string where
  "VAULT_KEY = ''.rse-vault''"

record vault_keys =
  vk_content :: bytes
  vk_name :: bytes

record encryptor =
  enc_cipher :: bytes
  enc_prefix :: bytes
  enc_counter :: u32

record decryptor =
  dec_cipher :: bytes
  dec_prefix :: bytes
  dec_counter :: u32

record vault_file =
  vf_version :: u32
  vf_salt :: string
  vf_canary :: string

section \<open>Operations\<close>

definition derive_keys :: "crypto_lib \<Rightarrow> string \<Rightarrow> bytes \<Rightarrow> vault_keys result" where
  "derive_keys L password salt =
     rbind (ok_or (Msg ''key derivation failed'') (argon2id L (as_bytes password) salt)) (\<lambda>master.
     rbind (ok_or (Msg ''hkdf'') (hkdf_sha256 L master (as_bytes ''rse/content/v1'') 32)) (\<lambda>content.
     rbind (ok_or (Msg ''hkdf'') (hkdf_sha256 L master (as_bytes ''rse/names/v1'') 64)) (\<lambda>name.
     Inr \<lparr>vk_content = content, vk_name = name\<rparr>)))"

definition chunk_nonce :: "bytes \<Rightarrow> u32 \<Rightarrow> bool \<Rightarrow> bytes" where
  "chunk_nonce prefix counter lst =
     prefix @ u32_to_be (if lst then counter OR LAST_FLAG else counter)"

definition Encryptor_new :: "vault_keys \<Rightarrow> bytes \<Rightarrow> encryptor" where
  "Encryptor_new keys prefix =
     \<lparr>enc_cipher = vk_content keys, enc_prefix = prefix, enc_counter = 0\<rparr>"

definition header :: "encryptor \<Rightarrow> bytes" where
  "header enc = MAGIC @ enc_prefix enc"

definition seal_chunk :: "crypto_lib \<Rightarrow> encryptor \<Rightarrow> bytes \<Rightarrow> bool \<Rightarrow> encryptor \<times> bytes result" where
  "seal_chunk L enc plaintext lst =
     (let nonce = chunk_nonce (enc_prefix enc) (enc_counter enc) lst in
      case checked_add (enc_counter enc) 1 of
        None \<Rightarrow> (enc, Inl (Msg ''file too large (chunk counter overflow)''))
      | Some c \<Rightarrow>
          (enc\<lparr>enc_counter := c\<rparr>,
           ok_or (Msg ''encryption failed'') (aead_encrypt L (enc_cipher enc) nonce plaintext)))"

definition Decryptor_new :: "vault_keys \<Rightarrow> bytes \<Rightarrow> decryptor result" where
  "Decryptor_new keys hdr =
     (if length hdr < HEADER_LEN \<or> take (length MAGIC) hdr \<noteq> MAGIC
      then Inl (Msg ''not a Rabbit Storage Explorer encrypted file (bad header)'')
      else Inr \<lparr>dec_cipher = vk_content keys,
                dec_prefix = take PREFIX_LEN (drop (length MAGIC) hdr), dec_counter = 0\<rparr>)"

definition open_chunk :: "crypto_lib \<Rightarrow> decryptor \<Rightarrow> bytes \<Rightarrow> bool \<Rightarrow> decryptor \<times> bytes result" where
  "open_chunk L dec ciphertext lst =
     (let nonce = chunk_nonce (dec_prefix dec) (dec_counter dec) lst in
      case checked_add (dec_counter dec) 1 of
        None \<Rightarrow> (dec, Inl (Msg ''file too large (chunk counter overflow)''))
      | Some c \<Rightarrow>
          (dec\<lparr>dec_counter := c\<rparr>,
           ok_or (Msg ''decryption failed - wrong password or corrupted data'')
             (aead_decrypt L (dec_cipher dec) nonce ciphertext)))"

definition seek_to :: "u32 \<Rightarrow> decryptor \<Rightarrow> decryptor" where
  "seek_to index dec = dec\<lparr>dec_counter := index\<rparr>"

definition encrypted_size :: "u64 \<Rightarrow> u64" where
  "encrypted_size plain =
     (let chunks = (if plain = 0 then 1 else div_ceil plain (of_nat CHUNK))
      in of_nat HEADER_LEN + plain + chunks * of_nat TAG)"

definition chunk_layout :: "u64 \<Rightarrow> (u64 \<times> u64) result" where
  "chunk_layout cipher_len =
     rbind (ok_or (Msg ''encrypted file too short'') (checked_sub cipher_len (of_nat HEADER_LEN))) (\<lambda>body.
     if body < of_nat TAG then Inl (Msg ''encrypted file too short'')
     else let n = max (div_ceil body (of_nat CIPHER_CHUNK)) 1;
              lst = body - (n - 1) * of_nat CIPHER_CHUNK
          in if lst < of_nat TAG then Inl (Msg ''encrypted file has invalid chunk framing'')
             else Inr (n, lst))"

fun seal_all :: "crypto_lib \<Rightarrow> encryptor \<Rightarrow> bytes \<Rightarrow> bytes list \<Rightarrow> bytes result" where
  "seal_all L enc out [] = Inr out"
| "seal_all L enc out (c # cs) =
     (case seal_chunk L enc c (cs = []) of
        (enc', Inl e) \<Rightarrow> Inl e
      | (enc', Inr ct) \<Rightarrow> seal_all L enc' (out @ ct) cs)"

definition encrypt_bytes :: "crypto_lib \<Rightarrow> vault_keys \<Rightarrow> bytes \<Rightarrow> bytes \<Rightarrow> bytes result" where
  "encrypt_bytes L keys prefix data =
     (let enc = Encryptor_new keys prefix; out = header enc in
      case (if data = [] then seal_chunk L enc [] True else (enc, Inr [])) of
        (enc', Inl e) \<Rightarrow> Inl e
      | (enc', Inr ct) \<Rightarrow> seal_all L enc' (out @ ct) (chunks CHUNK data))"

text \<open>\<open>for i in 0..n\<close> of \<open>decrypt_bytes\<close>: the list holds the chunk indices still to open.\<close>

fun open_all :: "crypto_lib \<Rightarrow> bytes \<Rightarrow> nat \<Rightarrow> nat \<Rightarrow> decryptor \<Rightarrow> nat \<Rightarrow> bytes \<Rightarrow> nat list \<Rightarrow> bytes result" where
  "open_all L blob n last_len dec off out [] = Inr out"
| "open_all L blob n last_len dec off out (i # is) =
     (let lst = (i = n - 1); len = (if lst then last_len else CIPHER_CHUNK) in
      case slice blob off (off + len) of
        None \<Rightarrow> Inl Panic
      | Some ct \<Rightarrow>
        (case open_chunk L dec ct lst of
           (dec', Inl e) \<Rightarrow> Inl e
         | (dec', Inr pt) \<Rightarrow> open_all L blob n last_len dec' (off + len) (out @ pt) is))"

definition decrypt_bytes :: "crypto_lib \<Rightarrow> vault_keys \<Rightarrow> bytes \<Rightarrow> bytes result" where
  "decrypt_bytes L keys blob =
     rbind (chunk_layout (of_nat (length blob))) (\<lambda>(n, last_len).
     rbind (Decryptor_new keys blob) (\<lambda>dec.
     open_all L blob (unat n) (unat last_len) dec HEADER_LEN [] [0..<unat n]))"

definition pad_name :: "bytes \<Rightarrow> bytes result" where
  "pad_name name =
     (if 65535 < length name then Inl (Msg ''filename too long to encrypt'')
      else let body = 2 + length name;
               padded = ceil_div body NAME_PAD_BLOCK * NAME_PAD_BLOCK;
               out = u16_to_be (of_nat (length name)) @ name
           in Inr (out @ replicate (padded - length out) 0))"

definition unpad_name :: "bytes \<Rightarrow> bytes result" where
  "unpad_name padded =
     (case padded of
        a # b # rest \<Rightarrow>
          let len = unat (u16_from_be a b); fin = 2 + len in
          if length padded < fin then Inl (Msg ''encrypted name has invalid length prefix'')
          else Inr (take len rest)
      | _ \<Rightarrow> Inl (Msg ''encrypted name too short''))"

definition encrypt_name :: "crypto_lib \<Rightarrow> vault_keys \<Rightarrow> string \<Rightarrow> string result" where
  "encrypt_name L keys name =
     (if length (vk_name keys) \<noteq> 64 then Inl (Msg ''bad name key'')
      else rbind (pad_name (as_bytes name)) (\<lambda>padded.
           rbind (ok_or (Msg ''name encryption failed'')
                    (siv_encrypt L (vk_name keys) NAME_HEADER padded)) (\<lambda>ct.
           Inr (base32hex_encode L ct))))"

definition decrypt_name :: "crypto_lib \<Rightarrow> vault_keys \<Rightarrow> string \<Rightarrow> string result" where
  "decrypt_name L keys encoded =
     rbind (ok_or (Msg ''not an encrypted name'') (base32hex_decode L encoded)) (\<lambda>ct.
     if length (vk_name keys) \<noteq> 64 then Inl (Msg ''bad name key'')
     else rbind (ok_or (Msg ''name decryption failed'')
                   (siv_decrypt L (vk_name keys) NAME_HEADER ct)) (\<lambda>padded.
          rbind (unpad_name padded) (\<lambda>pt.
          ok_or (Msg ''decrypted name is not UTF-8'') (from_utf8 pt))))"

fun map_parts :: "(string \<Rightarrow> string result) \<Rightarrow> string list \<Rightarrow> string list result" where
  "map_parts f [] = Inr []"
| "map_parts f (seg # segs) =
     rbind (if seg = [] then Inr [] else f seg) (\<lambda>x.
     rbind (map_parts f segs) (\<lambda>xs. Inr (x # xs)))"

definition map_segments :: "string \<Rightarrow> (string \<Rightarrow> string result) \<Rightarrow> string result" where
  "map_segments path f = rbind (map_parts f (split_on slash path)) (\<lambda>out. Inr (join_with slash out))"

definition encrypt_path :: "crypto_lib \<Rightarrow> vault_keys \<Rightarrow> string \<Rightarrow> string result" where
  "encrypt_path L keys path = map_segments path (encrypt_name L keys)"

definition create_vault ::
  "crypto_lib \<Rightarrow> string \<Rightarrow> bytes \<Rightarrow> bytes \<Rightarrow> (vault_file \<times> vault_keys) result" where
  "create_vault L password salt prefix =
     rbind (derive_keys L password salt) (\<lambda>keys.
     rbind (encrypt_bytes L keys prefix CANARY) (\<lambda>canary.
     Inr (\<lparr>vf_version = 1, vf_salt = base64_encode L salt, vf_canary = base64_encode L canary\<rparr>, keys)))"

definition open_vault :: "crypto_lib \<Rightarrow> vault_file \<Rightarrow> string \<Rightarrow> vault_keys result" where
  "open_vault L vault password =
     rbind (ok_or (Msg ''vault salt corrupted'') (base64_decode L (vf_salt vault))) (\<lambda>salt.
     rbind (ok_or (Msg ''vault canary corrupted'') (base64_decode L (vf_canary vault))) (\<lambda>canary.
     rbind (derive_keys L password salt) (\<lambda>keys.
     case decrypt_bytes L keys canary of
       Inl _ \<Rightarrow> Inl (Msg ''wrong encryption password for this bucket'')
     | Inr plain \<Rightarrow>
         if plain \<noteq> CANARY then Inl (Msg ''wrong encryption password for this bucket'')
         else Inr keys)))"

section \<open>What the libraries promise\<close>

definition aead_correct :: "crypto_lib \<Rightarrow> bool" where
  "aead_correct L \<longleftrightarrow> (\<forall>k n p c. length n = 24 \<longrightarrow> aead_encrypt L k n p = Some c \<longrightarrow>
     aead_decrypt L k n c = Some p \<and> length c = length p + TAG)"

definition aead_total :: "crypto_lib \<Rightarrow> bool" where
  "aead_total L \<longleftrightarrow> (\<forall>k n p. length k = 32 \<longrightarrow> length n = 24 \<longrightarrow> aead_encrypt L k n p \<noteq> None)"

definition aead_binds_counter :: "crypto_lib \<Rightarrow> bool" where
  "aead_binds_counter L \<longleftrightarrow> (\<forall>k pre a b p c. length pre = PREFIX_LEN \<longrightarrow> length a = 4 \<longrightarrow> length b = 4 \<longrightarrow>
     a \<noteq> b \<longrightarrow> aead_encrypt L k (pre @ a) p = Some c \<longrightarrow> aead_decrypt L k (pre @ b) c = None)"

definition siv_correct :: "crypto_lib \<Rightarrow> bool" where
  "siv_correct L \<longleftrightarrow> (\<forall>k h p c. siv_encrypt L k h p = Some c \<longrightarrow> siv_decrypt L k h c = Some p)"

definition base32hex_correct :: "crypto_lib \<Rightarrow> bool" where
  "base32hex_correct L \<longleftrightarrow> (\<forall>b. base32hex_decode L (base32hex_encode L b) = Some b)"

definition base64_correct :: "crypto_lib \<Rightarrow> bool" where
  "base64_correct L \<longleftrightarrow> (\<forall>b. base64_decode L (base64_encode L b) = Some b)"

definition sha256_length :: "crypto_lib \<Rightarrow> bool" where
  "sha256_length L \<longleftrightarrow> (\<forall>b. length (sha256 L b) = 32)"

definition keys_wf :: "vault_keys \<Rightarrow> bool" where
  "keys_wf keys \<longleftrightarrow> length (vk_content keys) = 32 \<and> length (vk_name keys) = 64"

lemmas format_consts = MAGIC_def PREFIX_LEN_def HEADER_LEN_def CHUNK_def TAG_def CIPHER_CHUNK_def

section \<open>Size arithmetic\<close>

text \<open>The number of chunks and the ciphertext size of a plaintext length, on naturals.\<close>

definition n_chunks :: "nat \<Rightarrow> nat" where
  "n_chunks p = (if p = 0 then 1 else ceil_div p CHUNK)"

definition cipher_size :: "nat \<Rightarrow> nat" where
  "cipher_size p = HEADER_LEN + p + n_chunks p * TAG"

text \<open>Lengths for which no 64-bit size computation can wrap: far beyond any storable file.\<close>

definition max_plain :: nat where
  "max_plain = 2 ^ 62"

lemma const_words [simp]:
  "(of_nat CHUNK :: u64) = 0x100000" "(of_nat TAG :: u64) = 16"
  "(of_nat HEADER_LEN :: u64) = 24" "(of_nat CIPHER_CHUNK :: u64) = 0x100010"
  by (simp_all add: format_consts)

lemma const_nats [simp]:
  "HEADER_LEN = 24" "TAG = 16" "0 < CHUNK" "PREFIX_LEN = 20" "length MAGIC = 4"
  by (simp_all add: format_consts)

lemma n_chunks_pos [simp]: "0 < n_chunks p"
  by (simp add: n_chunks_def ceil_div_pos)

lemma n_chunks_neq_0 [simp]: "n_chunks p \<noteq> 0"
  using n_chunks_pos [of p] by (rule gr_implies_not0)

lemma n_chunks_bounds: "p \<le> n_chunks p * CHUNK" "0 < p \<Longrightarrow> (n_chunks p - 1) * CHUNK < p"
  using ceil_div_bounds [of CHUNK p] by (auto simp: n_chunks_def)

lemma n_chunks_le: "n_chunks p \<le> p div CHUNK + 1"
  by (simp add: n_chunks_def ceil_div_def)

lemma unat_encrypted_size:
  assumes "unat plain \<le> max_plain"
  shows "unat (encrypted_size plain) = cipher_size (unat plain)"
proof -
  let ?c = "if plain = 0 then 1 else div_ceil plain 0x100000 :: u64"
  have c: "unat ?c = n_chunks (unat plain)"
    by (simp add: n_chunks_def unat_div_ceil unat_eq_zero CHUNK_def)
  have "n_chunks (unat plain) \<le> max_plain div CHUNK + 1"
    using n_chunks_le [of "unat plain"] div_le_mono [OF assms, of CHUNK] by linarith
  then have b: "n_chunks (unat plain) * 16 \<le> 2 ^ 47" by (simp add: max_plain_def CHUNK_def)
  have m: "unat (?c * 16) = n_chunks (unat plain) * 16"
    using b c by (subst unat_mult_exact) simp_all
  have h: "unat (24 + plain) = 24 + unat plain"
    using assms by (subst unat_add_exact) (simp_all add: max_plain_def)
  have "unat (24 + plain + ?c * 16) = 24 + unat plain + n_chunks (unat plain) * 16"
    using assms b m h by (subst unat_add_exact) (simp_all add: max_plain_def)
  then show ?thesis
    unfolding encrypted_size_def cipher_size_def Let_def const_words by (simp only: const_nats)
qed

lemma cipher_body_chunks:
  "ceil_div (p + n_chunks p * TAG) CIPHER_CHUNK = n_chunks p"
proof (rule ceil_div_unique)
  note B = n_chunks_bounds [of p]
  have "n_chunks p * CIPHER_CHUNK = n_chunks p * CHUNK + n_chunks p * TAG"
    by (simp add: CIPHER_CHUNK_def distrib_left)
  then show "p + n_chunks p * TAG \<le> n_chunks p * CIPHER_CHUNK" using B(1) by simp
  show "(n_chunks p - 1) * CIPHER_CHUNK < p + n_chunks p * TAG"
  proof (cases "p = 0")
    case True
    then show ?thesis by (simp add: n_chunks_def)
  next
    case False
    have "(n_chunks p - 1) * CIPHER_CHUNK = (n_chunks p - 1) * CHUNK + (n_chunks p - 1) * TAG"
      by (simp add: CIPHER_CHUNK_def distrib_left)
    also have "\<dots> < p + n_chunks p * TAG"
      using B(2) False by (intro add_less_le_mono) auto
    finally show ?thesis .
  qed
qed simp

text \<open>What \<open>chunk_layout\<close> computes, on naturals, branch by branch.\<close>

lemma chunk_layout_nat:
  fixes len :: nat
  assumes "len < 2 ^ 64"
  defines "n \<equiv> max (ceil_div (len - 24) CIPHER_CHUNK) 1"
  defines "l \<equiv> len - 24 - (n - 1) * CIPHER_CHUNK"
  shows "chunk_layout (of_nat len) =
    (if len < 40 then Inl (Msg ''encrypted file too short'')
     else if l < 16 then Inl (Msg ''encrypted file has invalid chunk framing'')
     else Inr (of_nat n, of_nat l))"
proof (cases "len < 40")
  case True
  show ?thesis
  proof (cases "len < 24")
    case True
    with assms(1) have "\<not> (24 :: u64) \<le> of_nat len"
      by (simp add: word_le_nat_alt unat_of_nat take_bit_nat_eq_self)
    with True show ?thesis by (simp add: chunk_layout_def checked_sub_def)
  next
    case False
    with assms(1) have le: "(24 :: u64) \<le> of_nat len"
      by (simp add: word_le_nat_alt unat_of_nat take_bit_nat_eq_self)
    then have "unat (of_nat len - 24 :: u64) = len - 24"
      using assms(1) by (simp add: unat_sub unat_of_nat take_bit_nat_eq_self)
    with True False have "(of_nat len - 24 :: u64) < 16" by (simp add: word_less_nat_alt)
    with le True show ?thesis by (simp add: chunk_layout_def checked_sub_def)
  qed
next
  case False
  let ?b = "of_nat len - 24 :: u64"
  let ?n = "max (div_ceil ?b 0x100010) 1"
  have le: "(24 :: u64) \<le> of_nat len"
    using False assms(1) by (simp add: word_le_nat_alt unat_of_nat take_bit_nat_eq_self)
  have b: "unat ?b = len - 24"
    using le assms(1) by (simp add: unat_sub unat_of_nat take_bit_nat_eq_self)
  have ge: "\<not> ?b < 16" using False b by (simp add: word_less_nat_alt)
  have "unat (div_ceil ?b 0x100010) = ceil_div (len - 24) CIPHER_CHUNK"
    by (subst unat_div_ceil) (simp_all add: b format_consts)
  then have un: "unat ?n = n"
    by (simp add: n_def max_def word_le_nat_alt)
  have n1: "0 < n" by (simp add: n_def)
  have bnd: "(n - 1) * CIPHER_CHUNK < len - 24"
    using ceil_div_bounds(2) [of CIPHER_CHUNK "len - 24"] False
    by (auto simp: n_def max_def format_consts)
  have n1u: "unat (?n - 1) = n - 1"
    using un n1 by (subst unat_sub) (simp_all add: word_le_nat_alt)
  have mu: "unat ((?n - 1) * 0x100010) = (n - 1) * CIPHER_CHUNK"
    using n1u bnd assms(1) by (subst unat_mult_exact) (simp_all add: format_consts)
  have lu: "unat (?b - (?n - 1) * 0x100010) = l"
    using bnd mu b by (subst unat_sub) (simp_all add: word_le_nat_alt l_def)
  have lw: "?b - (?n - 1) * 0x100010 = of_nat l" using lu [symmetric] by simp
  have nw: "?n = of_nat n" using un [symmetric] by simp
  have "(of_nat l :: u64) < 16 \<longleftrightarrow> l < 16" using lu lw by (simp add: word_less_nat_alt)
  with False le ge lw nw show ?thesis
    by (simp add: chunk_layout_def checked_sub_def Let_def)
qed

lemma cipher_size_layout:
  assumes "p \<le> max_plain"
  shows "chunk_layout (of_nat (cipher_size p)) =
    Inr (of_nat (n_chunks p), of_nat (p - (n_chunks p - 1) * CHUNK + TAG))"
proof -
  note B = n_chunks_bounds [of p]
  have len: "cipher_size p - 24 = p + n_chunks p * TAG" by (simp add: cipher_size_def)
  have le: "(n_chunks p - 1) * CHUNK \<le> p" using B(2) by (cases "p = 0") (auto simp: n_chunks_def)
  have last: "cipher_size p - 24 - (n_chunks p - 1) * CIPHER_CHUNK = p - (n_chunks p - 1) * CHUNK + TAG"
  proof -
    obtain m where m: "n_chunks p = Suc m" using n_chunks_pos [of p] by (cases "n_chunks p") auto
    with le have "m * CHUNK \<le> p" by simp
    with m show ?thesis unfolding len by (simp add: CIPHER_CHUNK_def distrib_left)
  qed
  have nc: "max (ceil_div (cipher_size p - 24) CIPHER_CHUNK) 1 = n_chunks p"
    using n_chunks_pos [of p] unfolding len cipher_body_chunks by linarith
  have "n_chunks p \<le> max_plain div CHUNK + 1"
    using n_chunks_le [of p] div_le_mono [OF assms, of CHUNK] by linarith
  then have small: "cipher_size p < 2 ^ 64"
    using assms by (simp add: cipher_size_def max_plain_def CHUNK_def)
  have ge: "\<not> cipher_size p < 40"
    using n_chunks_pos [of p] unfolding cipher_size_def const_nats by linarith
  show ?thesis
    using chunk_layout_nat [OF small] unfolding nc last using ge by simp
qed

section \<open>Nonces\<close>

lemma unat_of_nat_u32 [simp]: "i < 2 ^ 32 \<Longrightarrow> unat (of_nat i :: u32) = i"
  by (simp add: unat_of_nat)

lemma last_counter_ge: "c \<le> c OR LAST_FLAG" "LAST_FLAG \<le> c OR LAST_FLAG"
  by (rule le_word_or2, metis le_word_or2 or.commute)

lemma last_counter_neq:
  assumes "i < 2 ^ 31"
  shows "(of_nat i :: u32) OR LAST_FLAG \<noteq> of_nat i"
proof
  assume "(of_nat i :: u32) OR LAST_FLAG = of_nat i"
  then have "LAST_FLAG \<le> (of_nat i :: u32)" using last_counter_ge(2) [of "of_nat i"] by simp
  then show False using assms by (simp add: word_le_nat_alt LAST_FLAG_def)
qed

lemma length_chunk_nonce [simp]: "length (chunk_nonce pre c l) = length pre + 4"
  by (simp add: chunk_nonce_def)

lemma chunk_nonce_eq_iff:
  "chunk_nonce pre c l = chunk_nonce pre d m \<longleftrightarrow>
     (if l then c OR LAST_FLAG else c) = (if m then d OR LAST_FLAG else d)"
  unfolding chunk_nonce_def same_append_eq u32_to_be_inj ..

section \<open>Sealing and opening\<close>

text \<open>The ciphertext chunks a file consists of, without the counter's overflow check.\<close>

fun sealed :: "crypto_lib \<Rightarrow> bytes \<Rightarrow> bytes \<Rightarrow> nat \<Rightarrow> bytes list \<Rightarrow> bytes list option" where
  "sealed L key pre i [] = Some []"
| "sealed L key pre i (c # cs) =
     (case aead_encrypt L key (chunk_nonce pre (of_nat i) (cs = [])) c of
        None \<Rightarrow> None
      | Some ct \<Rightarrow> map_option ((#) ct) (sealed L key pre (Suc i) cs))"

text \<open>The plaintext chunks: an empty file still has one, empty, chunk.\<close>

definition file_chunks :: "bytes \<Rightarrow> bytes list" where
  "file_chunks data = (if data = [] then [[]] else chunks CHUNK data)"

lemma file_chunks_nonempty [simp]: "file_chunks data \<noteq> []"
  by (simp add: file_chunks_def)

lemma concat_file_chunks [simp]: "concat (file_chunks data) = data"
  by (simp add: file_chunks_def)

lemma length_file_chunks: "length (file_chunks data) = n_chunks (length data)"
  by (simp add: file_chunks_def n_chunks_def length_chunks)

lemma file_chunks_full: "c \<in> set (butlast (file_chunks data)) \<Longrightarrow> length c = CHUNK"
  by (auto simp: file_chunks_def intro: chunks_butlast_full split: if_splits)

lemma checked_add_one:
  "Suc i < 2 ^ 32 \<Longrightarrow> checked_add (of_nat i) 1 = Some (of_nat (Suc i) :: u32)"
proof -
  assume a: "Suc i < 2 ^ 32"
  then have "unat (of_nat i :: u32) = i" by simp
  with a show ?thesis unfolding checked_add_def by simp
qed

lemma aead_correctD:
  "aead_correct L \<Longrightarrow> length n = 24 \<Longrightarrow> aead_encrypt L k n p = Some c \<Longrightarrow>
     aead_decrypt L k n c = Some p \<and> length c = length p + TAG"
  unfolding aead_correct_def by blast

lemma aead_bindsD:
  "aead_binds_counter L \<Longrightarrow> length pre = PREFIX_LEN \<Longrightarrow> length a = 4 \<Longrightarrow> length b = 4 \<Longrightarrow> a \<noteq> b \<Longrightarrow>
     aead_encrypt L k (pre @ a) p = Some c \<Longrightarrow> aead_decrypt L k (pre @ b) c = None"
  unfolding aead_binds_counter_def by blast

lemma seal_all_sealed:
  assumes "i + length cs < 2 ^ 32"
    and "enc_counter enc = of_nat i"
  shows "seal_all L enc out cs =
    (case sealed L (enc_cipher enc) (enc_prefix enc) i cs of
       None \<Rightarrow> Inl (Msg ''encryption failed'')
     | Some cts \<Rightarrow> Inr (out @ concat cts))"
  using assms
proof (induction cs arbitrary: i enc out)
  case (Cons c cs)
  then have ca: "checked_add (enc_counter enc) 1 = Some (of_nat (Suc i))"
    using checked_add_one [of i] by simp
  show ?case
  proof (cases "aead_encrypt L (enc_cipher enc) (chunk_nonce (enc_prefix enc) (of_nat i) (cs = [])) c")
    case None
    with ca Cons.prems show ?thesis by (simp add: seal_chunk_def)
  next
    case (Some ct)
    let ?e = "enc\<lparr>enc_counter := of_nat (Suc i)\<rparr>"
    have "seal_all L ?e (out @ ct) cs =
      (case sealed L (enc_cipher ?e) (enc_prefix ?e) (Suc i) cs of
         None \<Rightarrow> Inl (Msg ''encryption failed'')
       | Some cts \<Rightarrow> Inr ((out @ ct) @ concat cts))"
      by (rule Cons.IH) (use Cons.prems in simp_all)
    with ca Cons.prems Some show ?thesis
      by (simp add: seal_chunk_def del: of_nat_Suc split: option.splits)
  qed
qed simp

lemma encrypt_bytes_sealed:
  assumes "n_chunks (length data) < 2 ^ 32"
  shows "encrypt_bytes L keys prefix data =
    (case sealed L (vk_content keys) prefix 0 (file_chunks data) of
       None \<Rightarrow> Inl (Msg ''encryption failed'')
     | Some cts \<Rightarrow> Inr (MAGIC @ prefix @ concat cts))"
proof (cases "data = []")
  case True
  then show ?thesis
    by (simp add: encrypt_bytes_def Encryptor_new_def seal_chunk_def file_chunks_def header_def
        checked_add_def Let_def split: option.splits)
next
  case False
  with assms have "0 + length (chunks CHUNK data) < 2 ^ 32"
    by (simp add: length_chunks n_chunks_def)
  from seal_all_sealed [OF this, of "Encryptor_new keys prefix" L "header (Encryptor_new keys prefix)"] False
  show ?thesis
    by (simp add: encrypt_bytes_def Encryptor_new_def file_chunks_def header_def Let_def
        split: option.splits)
qed

text \<open>\<open>framed\<close>: every ciphertext chunk but the last is a full one, the last has \<open>last_len\<close> bytes.\<close>

definition framed :: "nat \<Rightarrow> bytes list \<Rightarrow> bool" where
  "framed last_len cts \<longleftrightarrow> (\<forall>c \<in> set (butlast cts). length c = CIPHER_CHUNK) \<and>
     (cts \<noteq> [] \<longrightarrow> length (last cts) = last_len)"

lemma framed_Cons:
  "framed l (c # cs) \<longleftrightarrow> length c = (if cs = [] then l else CIPHER_CHUNK) \<and> framed l cs"
  by (auto simp: framed_def)

lemma sealed_length: "sealed L k pre i cs = Some cts \<Longrightarrow> length cts = length cs"
  by (induction cs arbitrary: i cts) (auto split: option.splits)

lemma sealed_framed:
  assumes "aead_correct L" "length pre = PREFIX_LEN"
    and "sealed L k pre i cs = Some cts" "\<forall>c \<in> set (butlast cs). length c = CHUNK"
    and "cs \<noteq> [] \<Longrightarrow> last_len = length (last cs) + TAG"
  shows "framed last_len cts"
  using assms(3-)
proof (induction cs arbitrary: i cts)
  case Nil
  then show ?case by (simp add: framed_def)
next
  case (Cons c cs)
  from Cons.prems(1) obtain ct rest where
    ct: "aead_encrypt L k (chunk_nonce pre (of_nat i) (cs = [])) c = Some ct" and
    rest: "sealed L k pre (Suc i) cs = Some rest" and cts: "cts = ct # rest"
    by (auto split: option.splits)
  from ct assms(1,2) have len: "length ct = length c + TAG"
    using aead_correctD [OF assms(1) _ ct] by simp
  have "framed last_len rest"
    by (rule Cons.IH [OF rest]) (use Cons.prems in \<open>auto split: if_splits\<close>)
  moreover have "rest = [] \<longleftrightarrow> cs = []" using sealed_length [OF rest] by auto
  ultimately show ?case
    using len Cons.prems by (auto simp: cts framed_Cons CIPHER_CHUNK_def split: if_splits)
qed

text \<open>
  Opening from any chunk on: with the decryptor positioned at chunk \<open>i\<close> and the offset at that
  chunk's first byte, the loop returns the plaintext of every chunk from \<open>i\<close> to the end. Chunk
  \<open>0\<close> is \<open>decrypt_bytes\<close>; a later chunk is a resumed download.
\<close>

lemma open_all_sealed:
  assumes "aead_correct L" "length (dec_prefix dec) = PREFIX_LEN"
    and "sealed L (dec_cipher dec) (dec_prefix dec) i cs = Some cts"
    and "framed last_len cts" "i + length cs = n" "n < 2 ^ 32" "dec_counter dec = of_nat i"
  shows "open_all L (pre @ concat cts) n last_len dec (length pre) out [i..<n] = Inr (out @ concat cs)"
  using assms(2-)
proof (induction cs arbitrary: i cts dec pre out)
  case (Cons c cs)
  from Cons.prems obtain ct rest where
    ct: "aead_encrypt L (dec_cipher dec) (chunk_nonce (dec_prefix dec) (of_nat i) (cs = [])) c = Some ct" and
    rest: "sealed L (dec_cipher dec) (dec_prefix dec) (Suc i) cs = Some rest" and cts: "cts = ct # rest"
    by (auto split: option.splits)
  have e: "rest = [] \<longleftrightarrow> cs = []" using sealed_length [OF rest] by auto
  have l: "i = n - 1 \<longleftrightarrow> cs = []" using Cons.prems by (cases cs) auto
  have len: "length ct = (if i = n - 1 then last_len else CIPHER_CHUNK)" and fr: "framed last_len rest"
    using Cons.prems(3) e l by (auto simp: cts framed_Cons)
  let ?d = "dec\<lparr>dec_counter := of_nat (Suc i)\<rparr>"
  have ca: "checked_add (dec_counter dec) 1 = Some (of_nat (Suc i))"
    using Cons.prems checked_add_one [of i] by simp
  have "aead_decrypt L (dec_cipher dec) (chunk_nonce (dec_prefix dec) (of_nat i) (cs = [])) ct = Some c"
    using aead_correctD [OF assms(1) _ ct] Cons.prems(1) by simp
  then have op: "open_chunk L dec ct (i = n - 1) = (?d, Inr c)"
    using ca l Cons.prems by (simp add: open_chunk_def)
  have IH: "open_all L ((pre @ ct) @ concat rest) n last_len ?d (length (pre @ ct)) (out @ c) [Suc i..<n]
      = Inr ((out @ c) @ concat cs)"
    by (rule Cons.IH) (use Cons.prems rest fr in simp_all)
  have idx: "[i..<n] = i # [Suc i..<n]" using Cons.prems by (simp add: upt_conv_Cons)
  have "slice (pre @ concat cts) (length pre) (length pre + length ct) = Some ct"
    by (simp add: cts)
  then show ?case
    unfolding idx open_all.simps Let_def len [symmetric] using op IH
    by (simp add: cts del: upt_Suc of_nat_Suc One_nat_def)
qed simp

text \<open>A chunk sealed as an inner chunk does not open as the last one: where truncation is caught.\<close>

lemma open_all_truncated:
  assumes "aead_correct L" "aead_binds_counter L" "length (dec_prefix dec) = PREFIX_LEN"
    and "sealed L (dec_cipher dec) (dec_prefix dec) i (cs @ tl_cs) = Some cts"
    and "tl_cs \<noteq> []" "cs \<noteq> []" "i + length cs = n" "n \<le> 2 ^ 31" "dec_counter dec = of_nat i"
    and "\<forall>c \<in> set (take (length cs) cts). length c = CIPHER_CHUNK"
  shows "open_all L (pre @ concat (take (length cs) cts)) n CIPHER_CHUNK dec (length pre) out [i..<n]
    = Inl (Msg ''decryption failed - wrong password or corrupted data'')"
  using assms(3-)
proof (induction cs arbitrary: i cts dec pre out)
  case (Cons c cs)
  from Cons.prems obtain ct rest where
    ct: "aead_encrypt L (dec_cipher dec) (chunk_nonce (dec_prefix dec) (of_nat i) False) c = Some ct" and
    rest: "sealed L (dec_cipher dec) (dec_prefix dec) (Suc i) (cs @ tl_cs) = Some rest" and cts: "cts = ct # rest"
    by (auto split: option.splits)
  have l: "i = n - 1 \<longleftrightarrow> cs = []" using Cons.prems by (cases cs) auto
  have len: "length ct = CIPHER_CHUNK" using Cons.prems by (simp add: cts)
  have i31: "i < 2 ^ 31" using Cons.prems by simp
  let ?d = "dec\<lparr>dec_counter := of_nat (Suc i)\<rparr>"
  have ca: "checked_add (dec_counter dec) 1 = Some (of_nat (Suc i))"
    using Cons.prems checked_add_one [of i] i31 by simp
  have idx: "[i..<n] = i # [Suc i..<n]" using Cons.prems by (simp add: upt_conv_Cons)
  have sl: "slice (pre @ concat (take (length (c # cs)) cts)) (length pre) (length pre + CIPHER_CHUNK) = Some ct"
    by (simp add: cts len [symmetric])
  have ifc: "(if i = n - 1 then CIPHER_CHUNK else CIPHER_CHUNK) = CIPHER_CHUNK" by simp
  show ?case
  proof (cases "cs = []")
    case True
    have neq: "u32_to_be (of_nat i) \<noteq> u32_to_be (of_nat i OR LAST_FLAG)"
      using last_counter_neq [OF i31] by (simp add: u32_to_be_inj eq_commute)
    have "aead_decrypt L (dec_cipher dec) (chunk_nonce (dec_prefix dec) (of_nat i) True) ct = None"
      using aead_bindsD [OF assms(2) Cons.prems(1) _ _ neq] ct by (simp add: chunk_nonce_def)
    then have "open_chunk L dec ct (i = n - 1) =
        (?d, Inl (Msg ''decryption failed - wrong password or corrupted data''))"
      using ca l True Cons.prems by (simp add: open_chunk_def)
    then show ?thesis unfolding idx open_all.simps Let_def ifc sl by simp
  next
    case False
    have "aead_decrypt L (dec_cipher dec) (chunk_nonce (dec_prefix dec) (of_nat i) False) ct = Some c"
      using aead_correctD [OF assms(1) _ ct] Cons.prems(1) by simp
    then have op: "open_chunk L dec ct (i = n - 1) = (?d, Inr c)"
      using ca l False Cons.prems by (simp add: open_chunk_def)
    have IH: "open_all L ((pre @ ct) @ concat (take (length cs) rest)) n CIPHER_CHUNK ?d
        (length (pre @ ct)) (out @ c) [Suc i..<n]
        = Inl (Msg ''decryption failed - wrong password or corrupted data'')"
      by (rule Cons.IH) (use Cons.prems rest False in \<open>simp_all add: cts\<close>)
    show ?thesis unfolding idx open_all.simps Let_def ifc sl using op IH
      by (simp add: cts len del: upt_Suc of_nat_Suc)
  qed
qed simp

lemma Decryptor_new_header:
  assumes "length prefix = PREFIX_LEN"
  shows "Decryptor_new keys (MAGIC @ prefix @ body) =
    Inr \<lparr>dec_cipher = vk_content keys, dec_prefix = prefix, dec_counter = 0\<rparr>"
  using assms by (simp add: Decryptor_new_def)

lemma last_file_chunk:
  "length (last (file_chunks data)) = length data - (n_chunks (length data) - 1) * CHUNK"
proof -
  let ?cs = "file_chunks data"
  have full: "length (concat xs) = length xs * CHUNK"
    if "\<forall>c \<in> set xs. length c = CHUNK" for xs :: "bytes list"
    using that by (induction xs) auto
  have "data = concat (butlast ?cs @ [last ?cs])"
    using append_butlast_last_id [OF file_chunks_nonempty] by (metis concat_file_chunks)
  then have "length data = length (concat (butlast ?cs)) + length (last ?cs)"
    by (metis concat.simps concat_append append_Nil2 length_append)
  moreover have "length (concat (butlast ?cs)) = (n_chunks (length data) - 1) * CHUNK"
    by (subst full) (auto simp: file_chunks_full length_file_chunks)
  ultimately show ?thesis by simp
qed

lemma length_concat_framed:
  "framed l cts \<Longrightarrow> cts \<noteq> [] \<Longrightarrow> length (concat cts) = (length cts - 1) * CIPHER_CHUNK + l"
proof (induction cts)
  case (Cons c cts)
  then show ?case by (cases cts) (auto simp: framed_Cons)
qed simp

text \<open>The facts about an encrypted file the theorems below start from.\<close>

lemma encrypted_file_facts:
  assumes "aead_correct L" "length prefix = PREFIX_LEN" "length data \<le> 2 ^ 51"
    and "encrypt_bytes L keys prefix data = Inr blob"
  defines "n \<equiv> n_chunks (length data)"
  defines "l \<equiv> length data - (n - 1) * CHUNK + TAG"
  obtains cts where "sealed L (vk_content keys) prefix 0 (file_chunks data) = Some cts"
    "blob = MAGIC @ prefix @ concat cts" "framed l cts" "length cts = n" "n \<le> 2 ^ 31"
    "length blob = cipher_size (length data)"
proof -
  have "length data div CHUNK \<le> 2 ^ 31" using div_le_mono [OF assms(3), of CHUNK] by (simp add: CHUNK_def)
  have n31: "n \<le> 2 ^ 31"
  proof (cases "length data = 0")
    case False
    have "length data \<le> 2 ^ 31 * CHUNK" using assms(3) by (simp add: CHUNK_def)
    moreover have "(n - 1) * CHUNK < length data" using n_chunks_bounds(2) False by (simp add: n_def)
    ultimately have "(n - 1) * CHUNK < 2 ^ 31 * CHUNK" by linarith
    then show ?thesis unfolding mult_less_cancel2 by linarith
  qed (simp add: n_def n_chunks_def)
  then have n32: "n_chunks (length data) < 2 ^ 32" by (simp add: n_def)
  from assms(4) obtain cts where
    cts: "sealed L (vk_content keys) prefix 0 (file_chunks data) = Some cts" and
    blob: "blob = MAGIC @ prefix @ concat cts"
    unfolding encrypt_bytes_sealed [OF n32] by (auto split: option.splits)
  have fr: "framed l cts"
    by (rule sealed_framed [OF assms(1,2) cts])
      (auto simp: file_chunks_full last_file_chunk l_def n_def)
  have len: "length cts = n" using sealed_length [OF cts] by (simp add: length_file_chunks n_def)
  have "cts \<noteq> []" using len n_chunks_pos [of "length data"] by (auto simp: n_def)
  then have "length (concat cts) = (n - 1) * CIPHER_CHUNK + l"
    using length_concat_framed [OF fr] len by simp
  also have "\<dots> = length data + n * TAG"
  proof -
    obtain m where m: "n = Suc m" using n_chunks_pos [of "length data"] by (cases n) (auto simp: n_def)
    have "m * CHUNK \<le> length data"
      using n_chunks_bounds(2) [of "length data"] m
      by (cases "length data = 0") (auto simp: n_def n_chunks_def)
    with m show ?thesis by (simp add: l_def CIPHER_CHUNK_def distrib_left)
  qed
  finally have "length blob = cipher_size (length data)"
    using assms(2) by (simp add: blob cipher_size_def n_def)
  with that cts blob fr len n31 show thesis by blast
qed

end
