(* ===== verification/Reference_Lib.thy ===== *)
theory Reference_Lib
  imports Crypto
begin

text \<open>
  A concrete instance of the library functions, used where a theorem's hypotheses about the
  libraries are to be satisfied at a concrete input. It is not a cipher: it only has the
  documented input/output behaviour (lengths, inverses, binding of the counter) the theorems
  name as hypotheses, proved below.
\<close>

definition ref_tag :: "bytes \<Rightarrow> bytes" where
  "ref_tag nonce = drop 20 nonce @ replicate 12 0"

definition ref_aead_encrypt :: "bytes \<Rightarrow> bytes \<Rightarrow> bytes \<Rightarrow> bytes option" where
  "ref_aead_encrypt k nonce p = Some (p @ ref_tag nonce)"

definition ref_aead_decrypt :: "bytes \<Rightarrow> bytes \<Rightarrow> bytes \<Rightarrow> bytes option" where
  "ref_aead_decrypt k nonce c =
     (if 16 \<le> length c \<and> drop (length c - 16) c = ref_tag nonce
      then Some (take (length c - 16) c) else None)"

definition ref_siv_encrypt :: "bytes \<Rightarrow> bytes \<Rightarrow> bytes \<Rightarrow> bytes option" where
  "ref_siv_encrypt k h p = Some (replicate 16 0 @ p)"

definition ref_siv_decrypt :: "bytes \<Rightarrow> bytes \<Rightarrow> bytes \<Rightarrow> bytes option" where
  "ref_siv_decrypt k h c = (if take 16 c = replicate 16 0 then Some (drop 16 c) else None)"

definition unhex_digit :: "char \<Rightarrow> nat" where
  "unhex_digit c = (if (of_char c :: nat) < 58 then of_char c - 48 else of_char c - 55)"

fun unhex :: "string \<Rightarrow> bytes option" where
  "unhex [] = Some []"
| "unhex [c] = None"
| "unhex (a # b # r) =
     map_option ((#) (of_nat (16 * unhex_digit a + unhex_digit b))) (unhex r)"

definition ref_lib :: crypto_lib where
  "ref_lib = \<lparr>
     argon2id = (\<lambda>pw salt. Some (take 32 (pw @ salt @ replicate 32 0))),
     hkdf_sha256 = (\<lambda>ikm info n. Some (take n (ikm @ replicate n 0))),
     aead_encrypt = ref_aead_encrypt,
     aead_decrypt = ref_aead_decrypt,
     siv_encrypt = ref_siv_encrypt,
     siv_decrypt = ref_siv_decrypt,
     base32hex_encode = hex_upper,
     base32hex_decode = unhex,
     base64_encode = hex_upper,
     base64_decode = unhex,
     sha256 = (\<lambda>b. take 32 (b @ replicate 32 0))\<rparr>"

definition ref_keys :: vault_keys where
  "ref_keys = \<lparr>vk_content = replicate 32 7, vk_name = replicate 64 9\<rparr>"

definition ref_prefix :: bytes where
  "ref_prefix = replicate 20 5"

lemma ref_lib_simps [simp]:
  "aead_encrypt ref_lib = ref_aead_encrypt" "aead_decrypt ref_lib = ref_aead_decrypt"
  "siv_encrypt ref_lib = ref_siv_encrypt" "siv_decrypt ref_lib = ref_siv_decrypt"
  "base32hex_encode ref_lib = hex_upper" "base32hex_decode ref_lib = unhex"
  "base64_encode ref_lib = hex_upper" "base64_decode ref_lib = unhex"
  by (simp_all add: ref_lib_def)

lemma ref_aead_correct: "aead_correct ref_lib"
  by (simp add: aead_correct_def ref_aead_encrypt_def ref_aead_decrypt_def ref_tag_def)

lemma ref_aead_total: "aead_total ref_lib"
  by (simp add: aead_total_def ref_aead_encrypt_def)

lemma ref_aead_binds: "aead_binds_counter ref_lib"
  by (auto simp: aead_binds_counter_def ref_aead_encrypt_def ref_aead_decrypt_def ref_tag_def)

lemma ref_siv_correct: "siv_correct ref_lib"
  by (simp add: siv_correct_def ref_siv_encrypt_def ref_siv_decrypt_def)

lemma unhex_hex_digit: "n < 16 \<Longrightarrow> unhex_digit (hex_digit n) = n"
  by (auto simp: unhex_digit_def hex_digit_def)

lemma unhex_hex: "unhex (hex_upper bs) = Some bs"
proof (induction bs)
  case (Cons b bs)
  have "unat b div 16 < 16" using unat_bound [of b] by simp
  then have "of_nat (16 * unhex_digit (hex_digit (unat b div 16)) +
      unhex_digit (hex_digit (unat b mod 16))) = b"
    by (simp add: unhex_hex_digit del: of_nat_add of_nat_mult)
  with Cons show ?case by (simp add: hex_upper_def del: of_nat_add of_nat_mult)
qed (simp add: hex_upper_def)

lemma ref_base32hex_correct: "base32hex_correct ref_lib"
  by (simp add: base32hex_correct_def unhex_hex)

lemma ref_base64_correct: "base64_correct ref_lib"
  by (simp add: base64_correct_def unhex_hex)

lemma ref_sha256_length: "sha256_length ref_lib"
  by (auto simp: sha256_length_def ref_lib_def min_def)

lemma ref_keys_wf: "keys_wf ref_keys"
  by (simp add: keys_wf_def ref_keys_def)

lemma length_ref_prefix: "length ref_prefix = PREFIX_LEN"
  by (simp add: ref_prefix_def)

lemmas ref_lib_laws = ref_aead_correct ref_aead_total ref_aead_binds ref_siv_correct
  ref_base32hex_correct ref_base64_correct ref_sha256_length ref_keys_wf length_ref_prefix

end
