(* ===== verification/Crypto_Correct.thy ===== *)
theory Crypto_Correct
  imports Reference_Lib
begin

text \<open>
  The properties of the encryption component (\<^verbatim>\<open>src/src/crypto.rs\<close>), each with a witness on
  the reference library instance.
\<close>

section \<open>Content\<close>

lemma sealed_total:
  assumes "aead_total L" "length k = 32" "length pre = PREFIX_LEN"
  shows "\<exists>cts. sealed L k pre i cs = Some cts"
proof (induction cs arbitrary: i)
  case (Cons c cs)
  have "aead_encrypt L k (chunk_nonce pre (of_nat i) (cs = [])) c \<noteq> None"
    using assms unfolding aead_total_def by simp
  moreover obtain rest where "sealed L k pre (Suc i) cs = Some rest" using Cons by blast
  ultimately show ?case by auto
qed simp

lemma decrypt_encrypted_file:
  assumes "aead_correct L" "length prefix = PREFIX_LEN" "length data \<le> 2 ^ 51"
    and "encrypt_bytes L keys prefix data = Inr blob"
  shows "decrypt_bytes L keys blob = Inr data"
proof -
  let ?n = "n_chunks (length data)"
  let ?l = "length data - (?n - 1) * CHUNK + TAG"
  from encrypted_file_facts [OF assms] obtain cts where
    cts: "sealed L (vk_content keys) prefix 0 (file_chunks data) = Some cts" and
    blob: "blob = MAGIC @ prefix @ concat cts" and fr: "framed ?l cts" and
    n31: "?n \<le> 2 ^ 31" and len: "length blob = cipher_size (length data)" by metis
  have lay: "chunk_layout (of_nat (length blob)) = Inr (of_nat ?n, of_nat ?l)"
    unfolding len by (rule cipher_size_layout) (use assms(3) in \<open>simp add: max_plain_def\<close>)
  have un: "unat (of_nat ?n :: u64) = ?n" using n31 by (simp add: unat_of_nat)
  have "?l < 2 ^ 64" using assms(3) by simp
  then have ul: "unat (of_nat ?l :: u64) = ?l" unfolding unat_of_nat by simp
  have "open_all L ((MAGIC @ prefix) @ concat cts) ?n ?l
      \<lparr>dec_cipher = vk_content keys, dec_prefix = prefix, dec_counter = 0\<rparr>
      (length (MAGIC @ prefix)) [] [0..<?n] = Inr ([] @ concat (file_chunks data))"
    by (rule open_all_sealed [OF assms(1)])
      (use cts fr n31 assms(2) in \<open>simp_all add: length_file_chunks\<close>)
  then show ?thesis
    using lay un ul assms(2) unfolding blob
    by (simp add: decrypt_bytes_def Decryptor_new_header)
qed

text \<open>
  C2. \<open>encrypt_bytes\<close> succeeds on every plaintext of up to \<open>2 ^ 51\<close> bytes (\<open>2 ^ 31\<close>
  chunks), the blob has exactly \<open>encrypted_size\<close> bytes, and \<open>decrypt_bytes\<close> with the same
  keys returns the plaintext.
\<close>

theorem encrypt_decrypt_bytes:
  assumes "aead_correct L" "aead_total L" "keys_wf keys"
    and "length prefix = PREFIX_LEN" "length data \<le> 2 ^ 51"
  shows "\<exists>blob. encrypt_bytes L keys prefix data = Inr blob \<and>
    decrypt_bytes L keys blob = Inr data \<and>
    length blob = unat (encrypted_size (of_nat (length data)))"
proof -
  have "n_chunks (length data) \<le> length data div CHUNK + 1" by (rule n_chunks_le)
  also have "\<dots> \<le> 2 ^ 31 + 1" using div_le_mono [OF assms(5), of CHUNK] by (simp add: CHUNK_def)
  finally have n: "n_chunks (length data) < 2 ^ 32" by simp
  obtain cts where "sealed L (vk_content keys) prefix 0 (file_chunks data) = Some cts"
    using sealed_total assms unfolding keys_wf_def by blast
  then have enc: "encrypt_bytes L keys prefix data = Inr (MAGIC @ prefix @ concat cts)"
    by (simp add: encrypt_bytes_sealed [OF n])
  from encrypted_file_facts [OF assms(1,4,5) this]
  have "length (MAGIC @ prefix @ concat cts) = cipher_size (length data)" by metis
  also have "\<dots> = unat (encrypted_size (of_nat (length data)))"
    using assms(5) by (subst unat_encrypted_size) (simp_all add: max_plain_def unat_of_nat)
  finally show ?thesis using enc decrypt_encrypted_file [OF assms(1,4,5) enc] by metis
qed

theorem encrypt_decrypt_bytes_witness:
  "\<exists>blob. encrypt_bytes ref_lib ref_keys ref_prefix [1, 2, 3] = Inr blob \<and>
    decrypt_bytes ref_lib ref_keys blob = Inr [1, 2, 3] \<and>
    length blob = unat (encrypted_size (of_nat (length [1 :: u8, 2, 3])))"
  by (rule encrypt_decrypt_bytes) (simp_all add: ref_lib_laws)

lemma framed_take_full:
  assumes "framed l cts" "m < length cts"
  shows "\<forall>c \<in> set (take m cts). length c = CIPHER_CHUNK"
proof -
  have "take m cts = take m (butlast cts)" using assms(2) by (simp add: take_butlast)
  then show ?thesis using assms(1) unfolding framed_def by (metis in_set_takeD)
qed

lemma length_concat_const: "\<forall>c \<in> set xs. length c = k \<Longrightarrow> length (concat xs) = length xs * k"
  by (induction xs) auto

lemma take_concat_const:
  assumes "\<forall>c \<in> set (take m xs). length c = k" "m \<le> length xs"
  shows "take (m * k) (concat xs) = concat (take m xs)"
proof -
  have "length (concat (take m xs)) = m * k"
    using length_concat_const [OF assms(1)] assms(2) by simp
  then show ?thesis by (metis append_take_drop_id concat_append append_eq_conv_conj)
qed

text \<open>
  C3. Truncation at a chunk boundary is detected: keeping the header and the first \<open>m\<close> of the
  \<open>n\<close> chunks of an encrypted file (\<open>0 < m < n\<close>) makes \<open>decrypt_bytes\<close> fail with the
  decryption error, because the chunk that is now last was sealed without the last-chunk flag.
\<close>

theorem truncation_detected:
  assumes "aead_correct L" "aead_binds_counter L" "length prefix = PREFIX_LEN"
    and "length data \<le> 2 ^ 51" "encrypt_bytes L keys prefix data = Inr blob"
    and "0 < m" "m < n_chunks (length data)"
  shows "decrypt_bytes L keys (take (HEADER_LEN + m * CIPHER_CHUNK) blob) =
    Inl (Msg ''decryption failed - wrong password or corrupted data'')"
proof -
  let ?l = "length data - (n_chunks (length data) - 1) * CHUNK + TAG"
  obtain cts where
    cts: "sealed L (vk_content keys) prefix 0 (file_chunks data) = Some cts" and
    blob: "blob = MAGIC @ prefix @ concat cts" and fr: "framed ?l cts" and
    n31: "n_chunks (length data) \<le> 2 ^ 31" and n: "length cts = n_chunks (length data)"
    by (rule encrypted_file_facts [OF assms(1,3,4,5)])
  let ?t = "take m cts"
  have full: "\<forall>c \<in> set ?t. length c = CIPHER_CHUNK" 
    by (rule framed_take_full [OF fr]) (use assms(7) n in simp)
  have m: "m \<le> length cts" using assms(7) n by simp
  have hl: "length (MAGIC @ prefix) = HEADER_LEN" using assms(3) by simp
  have tk: "take (HEADER_LEN + m * CIPHER_CHUNK) blob = (MAGIC @ prefix) @ concat ?t"
    unfolding blob append_assoc [symmetric] take_append hl take_concat_const [OF full m, symmetric]
    using hl by simp
  have lenct: "length (concat ?t) = m * CIPHER_CHUNK"
    using length_concat_const [OF full] assms(7) n by simp
  have cd: "ceil_div (m * CIPHER_CHUNK) CIPHER_CHUNK = m"
    by (rule ceil_div_unique) (use assms(6) in \<open>simp_all add: CIPHER_CHUNK_def CHUNK_def\<close>)
  have l1: "m * CIPHER_CHUNK - (m - 1) * CIPHER_CHUNK = CIPHER_CHUNK"
    using assms(6) by (cases m) simp_all
  have small: "24 + m * CIPHER_CHUNK < 2 ^ 64" using assms(7) n31 by (simp add: format_consts)
  have "max m 1 = m" using assms(6) by simp
  then have lay: "chunk_layout (of_nat (24 + m * CIPHER_CHUNK)) = Inr (of_nat m, of_nat CIPHER_CHUNK)"
    using chunk_layout_nat [OF small] assms(6)
    unfolding diff_add_inverse cd l1 by (cases m) (simp_all add: cd l1 format_consts)
  have sp: "file_chunks data = take m (file_chunks data) @ drop m (file_chunks data)" by simp
  have "open_all L ((MAGIC @ prefix) @ concat (take (length (take m (file_chunks data))) cts)) m CIPHER_CHUNK
      \<lparr>dec_cipher = vk_content keys, dec_prefix = prefix, dec_counter = 0\<rparr>
      (length (MAGIC @ prefix)) [] [0..<m]
      = Inl (Msg ''decryption failed - wrong password or corrupted data'')"
    by (rule open_all_truncated [OF assms(1,2), where tl_cs = "drop m (file_chunks data)" and i = 0])
      (use cts assms(3,6,7) n31 full in \<open>simp_all add: length_file_chunks min_def\<close>)
  moreover have "length (take m (file_chunks data)) = m" using assms(7) by (simp add: length_file_chunks)
  moreover have "unat (of_nat m :: u64) = m" using assms(7) n31 by (simp add: unat_of_nat)
  ultimately show ?thesis
    unfolding tk using lay lenct assms(3)
    by (simp add: decrypt_bytes_def Decryptor_new_header CIPHER_CHUNK_def CHUNK_def)
qed

lemma n_chunks_CHUNK_Suc: "n_chunks (CHUNK + 1) = 2"
  by (simp add: n_chunks_def ceil_div_def CHUNK_def)

theorem truncation_detected_witness:
  "\<exists>blob. encrypt_bytes ref_lib ref_keys ref_prefix (replicate (CHUNK + 1) 3) = Inr blob \<and>
     decrypt_bytes ref_lib ref_keys (take (HEADER_LEN + 1 * CIPHER_CHUNK) blob) =
     Inl (Msg ''decryption failed - wrong password or corrupted data'')"
proof -
  have n: "n_chunks (length (replicate (CHUNK + 1) (3 :: u8))) < 2 ^ 32"
    unfolding length_replicate n_chunks_CHUNK_Suc by simp
  obtain cts where "sealed ref_lib (vk_content ref_keys) ref_prefix 0
      (file_chunks (replicate (CHUNK + 1) 3)) = Some cts"
    using sealed_total [OF ref_aead_total] by (metis keys_wf_def ref_keys_wf length_ref_prefix)
  then obtain blob where b: "encrypt_bytes ref_lib ref_keys ref_prefix (replicate (CHUNK + 1) 3) = Inr blob"
    using encrypt_bytes_sealed [OF n, of ref_lib ref_keys ref_prefix] by simp
  have "decrypt_bytes ref_lib ref_keys (take (HEADER_LEN + 1 * CIPHER_CHUNK) blob) =
     Inl (Msg ''decryption failed - wrong password or corrupted data'')"
    by (rule truncation_detected [OF ref_aead_correct ref_aead_binds length_ref_prefix _ b])
      (simp_all add: CHUNK_def n_chunks_def ceil_div_def)
  with b show ?thesis by blast
qed

text \<open>
  C32. Nonces within a file are distinct: over a file of \<open>n\<close> chunks, for every \<open>n\<close> the 32-bit
  counter can number, the map from chunk index to nonce (with the last-chunk flag on chunk
  \<open>n - 1\<close>) is injective.
\<close>

theorem chunk_nonces_distinct:
  assumes "n \<le> 2 ^ 32"
  shows "inj_on (\<lambda>i. chunk_nonce prefix (of_nat i) (i = n - 1)) {..<n}"
proof -
  have neq: "of_nat j \<noteq> (of_nat (n - 1) :: u32) OR LAST_FLAG" if "j < n - 1" for j
  proof
    assume "of_nat j = (of_nat (n - 1) :: u32) OR LAST_FLAG"
    then have "(of_nat (n - 1) :: u32) \<le> of_nat j" by (metis last_counter_ge(1))
    then have "unat (of_nat (n - 1) :: u32) \<le> unat (of_nat j :: u32)" by (rule iffD1 [OF word_le_nat_alt])
    moreover have "unat (of_nat (n - 1) :: u32) = n - 1" "unat (of_nat j :: u32) = j"
      by (rule unat_of_nat_u32, use that assms in linarith)+
    ultimately show False using that by linarith
  qed
  have inj: "i = j" if "(of_nat i :: u32) = of_nat j" "i < n" "j < n" for i j
    using that assms by (metis (no_types, lifting) less_le_trans unat_of_nat_u32)
  show ?thesis
  proof (rule inj_onI)
    fix i j
    assume "i \<in> {..<n}" "j \<in> {..<n}"
      and eq: "chunk_nonce prefix (of_nat i) (i = n - 1) = chunk_nonce prefix (of_nat j) (j = n - 1)"
    then have ij: "i < n" "j < n" by auto
    then have "i = n - 1 \<or> i < n - 1" "j = n - 1 \<or> j < n - 1" by linarith+
    with eq inj [OF _ ij] neq [of i] neq [of j] show "i = j"
      unfolding chunk_nonce_eq_iff by (elim disjE) (simp_all only: if_True if_False, auto)
  qed
qed

theorem chunk_nonces_distinct_witness:
  "inj_on (\<lambda>i. chunk_nonce ref_prefix (of_nat i) (i = (2 ^ 32 :: nat) - 1)) {..<2 ^ 32}"
  by (rule chunk_nonces_distinct) simp

text \<open>
  \<open>chunk_layout\<close> inverts the size computation: for every plaintext length up to
  \<open>2 ^ 62\<close>, laying out a ciphertext of \<open>encrypted_size plain\<close> bytes succeeds, and the chunks
  it announces hold exactly \<open>plain\<close> plaintext bytes, the last one between 0 and a full chunk.
\<close>

theorem chunk_layout_encrypted_size:
  assumes "unat plain \<le> max_plain"
  shows "\<exists>n l. chunk_layout (encrypted_size plain) = Inr (n, l) \<and> 0 < unat n \<and>
    TAG \<le> unat l \<and> unat l \<le> CIPHER_CHUNK \<and> (unat n - 1) * CHUNK + (unat l - TAG) = unat plain"
proof -
  let ?p = "unat plain"
  let ?n = "n_chunks ?p"
  let ?l = "?p - (?n - 1) * CHUNK + TAG"
  have "encrypted_size plain = of_nat (cipher_size ?p)"
    using unat_encrypted_size [OF assms] by (metis of_nat_unat ucast_id)
  then have lay: "chunk_layout (encrypted_size plain) = Inr (of_nat ?n, of_nat ?l)"
    using cipher_size_layout [OF assms] by simp
  have "?n \<le> max_plain div CHUNK + 1"
    using n_chunks_le [of ?p] div_le_mono [OF assms, of CHUNK] by linarith
  then have "?n < 2 ^ 64" by (simp add: max_plain_def CHUNK_def)
  then have un: "unat (of_nat ?n :: u64) = ?n" unfolding unat_of_nat by simp
  note B = n_chunks_bounds [of ?p]
  have le: "(?n - 1) * CHUNK \<le> ?p" using B(2) by (cases "?p = 0") (auto simp: n_chunks_def)
  have "?n * CHUNK = (?n - 1) * CHUNK + CHUNK" by (cases ?n) auto
  then have l: "?l \<le> CIPHER_CHUNK" using B(1) by (simp add: CIPHER_CHUNK_def)
  then have "?l < 2 ^ 64" by (simp add: CIPHER_CHUNK_def CHUNK_def)
  then have ul: "unat (of_nat ?l :: u64) = ?l" unfolding unat_of_nat by simp
  have "0 < unat (of_nat ?n :: u64) \<and> TAG \<le> unat (of_nat ?l :: u64) \<and>
      unat (of_nat ?l :: u64) \<le> CIPHER_CHUNK \<and>
      (unat (of_nat ?n :: u64) - 1) * CHUNK + (unat (of_nat ?l :: u64) - TAG) = ?p"
    unfolding un ul using l le by simp
  with lay show ?thesis by blast
qed

theorem chunk_layout_encrypted_size_witness:
  "\<exists>n l. chunk_layout (encrypted_size 5000000000) = Inr (n, l) \<and> 0 < unat n \<and>
    TAG \<le> unat l \<and> unat l \<le> CIPHER_CHUNK \<and>
    (unat n - 1) * CHUNK + (unat l - TAG) = unat (5000000000 :: u64)"
  by (rule chunk_layout_encrypted_size) (simp add: max_plain_def)

lemma open_chunk_no_panic: "snd (open_chunk L dec ct l) \<noteq> Inl Panic"
  by (auto simp: open_chunk_def Let_def ok_or_def split: option.splits)

lemma open_all_no_panic:
  assumes "i < n \<Longrightarrow> off + (n - 1 - i) * CIPHER_CHUNK + last_len \<le> length blob"
  shows "open_all L blob n last_len dec off out [i..<n] \<noteq> Inl Panic"
  using assms
proof (induction "n - i" arbitrary: i off dec out)
  case (Suc k)
  then have lt: "i < n" by simp
  let ?len = "if i = n - 1 then last_len else CIPHER_CHUNK"
  have split: "(n - 1 - i) * CIPHER_CHUNK = (if i = n - 1 then 0 else CIPHER_CHUNK + (n - 1 - Suc i) * CIPHER_CHUNK)"
  proof (cases "i = n - 1")
    case False
    with lt have "n - 1 - i = Suc (n - 1 - Suc i)" by simp
    with False show ?thesis by (metis mult_Suc)
  qed simp
  have fit: "off + ?len \<le> length blob" using Suc.prems [OF lt] split by (auto split: if_splits)
  then obtain ct where ct: "slice blob off (off + ?len) = Some ct" by (simp add: slice_def)
  obtain dec' r where op: "open_chunk L dec ct (i = n - 1) = (dec', r)" by fastforce
  have rp: "r \<noteq> Inl Panic" using open_chunk_no_panic [of L dec ct "i = n - 1"] op by simp
  have idx: "[i..<n] = i # [Suc i..<n]" using lt by (simp add: upt_conv_Cons)
  have IH: "open_all L blob n last_len dec' (off + ?len) (out @ pt) [Suc i..<n] \<noteq> Inl Panic" for pt
  proof (rule Suc.hyps)
    show "k = n - Suc i" using Suc.hyps(2) by simp
    assume "Suc i < n"
    with Suc.prems [OF lt] split show "off + ?len + (n - 1 - Suc i) * CIPHER_CHUNK + last_len \<le> length blob"
      by (auto split: if_splits)
  qed
  show ?case
    unfolding idx open_all.simps Let_def ct using op rp IH
    by (cases r) (auto simp del: upt_Suc)
qed simp

text \<open>A layout that is accepted covers the blob exactly.\<close>

lemma chunk_layout_covers:
  assumes "len < 2 ^ 64" "chunk_layout (of_nat len) = Inr (n, l)"
  shows "0 < unat n" "HEADER_LEN + (unat n - 1) * CIPHER_CHUNK + unat l = len" "TAG \<le> unat l"
proof -
  define body where "body = len - 24"
  define k where "k = max (ceil_div body CIPHER_CHUNK) 1"
  define r where "r = body - (k - 1) * CIPHER_CHUNK"
  have nl: "n = of_nat k" "l = of_nat r" "40 \<le> len" "16 \<le> r"
    using assms(2) unfolding chunk_layout_nat [OF assms(1)] k_def r_def body_def
    by (auto split: if_splits)
  have cc: "0 < CIPHER_CHUNK" by (simp add: format_consts)
  have pos: "0 < body" using nl(3) by (simp add: body_def)
  have "k = ceil_div body CIPHER_CHUNK" using ceil_div_pos [OF pos cc] by (simp add: k_def)
  then have bnd: "(k - 1) * CIPHER_CHUNK < body" using ceil_div_bounds(2) [OF cc pos] by simp
  have k0: "0 < k" by (simp add: k_def)
  have "k - 1 \<le> (k - 1) * CIPHER_CHUNK" using cc by (cases CIPHER_CHUNK) simp_all
  with bnd have kb: "k \<le> body" using k0 by linarith
  have bl: "body < 2 ^ 64" using assms(1) by (simp add: body_def)
  then have kl: "k < 2 ^ 64" using kb by simp
  have rl: "r < 2 ^ 64" using bl by (simp add: r_def)
  have un: "unat n = k" unfolding nl(1) unat_of_nat using kl by (intro mod_less) simp
  have ul: "unat l = r" unfolding nl(2) unat_of_nat using rl by (intro mod_less) simp
  show "0 < unat n" "TAG \<le> unat l" using un ul k0 nl(4) by (simp_all add: TAG_def)
  show "HEADER_LEN + (unat n - 1) * CIPHER_CHUNK + unat l = len"
    unfolding un ul r_def const_nats(1) using bnd nl(3) by (simp add: body_def)
qed

text \<open>
  C33. \<open>decrypt_bytes\<close> never indexes outside the blob, whatever bytes it is given: no input of
  representable length makes it panic.
\<close>

theorem decrypt_bytes_never_panics:
  assumes "length blob < 2 ^ 64"
  shows "decrypt_bytes L keys blob \<noteq> Inl Panic"
proof (cases "chunk_layout (of_nat (length blob))")
  case (Inl e)
  then have "e \<noteq> Panic" unfolding chunk_layout_nat [OF assms] by (auto split: if_splits)
  with Inl show ?thesis by (simp add: decrypt_bytes_def)
next
  case (Inr r)
  obtain n l where r: "r = (n, l)" by (cases r)
  note C = chunk_layout_covers [OF assms Inr [unfolded r]]
  have "open_all L blob (unat n) (unat l) dec HEADER_LEN [] [0..<unat n] \<noteq> Inl Panic" for dec
    by (rule open_all_no_panic) (use C(2) in simp)
  moreover have "Decryptor_new keys blob \<noteq> Inl Panic" by (simp add: Decryptor_new_def)
  ultimately show ?thesis unfolding decrypt_bytes_def Inr r
    by (cases "Decryptor_new keys blob") simp_all
qed

theorem decrypt_bytes_never_panics_witness:
  "decrypt_bytes ref_lib ref_keys (replicate 41 0) \<noteq> Inl Panic"
  by (rule decrypt_bytes_never_panics) simp

section \<open>Names\<close>

lemma pad_name_ok:
  assumes "length name \<le> 65535"
  shows "\<exists>k. pad_name name = Inr (u16_to_be (of_nat (length name)) @ name @ replicate k 0) \<and>
    2 + length name + k = ceil_div (2 + length name) 16 * 16"
proof -
  have "2 + length name \<le> ceil_div (2 + length name) 16 * 16" by (rule ceil_div_bounds) simp
  with assms show ?thesis by (auto simp: pad_name_def NAME_PAD_BLOCK_def Let_def)
qed

lemma unpad_padded:
  assumes "length name \<le> 65535"
  shows "unpad_name (u16_to_be (of_nat (length name)) @ name @ pad) = Inr name"
proof -
  have "unat (of_nat (length name) :: u16) = length name"
    unfolding unat_of_nat using assms by (intro mod_less) simp
  then show ?thesis by (simp add: unpad_name_def u16_to_be_def)
qed

lemma pad_name_length: "pad_name name = Inr p \<Longrightarrow> length name \<le> 65535"
  by (auto simp: pad_name_def Let_def split: if_splits)

text \<open>Padding is a codec on every name it accepts; so is name encryption, and file content.\<close>

interpretation name_pad: codec pad_name unpad_name "\<lambda>_. True"
proof
  fix name p
  assume p: "pad_name name = Inr p"
  note le = pad_name_length [OF p]
  from pad_name_ok [OF le] p show "unpad_name p = Inr name" by (auto simp: unpad_padded [OF le])
qed

interpretation name_cipher: codec "encrypt_name L keys" "decrypt_name L keys"
  "\<lambda>name. siv_correct L \<and> base32hex_correct L \<and> utf8_valid (as_bytes name)" for L keys
proof
  fix name y
  assume ok: "siv_correct L \<and> base32hex_correct L \<and> utf8_valid (as_bytes name)"
    and e: "encrypt_name L keys name = Inr y"
  from e obtain padded ct where k: "length (vk_name keys) = 64"
    and pad: "pad_name (as_bytes name) = Inr padded"
    and ct: "siv_encrypt L (vk_name keys) NAME_HEADER padded = Some ct"
    and y: "y = base32hex_encode L ct"
    by (auto simp: encrypt_name_def rbind_eq_Inr split: if_splits)
  have "siv_decrypt L (vk_name keys) NAME_HEADER ct = Some padded"
    using ok ct unfolding siv_correct_def by blast
  moreover have "base32hex_decode L y = Some ct" using ok unfolding base32hex_correct_def y by blast
  ultimately show "decrypt_name L keys y = Inr name"
    using k ok name_pad.dec_enc [OF TrueI pad] by (simp add: decrypt_name_def from_utf8_as_bytes)
qed

interpretation content: codec "encrypt_bytes L keys prefix" "decrypt_bytes L keys"
  "\<lambda>data. aead_correct L \<and> length prefix = PREFIX_LEN \<and> length data \<le> 2 ^ 51" for L keys prefix
  by unfold_locales (blast intro: decrypt_encrypted_file)

text \<open>
  Name padding: every name of at most 65535 bytes pads to the least multiple of 16 that
  holds it and its two-byte length, \<open>unpad_name\<close> recovers it, and a longer name is refused.
\<close>

theorem pad_name_bucket:
  "(65535 < length name \<and> pad_name name = Inl (Msg ''filename too long to encrypt'')) \<or>
   (length name \<le> 65535 \<and> (\<exists>p. pad_name name = Inr p \<and> unpad_name p = Inr name \<and>
      16 dvd length p \<and> length name + 2 \<le> length p \<and> length p < length name + 2 + 16))"
proof (cases "length name \<le> 65535")
  case True
  from pad_name_ok [OF True] obtain k where
    p: "pad_name name = Inr (u16_to_be (of_nat (length name)) @ name @ replicate k 0)" and
    k: "2 + length name + k = ceil_div (2 + length name) 16 * 16" by blast
  have B: "(ceil_div (2 + length name) 16 - 1) * 16 < 2 + length name" by (rule ceil_div_bounds) auto
  let ?p = "u16_to_be (of_nat (length name)) @ name @ replicate k 0"
  have l: "length ?p = ceil_div (2 + length name) 16 * 16" using k by simp
  then have "16 dvd length ?p" by simp
  moreover have "length name + 2 \<le> length ?p" by simp
  moreover have "length ?p < length name + 2 + 16" unfolding l using B by linarith
  moreover have "unpad_name ?p = Inr name" by (rule name_pad.dec_enc [OF TrueI p])
  ultimately show ?thesis using p True by metis
qed (simp add: pad_name_def)

text \<open>
  Name encryption is invertible: \<open>decrypt_name\<close> returns the name (any UTF-8 string)
  \<open>encrypt_name\<close> was given, so distinct names never share an encrypted name.
\<close>

theorem encrypt_name_roundtrip:
  assumes "siv_correct L" "base32hex_correct L" "utf8_valid (as_bytes a)" "utf8_valid (as_bytes b)"
    and "encrypt_name L keys a = Inr x" "encrypt_name L keys b = Inr y"
  shows "decrypt_name L keys x = Inr a \<and> (x = y \<longrightarrow> a = b)"
  using assms name_cipher.dec_enc name_cipher.enc_injective by blast

theorem encrypt_name_roundtrip_witness:
  "\<exists>x y. encrypt_name ref_lib ref_keys ''a.txt'' = Inr x \<and> encrypt_name ref_lib ref_keys ''b.txt'' = Inr y \<and>
     decrypt_name ref_lib ref_keys x = Inr ''a.txt'' \<and> (x = y \<longrightarrow> ''a.txt'' = ''b.txt'')"
proof -
  have "\<exists>x. encrypt_name ref_lib ref_keys n = Inr x" if "length n \<le> 65535" for n
    using pad_name_ok [of "as_bytes n"] that
    by (auto simp: encrypt_name_def ref_keys_def ref_siv_encrypt_def as_bytes_def)
  then obtain x y where xy: "encrypt_name ref_lib ref_keys ''a.txt'' = Inr x"
      "encrypt_name ref_lib ref_keys ''b.txt'' = Inr y" by fastforce
  have "utf8_valid (as_bytes ''a.txt'')" "utf8_valid (as_bytes ''b.txt'')" by (simp_all add: as_bytes_def)
  from encrypt_name_roundtrip [OF ref_siv_correct ref_base32hex_correct this xy] xy show ?thesis by blast
qed

section \<open>Vault\<close>

text \<open>Key derivation: Argon2id accepts every password and 16-byte salt, HKDF fills the output.\<close>

definition kdf_total :: "crypto_lib \<Rightarrow> bool" where
  "kdf_total L \<longleftrightarrow> (\<forall>pw salt. length salt = 16 \<longrightarrow> argon2id L pw salt \<noteq> None) \<and>
     (\<forall>ikm info n. n \<le> 255 * 32 \<longrightarrow> (\<exists>okm. hkdf_sha256 L ikm info n = Some okm \<and> length okm = n))"

lemma derive_keys_total:
  assumes "kdf_total L" "length salt = 16"
  shows "\<exists>keys. derive_keys L pw salt = Inr keys \<and> keys_wf keys"
proof -
  obtain m where m: "argon2id L (as_bytes pw) salt = Some m" using assms unfolding kdf_total_def by blast
  have "\<exists>c. hkdf_sha256 L m info 32 = Some c \<and> length c = 32"
    "\<exists>c. hkdf_sha256 L m info 64 = Some c \<and> length c = 64" for info
    using assms(1) unfolding kdf_total_def by auto
  then obtain c n where "hkdf_sha256 L m (as_bytes ''rse/content/v1'') 32 = Some c" "length c = 32"
    "hkdf_sha256 L m (as_bytes ''rse/names/v1'') 64 = Some n" "length n = 64" by metis
  with m show ?thesis by (simp add: derive_keys_def keys_wf_def)
qed

lemma CANARY_length [simp]: "length CANARY = 13"
  by (simp add: CANARY_def as_bytes_def)

lemma create_vault_total:
  assumes "aead_total L" "kdf_total L" "length salt = 16" "length prefix = PREFIX_LEN"
  shows "\<exists>keys c. derive_keys L pw salt = Inr keys \<and> keys_wf keys \<and> encrypt_bytes L keys prefix CANARY = Inr c \<and>
    create_vault L pw salt prefix = Inr (\<lparr>vf_version = 1, vf_salt = base64_encode L salt, vf_canary = base64_encode L c\<rparr>, keys)"
proof -
  from derive_keys_total [OF assms(2,3)] obtain keys where
    k: "derive_keys L pw salt = Inr keys" and wf: "keys_wf keys" by blast
  obtain cts where "sealed L (vk_content keys) prefix 0 (file_chunks CANARY) = Some cts"
    using sealed_total assms wf unfolding keys_wf_def by blast
  moreover have "n_chunks (length CANARY) < 2 ^ 32"
    by (simp add: n_chunks_def ceil_div_def CHUNK_def)
  ultimately have "encrypt_bytes L keys prefix CANARY \<noteq> Inl e" for e by (simp add: encrypt_bytes_sealed)
  then obtain c where c: "encrypt_bytes L keys prefix CANARY = Inr c"
    by (cases "encrypt_bytes L keys prefix CANARY") auto
  with k wf show ?thesis by (simp add: create_vault_def)
qed

lemma create_vault_opens:
  assumes "aead_correct L" "base64_correct L" "length prefix = PREFIX_LEN" "create_vault L pw salt prefix = Inr (v, keys)"
  shows "open_vault L v pw = Inr keys"
proof -
  from assms(4) obtain c where k: "derive_keys L pw salt = Inr keys" and c: "encrypt_bytes L keys prefix CANARY = Inr c"
    and v: "v = \<lparr>vf_version = 1, vf_salt = base64_encode L salt, vf_canary = base64_encode L c\<rparr>"
    by (auto simp: create_vault_def rbind_eq_Inr)
  have b: "base64_decode L (base64_encode L x) = Some x" for x
    using assms(2) unfolding base64_correct_def by blast
  have "decrypt_bytes L keys c = Inr CANARY"
    by (rule content.dec_enc [OF _ c]) (use assms in simp)
  then show ?thesis by (simp add: open_vault_def v b k)
qed

text \<open>
  A new vault opens with its own password: \<open>create_vault\<close> succeeds, yields keys of the
  right sizes, and \<open>open_vault\<close> on the vault file it wrote returns exactly those keys. With any
  other password \<open>open_vault\<close> returns keys only if those keys decrypt the canary.
\<close>

theorem create_open_vault:
  assumes "aead_correct L" "aead_total L" "base64_correct L" "kdf_total L"
    and "length salt = 16" "length prefix = PREFIX_LEN"
  shows "\<exists>v keys. create_vault L pw salt prefix = Inr (v, keys) \<and> keys_wf keys \<and>
    open_vault L v pw = Inr keys \<and>
    (\<forall>pw' keys'. open_vault L v pw' = Inr keys' \<longrightarrow>
       (\<exists>canary. encrypt_bytes L keys prefix CANARY = Inr canary \<and> decrypt_bytes L keys' canary = Inr CANARY))"
proof -
  from create_vault_total [OF assms(2,4-6)] obtain keys c where wf: "keys_wf keys"
    and c: "encrypt_bytes L keys prefix CANARY = Inr c"
    and v: "create_vault L pw salt prefix =
      Inr (\<lparr>vf_version = 1, vf_salt = base64_encode L salt, vf_canary = base64_encode L c\<rparr>, keys)"
    by blast
  let ?v = "\<lparr>vf_version = 1, vf_salt = base64_encode L salt, vf_canary = base64_encode L c\<rparr>"
  have b: "base64_decode L (base64_encode L x) = Some x" for x
    using assms(3) unfolding base64_correct_def by blast
  have "decrypt_bytes L keys' c = Inr CANARY" if "open_vault L ?v pw' = Inr keys'" for pw' keys'
  proof -
    from that obtain k' where k': "derive_keys L pw' salt = Inr k'"
      by (auto simp: open_vault_def b rbind_eq_Inr)
    with that show ?thesis
      by (cases "decrypt_bytes L k' c") (auto simp: open_vault_def b split: if_splits)
  qed
  then show ?thesis using wf c v create_vault_opens [OF assms(1,3,6) v] by blast
qed

lemma ref_kdf_total: "kdf_total ref_lib"
  by (auto simp: kdf_total_def ref_lib_def)

theorem create_open_vault_witness:
  "\<exists>v keys. create_vault ref_lib ''pw'' (replicate 16 1) ref_prefix = Inr (v, keys) \<and> keys_wf keys \<and>
    open_vault ref_lib v ''pw'' = Inr keys \<and>
    (\<forall>pw' keys'. open_vault ref_lib v pw' = Inr keys' \<longrightarrow>
       (\<exists>canary. encrypt_bytes ref_lib keys ref_prefix CANARY = Inr canary \<and>
          decrypt_bytes ref_lib keys' canary = Inr CANARY))"
  by (rule create_open_vault) (simp_all add: ref_lib_laws ref_kdf_total)

end
