(* ===== verification/Manifest.thy ===== *)
theory Manifest
  imports Crypto_Correct
begin

text \<open>
  The per-directory metadata object \<open>.rse\<close> (\<^verbatim>\<open>src/src/manifest.rs\<close>): entries, the
  manifest record, every operation on it, its encryption and its FNV-1a fingerprint.

  A \<open>BTreeMap\<close> is a partial map; \<open>files_insert\<close>, \<open>files_remove\<close> and their folder versions
  are its \<open>insert\<close> and \<open>remove\<close> on the two fields. The JSON values of unknown fields are kept
  verbatim as text. The JSON serialiser is a parameter (\<open>json_lib\<close>); \<open>json_correct\<close> says
  that it reads back what it wrote for a manifest whose unknown fields do not shadow known ones.

  The lemmas give each operation's effect on the abstract view \<open>entry_of\<close> (one entry per
  on-disk name), the invariant \<open>exclusive\<close> (no name is both a file and a folder) and which
  operations keep it, and the properties of the fingerprint that the flush logic rests on.
\<close>

section \<open>Data\<close>

type_synonym i64 = "64 word"
type_synonym extra_fields = "string \<rightharpoonup> string"

definition MANIFEST_KEY :: string where
  "MANIFEST_KEY = ''.rse''"

definition MANIFEST_VERSION :: u32 where
  "MANIFEST_VERSION = 1"

record file_entry =
  fe_name :: string
  fe_size :: u64
  fe_extra :: extra_fields

record folder_entry =
  fo_name :: string
  fo_size :: "u64 option"
  fo_esize :: "u64 option"
  fo_computed :: "i64 option"
  fo_extra :: extra_fields

datatype entry = EFile file_entry | EFolder folder_entry

record manifest =
  man_version :: u32
  man_files :: "string \<rightharpoonup> file_entry"
  man_folders :: "string \<rightharpoonup> folder_entry"
  man_extra :: extra_fields

definition Manifest_default :: manifest where
  "Manifest_default =
     \<lparr>man_version = MANIFEST_VERSION, man_files = Map.empty, man_folders = Map.empty, man_extra = Map.empty\<rparr>"

record json_lib =
  to_vec :: "manifest \<Rightarrow> bytes option"
  from_slice :: "bytes \<Rightarrow> manifest option"

section \<open>Operations\<close>

definition hash_entry :: "crypto_lib \<Rightarrow> string \<Rightarrow> string" where
  "hash_entry L encrypted_segment = hex_upper (sha256 L (as_bytes encrypted_segment))"

definition is_manifest_key :: "string \<Rightarrow> bool" where
  "is_manifest_key on_disk_name =
     (on_disk_name = MANIFEST_KEY \<or> trim_end_matches slash on_disk_name = MANIFEST_KEY)"

definition Manifest_decrypt :: "crypto_lib \<Rightarrow> json_lib \<Rightarrow> vault_keys \<Rightarrow> bytes \<Rightarrow> manifest result" where
  "Manifest_decrypt L J keys blob =
     rbind (with_ctx ''decrypting directory manifest'' (decrypt_bytes L keys blob)) (\<lambda>json.
     ok_or (Msg ''parsing directory manifest'') (from_slice J json))"

definition Manifest_encrypt ::
  "crypto_lib \<Rightarrow> json_lib \<Rightarrow> vault_keys \<Rightarrow> bytes \<Rightarrow> manifest \<Rightarrow> bytes result" where
  "Manifest_encrypt L J keys prefix m =
     rbind (ok_or (Msg ''serializing directory manifest'') (to_vec J m)) (\<lambda>json.
     with_ctx ''encrypting directory manifest'' (encrypt_bytes L keys prefix json))"

definition files_insert :: "string \<Rightarrow> file_entry \<Rightarrow> manifest \<Rightarrow> manifest" where
  "files_insert k f m = m\<lparr>man_files := (man_files m)(k \<mapsto> f)\<rparr>"

definition files_remove :: "string \<Rightarrow> manifest \<Rightarrow> manifest" where
  "files_remove k m = m\<lparr>man_files := (man_files m)(k := None)\<rparr>"

definition folders_insert :: "string \<Rightarrow> folder_entry \<Rightarrow> manifest \<Rightarrow> manifest" where
  "folders_insert k d m = m\<lparr>man_folders := (man_folders m)(k \<mapsto> d)\<rparr>"

definition folders_remove :: "string \<Rightarrow> manifest \<Rightarrow> manifest" where
  "folders_remove k m = m\<lparr>man_folders := (man_folders m)(k := None)\<rparr>"

definition upsert_file :: "crypto_lib \<Rightarrow> string \<Rightarrow> string \<Rightarrow> u64 \<Rightarrow> manifest \<Rightarrow> manifest" where
  "upsert_file L encrypted_segment name sz m =
     files_insert (hash_entry L encrypted_segment)
       \<lparr>fe_name = name, fe_size = sz, fe_extra = Map.empty\<rparr> m"

definition upsert_folder :: "crypto_lib \<Rightarrow> string \<Rightarrow> string \<Rightarrow> manifest \<Rightarrow> manifest" where
  "upsert_folder L encrypted_segment name m =
     (let key = hash_entry L encrypted_segment in
      case man_folders m key of
        Some existing \<Rightarrow> folders_insert key (existing\<lparr>fo_name := name\<rparr>) m
      | None \<Rightarrow> folders_insert key
          \<lparr>fo_name = name, fo_size = None, fo_esize = None, fo_computed = None, fo_extra = Map.empty\<rparr> m)"

definition set_folder_size ::
  "crypto_lib \<Rightarrow> string \<Rightarrow> u64 \<Rightarrow> u64 \<Rightarrow> i64 \<Rightarrow> manifest \<Rightarrow> manifest" where
  "set_folder_size L encrypted_segment plaintext_total encrypted_total computed_ms m =
     (let key = hash_entry L encrypted_segment in
      case man_folders m key of
        Some folder \<Rightarrow> folders_insert key (folder\<lparr>fo_size := Some plaintext_total,
          fo_esize := Some encrypted_total, fo_computed := Some computed_ms\<rparr>) m
      | None \<Rightarrow> m)"

definition remove_entry :: "crypto_lib \<Rightarrow> string \<Rightarrow> manifest \<Rightarrow> manifest \<times> bool" where
  "remove_entry L encrypted_segment m =
     (let key = hash_entry L encrypted_segment in
      (folders_remove key (files_remove key m), man_files m key \<noteq> None \<or> man_folders m key \<noteq> None))"

definition name_for :: "manifest \<Rightarrow> string \<Rightarrow> string option" where
  "name_for m on_disk_name =
     (case man_files m on_disk_name of
        Some f \<Rightarrow> Some (fe_name f)
      | None \<Rightarrow> map_option fo_name (man_folders m on_disk_name))"

definition fnv_step :: "u64 \<Rightarrow> u8 \<Rightarrow> u64" where
  "fnv_step hash b = (hash XOR ucast b) * 0x100000001B3"

definition fnv1a :: "bytes \<Rightarrow> u64" where
  "fnv1a bs = foldl fnv_step 0xcbf29ce484222325 bs"

definition fingerprint :: "json_lib \<Rightarrow> manifest \<Rightarrow> u64 result" where
  "fingerprint J m =
     rbind (ok_or (Msg ''fingerprinting manifest'') (to_vec J m)) (\<lambda>json. Inr (fnv1a json))"

definition rename_entry :: "crypto_lib \<Rightarrow> string \<Rightarrow> string \<Rightarrow> string \<Rightarrow> manifest \<Rightarrow> manifest \<times> bool" where
  "rename_entry L old_encrypted new_encrypted new_name m =
     (let old_key = hash_entry L old_encrypted; new_key = hash_entry L new_encrypted in
      case man_files m old_key of
        Some f \<Rightarrow> (files_insert new_key (f\<lparr>fe_name := new_name\<rparr>) (files_remove old_key m), True)
      | None \<Rightarrow>
        (case man_folders m old_key of
           Some d \<Rightarrow> (folders_insert new_key (d\<lparr>fo_name := new_name\<rparr>) (folders_remove old_key m), True)
         | None \<Rightarrow> (m, False)))"

definition take_file :: "crypto_lib \<Rightarrow> string \<Rightarrow> manifest \<Rightarrow> manifest \<times> file_entry option" where
  "take_file L encrypted_segment m =
     (let key = hash_entry L encrypted_segment in (files_remove key m, man_files m key))"

definition take_folder :: "crypto_lib \<Rightarrow> string \<Rightarrow> manifest \<Rightarrow> manifest \<times> folder_entry option" where
  "take_folder L encrypted_segment m =
     (let key = hash_entry L encrypted_segment in (folders_remove key m, man_folders m key))"

definition insert_file_entry :: "crypto_lib \<Rightarrow> string \<Rightarrow> file_entry \<Rightarrow> manifest \<Rightarrow> manifest" where
  "insert_file_entry L encrypted_segment e m = files_insert (hash_entry L encrypted_segment) e m"

definition insert_folder_entry :: "crypto_lib \<Rightarrow> string \<Rightarrow> folder_entry \<Rightarrow> manifest \<Rightarrow> manifest" where
  "insert_folder_entry L encrypted_segment e m = folders_insert (hash_entry L encrypted_segment) e m"

definition take_entry :: "crypto_lib \<Rightarrow> string \<Rightarrow> manifest \<Rightarrow> manifest \<times> entry option" where
  "take_entry L encrypted_segment m =
     (case take_file L encrypted_segment m of
        (m', Some f) \<Rightarrow> (m', Some (EFile f))
      | (m', None) \<Rightarrow>
          (case take_folder L encrypted_segment m' of (m'', d) \<Rightarrow> (m'', map_option EFolder d)))"

definition insert_entry :: "crypto_lib \<Rightarrow> string \<Rightarrow> entry \<Rightarrow> manifest \<Rightarrow> manifest" where
  "insert_entry L encrypted_segment e m =
     (case e of EFile f \<Rightarrow> insert_file_entry L encrypted_segment f m
      | EFolder d \<Rightarrow> insert_folder_entry L encrypted_segment d m)"

lemmas manifest_prims = files_insert_def files_remove_def folders_insert_def folders_remove_def
lemmas manifest_ops = upsert_file_def upsert_folder_def set_folder_size_def remove_entry_def
  rename_entry_def take_file_def take_folder_def insert_file_entry_def insert_folder_entry_def
  take_entry_def insert_entry_def manifest_prims

text \<open>The two maps of a manifest keep records under on-disk names.\<close>

interpretation mfiles: keyed_map man_files files_insert files_remove
  by unfold_locales (auto simp: manifest_prims)

interpretation mfolders: keyed_map man_folders folders_insert folders_remove
  by unfold_locales (auto simp: manifest_prims)

section \<open>On-disk names\<close>

lemma hash_entry_shape:
  assumes "sha256_length L"
  shows "length (hash_entry L s) = 64" "c \<in> set (hash_entry L s) \<Longrightarrow> is_upper_hex c"
  using assms by (auto simp: hash_entry_def sha256_length_def dest: hex_upper_chars)

lemma hash_entry_no_slash: "slash \<notin> set (hash_entry L s)"
  unfolding hash_entry_def by (rule hex_upper_no_slash)

lemma hash_not_manifest_key:
  assumes "sha256_length L"
  shows "\<not> is_manifest_key (hash_entry L s)"
proof -
  have "trim_end_matches slash (hash_entry L s) = hash_entry L s"
  proof (rule trim_end_no_match)
    show "hash_entry L s = [] \<or> last (hash_entry L s) \<noteq> slash"
      using hash_entry_no_slash [of L s] by (metis last_in_set)
  qed
  moreover have "hash_entry L s \<noteq> MANIFEST_KEY"
  proof
    assume "hash_entry L s = MANIFEST_KEY"
    then have "length (hash_entry L s) = 4" by (simp add: MANIFEST_KEY_def)
    with hash_entry_shape(1) [OF assms, of s] show False by simp
  qed
  ultimately show ?thesis by (simp add: is_manifest_key_def)
qed

section \<open>Abstract view and invariant\<close>

text \<open>One entry per on-disk name; where both maps had it, the code prefers the file.\<close>

definition entry_of :: "manifest \<Rightarrow> string \<rightharpoonup> entry" where
  "entry_of m h = (case man_files m h of Some f \<Rightarrow> Some (EFile f) | None \<Rightarrow> map_option EFolder (man_folders m h))"

fun entry_name :: "entry \<Rightarrow> string" where
  "entry_name (EFile f) = fe_name f"
| "entry_name (EFolder d) = fo_name d"

fun entry_rename :: "string \<Rightarrow> entry \<Rightarrow> entry" where
  "entry_rename n (EFile f) = EFile (f\<lparr>fe_name := n\<rparr>)"
| "entry_rename n (EFolder d) = EFolder (d\<lparr>fo_name := n\<rparr>)"

definition exclusive :: "manifest \<Rightarrow> bool" where
  "exclusive m \<longleftrightarrow> (\<forall>h. man_files m h = None \<or> man_folders m h = None)"

lemma exclusive_default [simp]: "exclusive Manifest_default"
  by (simp add: exclusive_def Manifest_default_def)

lemma name_for_entry: "name_for m h = map_option entry_name (entry_of m h)"
  by (cases "man_folders m h") (auto simp: name_for_def entry_of_def split: option.splits)

lemma entry_of_None: "entry_of m h = None \<longleftrightarrow> man_files m h = None \<and> man_folders m h = None"
  by (auto simp: entry_of_def split: option.splits)

lemma entry_of_insert:
  assumes "exclusive m" "entry_of m (hash_entry L s) = None"
  shows "entry_of (insert_entry L s e m) = (entry_of m)(hash_entry L s \<mapsto> e)"
    and "exclusive (insert_entry L s e m)"
  using assms
  by (cases e; auto simp: manifest_ops entry_of_def exclusive_def fun_eq_iff split: option.splits)+

lemma take_entry_view:
  assumes "exclusive m"
  shows "snd (take_entry L s m) = entry_of m (hash_entry L s)"
    and "entry_of (fst (take_entry L s m)) = (entry_of m)(hash_entry L s := None)"
    and "exclusive (fst (take_entry L s m))"
proof -
  have ex: "man_files m h = None \<or> man_folders m h = None" for h
    using assms by (simp add: exclusive_def)
  show "snd (take_entry L s m) = entry_of m (hash_entry L s)"
    by (simp add: manifest_ops entry_of_def Let_def split: option.splits)
  show "entry_of (fst (take_entry L s m)) = (entry_of m)(hash_entry L s := None)"
    using ex [of "hash_entry L s"]
    by (auto simp: manifest_ops entry_of_def Let_def fun_eq_iff split: option.splits)
  show "exclusive (fst (take_entry L s m))"
    using assms by (auto simp: manifest_ops exclusive_def Let_def split: option.splits)
qed

lemma remove_entry_view:
  "entry_of (fst (remove_entry L s m)) = (entry_of m)(hash_entry L s := None)"
  "snd (remove_entry L s m) \<longleftrightarrow> entry_of m (hash_entry L s) \<noteq> None"
  "exclusive m \<Longrightarrow> exclusive (fst (remove_entry L s m))"
  by (auto simp: manifest_ops entry_of_def exclusive_def Let_def fun_eq_iff split: option.splits)

lemma upsert_file_view:
  "entry_of (upsert_file L s n z m) =
     (entry_of m)(hash_entry L s \<mapsto> EFile \<lparr>fe_name = n, fe_size = z, fe_extra = Map.empty\<rparr>)"
  "exclusive m \<Longrightarrow> man_folders m (hash_entry L s) = None \<Longrightarrow> exclusive (upsert_file L s n z m)"
  by (auto simp: manifest_ops entry_of_def exclusive_def fun_eq_iff split: option.splits)

lemma upsert_folder_exclusive:
  "exclusive m \<Longrightarrow> man_files m (hash_entry L s) = None \<Longrightarrow> exclusive (upsert_folder L s n m)"
  by (auto simp: manifest_ops exclusive_def Let_def split: option.splits)

lemma set_folder_size_exclusive: "exclusive m \<Longrightarrow> exclusive (set_folder_size L s p e t m)"
  by (auto simp: manifest_ops exclusive_def Let_def split: option.splits)

section \<open>Properties\<close>

definition extra_ok :: "manifest \<Rightarrow> bool" where
  "extra_ok m \<longleftrightarrow>
     (\<forall>k \<in> {''version'', ''files'', ''folders''}. man_extra m k = None) \<and>
     (\<forall>h f. man_files m h = Some f \<longrightarrow> (\<forall>k \<in> {''name'', ''size''}. fe_extra f k = None)) \<and>
     (\<forall>h d. man_folders m h = Some d \<longrightarrow>
        (\<forall>k \<in> {''name'', ''size'', ''esize'', ''computed''}. fo_extra d k = None))"

definition json_correct :: "json_lib \<Rightarrow> bool" where
  "json_correct J \<longleftrightarrow> (\<forall>m j. extra_ok m \<longrightarrow> to_vec J m = Some j \<longrightarrow> from_slice J j = Some m)"

text \<open>
  A directory's metadata survives the trip to the backend: for a manifest the serialiser
  accepts in at most \<open>2 ^ 51\<close> bytes, \<open>Manifest::encrypt\<close> yields a blob that
  \<open>Manifest::decrypt\<close> turns back into the same manifest, unknown fields included.
\<close>

theorem manifest_roundtrip:
  assumes "json_correct J" "aead_correct L" "extra_ok m" "length prefix = PREFIX_LEN"
    and "to_vec J m = Some j" "length j \<le> 2 ^ 51" "Manifest_encrypt L J keys prefix m = Inr blob"
  shows "Manifest_decrypt L J keys blob = Inr m"
proof -
  have "encrypt_bytes L keys prefix j = Inr blob"
    using assms(5,7) by (simp add: Manifest_encrypt_def)
  then have "decrypt_bytes L keys blob = Inr j"
    using content.dec_enc assms(2,4,6) by blast
  then show ?thesis using assms(1,3,5) by (simp add: Manifest_decrypt_def json_correct_def)
qed

text \<open>A serialiser that knows two manifests, to instantiate the parameter with.\<close>

definition sample_manifest :: manifest where
  "sample_manifest = Manifest_default\<lparr>man_files :=
     [''AB'' \<mapsto> \<lparr>fe_name = ''a.txt'', fe_size = 5, fe_extra = [''mtime'' \<mapsto> ''17'']\<rparr>]\<rparr>"

definition ref_json :: json_lib where
  "ref_json = \<lparr>
     to_vec = (\<lambda>m. if m = Manifest_default then Some [1] else if m = sample_manifest then Some [2, 2] else None),
     from_slice = (\<lambda>j. if j = [1] then Some Manifest_default else if j = [2, 2] then Some sample_manifest else None)\<rparr>"

lemma sample_neq_default: "sample_manifest \<noteq> Manifest_default"
proof
  assume "sample_manifest = Manifest_default"
  then have "man_files sample_manifest ''AB'' = man_files Manifest_default ''AB''" by simp
  then show False by (simp add: sample_manifest_def Manifest_default_def)
qed

lemma ref_json_correct: "json_correct ref_json"
  using sample_neq_default by (auto simp: json_correct_def ref_json_def)

lemma ref_json_sample: "to_vec ref_json sample_manifest = Some [2, 2]"
  using sample_neq_default by (simp add: ref_json_def)

lemma sample_extra_ok: "extra_ok sample_manifest"
  by (auto simp: extra_ok_def sample_manifest_def Manifest_default_def split: if_splits)

theorem manifest_roundtrip_witness:
  "\<exists>blob. Manifest_encrypt ref_lib ref_json ref_keys ref_prefix sample_manifest = Inr blob \<and>
     Manifest_decrypt ref_lib ref_json ref_keys blob = Inr sample_manifest"
proof -
  obtain cts where "sealed ref_lib (vk_content ref_keys) ref_prefix 0 (file_chunks [2, 2]) = Some cts"
    using sealed_total [OF ref_aead_total] by (metis keys_wf_def ref_keys_wf length_ref_prefix)
  then have "encrypt_bytes ref_lib ref_keys ref_prefix [2, 2] = Inr (MAGIC @ ref_prefix @ concat cts)"
    by (subst encrypt_bytes_sealed) (simp_all add: n_chunks_def ceil_div_def CHUNK_def)
  then have e: "Manifest_encrypt ref_lib ref_json ref_keys ref_prefix sample_manifest =
      Inr (MAGIC @ ref_prefix @ concat cts)"
    by (simp add: Manifest_encrypt_def ref_json_sample)
  from manifest_roundtrip [OF ref_json_correct ref_aead_correct sample_extra_ok length_ref_prefix
      ref_json_sample _ e] e
  show ?thesis by simp
qed

text \<open>
  C34. Renaming refines a re-keying of the abstract directory: if the old name is present and
  the new on-disk name is free, \<open>rename_entry\<close> removes the old name, puts the same record (sizes
  and unknown fields included) with the new display name under the new one, and touches nothing
  else; if the old name is absent it reports false and changes nothing.
\<close>

theorem rename_entry_refines:
  assumes "exclusive m"
    and "entry_of m (hash_entry L new) = None \<or> hash_entry L new = hash_entry L old"
  shows "(case entry_of m (hash_entry L old) of
      None \<Rightarrow> rename_entry L old new n m = (m, False)
    | Some e \<Rightarrow> snd (rename_entry L old new n m) \<and> exclusive (fst (rename_entry L old new n m)) \<and>
        entry_of (fst (rename_entry L old new n m)) =
          (entry_of m)(hash_entry L old := None, hash_entry L new \<mapsto> entry_rename n e))"
proof -
  let ?o = "hash_entry L old" and ?w = "hash_entry L new"
  have ex: "man_files m h = None \<or> man_folders m h = None" for h
    using assms(1) by (simp add: exclusive_def)
  have fr: "?w \<noteq> ?o \<Longrightarrow> man_files m ?w = None \<and> man_folders m ?w = None"
    using assms(2) by (auto simp: entry_of_None)
  show ?thesis
  proof (cases "man_files m ?o")
    case (Some f)
    then have "man_folders m ?o = None" using ex [of ?o] by simp
    with Some fr ex show ?thesis
      by (auto simp: manifest_ops entry_of_def exclusive_def Let_def fun_eq_iff split: option.splits)
  next
    case None
    then show ?thesis
    proof (cases "man_folders m ?o")
      case (Some d)
      with None fr ex show ?thesis
        by (auto simp: manifest_ops entry_of_def exclusive_def Let_def fun_eq_iff split: option.splits)
    qed (simp add: entry_of_def rename_entry_def Let_def)
  qed
qed

text \<open>
  Moving a record between directories loses nothing: \<open>take_entry\<close> on the source followed
  by \<open>insert_entry\<close> on the destination, where its name is free, removes exactly that entry from
  the source and adds exactly that entry, unchanged, to the destination.
\<close>

theorem move_entry_preserves:
  assumes "exclusive a" "exclusive b" "entry_of a (hash_entry L s) = Some e"
    and "entry_of b (hash_entry L s) = None"
  shows "\<exists>a'. take_entry L s a = (a', Some e) \<and> exclusive a' \<and>
    entry_of a' = (entry_of a)(hash_entry L s := None) \<and>
    exclusive (insert_entry L s e b) \<and>
    entry_of (insert_entry L s e b) = (entry_of b)(hash_entry L s \<mapsto> e)"
proof -
  obtain a' r where t: "take_entry L s a = (a', r)" by fastforce
  with take_entry_view [OF assms(1), of L s] entry_of_insert [OF assms(2,4), of e] assms(3)
  show ?thesis by simp
qed

lemma sample_hash:
  "entry_of (insert_entry L ''x'' e Manifest_default) (hash_entry L ''x'') = Some e"
  "exclusive (insert_entry L ''x'' e Manifest_default)"
  "entry_of Manifest_default h = None"
  by (cases e; auto simp: manifest_ops entry_of_def Manifest_default_def exclusive_def)+

theorem rename_entry_refines_witness:
  "let m = insert_entry ref_lib ''x'' (EFile \<lparr>fe_name = ''x'', fe_size = 7, fe_extra = Map.empty\<rparr>) Manifest_default;
       r = rename_entry ref_lib ''x'' ''x'' ''y'' m
   in snd r \<and> entry_of (fst r) (hash_entry ref_lib ''x'') =
        Some (EFile \<lparr>fe_name = ''y'', fe_size = 7, fe_extra = Map.empty\<rparr>)"
  using rename_entry_refines [of
      "insert_entry ref_lib ''x'' (EFile \<lparr>fe_name = ''x'', fe_size = 7, fe_extra = Map.empty\<rparr>) Manifest_default"
      ref_lib "''x''" "''x''" "''y''"]
  by (simp add: sample_hash Let_def)

theorem move_entry_preserves_witness:
  "let e = EFile \<lparr>fe_name = ''x'', fe_size = 7, fe_extra = Map.empty\<rparr>;
       a = insert_entry ref_lib ''x'' e Manifest_default
   in \<exists>a'. take_entry ref_lib ''x'' a = (a', Some e) \<and> exclusive a' \<and>
      entry_of a' = (entry_of a)(hash_entry ref_lib ''x'' := None) \<and>
      exclusive (insert_entry ref_lib ''x'' e Manifest_default) \<and>
      entry_of (insert_entry ref_lib ''x'' e Manifest_default) =
        (entry_of Manifest_default)(hash_entry ref_lib ''x'' \<mapsto> e)"
  unfolding Let_def by (rule move_entry_preserves) (simp_all add: sample_hash)

text \<open>
  Recording a folder again keeps what was computed for it: \<open>upsert_folder\<close> on a folder that
  is already recorded changes its display name only, and \<open>set_folder_size\<close> stores a roll-up on
  a recorded folder and is a no-op on an unrecorded one.
\<close>

theorem folder_rollup_kept:
  "(case man_folders m (hash_entry L s) of
      None \<Rightarrow> set_folder_size L s p e t m = m
    | Some d \<Rightarrow>
        man_folders (upsert_folder L s n (set_folder_size L s p e t m)) (hash_entry L s) =
          Some (d\<lparr>fo_name := n, fo_size := Some p, fo_esize := Some e, fo_computed := Some t\<rparr>)) \<and>
   man_files (upsert_folder L s n (set_folder_size L s p e t m)) = man_files m"
  by (auto simp: manifest_ops Let_def split: option.splits)

section \<open>Fingerprint\<close>

lemma fnv_mult_inj: "(x :: u64) * 0x100000001B3 = y * 0x100000001B3 \<longleftrightarrow> x = y"
proof
  assume "x * 0x100000001B3 = y * 0x100000001B3"
  then have "x * 0x100000001B3 * 0xCE965057AFF6957B = y * 0x100000001B3 * 0xCE965057AFF6957B" by simp
  then have "x * (0x100000001B3 * 0xCE965057AFF6957B) = y * (0x100000001B3 * 0xCE965057AFF6957B)"
    by (simp only: mult.assoc)
  moreover have "(0x100000001B3 :: u64) * 0xCE965057AFF6957B = 1" by simp
  ultimately show "x = y" by (simp only: mult_1_right)
qed simp

lemma xor_right_cancel: "(x :: u64) XOR z = y XOR z \<longleftrightarrow> x = y"
proof
  assume "x XOR z = y XOR z"
  then have "(x XOR z) XOR z = (y XOR z) XOR z" by simp
  then show "x = y" by (simp only: xor.assoc xor_self_eq xor.right_neutral)
qed simp

lemma fnv_step_inj: "fnv_step g b = fnv_step h b \<longleftrightarrow> g = h"
  unfolding fnv_step_def fnv_mult_inj by (rule xor_right_cancel)

lemma fnv_step_byte_inj: "fnv_step h a = fnv_step h b \<longleftrightarrow> a = b"
proof -
  have "fnv_step h a = fnv_step h b \<longleftrightarrow> (ucast a :: u64) = ucast b"
    unfolding fnv_step_def fnv_mult_inj xor.commute [of h] by (rule xor_right_cancel)
  also have "\<dots> \<longleftrightarrow> a = b"
  proof
    assume eq: "(ucast a :: u64) = ucast b"
    show "a = b"
    proof (rule bit_word_eqI)
      fix n
      assume "n < LENGTH(8)"
      moreover have "bit (ucast a :: u64) n = bit (ucast b :: u64) n" using eq by simp
      ultimately show "bit a n = bit b n" by (simp add: bit_simps)
    qed
  qed simp
  finally show ?thesis .
qed

lemma foldl_fnv_inj: "foldl fnv_step g bs = foldl fnv_step h bs \<longleftrightarrow> g = h"
  by (induction bs arbitrary: g h) (simp_all add: fnv_step_inj)

text \<open>
  The fingerprint sees every single-byte change: two manifests whose serialised forms have
  the same length and differ in exactly one byte have different fingerprints, so the flush
  logic never takes such an edit for an idempotent one.
\<close>

theorem fingerprint_detects_byte_change:
  assumes "to_vec J m = Some (xs @ a # ys)" "to_vec J m' = Some (xs @ b # ys)" "a \<noteq> b"
  shows "fingerprint J m \<noteq> fingerprint J m'"
  using assms by (simp add: fingerprint_def fnv1a_def foldl_fnv_inj fnv_step_byte_inj)

theorem fingerprint_detects_byte_change_witness:
  "fingerprint \<lparr>to_vec = \<lambda>m. Some (5 # (if man_version m = 1 then [0x31] else [0x32]) @ [6]), from_slice = \<lambda>j. None\<rparr>
     Manifest_default \<noteq>
   fingerprint \<lparr>to_vec = \<lambda>m. Some (5 # (if man_version m = 1 then [0x31] else [0x32]) @ [6]), from_slice = \<lambda>j. None\<rparr>
     (Manifest_default\<lparr>man_version := 2\<rparr>)"
  by (rule fingerprint_detects_byte_change [where xs = "[5]" and ys = "[6]" and a = "0x31" and b = "0x32"])
    (simp_all add: Manifest_default_def MANIFEST_VERSION_def)

end
