(* ===== verification/Storage.thy ===== *)
theory Storage
  imports Crypto
begin

text \<open>
  The storage abstraction (\<^verbatim>\<open>src/src/storage/mod.rs\<close>): listing entries, byte streams, the
  \<open>ChannelReader\<close> adapter and the \<open>StorageBackend\<close> trait with its default methods.

  A trait object is a record of its methods over the type \<open>'w\<close> of worlds (the remote side).
  A \<open>Reader\<close> is what is still to come out of it: the chunks and the errors in order; a read
  of at most \<open>want\<close> bytes takes a prefix of the next non-empty chunk, and the end of the list
  is the end of the stream. \<open>poll_read_refines\<close> shows that \<open>ChannelReader\<close> is such a stream.

  The locale \<open>object_store\<close> is the contract the rest of the program has with a backend: what a
  \<open>get\<close> returns after a \<open>put\<close>, what a failed call may have changed.
\<close>

section \<open>Data\<close>

record raw_object =
  ro_key :: string
  ro_size :: u64
  ro_modified :: "u64 option"
  ro_is_prefix :: bool

record remote_entry =
  re_key :: string
  re_name :: string
  re_is_dir :: bool
  re_size :: u64
  re_modified :: "u64 option"
  re_encrypted :: "bool option"

record multipart_upload =
  upload_id :: string
  mp_key :: string

type_synonym reader = "bytes result list"

section \<open>Streams\<close>

text \<open>\<open>AsyncRead::read\<close> into a buffer of \<open>want > 0\<close> bytes; an empty answer is the end of the stream.\<close>

fun rd_read :: "nat \<Rightarrow> reader \<Rightarrow> reader \<times> bytes result" where
  "rd_read want [] = ([], Inr [])"
| "rd_read want (Inl e # q) = (q, Inl e)"
| "rd_read want (Inr c # q) =
     (if c = [] then rd_read want q
      else if length c \<le> want then (q, Inr c)
      else (Inr (drop want c) # q, Inr (take want c)))"

text \<open>What a stream delivers: its bytes up to the end or to the first error.\<close>

fun rd_content :: "reader \<Rightarrow> bytes \<times> error option" where
  "rd_content [] = ([], None)"
| "rd_content (Inl e # q) = ([], Some e)"
| "rd_content (Inr c # q) = (case rd_content q of (d, e) \<Rightarrow> (c @ d, e))"

lemma rd_read_content:
  assumes "rd_read want r = (r', x)" "0 < want" "rd_content r = (d, e)"
  shows "(\<exists>b. x = Inr b \<and> b \<noteq> [] \<and> length b \<le> want \<and> rd_content r' = (drop (length b) d, e) \<and>
            take (length b) d = b \<and> length b \<le> length d) \<or>
         (x = Inr [] \<and> d = [] \<and> e = None \<and> r' = []) \<or>
         (\<exists>er. x = Inl er \<and> d = [] \<and> e = Some er)"
  using assms
proof (induction want r arbitrary: d r' x rule: rd_read.induct)
  case (3 want c q)
  obtain d' e' where q: "rd_content q = (d', e')" by fastforce
  show ?case
  proof (cases "c = []")
    case True
    with 3 q show ?thesis by auto
  next
    case False
    with 3 q show ?thesis by (auto split: if_splits)
  qed
qed auto

record channel_reader =
  cr_queue :: "bytes result list"
  cr_closed :: bool
  cr_buf :: bytes
  cr_pos :: nat

datatype poll = Ready "bytes result" | Pending

definition ChannelReader_new :: "bytes result list \<Rightarrow> bool \<Rightarrow> channel_reader" where
  "ChannelReader_new q closed = \<lparr>cr_queue = q, cr_closed = closed, cr_buf = [], cr_pos = 0\<rparr>"

text \<open>
  \<open>poll_read\<close> with room for \<open>remaining\<close> bytes; the answer carries the bytes put into the
  buffer. The channel holds the messages sent so far; \<open>cr_closed\<close> tells that every sender is gone.
\<close>

function poll_read :: "nat \<Rightarrow> channel_reader \<Rightarrow> channel_reader \<times> poll" where
  "poll_read remaining s =
     (if cr_pos s < length (cr_buf s) then
        let n = min (length (cr_buf s) - cr_pos s) remaining in
        (s\<lparr>cr_pos := cr_pos s + n\<rparr>, Ready (Inr (take n (drop (cr_pos s) (cr_buf s)))))
      else case cr_queue s of
        Inr chunk # q \<Rightarrow> poll_read remaining (s\<lparr>cr_queue := q, cr_buf := chunk, cr_pos := 0\<rparr>)
      | Inl e # q \<Rightarrow> (s\<lparr>cr_queue := q\<rparr>, Ready (Inl e))
      | [] \<Rightarrow> if cr_closed s then (s, Ready (Inr [])) else (s, Pending))"
  by pat_completeness auto
termination
  by (relation "measure (\<lambda>(n, s). length (cr_queue s))") auto

declare poll_read.simps [simp del]

text \<open>The stream a reader stands for: the unread rest of the buffer, then the queue.\<close>

definition cr_stream :: "channel_reader \<Rightarrow> reader" where
  "cr_stream s = Inr (drop (cr_pos s) (cr_buf s)) # cr_queue s"

lemma poll_read_step:
  "poll_read remaining s =
     (if cr_pos s < length (cr_buf s) then
        (s\<lparr>cr_pos := cr_pos s + min (length (cr_buf s) - cr_pos s) remaining\<rparr>,
         Ready (Inr (take (min (length (cr_buf s) - cr_pos s) remaining) (drop (cr_pos s) (cr_buf s)))))
      else case cr_queue s of
        Inr chunk # q \<Rightarrow> poll_read remaining (s\<lparr>cr_queue := q, cr_buf := chunk, cr_pos := 0\<rparr>)
      | Inl e # q \<Rightarrow> (s\<lparr>cr_queue := q\<rparr>, Ready (Inl e))
      | [] \<Rightarrow> if cr_closed s then (s, Ready (Inr [])) else (s, Pending))"
  by (subst poll_read.simps) (simp add: Let_def)

text \<open>What a poll answers, compared with a read of the abstract stream.\<close>

definition poll_agrees :: "nat \<Rightarrow> channel_reader \<Rightarrow> channel_reader \<times> poll \<Rightarrow> bool" where
  "poll_agrees remaining s answer =
     (case answer of
        (s', Ready x) \<Rightarrow> snd (rd_read remaining (cr_stream s)) = x \<and>
          rd_content (cr_stream s') = rd_content (fst (rd_read remaining (cr_stream s))) \<and>
          cr_pos s' \<le> length (cr_buf s') \<and> (x = Inr [] \<longrightarrow> cr_closed s)
      | (s', Pending) \<Rightarrow> \<not> cr_closed s \<and> rd_content (cr_stream s) = ([], None))"

lemma poll_agrees_buffered:
  assumes "0 < remaining" "cr_pos s < length (cr_buf s)"
  shows "poll_agrees remaining s (poll_read remaining s)"
proof (cases "length (cr_buf s) - cr_pos s \<le> remaining")
  case True
  with assms show ?thesis
    by (subst poll_read_step) (simp add: poll_agrees_def cr_stream_def min_def split: prod.splits)
next
  case False
  with assms show ?thesis
    by (subst poll_read_step) (auto simp: poll_agrees_def cr_stream_def min_def add.commute)
qed

text \<open>An exhausted buffer is replaced by the next chunk of the queue, which the stream does not show.\<close>

lemma cr_stream_refill:
  assumes "cr_pos s = length (cr_buf s)" "cr_queue s = Inr chunk # q"
  shows "rd_read n (cr_stream s) = rd_read n (cr_stream (s\<lparr>cr_queue := q, cr_buf := chunk, cr_pos := 0\<rparr>))"
    and "rd_content (cr_stream s) = rd_content (cr_stream (s\<lparr>cr_queue := q, cr_buf := chunk, cr_pos := 0\<rparr>))"
  using assms by (simp_all add: cr_stream_def split: prod.splits)

lemma poll_agrees_refill:
  assumes "cr_pos s = length (cr_buf s)" "cr_queue s = Inr chunk # q"
  shows "poll_agrees n (s\<lparr>cr_queue := q, cr_buf := chunk, cr_pos := 0\<rparr>) answer = poll_agrees n s answer"
  unfolding poll_agrees_def cr_stream_refill [OF assms] by (simp split: prod.splits poll.splits)

lemma poll_read_agrees:
  assumes "0 < remaining" "cr_pos s \<le> length (cr_buf s)"
  shows "poll_agrees remaining s (poll_read remaining s)"
  using assms
proof (induction remaining s rule: poll_read.induct)
  case (1 remaining s)
  show ?case
  proof (cases "cr_pos s < length (cr_buf s)")
    case True
    with 1(2) show ?thesis by (rule poll_agrees_buffered)
  next
    case False
    with 1(3) have e: "cr_pos s = length (cr_buf s)" by simp
    consider "cr_queue s = []" | er q where "cr_queue s = Inl er # q" | chunk q where "cr_queue s = Inr chunk # q"
      by (metis list.exhaust sum.exhaust)
    then show ?thesis
    proof cases
      case 3
      have "poll_read remaining s = poll_read remaining (s\<lparr>cr_queue := q, cr_buf := chunk, cr_pos := 0\<rparr>)"
        using False 3 by (subst poll_read_step) simp
      with 1(1) [OF False 3 refl 1(2)] show ?thesis by (simp add: poll_agrees_refill [OF e 3])
    qed (use e in \<open>subst poll_read_step; auto simp: poll_agrees_def cr_stream_def split: prod.splits\<close>)+
  qed
qed

text \<open>
  C35. \<open>ChannelReader\<close> is the stream of the chunks sent on its channel, in order and with nothing
  lost or repeated: each ready poll answers as a read of the abstract stream does and leaves
  the abstract rest behind; it reports the end only when every sender is gone and everything
  before was delivered, and reports a sent error instead of an early end.
\<close>

theorem poll_read_refines:
  assumes "0 < remaining" "cr_pos s \<le> length (cr_buf s)"
  shows "case poll_read remaining s of
      (s', Ready x) \<Rightarrow> snd (rd_read remaining (cr_stream s)) = x \<and>
        rd_content (cr_stream s') = rd_content (fst (rd_read remaining (cr_stream s))) \<and>
        cr_pos s' \<le> length (cr_buf s') \<and> (x = Inr [] \<longrightarrow> cr_closed s)
    | (s', Pending) \<Rightarrow> \<not> cr_closed s \<and> rd_content (cr_stream s) = ([], None)"
  using poll_read_agrees [OF assms] unfolding poll_agrees_def .

theorem poll_read_refines_witness:
  "case poll_read 2 (ChannelReader_new [Inr [], Inr [1, 2, 3], Inl (Msg ''lost'')] True) of
      (s', Ready x) \<Rightarrow> snd (rd_read 2 (cr_stream (ChannelReader_new [Inr [], Inr [1, 2, 3], Inl (Msg ''lost'')] True))) = x \<and>
        rd_content (cr_stream s') =
          rd_content (fst (rd_read 2 (cr_stream (ChannelReader_new [Inr [], Inr [1, 2, 3], Inl (Msg ''lost'')] True)))) \<and>
        cr_pos s' \<le> length (cr_buf s') \<and>
        (x = Inr [] \<longrightarrow> cr_closed (ChannelReader_new [Inr [], Inr [1, 2, 3], Inl (Msg ''lost'')] True))
    | (s', Pending) \<Rightarrow> \<not> cr_closed (ChannelReader_new [Inr [], Inr [1, 2, 3], Inl (Msg ''lost'')] True) \<and>
        rd_content (cr_stream (ChannelReader_new [Inr [], Inr [1, 2, 3], Inl (Msg ''lost'')] True)) = ([], None)"
  by (rule poll_read_refines) (simp_all add: ChannelReader_new_def)

section \<open>The backend trait\<close>

text \<open>
  \<open>put_throttled\<close> and \<open>upload_part\<close> take the rate of the limiter they were handed (\<open>None\<close>:
  no limiter, \<open>Some 0\<close>: unlimited). \<open>upload_part\<close> also returns the byte counts it passed to
  the progress sink.
\<close>

record 'w backend =
  be_health_check :: "('w, unit) sr"
  be_list :: "string \<Rightarrow> ('w, raw_object list) sr"
  be_list_recursive :: "string \<Rightarrow> ('w, raw_object list) sr"
  be_get :: "string \<Rightarrow> ('w, bytes option) sr"
  be_get_stream :: "string \<Rightarrow> ('w, u64 \<times> reader) sr"
  be_put :: "string \<Rightarrow> bytes \<Rightarrow> ('w, unit) sr"
  be_put_throttled :: "string \<Rightarrow> bytes \<Rightarrow> u64 option \<Rightarrow> ('w, unit) sr"
  be_get_vault :: "('w, bytes option) sr"
  be_put_vault :: "bytes \<Rightarrow> ('w, unit) sr"
  be_prepare_parents :: "string \<Rightarrow> ('w, unit) sr"
  be_create_multipart :: "string \<Rightarrow> ('w, multipart_upload) sr"
  be_upload_part :: "multipart_upload \<Rightarrow> int \<Rightarrow> bytes \<Rightarrow> u64 option \<Rightarrow> ('w, string \<times> u64 list) sr"
  be_complete_multipart :: "multipart_upload \<Rightarrow> (int \<times> string) list \<Rightarrow> ('w, unit) sr"
  be_abort_multipart :: "multipart_upload \<Rightarrow> ('w, unit) sr"
  be_delete :: "string list \<Rightarrow> ('w, unit) sr"
  be_rename :: "string \<Rightarrow> string \<Rightarrow> ('w, unit) sr"
  be_get_range :: "string \<Rightarrow> u64 \<Rightarrow> ('w, u64 \<times> reader) sr"
  be_read_header :: "string \<Rightarrow> nat \<Rightarrow> ('w, bytes) sr"
  be_tables :: "'w \<Rightarrow> 'w \<Rightarrow> 'w"

definition default_put_throttled :: "'w backend \<Rightarrow> string \<Rightarrow> bytes \<Rightarrow> u64 option \<Rightarrow> ('w, unit) sr" where
  "default_put_throttled B key data limiter = be_put B key data"

definition default_get_vault :: "'w backend \<Rightarrow> ('w, bytes option) sr" where
  "default_get_vault B = be_get B VAULT_KEY"

definition default_put_vault :: "'w backend \<Rightarrow> bytes \<Rightarrow> ('w, unit) sr" where
  "default_put_vault B data = be_put B VAULT_KEY data"

definition default_prepare_parents :: "'w backend \<Rightarrow> string \<Rightarrow> ('w, unit) sr" where
  "default_prepare_parents B key = sret ()"

definition copy_key :: "'w backend \<Rightarrow> string \<Rightarrow> string \<Rightarrow> ('w, unit) sr" where
  "copy_key B from to =
     sbind (be_get B from) (\<lambda>d. case d of
       None \<Rightarrow> sret ()
     | Some data \<Rightarrow> sbind (be_prepare_parents B to) (\<lambda>_. be_put B to data))"

definition default_rename :: "'w backend \<Rightarrow> string \<Rightarrow> string \<Rightarrow> ('w, unit) sr" where
  "default_rename B from to =
     sbind
       (if ends_with slash from then
          sbind (be_prepare_parents B (to @ ''x'')) (\<lambda>_.
          sbind (be_list_recursive B from) (\<lambda>objs.
          sfold (\<lambda>_ ob. copy_key B (ro_key ob)
              (to @ (case strip_prefix from (ro_key ob) of Some suffix \<Rightarrow> suffix | None \<Rightarrow> ro_key ob)))
            () objs))
        else copy_key B from to)
     (\<lambda>_. be_delete B [from])"

text \<open>The loop of the default \<open>get_range\<close>: read and drop until \<open>remaining\<close> bytes are gone.\<close>

lemma rd_read_length: "rd_read want r = (r', Inr b) \<Longrightarrow> length b \<le> want"
  by (induction want r rule: rd_read.induct) (auto split: if_splits)

function rd_skip :: "nat \<Rightarrow> reader \<Rightarrow> reader result" where
  "rd_skip remaining r =
     (if remaining = 0 then Inr r
      else case rd_read (min remaining 65536) r of
        (r', Inl e) \<Rightarrow> Inl e
      | (r', Inr b) \<Rightarrow> if b = [] then Inr r' else rd_skip (remaining - length b) r')"
  by pat_completeness auto
termination
  by (relation "measure fst") auto

function read_exact :: "nat \<Rightarrow> reader \<Rightarrow> (reader \<times> bytes) result" where
  "read_exact len r =
     (if len = 0 then Inr (r, [])
      else case rd_read len r of
        (r', Inl e) \<Rightarrow> Inl e
      | (r', Inr b) \<Rightarrow>
          if b = [] then Inl (Msg ''early eof'')
          else (case read_exact (len - length b) r' of
                  Inl e \<Rightarrow> Inl e
                | Inr (r'', bs) \<Rightarrow> Inr (r'', b @ bs)))"
  by pat_completeness auto
termination
  by (relation "measure fst") auto

declare rd_skip.simps [simp del] read_exact.simps [simp del]

definition default_get_range :: "'w backend \<Rightarrow> string \<Rightarrow> u64 \<Rightarrow> ('w, u64 \<times> reader) sr" where
  "default_get_range B key offset =
     sbind (be_get_stream B key) (\<lambda>(len, r).
     sbind (slift (rd_skip (unat offset) r)) (\<lambda>r'. sret (len, r')))"

definition default_read_header :: "'w backend \<Rightarrow> string \<Rightarrow> nat \<Rightarrow> ('w, bytes) sr" where
  "default_read_header B key len =
     sbind (be_get_range B key 0) (\<lambda>(total, r).
     sbind (slift (read_exact len r)) (\<lambda>(r', buf). sret buf))"

section \<open>Streams deliver what they hold\<close>

lemma rd_skip_content:
  assumes "rd_content r = (d, e)" "n \<le> length d \<or> e = None"
  shows "\<exists>r'. rd_skip n r = Inr r' \<and> rd_content r' = (drop n d, e)"
  using assms
proof (induction n arbitrary: r d rule: less_induct)
  case (less n)
  show ?case
  proof (cases "n = 0")
    case False
    obtain r' x where rd: "rd_read (min n 65536) r = (r', x)" by fastforce
    have pos: "0 < min n 65536" using False by simp
    from rd_read_content [OF rd pos less.prems(1)] less.prems(2) False consider
      (data) b where "x = Inr b" "b \<noteq> []" "length b \<le> min n 65536" "rd_content r' = (drop (length b) d, e)"
        "length b \<le> length d"
    | (eof) "x = Inr []" "d = []" "e = None" "r' = []"
      by auto
    then show ?thesis
    proof cases
      case data
      have "n - length b < n" using data False by (cases b) auto
      moreover have "n - length b \<le> length (drop (length b) d) \<or> e = None" using less.prems(2) by auto
      ultimately obtain r'' where "rd_skip (n - length b) r' = Inr r''"
        "rd_content r'' = (drop (n - length b) (drop (length b) d), e)"
        using less.IH data(4) by blast
      with rd data False show ?thesis by (subst rd_skip.simps) simp
    next
      case eof
      with rd False show ?thesis by (subst rd_skip.simps) simp
    qed
  qed (use less.prems in \<open>subst rd_skip.simps, simp\<close>)
qed

lemma read_exact_content:
  assumes "rd_content r = (d, e)" "n \<le> length d"
  shows "\<exists>r'. read_exact n r = Inr (r', take n d) \<and> rd_content r' = (drop n d, e)"
  using assms
proof (induction n arbitrary: r d rule: less_induct)
  case (less n)
  show ?case
  proof (cases "n = 0")
    case False
    obtain r' x where rd: "rd_read n r = (r', x)" by fastforce
    have pos: "0 < n" using False by simp
    from rd_read_content [OF rd pos less.prems(1)] less.prems(2) False obtain b where
      b: "x = Inr b" "b \<noteq> []" "length b \<le> n" "rd_content r' = (drop (length b) d, e)"
        "length b \<le> length d" "take (length b) d = b"
      by auto
    have "n - length b < n" using b False by (cases b) auto
    moreover have "n - length b \<le> length (drop (length b) d)" using less.prems(2) by auto
    ultimately obtain r'' where IH: "read_exact (n - length b) r' = Inr (r'', take (n - length b) (drop (length b) d))"
      "rd_content r'' = (drop (n - length b) (drop (length b) d), e)"
      using less.IH b(4) by blast
    have "take n d = b @ take (n - length b) (drop (length b) d)"
      using b by (metis le_add_diff_inverse take_add)
    with rd b IH False show ?thesis by (subst read_exact.simps) simp
  qed (use less.prems in \<open>subst read_exact.simps, simp\<close>)
qed

section \<open>The contract of a backend\<close>

text \<open>
  \<open>abs\<close> is the remote content, \<open>ok\<close> the states the contract speaks about. A failed \<open>put\<close> may
  have left anything under its own key but touches no other. The contract is about the keys of
  objects: on a file system a key with a slash at its end names the same file as the one without.
\<close>

definition object_key :: "string \<Rightarrow> bool" where
  "object_key k \<longleftrightarrow> k \<noteq> [] \<and> \<not> ends_with slash k"

lemma object_key_vault: "object_key VAULT_KEY"
  by (simp add: object_key_def VAULT_KEY_def ends_with_def)

locale object_store =
  fixes B :: "'w backend"
    and abs :: "'w \<Rightarrow> string \<rightharpoonup> bytes"
    and ok :: "'w \<Rightarrow> bool"
  assumes get_law: "ok w \<Longrightarrow> object_key k \<Longrightarrow> be_get B k w = (w', r) \<Longrightarrow>
      ok w' \<and> abs w' = abs w \<and> (\<forall>x. r = Inr x \<longrightarrow> x = abs w k)"
    and put_law: "ok w \<Longrightarrow> object_key k \<Longrightarrow> be_put B k d w = (w', u) \<Longrightarrow>
      ok w' \<and> (\<forall>k'. object_key k' \<longrightarrow> k' \<noteq> k \<longrightarrow> abs w' k' = abs w k') \<and> (u = Inr () \<longrightarrow> abs w' k = Some d)"
    and tables_law: "ok w \<Longrightarrow> ok (be_tables B t w) \<and> abs (be_tables B t w) = abs w"
begin

lemma get_after_put:
  assumes "ok w" "object_key k" "be_put B k d w = (w1, Inr ())" "be_get B k w1 = (w2, Inr x)"
  shows "x = Some d"
  using put_law [OF assms(1,2,3)] get_law [OF _ assms(2,4)] by auto

lemma vault_after_put_vault:
  assumes "ok w" "default_put_vault B d w = (w1, Inr ())" "default_get_vault B w1 = (w2, Inr x)"
  shows "x = Some d"
  using get_after_put [OF assms(1) object_key_vault] assms(2,3)
  unfolding default_put_vault_def default_get_vault_def by blast

end

end
