(* ===== verification/DirView.thy ===== *)
theory DirView
  imports Manifest Storage "HOL-Library.List_Lexorder" "HOL-Library.Char_ord" "HOL-Library.Product_Lexorder"
begin

text \<open>
  On-disk names and listings of an encrypted directory (\<^verbatim>\<open>src/src/dir_view.rs\<close>): the
  deterministic map from logical names and paths to hashed ones, the parent of a key, the
  classification of raw backend entries against the manifest and the sorted display listing.
  \<open>lower\<close> is \<open>str::to_lowercase\<close>, a function of the Unicode tables. The listing's sort is
  stable, like \<open>sort_by\<close>.
\<close>

section \<open>Names and paths\<close>

definition on_disk_segment :: "crypto_lib \<Rightarrow> vault_keys \<Rightarrow> string \<Rightarrow> string result" where
  "on_disk_segment L keys name =
     rbind (encrypt_name L keys name) (\<lambda>encrypted. Inr (hash_entry L encrypted))"

definition on_disk_path :: "crypto_lib \<Rightarrow> vault_keys \<Rightarrow> string \<Rightarrow> string result" where
  "on_disk_path L keys path =
     rbind (map_parts (on_disk_segment L keys) (split_on slash path)) (\<lambda>out. Inr (join_with slash out))"

definition parent_prefix :: "string \<Rightarrow> string" where
  "parent_prefix key =
     (let trimmed = trim_end_matches slash key in
      case rfind slash trimmed of Some idx \<Rightarrow> take (Suc idx) trimmed | None \<Rightarrow> [])"

definition looks_like_hash :: "string \<Rightarrow> bool" where
  "looks_like_hash name = (length name = 64 \<and> list_all is_upper_hex name)"

datatype entry_kind = Known | Orphan | Foreign

record dir_listing =
  dl_entries :: "remote_entry list"
  dl_orphan_count :: nat

definition leaf_of :: "string \<Rightarrow> string" where
  "leaf_of key = last_part slash (trim_end_matches slash key)"

section \<open>Listing\<close>

definition entry_kind_of :: "manifest \<Rightarrow> string \<Rightarrow> entry_kind" where
  "entry_kind_of m leaf =
     (if name_for m leaf \<noteq> None then Known else if looks_like_hash leaf then Orphan else Foreign)"

definition listed_entry :: "manifest \<Rightarrow> raw_object \<Rightarrow> remote_entry" where
  "listed_entry m ob =
     (let leaf = leaf_of (ro_key ob);
          (name, sz, encrypted) =
            (case entry_kind_of m leaf of
               Known \<Rightarrow>
                 (case name_for m leaf of Some n \<Rightarrow> n | None \<Rightarrow> leaf,
                  if ro_is_prefix ob
                  then (case man_folders m leaf of
                          Some d \<Rightarrow> (case fo_size d of Some z \<Rightarrow> z | None \<Rightarrow> 0) | None \<Rightarrow> 0)
                  else (case man_files m leaf of Some f \<Rightarrow> fe_size f | None \<Rightarrow> ro_size ob),
                  Some True)
             | Orphan \<Rightarrow> (''[unrecovered] '' @ take (min 16 (length leaf)) leaf, ro_size ob, Some False)
             | Foreign \<Rightarrow> (leaf, ro_size ob, Some False))
      in \<lparr>re_key = ro_key ob, re_name = name, re_is_dir = ro_is_prefix ob, re_size = sz,
          re_modified = ro_modified ob, re_encrypted = encrypted\<rparr>)"

fun listing_loop :: "manifest \<Rightarrow> raw_object list \<Rightarrow> remote_entry list \<times> nat" where
  "listing_loop m [] = ([], 0)"
| "listing_loop m (ob # obs) =
     (if is_manifest_key (leaf_of (ro_key ob)) then listing_loop m obs
      else case listing_loop m obs of
        (es, n) \<Rightarrow> (listed_entry m ob # es,
          if entry_kind_of m (leaf_of (ro_key ob)) = Orphan then Suc n else n))"

text \<open>Directories first, then by lower-cased name.\<close>

definition listing_key :: "(string \<Rightarrow> string) \<Rightarrow> remote_entry \<Rightarrow> bool \<times> string" where
  "listing_key lower e = (\<not> re_is_dir e, lower (re_name e))"

definition build_listing :: "(string \<Rightarrow> string) \<Rightarrow> raw_object list \<Rightarrow> manifest \<Rightarrow> dir_listing" where
  "build_listing lower raw m =
     (case listing_loop m raw of
        (es, n) \<Rightarrow> \<lparr>dl_entries = sort_key (listing_key lower) es, dl_orphan_count = n\<rparr>)"

section \<open>Lemmas\<close>

lemma parent_prefix_child [slash_simps]:
  assumes "dest = [] \<or> ends_with slash dest" "seg \<noteq> []" "slash \<notin> set seg"
  shows "parent_prefix (dest @ seg) = dest" "parent_prefix (dest @ seg @ [slash]) = dest"
proof -
  have "last seg \<noteq> slash" using assms(2,3) by (metis last_in_set)
  then have t: "trim_end_matches slash (dest @ seg) = dest @ seg"
    using assms(2) by (intro trim_end_no_match) simp
  have "trim_end_matches slash ((dest @ seg) @ [slash]) = dest @ seg" unfolding trim_end_snoc by (rule t)
  then have t': "trim_end_matches slash (dest @ seg @ [slash]) = dest @ seg" by simp
  show "parent_prefix (dest @ seg) = dest" "parent_prefix (dest @ seg @ [slash]) = dest"
  proof -
    have "(case rfind slash (dest @ seg) of Some idx \<Rightarrow> take (Suc idx) (dest @ seg) | None \<Rightarrow> []) = dest"
    proof (cases "dest = []")
      case True
      then show ?thesis using assms(3) rfind_None [of slash seg] by simp
    next
      case False
      with assms(1) obtain d where d: "dest = d @ [slash]" using ends_with_obtain by blast
      have "rfind slash (d @ slash # seg) = Some (length d)" by (rule rfind_append [OF assms(3)])
      then show ?thesis by (simp add: d)
    qed
    then show "parent_prefix (dest @ seg) = dest" "parent_prefix (dest @ seg @ [slash]) = dest"
      by (simp_all add: parent_prefix_def t t' Let_def)
  qed
qed

lemma leaf_of_child [slash_simps]:
  assumes "dest = [] \<or> ends_with slash dest" "seg \<noteq> []" "slash \<notin> set seg"
  shows "leaf_of (dest @ seg) = seg" "leaf_of (dest @ seg @ [slash]) = seg"
proof -
  have "last seg \<noteq> slash" using assms(2,3) by (metis last_in_set)
  then have t: "trim_end_matches slash (dest @ seg) = dest @ seg"
    using assms(2) by (intro trim_end_no_match) simp
  have "trim_end_matches slash ((dest @ seg) @ [slash]) = dest @ seg" unfolding trim_end_snoc by (rule t)
  then have t': "trim_end_matches slash (dest @ seg @ [slash]) = dest @ seg" by simp
  have "last_part slash (dest @ seg) = seg"
  proof (cases "dest = []")
    case False
    with assms(1) obtain d where d: "dest = d @ [slash]" using ends_with_obtain by blast
    then show ?thesis using last_part_append [OF assms(3), of d] by simp
  qed (simp add: last_part_no_sep assms(3))
  then show "leaf_of (dest @ seg) = seg" "leaf_of (dest @ seg @ [slash]) = seg"
    by (simp_all add: leaf_of_def t t')
qed

lemma map_parts_append:
  "map_parts f (xs @ ys) = rbind (map_parts f xs) (\<lambda>a. rbind (map_parts f ys) (\<lambda>b. Inr (a @ b)))"
proof (induction xs)
  case Nil
  then show ?case by (cases "map_parts f ys") auto
next
  case (Cons x xs)
  then show ?case
    by (cases "if x = [] then Inr [] else f x"; cases "map_parts f xs"; cases "map_parts f ys") auto
qed

lemma map_parts_length: "map_parts f xs = Inr ys \<Longrightarrow> length ys = length xs"
  by (induction xs arbitrary: ys) (auto simp: rbind_eq_Inr)

lemma map_parts_nth:
  "map_parts f xs = Inr ys \<Longrightarrow> i < length xs \<Longrightarrow>
     if xs ! i = [] then ys ! i = [] else f (xs ! i) = Inr (ys ! i)"
proof (induction xs arbitrary: ys i)
  case (Cons x xs)
  then show ?case by (cases i) (auto simp: rbind_eq_Inr split: if_splits)
qed simp

lemma map_parts_elem:
  "map_parts f xs = Inr ys \<Longrightarrow> y \<in> set ys \<Longrightarrow> y = [] \<or> (\<exists>x \<in> set xs. x \<noteq> [] \<and> f x = Inr y)"
  by (induction xs arbitrary: ys) (auto simp: rbind_eq_Inr split: if_splits)

lemma on_disk_segment_no_slash: "on_disk_segment L keys s = Inr h \<Longrightarrow> slash \<notin> set h"
  by (auto simp: on_disk_segment_def rbind_eq_Inr hash_entry_no_slash)

lemma on_disk_segment_shape:
  assumes "sha256_length L" "on_disk_segment L keys s = Inr h"
  shows "looks_like_hash h" "h \<noteq> []" "\<not> is_manifest_key h"
proof -
  from assms(2) obtain e where h: "h = hash_entry L e"
    by (auto simp: on_disk_segment_def rbind_eq_Inr)
  show "looks_like_hash h" using hash_entry_shape [OF assms(1)]
    by (simp add: h looks_like_hash_def list_all_iff)
  then show "h \<noteq> []" by (auto simp: looks_like_hash_def)
  show "\<not> is_manifest_key h" unfolding h by (rule hash_not_manifest_key [OF assms(1)])
qed

lemma on_disk_path_split:
  assumes "on_disk_path L keys p = Inr q"
  shows "map_parts (on_disk_segment L keys) (split_on slash p) = Inr (split_on slash q)"
proof -
  from assms obtain out where o: "map_parts (on_disk_segment L keys) (split_on slash p) = Inr out"
    and q: "q = join_with slash out" by (auto simp: on_disk_path_def rbind_eq_Inr)
  have "\<forall>x \<in> set out. slash \<notin> set x"
    using map_parts_elem [OF o] on_disk_segment_no_slash by fastforce
  moreover have "out \<noteq> []" using map_parts_length [OF o] by auto
  ultimately have "split_on slash q = out" unfolding q by (simp add: split_join)
  with o show ?thesis by simp
qed

text \<open>
  Paths translate segment by segment: \<open>on_disk_path\<close> keeps the number of segments, leaves
  empty ones (a leading or trailing slash) empty and replaces every other by its own on-disk
  name, so the translation of a joined path is the join of the translations.
\<close>

theorem on_disk_path_segments:
  assumes "on_disk_path L keys a = Inr x" "on_disk_path L keys b = Inr y"
  shows "on_disk_path L keys (a @ slash # b) = Inr (x @ slash # y) \<and>
    length (split_on slash x) = length (split_on slash a) \<and>
    (\<forall>i < length (split_on slash a).
       if split_on slash a ! i = [] then split_on slash x ! i = []
       else on_disk_segment L keys (split_on slash a ! i) = Inr (split_on slash x ! i))"
proof -
  note A = on_disk_path_split [OF assms(1)] and B = on_disk_path_split [OF assms(2)]
  have "on_disk_path L keys (a @ slash # b) = Inr (x @ slash # y)"
    by (simp add: on_disk_path_def split_on_append map_parts_append A B join_with_append)
  then show ?thesis using map_parts_length [OF A] map_parts_nth [OF A] by blast
qed

text \<open>
  A key the worker built leads back to its directory: for a directory prefix \<open>dest\<close> (empty
  or ending in a slash) and the on-disk name \<open>h\<close> of any logical name, both the file key
  \<open>dest h\<close> and the folder key \<open>dest h/\<close> have parent \<open>dest\<close> and leaf \<open>h\<close>.
\<close>

theorem parent_of_built_key:
  assumes "sha256_length L" "on_disk_segment L keys name = Inr h" "dest = [] \<or> ends_with slash dest"
  shows "parent_prefix (dest @ h) = dest \<and> parent_prefix (dest @ h @ [slash]) = dest \<and>
    leaf_of (dest @ h) = h \<and> leaf_of (dest @ h @ [slash]) = h"
  using parent_prefix_child [OF assms(3)] leaf_of_child [OF assms(3)]
    on_disk_segment_shape(2) [OF assms(1,2)] on_disk_segment_no_slash [OF assms(2)] by blast

lemma ref_segment: "length n \<le> 65535 \<Longrightarrow> \<exists>h. on_disk_segment ref_lib ref_keys n = Inr h"
  using pad_name_ok [of "as_bytes n"]
  by (auto simp: on_disk_segment_def encrypt_name_def ref_keys_def ref_siv_encrypt_def as_bytes_def)

theorem on_disk_path_segments_witness:
  "\<exists>x y. on_disk_path ref_lib ref_keys ''docs'' = Inr x \<and> on_disk_path ref_lib ref_keys [] = Inr y \<and>
    on_disk_path ref_lib ref_keys (''docs'' @ slash # []) = Inr (x @ slash # y) \<and>
    length (split_on slash x) = length (split_on slash ''docs'') \<and>
    (\<forall>i < length (split_on slash ''docs'').
       if split_on slash ''docs'' ! i = [] then split_on slash x ! i = []
       else on_disk_segment ref_lib ref_keys (split_on slash ''docs'' ! i) = Inr (split_on slash x ! i))"
proof -
  obtain h where h: "on_disk_segment ref_lib ref_keys ''docs'' = Inr h" using ref_segment [of "''docs''"] by auto
  have x: "on_disk_path ref_lib ref_keys ''docs'' = Inr h" by (simp add: on_disk_path_def h)
  have y: "on_disk_path ref_lib ref_keys [] = Inr []" by (simp add: on_disk_path_def)
  from on_disk_path_segments [OF x y] x y show ?thesis by blast
qed

theorem parent_of_built_key_witness:
  "\<exists>h. on_disk_segment ref_lib ref_keys ''a.txt'' = Inr h \<and>
    parent_prefix (''AB/'' @ h) = ''AB/'' \<and> parent_prefix (''AB/'' @ h @ [slash]) = ''AB/'' \<and>
    leaf_of (''AB/'' @ h) = h \<and> leaf_of (''AB/'' @ h @ [slash]) = h"
proof -
  obtain h where h: "on_disk_segment ref_lib ref_keys ''a.txt'' = Inr h" using ref_segment [of "''a.txt''"] by auto
  from parent_of_built_key [OF ref_sha256_length h, of "''AB/''"] h show ?thesis
    by (simp add: ends_with_def)
qed

section \<open>What a listing shows\<close>

lemma listing_loop_spec:
  "listing_loop m raw =
     (map (listed_entry m) (filter (\<lambda>ob. \<not> is_manifest_key (leaf_of (ro_key ob))) raw),
      length (filter (\<lambda>ob. \<not> is_manifest_key (leaf_of (ro_key ob)) \<and>
        entry_kind_of m (leaf_of (ro_key ob)) = Orphan) raw))"
  by (induction raw) auto

lemma listed_entry_key: "re_key (listed_entry m ob) = ro_key ob" "re_is_dir (listed_entry m ob) = ro_is_prefix ob"
  by (simp_all add: listed_entry_def Let_def split: prod.splits)


lemma listed_file:
  assumes "sha256_length L" "on_disk_segment L keys name = Inr h" "dir = [] \<or> ends_with slash dir"
    and "ro_key ob = dir @ h" "\<not> ro_is_prefix ob" "man_files m h = Some f" "fe_name f = name"
  shows "re_name (listed_entry m ob) = name \<and> re_size (listed_entry m ob) = fe_size f \<and>
    re_encrypted (listed_entry m ob) = Some True \<and> \<not> is_manifest_key (leaf_of (ro_key ob))"
proof -
  have leaf: "leaf_of (dir @ h) = h"
    using leaf_of_child(1) [OF assms(3) on_disk_segment_shape(2) [OF assms(1,2)]
        on_disk_segment_no_slash [OF assms(2)]] .
  with assms(4-) on_disk_segment_shape(3) [OF assms(1,2)] show ?thesis
    by (simp add: listed_entry_def entry_kind_of_def name_for_def)
qed

text \<open>
  An uploaded file is displayed under its own name: after \<open>upsert_file\<close> records it, the
  listing of a directory whose raw entries contain the uploaded object shows an entry with that
  key, the plaintext name and the plaintext size, marked as encrypted.
\<close>

theorem uploaded_file_listed:
  assumes "sha256_length L" "encrypt_name L keys name = Inr seg" "dir = [] \<or> ends_with slash dir"
    and "ob \<in> set raw" "ro_key ob = dir @ hash_entry L seg" "\<not> ro_is_prefix ob"
  shows "\<exists>e \<in> set (dl_entries (build_listing lower raw (upsert_file L seg name sz m))).
    re_key e = ro_key ob \<and> re_name e = name \<and> re_size e = sz \<and> re_encrypted e = Some True"
proof -
  let ?m = "upsert_file L seg name sz m"
  have h: "on_disk_segment L keys name = Inr (hash_entry L seg)"
    using assms(2) by (simp add: on_disk_segment_def)
  have f: "man_files ?m (hash_entry L seg) = Some \<lparr>fe_name = name, fe_size = sz, fe_extra = Map.empty\<rparr>"
    by (simp add: upsert_file_def mfiles.look_put)
  have "re_name (listed_entry ?m ob) = name \<and> re_size (listed_entry ?m ob) = sz \<and>
      re_encrypted (listed_entry ?m ob) = Some True \<and> \<not> is_manifest_key (leaf_of (ro_key ob))"
    using listed_file [OF assms(1) h assms(3,5,6) f] by simp
  then show ?thesis using assms(4)
    by (intro bexI [of _ "listed_entry ?m ob"])
      (auto simp: build_listing_def listing_loop_spec listed_entry_key)
qed

theorem uploaded_file_listed_witness:
  "\<exists>seg. encrypt_name ref_lib ref_keys ''a.txt'' = Inr seg \<and>
    (\<exists>e \<in> set (dl_entries (build_listing id
        [\<lparr>ro_key = ''.rse'', ro_size = 9, ro_modified = None, ro_is_prefix = False\<rparr>,
         \<lparr>ro_key = hash_entry ref_lib seg, ro_size = 45, ro_modified = None, ro_is_prefix = False\<rparr>]
        (upsert_file ref_lib seg ''a.txt'' 5 Manifest_default))).
      re_key e = hash_entry ref_lib seg \<and> re_name e = ''a.txt'' \<and> re_size e = 5 \<and> re_encrypted e = Some True)"
proof -
  obtain seg where seg: "encrypt_name ref_lib ref_keys ''a.txt'' = Inr seg"
    using ref_segment [of "''a.txt''"] by (auto simp: on_disk_segment_def rbind_eq_Inr)
  from uploaded_file_listed [OF ref_sha256_length seg, of "[]"
      "\<lparr>ro_key = hash_entry ref_lib seg, ro_size = 45, ro_modified = None, ro_is_prefix = False\<rparr>"
      "[\<lparr>ro_key = ''.rse'', ro_size = 9, ro_modified = None, ro_is_prefix = False\<rparr>,
         \<lparr>ro_key = hash_entry ref_lib seg, ro_size = 45, ro_modified = None, ro_is_prefix = False\<rparr>]"
      id 5 Manifest_default] seg
  show ?thesis by simp
qed

end
