(* ===== verification/RateLimiter.thy ===== *)
theory RateLimiter
  imports Complex_Main Interfaces
begin

text \<open>
  The token bucket that paces transfers (\<^verbatim>\<open>src/src/ratelimit.rs\<close>). Time and budget are
  rational numbers, the exact values the source's \<open>f64\<close> arithmetic approximates; an
  \<open>Instant\<close> is the number of seconds since some origin, and \<open>duration_since\<close> is zero for a
  clock that stands still.

  \<open>acquire\<close> is a loop around one locked section. \<open>acquire_step\<close> is that section at a given
  time; \<open>acquire_run\<close> is the loop of one task along the list of times at which it runs the
  section; \<open>limiter_step\<close> lets many tasks and live rate changes interleave. The theorems: the
  bytes granted in a window never exceed the burst capacity plus rate times its length; a request
  that fits the capacity is granted after the one sleep it computes; a request larger than the
  capacity is never granted.
\<close>

definition BURST_FLOOR :: rat where
  "BURST_FLOOR = 1024 * 1024"

record bucket =
  tokens :: rat
  last_refill :: rat

record rate_limiter =
  rl_rate :: u64
  rl_bucket :: bucket

definition RateLimiter_new :: "rat \<Rightarrow> u64 \<Rightarrow> rate_limiter" where
  "RateLimiter_new now bytes_per_sec =
     \<lparr>rl_rate = bytes_per_sec, rl_bucket = \<lparr>tokens = 0, last_refill = now\<rparr>\<rparr>"

definition is_unlimited :: "rate_limiter \<Rightarrow> bool" where
  "is_unlimited l = (rl_rate l = 0)"

definition set_rate :: "u64 \<Rightarrow> rate_limiter \<Rightarrow> rate_limiter" where
  "set_rate bytes_per_sec l = l\<lparr>rl_rate := bytes_per_sec\<rparr>"

definition capacity :: "u64 \<Rightarrow> rat" where
  "capacity rate = max (of_nat (unat rate)) BURST_FLOOR"

datatype acquired = Granted | Sleep rat

text \<open>The body of the loop of \<open>acquire(n)\<close> at time \<open>now\<close>: return, or how long to sleep.\<close>

definition acquire_step :: "rat \<Rightarrow> u64 \<Rightarrow> rate_limiter \<Rightarrow> rate_limiter \<times> acquired" where
  "acquire_step now n l =
     (if rl_rate l = 0 then (l, Granted)
      else let rate = of_nat (unat (rl_rate l));
               b = rl_bucket l;
               elapsed = max 0 (now - last_refill b);
               filled = min (tokens b + elapsed * rate) (capacity (rl_rate l));
               need = of_nat (unat n)
           in if need \<le> filled
              then (l\<lparr>rl_bucket := \<lparr>tokens = filled - need, last_refill = now\<rparr>\<rparr>, Granted)
              else (l\<lparr>rl_bucket := \<lparr>tokens = filled, last_refill = now\<rparr>\<rparr>, Sleep ((need - filled) / rate)))"

text \<open>The whole loop, run at the given times: the time it returned, or \<open>None\<close> if it has not yet.\<close>

fun acquire_run :: "u64 \<Rightarrow> rat list \<Rightarrow> rate_limiter \<Rightarrow> rate_limiter \<times> rat option" where
  "acquire_run n [] l = (l, None)"
| "acquire_run n (t # ts) l =
     (case acquire_step t n l of
        (l', Granted) \<Rightarrow> (l', Some t)
      | (l', Sleep w) \<Rightarrow> acquire_run n ts l')"

text \<open>Interleaving: any task runs its loop body, or the settings change the rate.\<close>

datatype limiter_event = Try rat u64 | SetRate u64

fun limiter_step :: "rate_limiter \<Rightarrow> limiter_event \<Rightarrow> rate_limiter" where
  "limiter_step l (Try now n) = fst (acquire_step now n l)"
| "limiter_step l (SetRate r) = set_rate r l"

definition bucket_ok :: "rate_limiter \<Rightarrow> bool" where
  "bucket_ok l \<longleftrightarrow> 0 \<le> tokens (rl_bucket l)"

lemma capacity_ge: "BURST_FLOOR \<le> capacity r" "of_nat (unat r) \<le> capacity r" "0 < capacity r"
  by (auto simp: capacity_def BURST_FLOOR_def less_max_iff_disj)

lemma acquire_step_tokens:
  assumes "bucket_ok l"
  shows "bucket_ok (fst (acquire_step now n l))"
proof -
  have "0 \<le> max 0 (now - last_refill (rl_bucket l)) * (of_nat (unat (rl_rate l)) :: rat)"
    by (rule mult_nonneg_nonneg [OF max.cobounded1 of_nat_0_le_iff])
  then have "0 \<le> min (tokens (rl_bucket l) + max 0 (now - last_refill (rl_bucket l)) * of_nat (unat (rl_rate l)))
      (capacity (rl_rate l))"
    using assms capacity_ge(3) [of "rl_rate l"] unfolding bucket_ok_def by linarith
  then show ?thesis using assms by (auto simp: acquire_step_def bucket_ok_def Let_def)
qed

interpretation limiter: inv_machine limiter_step bucket_ok "\<lambda>_ _. True"
proof
  fix l e
  assume "bucket_ok l"
  then show "bucket_ok (limiter_step l e)"
    by (cases e) (auto simp: acquire_step_tokens, simp add: bucket_ok_def set_rate_def)
qed

section \<open>The rate is a ceiling\<close>

text \<open>Bytes granted by a sequence of loop bodies run at the given times.\<close>

fun granted :: "(rat \<times> u64) list \<Rightarrow> rate_limiter \<Rightarrow> rat" where
  "granted [] l = 0"
| "granted ((t, n) # ts) l =
     (case acquire_step t n l of
        (l', Granted) \<Rightarrow> of_nat (unat n) + granted ts l'
      | (l', Sleep w) \<Rightarrow> granted ts l')"

fun clock_ok :: "rat \<Rightarrow> (rat \<times> u64) list \<Rightarrow> bool" where
  "clock_ok t0 [] = True"
| "clock_ok t0 ((t, n) # ts) = (t0 \<le> t \<and> clock_ok t ts)"

definition last_time :: "rat \<Rightarrow> (rat \<times> u64) list \<Rightarrow> rat" where
  "last_time t0 ts = (if ts = [] then t0 else fst (last ts))"

lemma acquire_step_budget:
  assumes "rl_rate l \<noteq> 0" "last_refill (rl_bucket l) \<le> t" "acquire_step t n l = (l', a)"
  shows "tokens (rl_bucket l') + (if a = Granted then of_nat (unat n) else 0)
      \<le> tokens (rl_bucket l) + (t - last_refill (rl_bucket l)) * of_nat (unat (rl_rate l))"
    and "last_refill (rl_bucket l') = t" "rl_rate l' = rl_rate l"
  using assms by (auto simp: acquire_step_def Let_def split: if_splits)

lemma granted_budget:
  assumes "rl_rate l \<noteq> 0" "bucket_ok l" "clock_ok (last_refill (rl_bucket l)) ts"
  shows "granted ts l \<le> tokens (rl_bucket l) +
    (last_time (last_refill (rl_bucket l)) ts - last_refill (rl_bucket l)) * of_nat (unat (rl_rate l))"
  using assms
proof (induction ts arbitrary: l)
  case Nil
  then show ?case by (simp add: last_time_def bucket_ok_def)
next
  case (Cons x ts)
  obtain t n where x: "x = (t, n)" by fastforce
  obtain l' a where st: "acquire_step t n l = (l', a)" by fastforce
  let ?r = "of_nat (unat (rl_rate l)) :: rat" and ?t0 = "last_refill (rl_bucket l)"
  have le: "?t0 \<le> t" using Cons.prems(3) x by simp
  note A = acquire_step_budget [OF Cons.prems(1) le st]
  have "bucket_ok l'" using acquire_step_tokens [OF Cons.prems(2), of t n] st by simp
  then have IH: "granted ts l' \<le> tokens (rl_bucket l') + (last_time t ts - t) * ?r"
    using Cons.IH [of l'] Cons.prems A x by simp
  have "granted (x # ts) l = (if a = Granted then of_nat (unat n) else 0) + granted ts l'"
    by (cases a) (simp_all add: x st)
  also have "\<dots> \<le> tokens (rl_bucket l) + (t - ?t0) * ?r + (last_time t ts - t) * ?r"
    using A(1) IH by linarith
  also have "\<dots> = tokens (rl_bucket l) + (last_time t ts - ?t0) * ?r"
    by (simp add: algebra_simps)
  also have "last_time t ts = last_time ?t0 (x # ts)" by (simp add: last_time_def x)
  finally show ?case .
qed

text \<open>
  C37. The configured rate is a ceiling for all tasks together: whatever sequence of requests the
  tasks make from the creation of the limiter on, at whatever times, the bytes granted up to
  the last of those times never exceed rate times the elapsed time.
\<close>

theorem rate_is_ceiling:
  assumes "rate \<noteq> 0" "clock_ok t0 ts"
  shows "granted ts (RateLimiter_new t0 rate) \<le> (last_time t0 ts - t0) * of_nat (unat rate)"
  using granted_budget [of "RateLimiter_new t0 rate" ts] assms
  by (simp add: RateLimiter_new_def bucket_ok_def)

theorem rate_is_ceiling_witness:
  "granted [(1, 500), (2, 1200), (5, 1200)] (RateLimiter_new 0 1000) \<le>
    (last_time 0 [(1, 500), (2, 1200), (5, 1200)] - 0) * of_nat (unat (1000 :: u64))"
  by (rule rate_is_ceiling) simp_all

section \<open>Requests that fit are served, others never\<close>

text \<open>
  A request that fits the burst capacity is served: the loop either returns at its first
  body or computes a sleep \<open>w\<close>, and a body that runs at least \<open>w\<close> later, with no other task
  having taken budget meanwhile, returns.
\<close>

theorem acquire_returns:
  assumes "bucket_ok l" "of_nat (unat n) \<le> capacity (rl_rate l)" "last_refill (rl_bucket l) \<le> t"
  shows "case acquire_step t n l of
      (l', Granted) \<Rightarrow> snd (acquire_run n [t] l) = Some t
    | (l', Sleep w) \<Rightarrow> 0 < w \<and> (\<forall>t' \<ge> t + w. snd (acquire_run n [t, t'] l) = Some t')"
proof (cases "acquire_step t n l")
  case (Pair l' a)
  show ?thesis
  proof (cases a)
    case (Sleep w)
    let ?r = "of_nat (unat (rl_rate l)) :: rat" and ?f = "tokens (rl_bucket l')"
    have r: "rl_rate l \<noteq> 0" and r': "rl_rate l' = rl_rate l" and lr: "last_refill (rl_bucket l') = t"
      and w: "w = (of_nat (unat n) - ?f) / ?r" and lt: "?f < of_nat (unat n)"
      using Pair Sleep by (auto simp: acquire_step_def Let_def split: if_splits)
    have "0 < unat (rl_rate l)" using r by (simp add: unat_gt_0)
    then have pos: "0 < ?r" by (rule iffD2 [OF of_nat_0_less_iff])
    have "snd (acquire_step t' n l') = Granted" if "t + w \<le> t'" for t'
    proof -
      have "w \<le> max 0 (t' - t)" using that by simp
      then have "w * ?r \<le> max 0 (t' - t) * ?r" using pos by (simp add: mult_right_mono)
      then have "of_nat (unat n) \<le> ?f + max 0 (t' - t) * ?r" using w pos by simp
      then show ?thesis using assms(2) r by (simp add: acquire_step_def Let_def r' lr)
    qed
    then have "snd (acquire_run n [t'] l') = Some t'" if "t + w \<le> t'" for t'
      using that by (cases "acquire_step t' n l'"; cases "snd (acquire_step t' n l')") fastforce+
    moreover have "0 < w" using w lt pos by simp
    ultimately show ?thesis using Pair Sleep by simp
  qed (simp add: Pair)
qed

theorem acquire_returns_witness:
  "case acquire_step 1 600000 (RateLimiter_new 0 1000) of
      (l', Granted) \<Rightarrow> snd (acquire_run 600000 [1] (RateLimiter_new 0 1000)) = Some 1
    | (l', Sleep w) \<Rightarrow> 0 < w \<and>
        (\<forall>t' \<ge> 1 + w. snd (acquire_run 600000 [1, t'] (RateLimiter_new 0 1000)) = Some t')"
  by (rule acquire_returns) (simp_all add: RateLimiter_new_def bucket_ok_def capacity_def BURST_FLOOR_def)

text \<open>Above the capacity the loop body never grants, whatever the bucket holds.\<close>

lemma acquire_run_beyond:
  assumes "rl_rate l \<noteq> 0" "capacity (rl_rate l) < of_nat (unat n)"
  shows "snd (acquire_run n ts l) = None"
  using assms(1,2)
proof (induction ts arbitrary: l)
  case (Cons t ts)
  obtain l' a where st: "acquire_step t n l = (l', a)" by fastforce
  then obtain w where a: "a = Sleep w" and r: "rl_rate l' = rl_rate l"
    using Cons.prems by (auto simp: acquire_step_def Let_def min_le_iff_disj split: if_splits)
  then show ?case using Cons st by simp
qed simp

text \<open>
  A request larger than the burst capacity never returns: as long as the rate stays, no
  matter when and how often the loop body runs, \<open>acquire\<close> keeps sleeping. The source asserts
  that no caller asks for more than the capacity.
\<close>

theorem acquire_beyond_capacity_hangs:
  assumes "rl_rate l \<noteq> 0" "capacity (rl_rate l) < of_nat (unat n)"
  shows "snd (acquire_run n ts l) = None"
  using assms by (rule acquire_run_beyond)

theorem acquire_beyond_capacity_hangs_witness:
  "snd (acquire_run 1048592 [1, 2, 1000000] (RateLimiter_new 0 1000000)) = None"
  by (rule acquire_beyond_capacity_hangs) (simp_all add: RateLimiter_new_def capacity_def BURST_FLOOR_def)

end
