(* ===== verification/Settings.thy ===== *)
theory Settings
  imports Interfaces
begin

text \<open>
  Settings, saved connections, keychain secrets and known hosts (\<^verbatim>\<open>src/src/settings.rs\<close>).

  The configuration directory is a map from file names to text; \<open>cf_writable\<close> tells whether
  writes to it succeed, and a failed write is silently ignored, as in the source. The keychain
  is a map from profile names to secrets that may be unavailable. The JSON (de)serialisers are
  parameters (\<open>conf_json\<close>), with \<open>conf_json_correct\<close>: reading back what was written gives
  the value.
\<close>

section \<open>Data\<close>

record settings =
  upload_parallelism :: nat
  download_parallelism :: nat
  max_download_mbps :: u64
  max_upload_mbps :: u64
  multipart_threshold_mib :: u64
  part_size_mib :: u64
  retries :: u32
  reconnect_interval_secs :: u64
  stall_timeout_secs :: u64
  manifest_flush_secs :: u64

definition Settings_default :: settings where
  "Settings_default = \<lparr>
     upload_parallelism = 12, download_parallelism = 6, max_download_mbps = 0, max_upload_mbps = 0,
     multipart_threshold_mib = 16, part_size_mib = 16, retries = 500000,
     reconnect_interval_secs = 3, stall_timeout_secs = 45, manifest_flush_secs = 10\<rparr>"

datatype backend_kind = S3 | Sftp | Nfs | Smb

record connection_profile =
  cp_name :: string
  cp_kind :: backend_kind
  cp_endpoint :: string
  cp_bucket :: string
  cp_access_key_id :: string
  cp_host :: string
  cp_port :: u16
  cp_username :: string
  cp_key_path :: string
  cp_root_path :: string
  cp_share :: string
  cp_domain :: string
  cp_nfs_privileged_port :: bool
  cp_nfs_uid :: u32
  cp_nfs_gid :: u32
  cp_e2ee :: bool

definition ConnectionProfile_default :: connection_profile where
  "ConnectionProfile_default = \<lparr>
     cp_name = [], cp_kind = S3, cp_endpoint = [], cp_bucket = [], cp_access_key_id = [],
     cp_host = [], cp_port = 22, cp_username = [], cp_key_path = [], cp_root_path = [],
     cp_share = [], cp_domain = [], cp_nfs_privileged_port = True, cp_nfs_uid = 1000,
     cp_nfs_gid = 1000, cp_e2ee = False\<rparr>"

record conf =
  cf_files :: "string \<rightharpoonup> string"
  cf_writable :: bool
  cf_keychain :: "string \<rightharpoonup> string"
  cf_keychain_up :: bool

record conf_json =
  js_settings :: "settings \<Rightarrow> string option"
  js_settings_of :: "string \<Rightarrow> settings option"
  js_profiles :: "connection_profile list \<Rightarrow> string option"
  js_profiles_of :: "string \<Rightarrow> connection_profile list option"
  js_profile_of :: "string \<Rightarrow> connection_profile option"
  js_hosts :: "(string \<rightharpoonup> string) \<Rightarrow> string option"
  js_hosts_of :: "string \<Rightarrow> (string \<rightharpoonup> string) option"

section \<open>Operations\<close>

definition read_json :: "(string \<Rightarrow> 'a option) \<Rightarrow> 'a \<Rightarrow> string \<Rightarrow> conf \<Rightarrow> 'a" where
  "read_json parse dflt file c =
     (case Option.bind (cf_files c file) parse of Some x \<Rightarrow> x | None \<Rightarrow> dflt)"

definition write_json :: "('a \<Rightarrow> string option) \<Rightarrow> string \<Rightarrow> 'a \<Rightarrow> conf \<Rightarrow> conf" where
  "write_json print file value c =
     (case print value of
        None \<Rightarrow> c
      | Some s \<Rightarrow> if cf_writable c then c\<lparr>cf_files := (cf_files c)(file \<mapsto> s)\<rparr> else c)"

definition remove_file :: "string \<Rightarrow> conf \<Rightarrow> conf" where
  "remove_file file c = (if cf_writable c then c\<lparr>cf_files := (cf_files c)(file := None)\<rparr> else c)"

definition Settings_load :: "conf_json \<Rightarrow> conf \<Rightarrow> settings" where
  "Settings_load J c = read_json (js_settings_of J) Settings_default ''settings.json'' c"

definition Settings_save :: "conf_json \<Rightarrow> settings \<Rightarrow> conf \<Rightarrow> conf" where
  "Settings_save J s c = write_json (js_settings J) ''settings.json'' s c"

definition save_all :: "conf_json \<Rightarrow> connection_profile list \<Rightarrow> conf \<Rightarrow> conf" where
  "save_all J ps c = write_json (js_profiles J) ''profiles.json'' ps c"

definition load_all :: "conf_json \<Rightarrow> conf \<Rightarrow> conf \<times> connection_profile list" where
  "load_all J c =
     (let ps = read_json (js_profiles_of J) [] ''profiles.json'' c in
      if ps = [] then
        let legacy = read_json (js_profile_of J) ConnectionProfile_default ''profile.json'' c in
        if cp_endpoint legacy \<noteq> []
        then (remove_file ''profile.json'' (save_all J [legacy] c), [legacy])
        else (c, ps)
      else (c, ps))"

fun replace_or_push :: "connection_profile \<Rightarrow> connection_profile list \<Rightarrow> connection_profile list" where
  "replace_or_push p [] = [p]"
| "replace_or_push p (q # qs) = (if cp_name q = cp_name p then p # qs else q # replace_or_push p qs)"

definition upsert_profile :: "conf_json \<Rightarrow> connection_profile \<Rightarrow> conf \<Rightarrow> conf" where
  "upsert_profile J p c = (case load_all J c of (c', ps) \<Rightarrow> save_all J (replace_or_push p ps) c')"

definition store_secret :: "string \<Rightarrow> string \<Rightarrow> (conf, unit) sr" where
  "store_secret profile_name secret c =
     (if cf_keychain_up c
      then (c\<lparr>cf_keychain := (cf_keychain c)(profile_name \<mapsto> secret)\<rparr>, Inr ())
      else (c, Inl (Msg ''keychain unavailable'')))"

definition load_secret :: "string \<Rightarrow> conf \<Rightarrow> string option" where
  "load_secret profile_name c = (if cf_keychain_up c then cf_keychain c profile_name else None)"

definition delete_secret :: "string \<Rightarrow> conf \<Rightarrow> conf" where
  "delete_secret profile_name c =
     (if cf_keychain_up c then c\<lparr>cf_keychain := (cf_keychain c)(profile_name := None)\<rparr> else c)"

definition remove_profile :: "conf_json \<Rightarrow> string \<Rightarrow> conf \<Rightarrow> conf" where
  "remove_profile J name c =
     (case load_all J c of (c', ps) \<Rightarrow>
        delete_secret name (save_all J (filter (\<lambda>p. cp_name p \<noteq> name) ps) c'))"

definition known_host :: "conf_json \<Rightarrow> string \<Rightarrow> conf \<Rightarrow> string option" where
  "known_host J host_id c = read_json (js_hosts_of J) Map.empty ''known_hosts.json'' c host_id"

definition remember_host :: "conf_json \<Rightarrow> string \<Rightarrow> string \<Rightarrow> conf \<Rightarrow> conf" where
  "remember_host J host_id fingerprint c =
     write_json (js_hosts J) ''known_hosts.json''
       ((read_json (js_hosts_of J) Map.empty ''known_hosts.json'' c)(host_id \<mapsto> fingerprint)) c"

section \<open>Contract of the serialisers\<close>

definition conf_json_correct :: "conf_json \<Rightarrow> bool" where
  "conf_json_correct J \<longleftrightarrow>
     (\<forall>s t. js_settings J s = Some t \<longrightarrow> js_settings_of J t = Some s) \<and>
     (\<forall>ps t. js_profiles J ps = Some t \<longrightarrow> js_profiles_of J t = Some ps) \<and>
     (\<forall>h t. js_hosts J h = Some t \<longrightarrow> js_hosts_of J t = Some h)"

lemma read_write_json:
  assumes "\<And>x t. print x = Some t \<Longrightarrow> parse t = Some x" "cf_writable c" "print v \<noteq> None"
  shows "read_json parse d f (write_json print f v c) = v"
    and "f' \<noteq> f \<Longrightarrow> cf_files (write_json print f v c) f' = cf_files c f'"
  using assms by (auto simp: read_json_def write_json_def split: option.splits)

lemma write_json_frame [simp]:
  "cf_writable (write_json print f v c) = cf_writable c"
  "cf_keychain (write_json print f v c) = cf_keychain c"
  "cf_keychain_up (write_json print f v c) = cf_keychain_up c"
  by (auto simp: write_json_def split: option.splits)

lemma read_json_keychain [simp]: "read_json parse d f (c\<lparr>cf_keychain := k\<rparr>) = read_json parse d f c"
  by (simp add: read_json_def)

lemma load_all_frame:
  assumes "load_all J c = (c', ps)"
  shows "cf_writable c' = cf_writable c" "cf_keychain c' = cf_keychain c" "cf_keychain_up c' = cf_keychain_up c"
  using assms by (auto simp: load_all_def Let_def save_all_def remove_file_def split: if_splits)

lemma load_saved:
  assumes "conf_json_correct J" "cf_writable c" "js_profiles J ps \<noteq> None" "ps \<noteq> []"
  shows "load_all J (save_all J ps c) = (save_all J ps c, ps)"
proof -
  have "read_json (js_profiles_of J) [] ''profiles.json'' (save_all J ps c) = ps"
    unfolding save_all_def
    by (rule read_write_json(1)) (use assms in \<open>auto simp: conf_json_correct_def\<close>)
  with assms(4) show ?thesis by (simp add: load_all_def)
qed

lemma replace_or_push_names:
  "set (map cp_name (replace_or_push p ps)) = insert (cp_name p) (set (map cp_name ps))"
  "distinct (map cp_name ps) \<Longrightarrow> distinct (map cp_name (replace_or_push p ps))"
  "replace_or_push p ps \<noteq> []"
proof -
  show n: "set (map cp_name (replace_or_push p ps)) = insert (cp_name p) (set (map cp_name ps))" for ps
    by (induction ps) auto
  show "distinct (map cp_name ps) \<Longrightarrow> distinct (map cp_name (replace_or_push p ps))"
  proof (induction ps)
    case (Cons q qs)
    then show ?case using n [of qs] by auto
  qed simp
  show "replace_or_push p ps \<noteq> []" by (cases ps) auto
qed

lemma replace_or_push_find:
  "find (\<lambda>q. cp_name q = n) (replace_or_push p ps) =
     (if n = cp_name p then Some p else find (\<lambda>q. cp_name q = n) ps)"
  by (induction ps) auto

text \<open>
  Saving a connection replaces the one of that name and keeps the others: after
  \<open>ConnectionProfile::upsert\<close> on a writable configuration, loading returns the new profile under
  its name, every other name as before, and names that were distinct stay distinct.
\<close>

theorem upsert_profile_saved:
  assumes "conf_json_correct J" "cf_writable c" "load_all J c = (c1, ps)"
    and "js_profiles J (replace_or_push p ps) \<noteq> None"
  shows "\<exists>qs. load_all J (upsert_profile J p c) = (upsert_profile J p c, qs) \<and>
    (\<forall>n. find (\<lambda>q. cp_name q = n) qs = (if n = cp_name p then Some p else find (\<lambda>q. cp_name q = n) ps)) \<and>
    (distinct (map cp_name ps) \<longrightarrow> distinct (map cp_name qs))"
proof -
  have "load_all J (upsert_profile J p c) = (upsert_profile J p c, replace_or_push p ps)"
    unfolding upsert_profile_def assms(3) prod.case
    by (rule load_saved) (use assms load_all_frame [OF assms(3)] replace_or_push_names(3) in auto)
  then show ?thesis using replace_or_push_find replace_or_push_names(2) by blast
qed

text \<open>A serialiser for configurations without settings or hosts and with at most one default profile.\<close>

definition ref_conf_json :: conf_json where
  "ref_conf_json = \<lparr>
     js_settings = (\<lambda>s. if s = Settings_default then Some ''S'' else None),
     js_settings_of = (\<lambda>t. if t = ''S'' then Some Settings_default else None),
     js_profiles = (\<lambda>ps. if ps = [] then Some ''[]'' else if ps = [ConnectionProfile_default] then Some ''[P]'' else None),
     js_profiles_of = (\<lambda>t. if t = ''[]'' then Some [] else if t = ''[P]'' then Some [ConnectionProfile_default] else None),
     js_profile_of = (\<lambda>t. None),
     js_hosts = (\<lambda>h. if h = [''h'' \<mapsto> ''k''] then Some ''H'' else None),
     js_hosts_of = (\<lambda>t. if t = ''H'' then Some [''h'' \<mapsto> ''k''] else None)\<rparr>"

definition empty_conf :: conf where
  "empty_conf = \<lparr>cf_files = Map.empty, cf_writable = True, cf_keychain = Map.empty, cf_keychain_up = True\<rparr>"

lemma ref_conf_json_correct: "conf_json_correct ref_conf_json"
  by (auto simp: conf_json_correct_def ref_conf_json_def split: if_splits)

lemma load_empty_conf: "load_all ref_conf_json empty_conf = (empty_conf, [])"
  by (simp add: load_all_def read_json_def empty_conf_def ConnectionProfile_default_def)

theorem upsert_profile_saved_witness:
  "\<exists>qs. load_all ref_conf_json (upsert_profile ref_conf_json ConnectionProfile_default empty_conf) =
      (upsert_profile ref_conf_json ConnectionProfile_default empty_conf, qs) \<and>
    (\<forall>n. find (\<lambda>q. cp_name q = n) qs =
      (if n = cp_name ConnectionProfile_default then Some ConnectionProfile_default
       else find (\<lambda>q. cp_name q = n) ([] :: connection_profile list))) \<and>
    (distinct (map cp_name ([] :: connection_profile list)) \<longrightarrow> distinct (map cp_name qs))"
  by (rule upsert_profile_saved [OF ref_conf_json_correct _ load_empty_conf])
    (simp_all add: empty_conf_def ref_conf_json_def)

text \<open>
  A forgotten connection leaves nothing behind: after \<open>ConnectionProfile::remove\<close> on a
  writable configuration with a reachable keychain, no saved profile has that name, the others
  are kept in order, and the keychain holds no secret under it and every other secret as before.
\<close>

theorem remove_profile_complete:
  assumes "conf_json_correct J" "cf_writable c" "cf_keychain_up c" "load_all J c = (c1, ps)"
    and "js_profiles J (filter (\<lambda>p. cp_name p \<noteq> name) ps) \<noteq> None"
  shows "read_json (js_profiles_of J) [] ''profiles.json'' (remove_profile J name c) =
      filter (\<lambda>p. cp_name p \<noteq> name) ps \<and>
    load_secret name (remove_profile J name c) = None \<and>
    (\<forall>n. n \<noteq> name \<longrightarrow> load_secret n (remove_profile J name c) = load_secret n c)"
proof -
  let ?qs = "filter (\<lambda>p. cp_name p \<noteq> name) ps"
  note F = load_all_frame [OF assms(4)]
  have "read_json (js_profiles_of J) [] ''profiles.json'' (save_all J ?qs c1) = ?qs"
    unfolding save_all_def
    by (rule read_write_json(1)) (use assms F in \<open>auto simp: conf_json_correct_def\<close>)
  then show ?thesis
    using assms(3,4) F by (simp add: remove_profile_def load_secret_def delete_secret_def save_all_def)
qed

theorem remove_profile_complete_witness:
  "read_json (js_profiles_of ref_conf_json) [] ''profiles.json'' (remove_profile ref_conf_json ''x'' empty_conf) =
      filter (\<lambda>p. cp_name p \<noteq> ''x'') [] \<and>
    load_secret ''x'' (remove_profile ref_conf_json ''x'' empty_conf) = None \<and>
    load_secret ''y'' (remove_profile ref_conf_json ''x'' empty_conf) = load_secret ''y'' empty_conf"
  using remove_profile_complete [OF ref_conf_json_correct _ _ load_empty_conf, of "''x''"]
  by (simp add: empty_conf_def ref_conf_json_def)

text \<open>Settings and known hosts read back what was stored; a failing disk keeps the old file.\<close>

lemma settings_saved:
  assumes "conf_json_correct J" "js_settings J s \<noteq> None" "cf_writable c"
  shows "Settings_load J (Settings_save J s c) = s"
  unfolding Settings_load_def Settings_save_def
  by (rule read_write_json(1)) (use assms in \<open>auto simp: conf_json_correct_def\<close>)

lemma known_host_remembered:
  assumes "conf_json_correct J" "cf_writable c"
    and "js_hosts J ((read_json (js_hosts_of J) Map.empty ''known_hosts.json'' c)(h \<mapsto> fp)) \<noteq> None"
  shows "known_host J h' (remember_host J h fp c) = (if h' = h then Some fp else known_host J h' c)"
proof -
  have "read_json (js_hosts_of J) Map.empty ''known_hosts.json'' (remember_host J h fp c) =
      (read_json (js_hosts_of J) Map.empty ''known_hosts.json'' c)(h \<mapsto> fp)"
    unfolding remember_host_def
    by (rule read_write_json(1)) (use assms in \<open>auto simp: conf_json_correct_def\<close>)
  then show ?thesis by (simp add: known_host_def)
qed

end
