(* ===== verification/ManifestStore.thy ===== *)
theory ManifestStore
  imports DirView
begin

text \<open>
  The buffer of directory manifests and its flush logic (\<^verbatim>\<open>src/src/manifest_store.rs\<close>).

  The \<open>HashMap\<close> of buffered directories is an association list (its order stands for the map's
  unspecified iteration order); times are milliseconds. \<open>ctx\<close> is the state an operation works
  on: the buffer, the remote world, the clock and the position in the random source that yields
  nonce prefixes. \<open>env\<close> holds what does not change: the libraries, the backend, the random
  source. \<open>flush\<close> has the source's three phases: \<open>flush_snapshot\<close> under the lock, then per
  directory the network write and \<open>flush_record\<close> under the lock again.

  Between the phases other tasks may edit the same directories: \<open>store_step\<close> is the machine of
  the locked sections, and its invariant \<open>store_ok\<close> (a directory that is not dirty equals what
  was last written) holds under every interleaving. \<open>flush_persists\<close> is proved once for every
  backend that satisfies the contract \<open>object_store\<close>.
\<close>

section \<open>Data\<close>

datatype flush_reason = Timer | Forced

record dir_state =
  ds_manifest :: manifest
  ds_written_fingerprint :: "u64 option"
  ds_last_change :: nat
  ds_dirty :: bool

record flush_candidate =
  fc_dir :: string
  fc_fingerprint :: u64
  fc_written_fingerprint :: "u64 option"
  fc_since_change :: nat

record manifest_store =
  ms_inner :: "(string \<times> dir_state) list"
  ms_interval_ms :: u64

record 'w env =
  ev_lib :: crypto_lib
  ev_json :: json_lib
  ev_backend :: "'w backend"
  ev_rnd :: "nat \<Rightarrow> bytes"

record 'w ctx =
  cx_store :: manifest_store
  cx_world :: 'w
  cx_now :: nat
  cx_rng :: nat

text \<open>A backend call made from within an operation.\<close>

definition onw :: "('w, 'a) sr \<Rightarrow> ('w ctx, 'a) sr" where
  "onw f s = (case f (cx_world s) of (w, r) \<Rightarrow> (s\<lparr>cx_world := w\<rparr>, r))"

section \<open>Operations\<close>

definition FlushPlan_select :: "flush_reason \<Rightarrow> nat \<Rightarrow> flush_candidate list \<Rightarrow> string list" where
  "FlushPlan_select reason interval candidates =
     map fc_dir (filter (\<lambda>c.
       let changed = Some (fc_fingerprint c) \<noteq> fc_written_fingerprint c;
           quiet_enough = (reason = Forced \<or> interval \<le> fc_since_change c)
       in changed \<and> quiet_enough) candidates)"

definition ManifestStore_new :: "u64 \<Rightarrow> manifest_store" where
  "ManifestStore_new interval_ms = \<lparr>ms_inner = [], ms_interval_ms = interval_ms\<rparr>"

definition set_interval :: "u64 \<Rightarrow> manifest_store \<Rightarrow> manifest_store" where
  "set_interval interval_ms s = s\<lparr>ms_interval_ms := interval_ms\<rparr>"

definition interval :: "manifest_store \<Rightarrow> u64" where
  "interval s = max (ms_interval_ms s) 1"

definition manifest_object_key :: "string \<Rightarrow> string" where
  "manifest_object_key dir = (if dir = [] then MANIFEST_KEY else dir @ MANIFEST_KEY)"

definition ms_get :: "manifest_store \<Rightarrow> string \<Rightarrow> dir_state option" where
  "ms_get s dir = map_of (ms_inner s) dir"

definition ms_put :: "string \<Rightarrow> dir_state \<Rightarrow> manifest_store \<Rightarrow> manifest_store" where
  "ms_put dir d s = s\<lparr>ms_inner := AList.update dir d (ms_inner s)\<rparr>"

definition forget :: "string \<Rightarrow> manifest_store \<Rightarrow> manifest_store" where
  "forget dir s = s\<lparr>ms_inner := AList.delete dir (ms_inner s)\<rparr>"

text \<open>\<open>fingerprint().ok()\<close>\<close>

definition fp_ok :: "json_lib \<Rightarrow> manifest \<Rightarrow> u64 option" where
  "fp_ok J m = (case fingerprint J m of Inl _ \<Rightarrow> None | Inr fp \<Rightarrow> Some fp)"

text \<open>The end of \<open>load\<close>, under the lock: \<open>entry(dir).or_insert_with(..)\<close>.\<close>

definition load_insert :: "json_lib \<Rightarrow> string \<Rightarrow> manifest \<Rightarrow> nat \<Rightarrow> manifest_store \<Rightarrow> manifest_store \<times> manifest" where
  "load_insert J dir m now s =
     (case ms_get s dir of
        Some d \<Rightarrow> (s, ds_manifest d)
      | None \<Rightarrow> (ms_put dir \<lparr>ds_manifest = m, ds_written_fingerprint = fp_ok J m,
                  ds_last_change = now, ds_dirty = False\<rparr> s, m))"

definition load :: "'w env \<Rightarrow> vault_keys \<Rightarrow> string \<Rightarrow> ('w ctx, manifest) sr" where
  "load E keys dir s =
     (case ms_get (cx_store s) dir of
        Some d \<Rightarrow> (s, Inr (ds_manifest d))
      | None \<Rightarrow>
          sbind (onw (be_get (ev_backend E) (manifest_object_key dir))) (\<lambda>fetched.
          sbind (slift (case fetched of
              Some blob \<Rightarrow> Manifest_decrypt (ev_lib E) (ev_json E) keys blob
            | None \<Rightarrow> Inr Manifest_default)) (\<lambda>m s'.
          case load_insert (ev_json E) dir m (cx_now s') (cx_store s') of
            (st, m') \<Rightarrow> (s'\<lparr>cx_store := st\<rparr>, Inr m'))) s)"

text \<open>The locked section of \<open>edit\<close>.\<close>

definition edit_dir :: "string \<Rightarrow> (manifest \<Rightarrow> manifest) \<Rightarrow> nat \<Rightarrow> manifest_store \<Rightarrow> manifest_store" where
  "edit_dir dir f now s =
     (case ms_get s dir of
        None \<Rightarrow> s
      | Some d \<Rightarrow> ms_put dir (d\<lparr>ds_manifest := f (ds_manifest d), ds_last_change := now, ds_dirty := True\<rparr>) s)"

definition edit :: "'w env \<Rightarrow> vault_keys \<Rightarrow> string \<Rightarrow> (manifest \<Rightarrow> manifest) \<Rightarrow> ('w ctx, unit) sr" where
  "edit E keys dir f =
     sbind (load E keys dir) (\<lambda>_ s. (s\<lparr>cx_store := edit_dir dir f (cx_now s) (cx_store s)\<rparr>, Inr ()))"

definition flush_candidates :: "json_lib \<Rightarrow> nat \<Rightarrow> manifest_store \<Rightarrow> flush_candidate list" where
  "flush_candidates J now s =
     List.map_filter (\<lambda>(dir, d).
       if ds_dirty d
       then map_option (\<lambda>fp. \<lparr>fc_dir = dir, fc_fingerprint = fp,
          fc_written_fingerprint = ds_written_fingerprint d, fc_since_change = now - ds_last_change d\<rparr>)
          (fp_ok J (ds_manifest d))
       else None) (ms_inner s)"

text \<open>Phase 1: encrypt every chosen directory; a directory whose encryption fails is skipped.\<close>

fun snapshot_loop ::
  "'w env \<Rightarrow> vault_keys \<Rightarrow> string list \<Rightarrow> manifest_store \<Rightarrow> nat \<Rightarrow> flush_candidate list \<Rightarrow>
     nat \<times> (string \<times> bytes \<times> u64) list" where
  "snapshot_loop E keys chosen s rng [] = (rng, [])"
| "snapshot_loop E keys chosen s rng (c # cs) =
     (if fc_dir c \<in> set chosen
      then (case ms_get s (fc_dir c) of
          None \<Rightarrow> snapshot_loop E keys chosen s rng cs
        | Some d \<Rightarrow>
            (case Manifest_encrypt (ev_lib E) (ev_json E) keys (ev_rnd E rng) (ds_manifest d) of
               Inl _ \<Rightarrow> snapshot_loop E keys chosen s (Suc rng) cs
             | Inr blob \<Rightarrow>
                 (case snapshot_loop E keys chosen s (Suc rng) cs of
                    (rng', out) \<Rightarrow> (rng', (fc_dir c, blob, fc_fingerprint c) # out))))
      else snapshot_loop E keys chosen s rng cs)"

definition flush_snapshot ::
  "'w env \<Rightarrow> vault_keys \<Rightarrow> flush_reason \<Rightarrow> 'w ctx \<Rightarrow> 'w ctx \<times> (string \<times> bytes \<times> u64) list" where
  "flush_snapshot E keys reason s =
     (let cands = flush_candidates (ev_json E) (cx_now s) (cx_store s);
          chosen = FlushPlan_select reason (unat (interval (cx_store s))) cands
      in case snapshot_loop E keys chosen (cx_store s) (cx_rng s) cands of
           (rng, out) \<Rightarrow> (s\<lparr>cx_rng := rng\<rparr>, out))"

text \<open>Phase 3: record one write.\<close>

definition flush_record :: "json_lib \<Rightarrow> string \<Rightarrow> u64 \<Rightarrow> manifest_store \<Rightarrow> manifest_store" where
  "flush_record J dir fp s =
     (case ms_get s dir of
        None \<Rightarrow> s
      | Some d \<Rightarrow> ms_put dir (d\<lparr>ds_written_fingerprint := Some fp,
          ds_dirty := (if fp_ok J (ds_manifest d) = Some fp then False else ds_dirty d)\<rparr>) s)"

fun flush_writes :: "'w env \<Rightarrow> nat \<Rightarrow> (string \<times> bytes \<times> u64) list \<Rightarrow> ('w ctx, nat) sr" where
  "flush_writes E written [] = sret written"
| "flush_writes E written ((dir, blob, fp) # rest) =
     sbind (onw (be_put (ev_backend E) (manifest_object_key dir) blob)) (\<lambda>_ s.
       flush_writes E (Suc written) rest
         (s\<lparr>cx_store := flush_record (ev_json E) dir fp (cx_store s)\<rparr>))"

definition flush :: "'w env \<Rightarrow> vault_keys \<Rightarrow> flush_reason \<Rightarrow> ('w ctx, nat) sr" where
  "flush E keys reason s =
     (case flush_snapshot E keys reason s of (s', to_write) \<Rightarrow> flush_writes E 0 to_write s')"

text \<open>The locked section of \<open>take_entry\<close>: the directory becomes dirty only if something was taken.\<close>

definition take_dir :: "crypto_lib \<Rightarrow> string \<Rightarrow> string \<Rightarrow> nat \<Rightarrow> manifest_store \<Rightarrow> manifest_store \<times> entry option" where
  "take_dir L dir seg now s =
     (case ms_get s dir of
        None \<Rightarrow> (s, None)
      | Some d \<Rightarrow>
          (case take_entry L seg (ds_manifest d) of
             (m, None) \<Rightarrow> (ms_put dir (d\<lparr>ds_manifest := m\<rparr>) s, None)
           | (m, Some e) \<Rightarrow>
               (ms_put dir (d\<lparr>ds_manifest := m, ds_last_change := now, ds_dirty := True\<rparr>) s, Some e)))"

definition store_take_entry :: "'w env \<Rightarrow> vault_keys \<Rightarrow> string \<Rightarrow> string \<Rightarrow> ('w ctx, entry option) sr" where
  "store_take_entry E keys dir seg =
     sbind (load E keys dir) (\<lambda>_ s.
       case take_dir (ev_lib E) dir seg (cx_now s) (cx_store s) of
         (st, e) \<Rightarrow> (s\<lparr>cx_store := st\<rparr>, Inr e))"

definition store_insert_entry :: "'w env \<Rightarrow> vault_keys \<Rightarrow> string \<Rightarrow> string \<Rightarrow> entry \<Rightarrow> ('w ctx, unit) sr" where
  "store_insert_entry E keys dir seg e = edit E keys dir (insert_entry (ev_lib E) seg e)"

section \<open>The buffer keeps records under directory prefixes\<close>

interpretation buffer: keyed_map ms_get ms_put forget
  by unfold_locales (auto simp: ms_get_def ms_put_def forget_def update_conv' delete_conv' fun_upd_def)

lemma ms_inner_wf:
  "distinct (map fst (ms_inner s)) \<Longrightarrow> distinct (map fst (ms_inner (ms_put dir d s)))"
  "distinct (map fst (ms_inner s)) \<Longrightarrow> distinct (map fst (ms_inner (forget dir s)))"
  by (simp_all add: ms_put_def forget_def distinct_update distinct_delete)

lemma manifest_object_key_inj: "manifest_object_key a = manifest_object_key b \<longleftrightarrow> a = b"
  by (auto simp: manifest_object_key_def)

section \<open>The machine of locked sections\<close>

datatype store_event =
    LoadInsert string manifest nat
  | Edit string "manifest \<Rightarrow> manifest" nat
  | Take string string nat
  | Record string u64
  | Forget string

fun store_step :: "crypto_lib \<times> json_lib \<Rightarrow> manifest_store \<Rightarrow> store_event \<Rightarrow> manifest_store" where
  "store_step (L, J) s (LoadInsert dir m now) = fst (load_insert J dir m now s)"
| "store_step (L, J) s (Edit dir f now) = edit_dir dir f now s"
| "store_step (L, J) s (Take dir seg now) = fst (take_dir L dir seg now s)"
| "store_step (L, J) s (Record dir fp) = flush_record J dir fp s"
| "store_step (L, J) s (Forget dir) = forget dir s"

definition dir_ok :: "json_lib \<Rightarrow> dir_state \<Rightarrow> bool" where
  "dir_ok J d \<longleftrightarrow> (\<not> ds_dirty d \<longrightarrow> ds_written_fingerprint d = fp_ok J (ds_manifest d))"

definition store_ok :: "json_lib \<Rightarrow> manifest_store \<Rightarrow> bool" where
  "store_ok J s \<longleftrightarrow> distinct (map fst (ms_inner s)) \<and> (\<forall>dir d. ms_get s dir = Some d \<longrightarrow> dir_ok J d)"

lemma store_ok_put: "store_ok J s \<Longrightarrow> dir_ok J d \<Longrightarrow> store_ok J (ms_put dir d s)"
  by (auto simp: store_ok_def ms_inner_wf buffer.look_put)

lemma store_ok_forget: "store_ok J s \<Longrightarrow> store_ok J (forget dir s)"
  by (auto simp: store_ok_def ms_inner_wf buffer.look_del)

lemma store_okD: "store_ok J s \<Longrightarrow> ms_get s dir = Some d \<Longrightarrow> dir_ok J d"
  by (auto simp: store_ok_def)

lemma take_entry_None: "take_entry L seg m = (m', None) \<Longrightarrow> m' = m"
proof -
  assume "take_entry L seg m = (m', None)"
  then have n: "man_files m (hash_entry L seg) = None" "man_folders m (hash_entry L seg) = None"
    and m': "m' = folders_remove (hash_entry L seg) (files_remove (hash_entry L seg) m)"
    by (auto simp: take_entry_def take_file_def take_folder_def Let_def split: option.splits)
      (simp_all add: manifest_prims)
  then show "m' = m" by (simp add: manifest_prims fun_upd_idem)
qed

text \<open>
  A write is recorded on a directory that is still dirty, or whose content is the written one, or
  that has left the buffer. The source relies on this without enforcing it: it holds as long as
  no two flushes overlap on a directory.
\<close>

fun store_enabled :: "json_lib \<Rightarrow> manifest_store \<Rightarrow> store_event \<Rightarrow> bool" where
  "store_enabled J s (Record dir fp) =
     (case ms_get s dir of None \<Rightarrow> True | Some d \<Rightarrow> ds_dirty d \<or> fp_ok J (ds_manifest d) = Some fp)"
| "store_enabled J s _ = True"

interpretation store: inv_machine "store_step (L, J)" "store_ok J" "store_enabled J" for L J
proof
  fix s e
  assume ok: "store_ok J s" and en: "store_enabled J s e"
  show "store_ok J (store_step (L, J) s e)"
  proof (cases e)
    case (LoadInsert dir m now)
    with ok show ?thesis
      by (auto simp: load_insert_def dir_ok_def intro!: store_ok_put split: option.splits)
  next
    case (Edit dir f now)
    with ok show ?thesis
      by (auto simp: edit_dir_def dir_ok_def intro!: store_ok_put split: option.splits)
  next
    case (Take dir seg now)
    then show ?thesis
    proof (cases "ms_get s dir")
      case (Some d)
      obtain m' r where t: "take_entry L seg (ds_manifest d) = (m', r)" by fastforce
      have "dir_ok J (d\<lparr>ds_manifest := m'\<rparr>)" if "r = None"
      proof -
        have "m' = ds_manifest d" using take_entry_None t that by blast
        then show ?thesis using store_okD [OF ok Some] by (simp add: dir_ok_def)
      qed
      with Take Some t ok show ?thesis
        by (cases r) (auto simp: take_dir_def dir_ok_def intro!: store_ok_put)
    qed (simp add: take_dir_def ok)
  next
    case (Record dir fp)
    with ok en show ?thesis
      by (auto simp: flush_record_def dir_ok_def dest: store_okD intro!: store_ok_put
          split: option.splits)
  next
    case (Forget dir)
    with ok show ?thesis by (simp add: store_ok_forget)
  qed
qed

section \<open>What a flush writes\<close>

text \<open>What encryption and serialisation of the session's manifests rely on.\<close>

definition env_ok :: "'w env \<Rightarrow> vault_keys \<Rightarrow> bool" where
  "env_ok E keys \<longleftrightarrow> aead_correct (ev_lib E) \<and> aead_total (ev_lib E) \<and> json_correct (ev_json E) \<and>
     keys_wf keys \<and> (\<forall>i. length (ev_rnd E i) = PREFIX_LEN)"

definition storable :: "json_lib \<Rightarrow> manifest \<Rightarrow> bool" where
  "storable J m \<longleftrightarrow> extra_ok m \<and> (case to_vec J m of None \<Rightarrow> False | Some j \<Rightarrow> length j \<le> 2 ^ 51)"

lemma encrypt_bytes_total:
  assumes "aead_correct L" "aead_total L" "keys_wf keys" "length prefix = PREFIX_LEN" "length data \<le> 2 ^ 51"
  shows "\<exists>blob. encrypt_bytes L keys prefix data = Inr blob \<and> decrypt_bytes L keys blob = Inr data"
proof -
  have "n_chunks (length data) \<le> length data div CHUNK + 1" by (rule n_chunks_le)
  also have "\<dots> \<le> 2 ^ 31 + 1" using div_le_mono [OF assms(5), of CHUNK] by (simp add: CHUNK_def)
  finally have n: "n_chunks (length data) < 2 ^ 32" by simp
  obtain cts where "sealed L (vk_content keys) prefix 0 (file_chunks data) = Some cts"
    using sealed_total assms unfolding keys_wf_def by blast
  then have "encrypt_bytes L keys prefix data = Inr (MAGIC @ prefix @ concat cts)"
    by (simp add: encrypt_bytes_sealed [OF n])
  moreover from content.dec_enc [OF _ this] have "decrypt_bytes L keys (MAGIC @ prefix @ concat cts) = Inr data"
    using assms by simp
  ultimately show ?thesis by blast
qed

lemma Manifest_encrypt_total:
  assumes "env_ok E keys" "storable (ev_json E) m"
  shows "\<exists>blob. Manifest_encrypt (ev_lib E) (ev_json E) keys (ev_rnd E i) m = Inr blob \<and>
    Manifest_decrypt (ev_lib E) (ev_json E) keys blob = Inr m"
proof -
  from assms(2) obtain j where j: "to_vec (ev_json E) m = Some j" "length j \<le> 2 ^ 51" and x: "extra_ok m"
    by (auto simp: storable_def split: option.splits)
  from assms(1) j(2) obtain blob where "encrypt_bytes (ev_lib E) keys (ev_rnd E i) j = Inr blob"
    "decrypt_bytes (ev_lib E) keys blob = Inr j"
    using encrypt_bytes_total unfolding env_ok_def by blast
  with j x assms(1) show ?thesis
    by (auto simp: Manifest_encrypt_def Manifest_decrypt_def env_ok_def json_correct_def)
qed

lemma snapshot_loop_chosen:
  assumes "env_ok E keys" "c \<in> set cs" "fc_dir c \<in> set chosen" "ms_get s (fc_dir c) = Some d"
    and "storable (ev_json E) (ds_manifest d)"
  shows "\<exists>blob. (fc_dir c, blob, fc_fingerprint c) \<in> set (snd (snapshot_loop E keys chosen s rng cs)) \<and>
    Manifest_decrypt (ev_lib E) (ev_json E) keys blob = Inr (ds_manifest d)"
  using assms(2)
proof (induction cs arbitrary: rng)
  case (Cons c' cs)
  show ?case
  proof (cases "c' = c")
    case True
    obtain blob where "Manifest_encrypt (ev_lib E) (ev_json E) keys (ev_rnd E rng) (ds_manifest d) = Inr blob"
      "Manifest_decrypt (ev_lib E) (ev_json E) keys blob = Inr (ds_manifest d)"
      using Manifest_encrypt_total [OF assms(1,5)] by blast
    with True assms(3,4) show ?thesis by (auto split: prod.splits)
  next
    case False
    with Cons have IH: "\<exists>blob. (fc_dir c, blob, fc_fingerprint c) \<in> set (snd (snapshot_loop E keys chosen s r cs)) \<and>
        Manifest_decrypt (ev_lib E) (ev_json E) keys blob = Inr (ds_manifest d)" for r by auto
    show ?thesis using IH [of rng] IH [of "Suc rng"]
      by (fastforce split: prod.splits option.splits sum.splits)
  qed
qed simp

lemma snapshot_loop_mem:
  "(dir, blob, fp) \<in> set (snd (snapshot_loop E keys chosen s rng cs)) \<Longrightarrow>
     dir \<in> set chosen \<and> dir \<in> fc_dir ` set cs"
proof (induction cs arbitrary: rng)
  case (Cons c cs)
  show ?case using Cons.IH [of rng] Cons.IH [of "Suc rng"] Cons.prems
    by (auto split: prod.splits option.splits sum.splits if_splits)
qed simp

lemma snapshot_loop_distinct:
  "distinct (map fc_dir cs) \<Longrightarrow> distinct (map fst (snd (snapshot_loop E keys chosen s rng cs)))"
proof (induction cs arbitrary: rng)
  case (Cons c cs)
  have "fc_dir c \<notin> fst ` set (snd (snapshot_loop E keys chosen s r cs))" for r
    using snapshot_loop_mem [of _ _ _ E keys chosen s r cs] Cons.prems by auto
  from this [of "Suc rng"] Cons.IH [of rng] Cons.IH [of "Suc rng"] Cons.prems show ?case
    by (auto split: prod.splits option.splits sum.splits)
qed simp

lemma flush_candidates_mem:
  assumes "store_ok J s" "ms_get s dir = Some d" "ds_dirty d" "fp_ok J (ds_manifest d) = Some fp"
  shows "\<lparr>fc_dir = dir, fc_fingerprint = fp, fc_written_fingerprint = ds_written_fingerprint d,
    fc_since_change = now - ds_last_change d\<rparr> \<in> set (flush_candidates J now s)"
proof -
  have "(dir, d) \<in> set (ms_inner s)" using assms(2) by (auto simp: ms_get_def dest: map_of_SomeD)
  with assms(3,4) show ?thesis by (force simp: flush_candidates_def List.map_filter_def)
qed

lemma flush_candidates_dirty:
  assumes "distinct (map fst (ms_inner s))" "c \<in> set (flush_candidates J now s)"
  shows "\<exists>d. ms_get s (fc_dir c) = Some d \<and> ds_dirty d"
proof -
  from assms(2) obtain dir d where "(dir, d) \<in> set (ms_inner s)" "ds_dirty d" "fc_dir c = dir"
    by (auto simp: flush_candidates_def List.map_filter_def split: if_splits)
  with assms(1) show ?thesis by (auto simp: ms_get_def)
qed

lemma flush_candidates_distinct:
  "distinct (map fst (ms_inner s)) \<Longrightarrow> distinct (map fc_dir (flush_candidates J now s))"
proof -
  have sub: "fc_dir ` set (List.map_filter (\<lambda>(dir, d). if ds_dirty d then map_option (\<lambda>fp. \<lparr>fc_dir = dir, fc_fingerprint = fp,
          fc_written_fingerprint = ds_written_fingerprint d, fc_since_change = now - ds_last_change d\<rparr>)
          (fp_ok J (ds_manifest d)) else None) xs) \<subseteq> fst ` set xs" for xs
    by (auto simp: List.map_filter_def split: if_splits) force
  have "distinct (map fst xs) \<Longrightarrow> distinct (map fc_dir (List.map_filter (\<lambda>(dir, d). if ds_dirty d then map_option (\<lambda>fp. \<lparr>fc_dir = dir, fc_fingerprint = fp,
          fc_written_fingerprint = ds_written_fingerprint d, fc_since_change = now - ds_last_change d\<rparr>)
          (fp_ok J (ds_manifest d)) else None) xs))" for xs
  proof (induction xs)
    case (Cons x xs)
    then show ?case using sub [of xs]
      by (auto simp: List.map_filter_simps split: option.splits prod.splits if_splits) force
  qed (simp add: List.map_filter_simps)
  then show "distinct (map fst (ms_inner s)) \<Longrightarrow> distinct (map fc_dir (flush_candidates J now s))"
    by (simp add: flush_candidates_def)
qed

lemma onw_apply: "onw f s = (s\<lparr>cx_world := fst (f (cx_world s))\<rparr>, snd (f (cx_world s)))"
  by (simp add: onw_def split: prod.splits)

text \<open>The buffer after phases 2 and 3 of a flush that nothing interleaves with.\<close>

definition record_all :: "json_lib \<Rightarrow> (string \<times> bytes \<times> u64) list \<Rightarrow> manifest_store \<Rightarrow> manifest_store" where
  "record_all J ws s = foldl (\<lambda>st (dir, blob, fp). flush_record J dir fp st) s ws"

lemma flush_record_other: "dir' \<noteq> dir \<Longrightarrow> ms_get (flush_record J dir fp s) dir' = ms_get s dir'"
  by (auto simp: flush_record_def buffer.look_put split: option.splits)

lemma record_all_other: "dir \<notin> fst ` set ws \<Longrightarrow> ms_get (record_all J ws s) dir = ms_get s dir"
proof (induction ws arbitrary: s)
  case (Cons w ws)
  then show ?case by (cases w) (simp add: record_all_def flush_record_other)
qed (simp add: record_all_def)

lemma record_all_clean:
  assumes "(dir, blob, fp) \<in> set ws" "distinct (map fst ws)" "ms_get s dir = Some d"
    and "fp_ok J (ds_manifest d) = Some fp"
  shows "ms_get (record_all J ws s) dir = Some (d\<lparr>ds_written_fingerprint := Some fp, ds_dirty := False\<rparr>)"
  using assms
proof (induction ws arbitrary: s)
  case (Cons w ws)
  obtain dir' blob' fp' where w: "w = (dir', blob', fp')" by (cases w)
  show ?case
  proof (cases "dir' = dir")
    case True
    with Cons.prems have "blob' = blob" "fp' = fp" "dir \<notin> fst ` set ws" by (force simp: w)+
    then show ?thesis using Cons.prems True record_all_other [of dir ws J "flush_record J dir fp s"]
      by (simp add: w record_all_def flush_record_def buffer.look_put)
  next
    case False
    with Cons.prems Cons.IH [of "flush_record J dir' fp' s"] show ?thesis
      by (simp add: w record_all_def flush_record_other)
  qed
qed simp

lemma object_key_manifest: "object_key (manifest_object_key dir)"
  by (simp add: object_key_def manifest_object_key_def MANIFEST_KEY_def ends_with_def)

context object_store
begin

lemma flush_writes_persist:
  assumes "ev_backend E = B" "ok (cx_world s)" "distinct (map fst ws)"
    and "flush_writes E n ws s = (s', Inr k)"
  shows "ok (cx_world s') \<and> k = n + length ws \<and> cx_store s' = record_all (ev_json E) ws (cx_store s) \<and>
    (\<forall>dir blob fp. (dir, blob, fp) \<in> set ws \<longrightarrow> abs (cx_world s') (manifest_object_key dir) = Some blob) \<and>
    (\<forall>key. object_key key \<longrightarrow> key \<notin> manifest_object_key ` fst ` set ws \<longrightarrow> abs (cx_world s') key = abs (cx_world s) key)"
  using assms(2-)
proof (induction ws arbitrary: n s)
  case Nil
  then show ?case by (simp add: sret_def record_all_def)
next
  case (Cons x ws)
  obtain dir blob fp where x: "x = (dir, blob, fp)" by (cases x)
  obtain w1 u where p: "be_put B (manifest_object_key dir) blob (cx_world s) = (w1, u)" by fastforce
  let ?s1 = "s\<lparr>cx_world := w1, cx_store := flush_record (ev_json E) dir fp (cx_store s)\<rparr>"
  have u: "u = Inr ()" and fl: "flush_writes E (Suc n) ws ?s1 = (s', Inr k)"
    using Cons.prems(3) p assms(1) by (auto simp: x sbind_apply onw_apply split: sum.splits)
  note P = put_law [OF Cons.prems(1) object_key_manifest p]
  have IH: "ok (cx_world s') \<and> k = Suc n + length ws \<and>
    cx_store s' = record_all (ev_json E) ws (cx_store ?s1) \<and>
    (\<forall>dir blob fp. (dir, blob, fp) \<in> set ws \<longrightarrow> abs (cx_world s') (manifest_object_key dir) = Some blob) \<and>
    (\<forall>key. object_key key \<longrightarrow> key \<notin> manifest_object_key ` fst ` set ws \<longrightarrow> abs (cx_world s') key = abs (cx_world ?s1) key)"
    by (rule Cons.IH [OF _ _ fl]) (use P Cons.prems(2) in simp_all)
  have "manifest_object_key dir \<notin> manifest_object_key ` fst ` set ws"
    using Cons.prems(2) by (simp add: x manifest_object_key_inj image_iff [where f = manifest_object_key])
  with IH P u show ?case by (auto simp: x record_all_def object_key_manifest)
qed

lemma flush_persists:
  assumes "ev_backend E = B" "ok (cx_world s)" "env_ok E keys" "store_ok (ev_json E) (cx_store s)"
    and "flush E keys Forced s = (s', Inr k)"
    and "ms_get (cx_store s) dir = Some d" "ds_dirty d" "storable (ev_json E) (ds_manifest d)"
    and "fp_ok (ev_json E) (ds_manifest d) \<noteq> ds_written_fingerprint d"
  shows "\<exists>blob. abs (cx_world s') (manifest_object_key dir) = Some blob \<and>
    Manifest_decrypt (ev_lib E) (ev_json E) keys blob = Inr (ds_manifest d) \<and>
    (\<exists>d'. ms_get (cx_store s') dir = Some d' \<and> ds_manifest d' = ds_manifest d \<and> \<not> ds_dirty d')"
proof -
  let ?J = "ev_json E"
  let ?cs = "flush_candidates ?J (cx_now s) (cx_store s)"
  let ?ch = "FlushPlan_select Forced (unat (interval (cx_store s))) ?cs"
  obtain fp where fp: "fp_ok ?J (ds_manifest d) = Some fp"
    using assms(8) by (auto simp: fp_ok_def fingerprint_def storable_def split: option.splits)
  let ?c = "\<lparr>fc_dir = dir, fc_fingerprint = fp, fc_written_fingerprint = ds_written_fingerprint d,
    fc_since_change = cx_now s - ds_last_change d\<rparr>"
  have c: "?c \<in> set ?cs" by (rule flush_candidates_mem [OF assms(4,6,7) fp])
  then have ch: "dir \<in> set ?ch" using assms(9) fp by (force simp: FlushPlan_select_def Let_def)
  obtain rng ws where sn: "snapshot_loop E keys ?ch (cx_store s) (cx_rng s) ?cs = (rng, ws)" by fastforce
  from snapshot_loop_chosen [OF assms(3) c, of ?ch "cx_store s" d "cx_rng s"] ch assms(6,8) sn
  obtain blob where b: "(dir, blob, fp) \<in> set ws"
    and dec: "Manifest_decrypt (ev_lib E) ?J keys blob = Inr (ds_manifest d)" by auto
  have dist: "distinct (map fst ws)"
    using snapshot_loop_distinct [OF flush_candidates_distinct, of "cx_store s" E keys ?ch "cx_store s" "cx_rng s" ?J "cx_now s"]
      assms(4) sn by (simp add: store_ok_def)
  have "flush_writes E 0 ws (s\<lparr>cx_rng := rng\<rparr>) = (s', Inr k)"
    using assms(5) sn by (simp add: flush_def flush_snapshot_def Let_def)
  from flush_writes_persist [OF assms(1) _ dist this] assms(2)
  have "cx_store s' = record_all ?J ws (cx_store s)"
    and "abs (cx_world s') (manifest_object_key dir) = Some blob" using b by auto
  with dec record_all_clean [OF b dist assms(6) fp] show ?thesis by auto
qed

end

section \<open>Properties of the buffer\<close>

text \<open>
  C10. No flush loses an edit made while it runs: take a flush that snapshotted a dirty directory
  and is writing it over the network while other tasks load, edit, move entries in this or
  other directories. When the write is recorded, the buffer still satisfies its invariant, and
  if the directory's content is by then another one, it stays dirty and the next forced flush
  writes it.
\<close>

theorem edits_during_flush_survive:
  assumes "store_ok J s" "ms_get s dir = Some d" "ds_dirty d"
    and "\<forall>e \<in> set es. case e of Record _ _ \<Rightarrow> False | Forget _ \<Rightarrow> False | _ \<Rightarrow> True"
  shows "\<exists>d'. ms_get (foldl (store_step (L, J)) s es) dir = Some d' \<and>
    store_ok J (flush_record J dir fp (foldl (store_step (L, J)) s es)) \<and>
    (case fp_ok J (ds_manifest d') of
       None \<Rightarrow> True
     | Some fp' \<Rightarrow> fp' = fp \<or>
         dir \<in> set (FlushPlan_select Forced iv
           (flush_candidates J now (flush_record J dir fp (foldl (store_step (L, J)) s es)))))"
proof -
  let ?s = "foldl (store_step (L, J)) s es"
  have dirty: "\<exists>d'. ms_get ?s dir = Some d' \<and> ds_dirty d'"
    using assms(2-)
  proof (induction es arbitrary: s d)
    case (Cons e es)
    have "\<exists>d'. ms_get (store_step (L, J) s e) dir = Some d' \<and> ds_dirty d'"
      using Cons.prems
      by (cases e) (auto simp: load_insert_def edit_dir_def take_dir_def buffer.look_put
          split: option.splits prod.splits)
    with Cons show ?case by auto
  qed auto
  then obtain d' where d': "ms_get ?s dir = Some d'" "ds_dirty d'" by blast
  have adm: "store.admissible L J s es"
    using assms(4) by (induction es arbitrary: s) (auto split: store_event.splits)
  have ok: "store_ok J ?s" by (rule store.run_inv [OF assms(1) adm])
  have ok': "store_ok J (flush_record J dir fp ?s)"
    using store.step_inv [OF ok, of "Record dir fp" L] d' by simp
  have "dir \<in> set (FlushPlan_select Forced iv (flush_candidates J now (flush_record J dir fp ?s)))"
    if f: "fp_ok J (ds_manifest d') = Some fp'" "fp' \<noteq> fp" for fp'
  proof -
    let ?d = "d'\<lparr>ds_written_fingerprint := Some fp\<rparr>"
    have "ms_get (flush_record J dir fp ?s) dir = Some ?d"
      using d' f by (simp add: flush_record_def buffer.look_put)
    from flush_candidates_mem [OF ok' this, of fp' now] d' f show ?thesis
      by (force simp: FlushPlan_select_def Let_def)
  qed
  then show ?thesis using d' ok' by (auto split: option.splits)
qed

lemma ref_store_ok:
  "store_ok ref_json (ms_put [] \<lparr>ds_manifest = sample_manifest, ds_written_fingerprint = Some 1,
     ds_last_change = 0, ds_dirty = True\<rparr> (ManifestStore_new 10))"
  by (rule store_ok_put) (auto simp: store_ok_def ManifestStore_new_def ms_get_def dir_ok_def)

theorem edits_during_flush_survive_witness:
  "\<exists>d'. ms_get (foldl (store_step (ref_lib, ref_json))
      (ms_put [] \<lparr>ds_manifest = sample_manifest, ds_written_fingerprint = Some 1,
         ds_last_change = 0, ds_dirty = True\<rparr> (ManifestStore_new 10)) [Edit [] (\<lambda>m. Manifest_default) 5]) [] = Some d' \<and>
    store_ok ref_json (flush_record ref_json [] 7 (foldl (store_step (ref_lib, ref_json))
      (ms_put [] \<lparr>ds_manifest = sample_manifest, ds_written_fingerprint = Some 1,
         ds_last_change = 0, ds_dirty = True\<rparr> (ManifestStore_new 10)) [Edit [] (\<lambda>m. Manifest_default) 5])) \<and>
    (case fp_ok ref_json (ds_manifest d') of
       None \<Rightarrow> True
     | Some fp' \<Rightarrow> fp' = 7 \<or>
         [] \<in> set (FlushPlan_select Forced 10
           (flush_candidates ref_json 20 (flush_record ref_json [] 7 (foldl (store_step (ref_lib, ref_json))
      (ms_put [] \<lparr>ds_manifest = sample_manifest, ds_written_fingerprint = Some 1,
         ds_last_change = 0, ds_dirty = True\<rparr> (ManifestStore_new 10)) [Edit [] (\<lambda>m. Manifest_default) 5])))))"
  by (rule edits_during_flush_survive [OF ref_store_ok, where d = "\<lparr>ds_manifest = sample_manifest,
      ds_written_fingerprint = Some 1, ds_last_change = 0, ds_dirty = True\<rparr>"]) (simp_all add: buffer.look_put)

text \<open>
  Two flushes that overlap on a directory can lose an update: flush A snapshots the
  directory, it is edited, flush B snapshots, writes and records the new content, and only then
  A's older write lands and is recorded. The directory is left clean while its recorded
  fingerprint is that of the older content, so no later flush, timed or forced, writes it
  again until the next edit.
\<close>

theorem overlapping_flushes_lose_update:
  assumes "distinct (map fst (ms_inner s))" "ms_get s dir = Some d"
    and "fp_ok J (f (ds_manifest d)) = Some fp_new" "fp_old \<noteq> fp_new"
  shows "\<exists>d'. ms_get (foldl (store_step (L, J)) s [Edit dir f t, Record dir fp_new, Record dir fp_old]) dir = Some d' \<and>
    ds_manifest d' = f (ds_manifest d) \<and> \<not> ds_dirty d' \<and> ds_written_fingerprint d' = Some fp_old \<and>
    dir \<notin> set (FlushPlan_select reason iv (flush_candidates J now
      (foldl (store_step (L, J)) s [Edit dir f t, Record dir fp_new, Record dir fp_old])))"
proof -
  define s' where "s' = foldl (store_step (L, J)) s [Edit dir f t, Record dir fp_new, Record dir fp_old]"
  let ?d1 = "d\<lparr>ds_manifest := f (ds_manifest d), ds_last_change := t, ds_dirty := True\<rparr>"
  let ?d2 = "?d1\<lparr>ds_written_fingerprint := Some fp_new, ds_dirty := False\<rparr>"
  let ?d3 = "?d1\<lparr>ds_written_fingerprint := Some fp_old, ds_dirty := False\<rparr>"
  have s': "s' = ms_put dir ?d3 (ms_put dir ?d2 (ms_put dir ?d1 s))"
    using assms by (simp add: s'_def edit_dir_def flush_record_def buffer.look_put)
  have "distinct (map fst (ms_inner s'))" unfolding s' using assms(1) by (intro ms_inner_wf(1))
  moreover have g: "ms_get s' dir = Some ?d3" by (simp add: s' buffer.look_put)
  ultimately have "c \<notin> set (flush_candidates J now s')" if "fc_dir c = dir" for c
    using flush_candidates_dirty [of s' c J now] that by auto
  then have "dir \<notin> set (FlushPlan_select reason iv (flush_candidates J now s'))"
    by (auto simp: FlushPlan_select_def)
  with g show ?thesis unfolding s'_def [symmetric] by simp
qed

theorem overlapping_flushes_lose_update_witness:
  "\<exists>d'. ms_get (foldl (store_step (ref_lib, ref_json))
      (ms_put [] \<lparr>ds_manifest = Manifest_default, ds_written_fingerprint = None,
         ds_last_change = 0, ds_dirty = True\<rparr> (ManifestStore_new 10))
      [Edit [] (\<lambda>m. sample_manifest) 5, Record [] (fnv1a [2, 2]), Record [] (fnv1a [1])]) [] = Some d' \<and>
    ds_manifest d' = sample_manifest \<and> \<not> ds_dirty d' \<and> ds_written_fingerprint d' = Some (fnv1a [1]) \<and>
    [] \<notin> set (FlushPlan_select Forced 10 (flush_candidates ref_json 9 (foldl (store_step (ref_lib, ref_json))
      (ms_put [] \<lparr>ds_manifest = Manifest_default, ds_written_fingerprint = None,
         ds_last_change = 0, ds_dirty = True\<rparr> (ManifestStore_new 10))
      [Edit [] (\<lambda>m. sample_manifest) 5, Record [] (fnv1a [2, 2]), Record [] (fnv1a [1])])))"
  by (rule overlapping_flushes_lose_update [where d = "\<lparr>ds_manifest = Manifest_default,
      ds_written_fingerprint = None, ds_last_change = 0, ds_dirty = True\<rparr>"])
    (simp_all add: buffer.look_put ms_put_def ManifestStore_new_def ms_get_def fp_ok_def fingerprint_def
      ref_json_sample fnv1a_def fnv_step_def)

text \<open>
  Idempotent edits cost no request: if every dirty directory has the content that was last
  written, a flush of either kind issues no write at all: it returns 0 and leaves the remote
  side and the buffer untouched.
\<close>

theorem flush_skips_unchanged:
  assumes "\<forall>(dir, d) \<in> set (ms_inner (cx_store s)).
    ds_dirty d \<longrightarrow> fp_ok (ev_json E) (ds_manifest d) = ds_written_fingerprint d"
  shows "flush E keys reason s = (s, Inr 0)"
proof -
  have "FlushPlan_select reason iv (flush_candidates (ev_json E) (cx_now s) (cx_store s)) = []" for iv
    using assms
    by (fastforce simp: FlushPlan_select_def flush_candidates_def List.map_filter_def Let_def filter_empty_conv
        split: if_splits)
  moreover have "snapshot_loop E keys [] st rng cs = (rng, [])" for st rng cs by (induction cs) auto
  ultimately show ?thesis by (simp add: flush_def flush_snapshot_def Let_def sret_def)
qed

theorem flush_skips_unchanged_witness:
  "flush (undefined\<lparr>ev_json := ref_json\<rparr>) ref_keys Forced
     \<lparr>cx_store = ms_put [] \<lparr>ds_manifest = sample_manifest, ds_written_fingerprint = Some (fnv1a [2, 2]),
        ds_last_change = 0, ds_dirty = True\<rparr> (ManifestStore_new 10), cx_world = (), cx_now = 0, cx_rng = 0\<rparr> =
   (\<lparr>cx_store = ms_put [] \<lparr>ds_manifest = sample_manifest, ds_written_fingerprint = Some (fnv1a [2, 2]),
        ds_last_change = 0, ds_dirty = True\<rparr> (ManifestStore_new 10), cx_world = (), cx_now = 0, cx_rng = 0\<rparr>, Inr 0)"
  by (rule flush_skips_unchanged)
    (simp add: ms_put_def ManifestStore_new_def fp_ok_def fingerprint_def ref_json_sample)

end
