(* ===== verification/SizesPaths.thy ===== *)
theory SizesPaths
  imports Crypto_Correct RateLimiter
begin

text \<open>
  The pure helpers of the worker (\<^verbatim>\<open>src/src/worker.rs\<close>): on-wire and plaintext sizes, the
  unit of the speed limits, and the local paths a download writes to.

  A relative path is the list of its components as \<open>std::path\<close> yields them on Unix; the theorem
  on \<open>sanitize_rel\<close> says that no object name, however hostile, leads outside the destination.
\<close>

section \<open>Sizes\<close>

definition mbps_to_bps :: "u64 \<Rightarrow> u64" where
  "mbps_to_bps mbps = saturating_mul mbps 125000"

definition wire_len :: "u64 \<Rightarrow> u64" where
  "wire_len plain =
     (let chunk = of_nat CHUNK; n = max ((plain + chunk - 1) div chunk) 1
      in of_nat HEADER_LEN + plain + n * of_nat TAG)"

definition plaintext_of_ciphertext :: "u64 \<Rightarrow> u64" where
  "plaintext_of_ciphertext cipher_len =
     (let hdr = of_nat HEADER_LEN; tag = of_nat TAG; chunk = of_nat CHUNK in
      case checked_sub cipher_len hdr of
        None \<Rightarrow> 0
      | Some body \<Rightarrow>
          if body < tag then 0
          else let cipher_chunk = chunk + tag;
                   full_chunks = body div cipher_chunk;
                   remainder = body mod cipher_chunk;
                   cs = full_chunks + (if 0 < remainder then 1 else 0)
               in saturating_sub body (max cs 1 * tag))"

lemma wire_len_eq_encrypted_size:
  assumes "unat plain \<le> max_plain"
  shows "wire_len plain = encrypted_size plain"
proof -
  let ?c = "0x100000 :: u64"
  have s: "unat (plain + ?c - 1) = unat plain + 0xFFFFF"
  proof -
    have "unat (0xFFFFF + plain) = unat (0xFFFFF :: u64) + unat plain"
      using assms by (subst unat_add_exact) (simp_all add: max_plain_def)
    then show ?thesis by simp
  qed
  have "unat ((plain + ?c - 1) div ?c) = (unat plain + 0x100000 - 1) div 0x100000"
    unfolding unat_div s by simp
  also have "\<dots> = ceil_div (unat plain) 0x100000" by (rule ceil_div_add) simp
  finally have d: "unat ((plain + ?c - 1) div ?c) = ceil_div (unat plain) CHUNK" by (simp add: CHUNK_def)
  have "max ((plain + ?c - 1) div ?c) 1 = (if plain = 0 then 1 else div_ceil plain ?c)"
  proof (cases "plain = 0")
    case False
    then have "0 < ceil_div (unat plain) CHUNK" by (intro ceil_div_pos) (auto simp: unat_gt_0)
    then have "1 \<le> (plain + ?c - 1) div ?c" unfolding word_le_nat_alt d by simp
    moreover have "(plain + ?c - 1) div ?c = div_ceil plain ?c"
      unfolding word_unat_eq_iff d by (simp add: unat_div_ceil CHUNK_def)
    ultimately show ?thesis using False by (simp add: max_def)
  qed simp
  then show ?thesis by (simp add: wire_len_def encrypted_size_def Let_def)
qed

lemma plaintext_of_encrypted:
  assumes "unat plain \<le> max_plain"
  shows "plaintext_of_ciphertext (encrypted_size plain) = plain"
proof -
  let ?p = "unat plain"
  let ?e = "encrypted_size plain"
  have e: "unat ?e = 24 + ?p + n_chunks ?p * 16"
    using unat_encrypted_size [OF assms] by (simp add: cipher_size_def)
  have le: "(24 :: u64) \<le> ?e" unfolding word_le_nat_alt e by simp
  have body: "unat (?e - 24) = ?p + n_chunks ?p * 16" using unat_sub_exact [OF le] e by simp
  have cs: "unat (div_ceil (?e - 24) 0x100010) = n_chunks ?p"
    using cipher_body_chunks [of ?p] by (simp add: unat_div_ceil body CIPHER_CHUNK_def CHUNK_def)
  have "n_chunks ?p \<le> max_plain div CHUNK + 1"
    using n_chunks_le [of ?p] div_le_mono [OF assms, of CHUNK] by linarith
  then have "n_chunks ?p * 16 < 2 ^ 64" by (simp add: max_plain_def CHUNK_def)
  then have m: "unat (div_ceil (?e - 24) 0x100010 * 16) = n_chunks ?p * 16"
    using cs by (subst unat_mult_exact) simp_all
  have mx: "max (div_ceil (?e - 24) 0x100010) 1 = div_ceil (?e - 24) 0x100010"
  proof -
    have "1 \<le> div_ceil (?e - 24) (0x100010 :: u64)"
      unfolding word_le_nat_alt cs using n_chunks_pos [of ?p] by (simp del: n_chunks_pos)
    then show ?thesis by simp
  qed
  have dc: "(?e - 24) div 0x100010 + (if 0 < (?e - 24) mod 0x100010 then 1 else 0) = div_ceil (?e - 24) 0x100010"
    by (simp add: div_ceil_def)
  have "\<not> ?e - 24 < 16" unfolding word_less_nat_alt body using n_chunks_pos [of ?p] by (simp del: n_chunks_pos)
  then have "plaintext_of_ciphertext ?e = saturating_sub (?e - 24) (div_ceil (?e - 24) 0x100010 * 16)"
    using le dc mx by (simp add: plaintext_of_ciphertext_def checked_sub_def Let_def)
  moreover have "unat (saturating_sub (?e - 24) (div_ceil (?e - 24) 0x100010 * 16)) = ?p"
    unfolding unat_saturating_sub body m by simp
  ultimately show ?thesis unfolding word_unat_eq_iff by simp
qed

text \<open>Sizes on the wire and back are a codec on every length that does not wrap.\<close>

interpretation wire_size: codec "\<lambda>p. Inr (wire_len p)" "\<lambda>c. Inr (plaintext_of_ciphertext c)"
  "\<lambda>p. unat p \<le> max_plain"
  by unfold_locales (auto simp: wire_len_eq_encrypted_size plaintext_of_encrypted)

text \<open>
  C38. The worker's size helpers agree with the file format: up to \<open>2 ^ 62\<close> bytes the size used
  for progress (\<open>wire_len\<close>) is \<open>encrypted_size\<close>, \<open>plaintext_of_ciphertext\<close> recovers the
  plaintext length from it, and two plaintext lengths never share a wire size.
\<close>

theorem wire_sizes_agree:
  assumes "unat a \<le> max_plain" "unat b \<le> max_plain"
  shows "wire_len a = encrypted_size a \<and> plaintext_of_ciphertext (encrypted_size a) = a \<and>
    (wire_len a = wire_len b \<longrightarrow> a = b)"
  using assms wire_len_eq_encrypted_size plaintext_of_encrypted wire_size.enc_injective [of a b] by simp

theorem wire_sizes_agree_witness:
  "wire_len 1048577 = encrypted_size 1048577 \<and> plaintext_of_ciphertext (encrypted_size 1048577) = 1048577 \<and>
    wire_len 1048577 \<noteq> wire_len 0"
proof -
  have "unat (1048577 :: u64) \<le> max_plain" "unat (0 :: u64) \<le> max_plain" "(1048577 :: u64) \<noteq> 0"
    by (simp_all add: max_plain_def)
  then show ?thesis using wire_sizes_agree [of 1048577 0] by blast
qed

text \<open>
  At every download cap of 8 Mbps or less, an encrypted download of more than one chunk hangs:
  the limiter is asked for a full ciphertext chunk, which exceeds its burst capacity, and never
  grants it, whenever and however often it is asked.
\<close>

theorem low_cap_blocks_encrypted_chunk:
  assumes "0 < mbps" "mbps \<le> 8"
  shows "snd (acquire_run (of_nat CIPHER_CHUNK) ts (RateLimiter_new t0 (mbps_to_bps mbps))) = None"
proof -
  have m: "0 < unat mbps" "unat mbps \<le> 8"
    using assms by (simp_all add: word_less_nat_alt word_le_nat_alt)
  then have r: "unat (mbps_to_bps mbps) = unat mbps * 125000"
    unfolding mbps_to_bps_def unat_saturating_mul by simp
  then have "mbps_to_bps mbps \<noteq> 0" using m by auto
  moreover have "capacity (mbps_to_bps mbps) < of_nat (unat (of_nat CIPHER_CHUNK :: u64))"
  proof -
    have "unat (mbps_to_bps mbps) \<le> 1000000" using m r by simp
    then have "(of_nat (unat (mbps_to_bps mbps)) :: rat) \<le> of_nat 1000000" by (rule iffD2 [OF of_nat_le_iff])
    then show ?thesis unfolding capacity_def BURST_FLOOR_def by simp
  qed
  ultimately show ?thesis
    by (intro acquire_run_beyond) (simp_all add: RateLimiter_new_def)
qed

theorem low_cap_blocks_encrypted_chunk_witness:
  "snd (acquire_run (of_nat CIPHER_CHUNK) [1, 10, 100000] (RateLimiter_new 0 (mbps_to_bps 8))) = None"
  by (rule low_cap_blocks_encrypted_chunk) simp_all

section \<open>Local paths\<close>

datatype component = RootDir | CurDir | ParentDir | Normal string

text \<open>\<open>Path::components\<close> on Unix: repeated and trailing slashes and inner dots vanish.\<close>

definition component_of :: "string \<Rightarrow> component option" where
  "component_of part =
     (if part = [] \<or> part = ''.'' then None
      else if part = ''..'' then Some ParentDir else Some (Normal part))"

definition components :: "string \<Rightarrow> component list" where
  "components path =
     (if path \<noteq> [] \<and> hd path = slash then [RootDir]
      else if hd (split_on slash path) = ''.'' then [CurDir] else []) @
     List.map_filter component_of (split_on slash path)"

definition normal_part :: "component \<Rightarrow> string option" where
  "normal_part c = (case c of Normal part \<Rightarrow> Some part | _ \<Rightarrow> None)"

definition sanitize_rel :: "string \<Rightarrow> string list" where
  "sanitize_rel rel =
     (let normalized = map (\<lambda>c. if c = CHR 0x5C then slash else c) rel
      in List.map_filter normal_part (components normalized))"

definition path_to_key :: "string list \<Rightarrow> string" where
  "path_to_key rel = join_with slash rel"

definition part_path :: "string list \<Rightarrow> string list" where
  "part_path out_path =
     (let tmp_name = (if out_path = [] then ''download'' else last out_path) @ ''.rse-part''
      in butlast out_path @ [tmp_name])"

text \<open>The directory a path leads to when the system walks it from \<open>cur\<close>.\<close>

fun walk :: "string list \<Rightarrow> string list \<Rightarrow> string list" where
  "walk cur [] = cur"
| "walk cur (p # ps) =
     (if p = [] \<or> p = ''.'' then walk cur ps
      else if p = ''..'' then walk (butlast cur) ps else walk (cur @ [p]) ps)"

lemma sanitize_rel_parts:
  "sanitize_rel rel =
     filter (\<lambda>p. p \<noteq> [] \<and> p \<noteq> ''.'' \<and> p \<noteq> ''..'')
       (split_on slash (map (\<lambda>c. if c = CHR 0x5C then slash else c) rel))"
proof -
  have m: "List.map_filter normal_part (List.map_filter component_of xs) =
      filter (\<lambda>p. p \<noteq> [] \<and> p \<noteq> ''.'' \<and> p \<noteq> ''..'') xs" for xs
    by (induction xs) (auto simp: List.map_filter_simps component_of_def normal_part_def)
  have a: "List.map_filter f (xs @ ys) = List.map_filter f xs @ List.map_filter f ys"
    for f :: "component \<Rightarrow> string option" and xs ys
    by (simp add: List.map_filter_def)
  have "List.map_filter normal_part [RootDir] = []" "List.map_filter normal_part [CurDir] = []"
    by (simp_all add: List.map_filter_simps normal_part_def)
  then show ?thesis
    unfolding sanitize_rel_def components_def Let_def a m by (simp add: List.map_filter_simps)
qed

lemma walk_plain:
  "\<forall>p \<in> set ps. p \<noteq> [] \<and> p \<noteq> ''.'' \<and> p \<noteq> ''..'' \<Longrightarrow> walk cur ps = cur @ ps"
  by (induction ps arbitrary: cur) auto

text \<open>
  C39. No object name escapes the download directory: whatever the name, its sanitised path has only
  ordinary components (not empty, not dots, no slash or backslash inside), so walking it from
  the destination stays below the destination.
\<close>

theorem sanitize_rel_contained:
  "walk dest (sanitize_rel rel) = dest @ sanitize_rel rel \<and>
   list_all (\<lambda>p. p \<noteq> [] \<and> p \<noteq> ''.'' \<and> p \<noteq> ''..'' \<and> slash \<notin> set p \<and> CHR 0x5C \<notin> set p) (sanitize_rel rel)"
proof -
  let ?n = "map (\<lambda>c. if c = CHR 0x5C then slash else c) rel"
  have "slash \<notin> set p \<and> CHR 0x5C \<notin> set p" if "p \<in> set (split_on slash ?n)" for p
    using split_on_parts [OF that] split_on_subset [OF that] by auto
  then show ?thesis
    by (auto simp: sanitize_rel_parts list_all_iff intro!: walk_plain)
qed

text \<open>
  Ordinary names arrive unchanged: the key of a relative path of ordinary components (as an
  upload builds it with \<open>path_to_key\<close>) is sanitised back to exactly those components.
\<close>

theorem sanitize_path_to_key:
  assumes "parts \<noteq> []"
    and "\<forall>p \<in> set parts. p \<noteq> [] \<and> p \<noteq> ''.'' \<and> p \<noteq> ''..'' \<and> slash \<notin> set p \<and> CHR 0x5C \<notin> set p"
  shows "sanitize_rel (path_to_key parts) = parts"
proof -
  have "CHR 0x5C \<notin> set (join_with slash parts)"
    using assms(2) by (induction parts rule: induct_list012) auto
  then have "map (\<lambda>c. if c = CHR 0x5C then slash else c) (join_with slash parts) = join_with slash parts"
    by (intro map_idI) auto
  moreover have "split_on slash (join_with slash parts) = parts"
    by (rule split_join) (use assms in auto)
  ultimately show ?thesis
    using assms(2) by (simp add: sanitize_rel_parts path_to_key_def)
qed

theorem sanitize_path_to_key_witness:
  "sanitize_rel (path_to_key [''docs'', ''a.txt'']) = [''docs'', ''a.txt'']"
  by (rule sanitize_path_to_key) auto

end
