(* ===== verification/TransferHub.thy ===== *)
theory TransferHub
  imports Complex_Main Storage Settings
begin

text \<open>
  Progress accounting and the transfer batch of the worker (\<^verbatim>\<open>src/src/worker.rs\<close>:
  \<open>Progress\<close>, \<open>BatchState\<close>, \<open>TransferHub\<close>, the messages to the user interface, and the
  bookkeeping \<open>run_upload\<close> and \<open>run_download\<close> do when files are admitted and when a file's
  task ends).

  The hub owns its current batch; a task keeps using the progress record it was admitted with,
  which stays the current one until every task of the batch has called \<open>task_done\<close>, so one
  copy suffices. The messages sent are kept in order in \<open>hb_events\<close>. Counters of files and bytes
  are natural numbers; times are milliseconds. A cancellation token is a flag, and a file's
  token is cancelled when its own flag or the batch's is.

  \<open>hub_step\<close> is the machine of admissions, finished tasks and cancellations in any order;
  its invariant \<open>hub_ok\<close> gives: a batch is open exactly while it has unfinished tasks, every
  started batch is reported finished exactly once, and no file is counted twice.
\<close>

section \<open>Messages\<close>

datatype transfer_kind = Upload | Download

record file_progress =
  fp_id :: u64
  fp_name :: string
  fp_kind :: transfer_kind
  fp_done :: nat
  fp_total :: nat
  fp_speed_bps :: rat

record file_info =
  fi_rel_path :: string
  fi_plaintext :: u64
  fi_encrypted :: u64

record folder_info =
  fin_name :: string
  fin_file_count :: nat
  fin_folder_count :: nat
  fin_plaintext_total :: u64
  fin_encrypted_total :: u64
  fin_computed :: "u64 option"
  fin_files :: "file_info list"

datatype event =
    Connected string bool
  | ConnectFailed error
  | Listed string "remote_entry list"
  | ListFailed error
  | TransferStarted nat nat "file_progress list"
  | TransferExtended nat nat "file_progress list"
  | TransferProgress nat nat nat "file_progress list" "(u64 \<times> bool) option"
  | TransferFinished nat nat nat "(string \<times> error) list"
  | Deleted nat
  | Moved nat
  | Renamed
  | SizeCalculated u64 u64
  | FolderCreated
  | Toast string
  | ToastErr string error
  | FolderInfoEv folder_info

section \<open>Progress\<close>

record file_track =
  ft_kind :: transfer_kind
  ft_name :: string
  ft_done :: nat
  ft_total :: nat
  ft_speed_bps :: rat
  ft_window_start :: nat
  ft_window_bytes :: nat

record progress =
  pg_uploaded :: nat
  pg_downloaded :: nat
  pg_failed :: nat
  pg_bytes :: nat
  pg_start :: nat
  pg_last_emit :: nat
  pg_active :: "(u64 \<times> file_track) list"

definition Progress_new :: "nat \<Rightarrow> progress" where
  "Progress_new now = \<lparr>pg_uploaded = 0, pg_downloaded = 0, pg_failed = 0, pg_bytes = 0,
     pg_start = now, pg_last_emit = 0, pg_active = []\<rparr>"

definition done_files :: "progress \<Rightarrow> nat" where
  "done_files p = pg_uploaded p + pg_downloaded p"

definition bytes_for :: "u64 \<Rightarrow> progress \<Rightarrow> nat option" where
  "bytes_for i p = map_option ft_done (map_of (pg_active p) i)"

definition file_resume :: "nat \<Rightarrow> u64 \<Rightarrow> transfer_kind \<Rightarrow> string \<Rightarrow> nat \<Rightarrow> nat \<Rightarrow> progress \<Rightarrow> progress" where
  "file_resume now i kind name tot already_done p =
     p\<lparr>pg_active := AList.update i
         \<lparr>ft_kind = kind, ft_name = name, ft_done = already_done, ft_total = tot,
          ft_speed_bps = 0, ft_window_start = now, ft_window_bytes = 0\<rparr> (pg_active p)\<rparr>"

definition file_start :: "nat \<Rightarrow> u64 \<Rightarrow> transfer_kind \<Rightarrow> string \<Rightarrow> nat \<Rightarrow> progress \<Rightarrow> progress" where
  "file_start now i kind name tot p = file_resume now i kind name tot 0 p"

definition snapshot :: "progress \<Rightarrow> file_progress list" where
  "snapshot p = sort_key fp_id (map (\<lambda>(i, t).
     \<lparr>fp_id = i, fp_name = ft_name t, fp_kind = ft_kind t, fp_done = ft_done t,
      fp_total = ft_total t, fp_speed_bps = ft_speed_bps t\<rparr>) (pg_active p))"

definition file_done :: "u64 \<Rightarrow> transfer_kind \<Rightarrow> bool \<Rightarrow> progress \<Rightarrow> progress \<times> event" where
  "file_done i kind ok p =
     (let p1 = p\<lparr>pg_active := AList.delete i (pg_active p)\<rparr>;
          p2 = (if ok then (case kind of
                   Upload \<Rightarrow> p1\<lparr>pg_uploaded := pg_uploaded p1 + 1\<rparr>
                 | Download \<Rightarrow> p1\<lparr>pg_downloaded := pg_downloaded p1 + 1\<rparr>)
                else p1\<lparr>pg_failed := pg_failed p1 + 1\<rparr>)
      in (p2, TransferProgress (done_files p2) (pg_failed p2) (pg_bytes p2) (snapshot p2) (Some (i, ok))))"

definition track_bytes :: "nat \<Rightarrow> nat \<Rightarrow> file_track \<Rightarrow> file_track" where
  "track_bytes now n t =
     (let t1 = t\<lparr>ft_done := ft_done t + n, ft_window_bytes := ft_window_bytes t + n\<rparr>;
          elapsed = of_nat (now - ft_window_start t) / (1000 :: rat)
      in if 1 \<le> elapsed
         then let instant_bps = of_nat (ft_window_bytes t1) / elapsed
              in t1\<lparr>ft_speed_bps := (if ft_speed_bps t = 0 then instant_bps
                                    else ft_speed_bps t / 2 + instant_bps / 2),
                    ft_window_start := now, ft_window_bytes := 0\<rparr>
         else t1)"

definition tick :: "nat \<Rightarrow> u64 \<Rightarrow> nat \<Rightarrow> progress \<Rightarrow> progress \<times> event option" where
  "tick now i n p =
     (let p1 = p\<lparr>pg_bytes := pg_bytes p + n,
                 pg_active := (case map_of (pg_active p) i of
                    None \<Rightarrow> pg_active p
                  | Some t \<Rightarrow> AList.update i (track_bytes now n t) (pg_active p))\<rparr>;
          since = now - pg_start p
      in if 100 \<le> since - pg_last_emit p
         then let p2 = p1\<lparr>pg_last_emit := since\<rparr>
              in (p2, Some (TransferProgress (done_files p2) (pg_failed p2) (pg_bytes p2) (snapshot p2) None))
         else (p1, None))"

lemma tick_counts:
  "pg_bytes (fst (tick now i n p)) = pg_bytes p + n"
  "bytes_for j (fst (tick now i n p)) = (if j = i then map_option (\<lambda>b. b + n) (bytes_for i p) else bytes_for j p)"
  by (auto simp: tick_def bytes_for_def track_bytes_def Let_def update_conv' split: option.splits)

lemma tick_throttle:
  assumes "snd (tick now i n p) = Some e"
  shows "pg_last_emit p + 100 \<le> pg_last_emit (fst (tick now i n p))"
    "pg_last_emit (fst (tick now i n p)) = now - pg_start p"
  using assms by (auto simp: tick_def Let_def split: if_splits)

section \<open>The batch\<close>

record hub =
  hb_open :: bool
  hb_outstanding :: nat
  hb_total_files :: nat
  hb_total_bytes :: nat
  hb_progress :: progress
  hb_errors :: "(string \<times> error) list"
  hb_upload_permits :: nat
  hb_download_permits :: nat
  hb_cancel :: bool
  hb_file_cancels :: "(u64 \<times> bool) list"
  hb_next_id :: u64
  hb_events :: "event list"

definition TransferHub_new :: "nat \<Rightarrow> hub" where
  "TransferHub_new now = \<lparr>hb_open = False, hb_outstanding = 0, hb_total_files = 0, hb_total_bytes = 0,
     hb_progress = Progress_new now, hb_errors = [], hb_upload_permits = 1, hb_download_permits = 1,
     hb_cancel = False, hb_file_cancels = [], hb_next_id = 0, hb_events = []\<rparr>"

definition send :: "event \<Rightarrow> hub \<Rightarrow> hub" where
  "send e h = h\<lparr>hb_events := hb_events h @ [e]\<rparr>"

definition next_id :: "hub \<Rightarrow> hub \<times> u64" where
  "next_id h = (h\<lparr>hb_next_id := hb_next_id h + 1\<rparr>, hb_next_id h)"

definition register_file :: "u64 \<Rightarrow> hub \<Rightarrow> hub" where
  "register_file i h = h\<lparr>hb_file_cancels := AList.update i False (hb_file_cancels h)\<rparr>"

definition cancel_file :: "u64 \<Rightarrow> hub \<Rightarrow> hub" where
  "cancel_file i h =
     (if map_of (hb_file_cancels h) i = None then h
      else h\<lparr>hb_file_cancels := AList.update i True (hb_file_cancels h)\<rparr>)"

definition cancel_all :: "hub \<Rightarrow> hub" where
  "cancel_all h = h\<lparr>hb_cancel := True\<rparr>"

definition unregister_file :: "u64 \<Rightarrow> hub \<Rightarrow> hub" where
  "unregister_file i h = h\<lparr>hb_file_cancels := AList.delete i (hb_file_cancels h)\<rparr>"

text \<open>A child token: cancelled by itself or through its parent.\<close>

definition file_cancelled :: "u64 \<Rightarrow> hub \<Rightarrow> bool" where
  "file_cancelled i h = (hb_cancel h \<or> map_of (hb_file_cancels h) i = Some True)"

definition admit :: "nat \<Rightarrow> settings \<Rightarrow> nat \<Rightarrow> nat \<Rightarrow> hub \<Rightarrow> hub \<times> bool" where
  "admit now st cnt nbytes h =
     (let fresh = \<not> hb_open h;
          h1 = (if fresh then h\<lparr>hb_open := True, hb_outstanding := 0, hb_total_files := 0,
                  hb_total_bytes := 0, hb_progress := Progress_new now, hb_errors := [],
                  hb_upload_permits := max (upload_parallelism st) 1,
                  hb_download_permits := max (download_parallelism st) 1,
                  hb_cancel := False, hb_file_cancels := []\<rparr> else h)
      in (h1\<lparr>hb_outstanding := hb_outstanding h1 + cnt, hb_total_files := hb_total_files h1 + cnt,
            hb_total_bytes := hb_total_bytes h1 + nbytes\<rparr>, fresh))"

definition task_done :: "hub \<Rightarrow> hub" where
  "task_done h =
     (let h1 = h\<lparr>hb_outstanding := hb_outstanding h - 1\<rparr> in
      if hb_open h1 \<and> hb_outstanding h1 = 0
      then send (TransferFinished (pg_uploaded (hb_progress h1)) (pg_downloaded (hb_progress h1))
             (pg_failed (hb_progress h1)) (take 20 (hb_errors h1))) (h1\<lparr>hb_open := False\<rparr>)
      else h1)"

text \<open>
  How \<open>run_upload\<close> and \<open>run_download\<close> admit a roster of files: one \<open>admit\<close>, the start or
  extension message, and a cancellation token per file.
\<close>

definition admit_roster :: "nat \<Rightarrow> settings \<Rightarrow> file_progress list \<Rightarrow> hub \<Rightarrow> hub" where
  "admit_roster now st roster h =
     (case admit now st (length roster) (sum_list (map fp_total roster)) h of
        (h1, fresh) \<Rightarrow>
          fold (\<lambda>f. register_file (fp_id f)) roster
            (send (if fresh then TransferStarted (hb_total_files h1) (hb_total_bytes h1) roster
                   else TransferExtended (hb_total_files h1) (hb_total_bytes h1) roster) h1))"

text \<open>How a file's task ends: not run because its token was cancelled, success, or an error.\<close>

datatype outcome = Skipped | Succeeded | Failed error

definition hub_file_done :: "u64 \<Rightarrow> transfer_kind \<Rightarrow> bool \<Rightarrow> hub \<Rightarrow> hub" where
  "hub_file_done i kind ok h =
     (case file_done i kind ok (hb_progress h) of (p, e) \<Rightarrow> send e (h\<lparr>hb_progress := p\<rparr>))"

definition finish_task :: "transfer_kind \<Rightarrow> u64 \<Rightarrow> string \<Rightarrow> outcome \<Rightarrow> hub \<Rightarrow> hub" where
  "finish_task kind i rel out h =
     (let h1 = (case out of
            Skipped \<Rightarrow> if \<not> hb_cancel h then hub_file_done i kind False h else h
          | Succeeded \<Rightarrow> hub_file_done i kind True h
          | Failed e \<Rightarrow> hub_file_done i kind False
              (if \<not> file_cancelled i h then h\<lparr>hb_errors := hb_errors h @ [(rel, e)]\<rparr> else h))
      in task_done (unregister_file i h1))"

section \<open>The machine\<close>

datatype hub_event =
    HAdmit nat settings "file_progress list"
  | HFinish transfer_kind u64 string outcome
  | HTick nat u64 nat
  | HCancelFile u64
  | HCancelAll

fun hub_step :: "hub \<Rightarrow> hub_event \<Rightarrow> hub" where
  "hub_step h (HAdmit now st roster) = admit_roster now st roster h"
| "hub_step h (HFinish kind i rel out) = finish_task kind i rel out h"
| "hub_step h (HTick now i n) =
     (case tick now i n (hb_progress h) of
        (p, None) \<Rightarrow> h\<lparr>hb_progress := p\<rparr>
      | (p, Some e) \<Rightarrow> send e (h\<lparr>hb_progress := p\<rparr>))"
| "hub_step h (HCancelFile i) = cancel_file i h"
| "hub_step h (HCancelAll) = cancel_all h"

text \<open>Only non-empty rosters are admitted, and a task ends only once: some task is unfinished.\<close>

fun hub_enabled :: "hub \<Rightarrow> hub_event \<Rightarrow> bool" where
  "hub_enabled h (HAdmit now st roster) = (roster \<noteq> [])"
| "hub_enabled h (HFinish kind i rel out) = (0 < hb_outstanding h)"
| "hub_enabled h _ = True"

fun is_started :: "event \<Rightarrow> bool" where
  "is_started (TransferStarted _ _ _) = True"
| "is_started _ = False"

fun is_finished :: "event \<Rightarrow> bool" where
  "is_finished (TransferFinished _ _ _ _) = True"
| "is_finished _ = False"

definition settled :: "hub \<Rightarrow> nat" where
  "settled h = done_files (hb_progress h) + pg_failed (hb_progress h)"

definition hub_ok :: "hub \<Rightarrow> bool" where
  "hub_ok h \<longleftrightarrow> (hb_open h \<longleftrightarrow> 0 < hb_outstanding h) \<and>
     length (filter is_started (hb_events h)) = length (filter is_finished (hb_events h)) + of_bool (hb_open h) \<and>
     settled h + hb_outstanding h \<le> hb_total_files h \<and>
     (\<not> hb_cancel h \<longrightarrow> settled h + hb_outstanding h = hb_total_files h)"

lemma register_all [simp]:
  "hb_open (fold (\<lambda>f. register_file (fp_id f)) fs h) = hb_open h"
  "hb_outstanding (fold (\<lambda>f. register_file (fp_id f)) fs h) = hb_outstanding h"
  "hb_total_files (fold (\<lambda>f. register_file (fp_id f)) fs h) = hb_total_files h"
  "hb_total_bytes (fold (\<lambda>f. register_file (fp_id f)) fs h) = hb_total_bytes h"
  "hb_progress (fold (\<lambda>f. register_file (fp_id f)) fs h) = hb_progress h"
  "hb_cancel (fold (\<lambda>f. register_file (fp_id f)) fs h) = hb_cancel h"
  "hb_events (fold (\<lambda>f. register_file (fp_id f)) fs h) = hb_events h"
  by (induction fs arbitrary: h) (simp_all add: register_file_def)

lemma hub_file_done_simps [simp]:
  "hb_open (hub_file_done i k ok h) = hb_open h"
  "hb_outstanding (hub_file_done i k ok h) = hb_outstanding h"
  "hb_total_files (hub_file_done i k ok h) = hb_total_files h"
  "hb_cancel (hub_file_done i k ok h) = hb_cancel h"
  "hb_file_cancels (hub_file_done i k ok h) = hb_file_cancels h"
  "settled (hub_file_done i k ok h) = Suc (settled h)"
  "filter is_started (hb_events (hub_file_done i k ok h)) = filter is_started (hb_events h)"
  "filter is_finished (hb_events (hub_file_done i k ok h)) = filter is_finished (hb_events h)"
  by (auto simp: hub_file_done_def file_done_def send_def settled_def done_files_def Let_def
      split: transfer_kind.splits)

lemma unregister_simps [simp]:
  "hb_open (unregister_file i h) = hb_open h"
  "hb_outstanding (unregister_file i h) = hb_outstanding h"
  "hb_total_files (unregister_file i h) = hb_total_files h"
  "hb_cancel (unregister_file i h) = hb_cancel h"
  "hb_progress (unregister_file i h) = hb_progress h"
  "hb_events (unregister_file i h) = hb_events h"
  by (simp_all add: unregister_file_def)

lemma settled_cong: "hb_progress h = hb_progress h' \<Longrightarrow> settled h = settled h'"
  by (simp add: settled_def)

lemma tick_settled: "settled (h\<lparr>hb_progress := fst (tick now i n (hb_progress h))\<rparr>) = settled h"
  by (simp add: settled_def tick_def Let_def done_files_def)

lemma task_done_simps:
  "settled (task_done h) = settled h" "hb_total_files (task_done h) = hb_total_files h"
  "hb_cancel (task_done h) = hb_cancel h" "hb_outstanding (task_done h) = hb_outstanding h - 1"
  "filter is_started (hb_events (task_done h)) = filter is_started (hb_events h)"
  by (auto simp: task_done_def send_def settled_def Let_def)

lemma task_done_close:
  assumes "hb_open h \<longleftrightarrow> 0 < hb_outstanding h" "0 < hb_outstanding h"
  shows "hb_open (task_done h) \<longleftrightarrow> 0 < hb_outstanding h - 1"
    and "length (filter is_finished (hb_events (task_done h))) + of_bool (hb_open (task_done h)) =
      length (filter is_finished (hb_events h)) + of_bool (hb_open h)"
  using assms by (auto simp: task_done_def send_def Let_def)

lemma finish_task_ok:
  assumes "hub_ok h" "0 < hb_outstanding h"
  shows "hub_ok (finish_task k i rel out h)"
proof -
  define h1 where "h1 = (case out of
            Skipped \<Rightarrow> if \<not> hb_cancel h then hub_file_done i k False h else h
          | Succeeded \<Rightarrow> hub_file_done i k True h
          | Failed e \<Rightarrow> hub_file_done i k False
              (if \<not> file_cancelled i h then h\<lparr>hb_errors := hb_errors h @ [(rel, e)]\<rparr> else h))"
  let ?h = "unregister_file i h1"
  have frame: "hb_open ?h = hb_open h" "hb_outstanding ?h = hb_outstanding h"
    "hb_total_files ?h = hb_total_files h" "hb_cancel ?h = hb_cancel h"
    "filter is_started (hb_events ?h) = filter is_started (hb_events h)"
    "filter is_finished (hb_events ?h) = filter is_finished (hb_events h)"
    by (auto simp: h1_def split: outcome.splits)
  have "settled (h\<lparr>hb_errors := x\<rparr>) = settled h" for x by (simp add: settled_def)
  then have st: "settled ?h = (if hb_cancel h \<and> out = Skipped then settled h else Suc (settled h))"
    using settled_cong [of ?h h1] by (auto simp: h1_def split: outcome.splits)
  have f: "finish_task k i rel out h = task_done ?h" by (simp add: finish_task_def h1_def Let_def)
  have o: "hb_open ?h \<longleftrightarrow> 0 < hb_outstanding ?h" "0 < hb_outstanding ?h"
    using assms frame by (auto simp: hub_ok_def)
  note C = task_done_close [OF o] and T = task_done_simps [of ?h]
  show ?thesis
    unfolding hub_ok_def f T using C frame st assms by (auto simp: hub_ok_def split: if_splits)
qed

interpretation hub: inv_machine hub_step hub_ok hub_enabled
proof
  fix h e
  assume ok: "hub_ok h" and en: "hub_enabled h e"
  show "hub_ok (hub_step h e)"
  proof (cases e)
    case (HAdmit now st roster)
    with ok en show ?thesis
      by (auto simp: hub_ok_def admit_roster_def admit_def send_def settled_def done_files_def
          Progress_new_def Let_def split: if_splits)
  next
    case (HFinish kind i rel out)
    with ok en show ?thesis by (simp add: finish_task_ok)
  next
    case (HTick now i n)
    obtain p r where t: "tick now i n (hb_progress h) = (p, r)" by fastforce
    have "settled (h\<lparr>hb_progress := p\<rparr>) = settled h" using tick_settled [where h = h and now = now and i = i and n = n] t by simp
    moreover have "\<not> is_started e \<and> \<not> is_finished e" if "r = Some e" for e
      using t that by (auto simp: tick_def Let_def split: if_splits)
    ultimately show ?thesis using ok HTick t
      by (cases r) (auto simp: hub_ok_def send_def settled_def)
  next
    case (HCancelFile i)
    with ok show ?thesis by (auto simp: hub_ok_def cancel_file_def settled_def)
  next
    case HCancelAll
    with ok show ?thesis by (auto simp: hub_ok_def cancel_all_def settled_def)
  qed
qed

lemma hub_new_ok: "hub_ok (TransferHub_new now)"
  by (simp add: hub_ok_def TransferHub_new_def settled_def done_files_def Progress_new_def)

section \<open>Properties\<close>

text \<open>
  C27. Every batch is reported finished exactly once and accounts for every file: whatever the
  order in which rosters are admitted, tasks end, bytes are counted and cancellations arrive,
  the number of start messages equals the number of finish messages plus one if a batch is
  open; a batch is open exactly while tasks are outstanding; and without a batch cancellation
  the files done and failed plus those outstanding are the files admitted.
\<close>

theorem hub_accounts_for_every_file:
  assumes "hub.admissible (TransferHub_new t0) es"
  shows "let h = foldl hub_step (TransferHub_new t0) es in
    (hb_open h \<longleftrightarrow> 0 < hb_outstanding h) \<and>
    length (filter is_started (hb_events h)) = length (filter is_finished (hb_events h)) + of_bool (hb_open h) \<and>
    settled h + hb_outstanding h \<le> hb_total_files h \<and>
    (\<not> hb_cancel h \<longrightarrow> settled h + hb_outstanding h = hb_total_files h)"
  using hub.run_inv [OF hub_new_ok assms] by (simp add: hub_ok_def Let_def)

definition sample_roster :: "file_progress list" where
  "sample_roster = [\<lparr>fp_id = 0, fp_name = ''a'', fp_kind = Upload, fp_done = 0, fp_total = 5, fp_speed_bps = 0\<rparr>,
     \<lparr>fp_id = 1, fp_name = ''b'', fp_kind = Upload, fp_done = 0, fp_total = 7, fp_speed_bps = 0\<rparr>]"

theorem hub_accounts_for_every_file_witness:
  "let h = foldl hub_step (TransferHub_new 0) [HAdmit 0 Settings_default sample_roster, HFinish Upload 0 ''a'' Succeeded] in
    (hb_open h \<longleftrightarrow> 0 < hb_outstanding h) \<and>
    length (filter is_started (hb_events h)) = length (filter is_finished (hb_events h)) + of_bool (hb_open h) \<and>
    settled h + hb_outstanding h \<le> hb_total_files h \<and>
    (\<not> hb_cancel h \<longrightarrow> settled h + hb_outstanding h = hb_total_files h)"
  by (rule hub_accounts_for_every_file)
    (simp add: sample_roster_def register_file_def admit_roster_def admit_def send_def TransferHub_new_def Let_def)

text \<open>
  The last task closes the batch with the final counts: when the only outstanding task of an
  uncancelled batch ends, the batch closes and the finish message is the last one sent; its
  counts add up to the number of files admitted, and it carries at most 20 errors.
\<close>

theorem last_task_reports_totals:
  assumes "hub_ok h" "hb_outstanding h = 1" "\<not> hb_cancel h"
  shows "let h' = finish_task k i rel out h in \<not> hb_open h' \<and>
    (\<exists>u d f errs. last (hb_events h') = TransferFinished u d f errs \<and>
       u + d + f = hb_total_files h' \<and> length errs \<le> 20 \<and> hb_total_files h' = hb_total_files h)"
proof -
  have "0 < hb_outstanding h" using assms(2) by simp
  then have ok: "hub_ok (finish_task k i rel out h)" by (rule finish_task_ok [OF assms(1)])
  have open_h: "hb_open h" using assms(1,2) by (simp add: hub_ok_def)
  define h1 where "h1 = unregister_file i (case out of
            Skipped \<Rightarrow> if \<not> hb_cancel h then hub_file_done i k False h else h
          | Succeeded \<Rightarrow> hub_file_done i k True h
          | Failed e \<Rightarrow> hub_file_done i k False
              (if \<not> file_cancelled i h then h\<lparr>hb_errors := hb_errors h @ [(rel, e)]\<rparr> else h))"
  have frame: "hb_open h1" "hb_outstanding h1 = 1" "hb_cancel h1 = hb_cancel h" "hb_total_files h1 = hb_total_files h"
    using assms open_h by (auto simp: h1_def split: outcome.splits)
  have f: "finish_task k i rel out h = task_done h1" by (simp add: finish_task_def h1_def Let_def)
  have td: "task_done h1 = send (TransferFinished (pg_uploaded (hb_progress h1)) (pg_downloaded (hb_progress h1))
      (pg_failed (hb_progress h1)) (take 20 (hb_errors h1))) (h1\<lparr>hb_outstanding := 0, hb_open := False\<rparr>)"
    using frame by (simp add: task_done_def Let_def)
  have "settled (task_done h1) = hb_total_files (task_done h1)"
    using ok assms(3) frame unfolding f hub_ok_def by (simp add: task_done_simps)
  then have "pg_uploaded (hb_progress h1) + pg_downloaded (hb_progress h1) + pg_failed (hb_progress h1) = hb_total_files h"
    using frame by (simp add: td send_def settled_def done_files_def)
  then show ?thesis unfolding f td using frame by (simp add: send_def)
qed

theorem last_task_reports_totals_witness:
  "let h = foldl hub_step (TransferHub_new 0) [HAdmit 0 Settings_default sample_roster, HFinish Upload 0 ''a'' Succeeded];
       h' = finish_task Upload 1 ''b'' (Failed (Msg ''x'')) h in \<not> hb_open h' \<and>
    (\<exists>u d f errs. last (hb_events h') = TransferFinished u d f errs \<and>
       u + d + f = hb_total_files h' \<and> length errs \<le> 20 \<and> hb_total_files h' = hb_total_files h)"
proof -
  let ?es = "[HAdmit 0 Settings_default sample_roster, HFinish Upload 0 ''a'' Succeeded]"
  have adm: "hub.admissible (TransferHub_new 0) ?es"
    by (simp add: sample_roster_def register_file_def admit_roster_def admit_def send_def TransferHub_new_def Let_def)
  have o: "hb_outstanding (foldl hub_step (TransferHub_new 0) ?es) = 1"
    "\<not> hb_cancel (foldl hub_step (TransferHub_new 0) ?es)"
    by (simp_all add: sample_roster_def register_file_def admit_roster_def admit_def TransferHub_new_def
        finish_task_def task_done_simps Let_def send_def)
  from last_task_reports_totals [OF hub.run_inv [OF hub_new_ok adm] o, of Upload 1 "''b''" "Failed (Msg ''x'')"]
  show ?thesis by (simp add: Let_def)
qed

text \<open>
  Files added while a cancelled batch is still draining are swallowed: after \<open>cancel_all\<close>, a
  roster admitted before the last task of the batch has ended joins the cancelled batch. Each of
  its tasks finds its token cancelled and is skipped, and ending it sends no progress message
  and counts neither as done nor as failed.
\<close>

theorem admit_after_cancel_swallowed:
  assumes "hb_open h" "f \<in> set roster" "1 < hb_outstanding h'"
    and "h' = admit_roster now st roster (cancel_all h)"
  shows "file_cancelled (fp_id f) h' \<and>
    hb_events (finish_task k (fp_id f) rel Skipped h') = hb_events h' \<and>
    settled (finish_task k (fp_id f) rel Skipped h') = settled h'"
proof -
  have c: "hb_cancel h'" using assms(1) unfolding assms(4)
    by (simp add: admit_roster_def admit_def cancel_all_def send_def)
  have "hb_events (task_done g) = hb_events g" if "1 < hb_outstanding g" for g
    using that by (simp add: task_done_def Let_def)
  from this [of "unregister_file (fp_id f) h'"] assms(3) c
  have "hb_events (finish_task k (fp_id f) rel Skipped h') = hb_events h'"
    by (simp add: finish_task_def)
  moreover have "settled (finish_task k (fp_id f) rel Skipped h') = settled h'"
    using c by (simp add: finish_task_def task_done_simps settled_cong [of "unregister_file (fp_id f) h'" h'])
  ultimately show ?thesis using c by (simp add: file_cancelled_def)
qed

theorem admit_after_cancel_swallowed_witness:
  "let h = admit_roster 0 Settings_default sample_roster (TransferHub_new 0);
       h' = admit_roster 1 Settings_default sample_roster (cancel_all h) in
    file_cancelled (fp_id (hd sample_roster)) h' \<and>
    hb_events (finish_task Upload (fp_id (hd sample_roster)) ''a'' Skipped h') = hb_events h' \<and>
    settled (finish_task Upload (fp_id (hd sample_roster)) ''a'' Skipped h') = settled h'"
  unfolding Let_def
  by (rule admit_after_cancel_swallowed [OF _ _ _ refl])
    (simp_all add: admit_roster_def admit_def cancel_all_def send_def TransferHub_new_def sample_roster_def
      register_file_def Let_def)

end
