(* ===== verification/S3.thy ===== *)
theory S3
  imports Storage
begin

text \<open>
  The S3 backend (\<^verbatim>\<open>src/src/storage/s3.rs\<close>): paced request bodies, the encoding of copy
  sources, paginated listings, every method of the backend trait and the directory rename by
  copy and delete.

  The AWS SDK client is a parameter: \<open>s3_client\<close> holds the requests the code makes, over the
  type of worlds. \<open>s3_laws\<close> states what S3 documents about them relative to the bucket's content
  \<open>obs\<close>. The pagination loop ends only if the server stops announcing further pages, so it
  takes fuel; running out of fuel is \<open>Hang\<close>.
\<close>

section \<open>Client\<close>

record s3_object =
  so_key :: "string option"
  so_size :: "int option"
  so_modified :: "u64 option"

record s3_page =
  sp_common_prefixes :: "string option list"
  sp_contents :: "s3_object list"
  sp_is_truncated :: "bool option"
  sp_next_token :: "string option"

datatype s3_range = RangeFrom u64 | RangeTo u64

datatype s3_error = NoSuchKey | S3Other string

record 'w s3_client =
  c_head_bucket :: "('w, unit) sr"
  c_list_objects_v2 :: "string \<Rightarrow> bool \<Rightarrow> string option \<Rightarrow> ('w, s3_page) sr"
  c_get_object :: "string \<Rightarrow> s3_range option \<Rightarrow> 'w \<Rightarrow> 'w \<times> (s3_error + (int option \<times> reader))"
  c_put_object :: "string \<Rightarrow> bytes \<Rightarrow> ('w, unit) sr"
  c_copy_object :: "string \<Rightarrow> string \<Rightarrow> ('w, unit) sr"
  c_create_multipart :: "string \<Rightarrow> ('w, string option) sr"
  c_upload_part :: "string \<Rightarrow> string \<Rightarrow> int \<Rightarrow> bytes \<Rightarrow> ('w, string option) sr"
  c_complete_multipart :: "string \<Rightarrow> string \<Rightarrow> (int \<times> string) list \<Rightarrow> ('w, unit) sr"
  c_abort_multipart :: "string \<Rightarrow> string \<Rightarrow> ('w, unit) sr"
  c_delete_objects :: "string list \<Rightarrow> ('w, string list) sr"

section \<open>Request bodies\<close>

definition PACE_CHUNK :: nat where
  "PACE_CHUNK = 64 * 1024"

text \<open>
  The task of \<open>PacedBody::new\<close>: it sends the data in frames and reports progress beyond the
  high-water mark \<open>reported\<close>, which outlives the body. The list holds the frames still to send.
\<close>

fun paced_send :: "nat \<Rightarrow> nat \<Rightarrow> bytes list \<Rightarrow> nat \<times> nat list" where
  "paced_send off reported [] = (reported, [])"
| "paced_send off reported (f # fs) =
     (let off' = off + length f in
      case paced_send off' (max reported off') fs of
        (rep, cbs) \<Rightarrow> (rep, (if reported < off' then (off' - reported) # cbs else cbs)))"

definition PacedBody_frames :: "bytes \<Rightarrow> bytes list" where
  "PacedBody_frames data = chunks PACE_CHUNK data"

definition poll_frame :: "bytes list \<times> u64 \<Rightarrow> (bytes list \<times> u64) \<times> bytes option" where
  "poll_frame body =
     (case body of
        ([], remaining) \<Rightarrow> (([], remaining), None)
      | (f # fs, remaining) \<Rightarrow> ((fs, saturating_sub remaining (of_nat (length f))), Some f))"

definition is_throttled :: "u64 option \<Rightarrow> bool" where
  "is_throttled limiter = (case limiter of Some r \<Rightarrow> r \<noteq> 0 | None \<Rightarrow> False)"

definition throttled_bytestream :: "bytes \<Rightarrow> u64 option \<Rightarrow> bytes list" where
  "throttled_bytestream data limiter = (if is_throttled limiter then PacedBody_frames data else [data])"

definition unreserved :: "char \<Rightarrow> bool" where
  "unreserved c =
     (let n = of_char c :: nat in
      (65 \<le> n \<and> n \<le> 90) \<or> (97 \<le> n \<and> n \<le> 122) \<or> (48 \<le> n \<and> n \<le> 57) \<or> c \<in> set ''-_.~/'')"

definition encode_copy_source :: "string \<Rightarrow> string \<Rightarrow> string" where
  "encode_copy_source bucket key =
     bucket @ [slash] @ concat (map (\<lambda>c. if unreserved c then [c]
       else CHR ''%'' # hex_upper [of_char c]) key)"

section \<open>Backend methods\<close>

definition clamp_len :: "int option \<Rightarrow> u64" where
  "clamp_len x = of_int (max (case x of Some n \<Rightarrow> n | None \<Rightarrow> 0) 0)"

fun page_prefixes :: "string option list \<Rightarrow> raw_object list" where
  "page_prefixes [] = []"
| "page_prefixes (None # ps) = page_prefixes ps"
| "page_prefixes (Some p # ps) =
     \<lparr>ro_key = p, ro_size = 0, ro_modified = None, ro_is_prefix = True\<rparr> # page_prefixes ps"

fun page_contents :: "string \<Rightarrow> s3_object list \<Rightarrow> raw_object list" where
  "page_contents prefix [] = []"
| "page_contents prefix (ob # obs) =
     (case so_key ob of
        None \<Rightarrow> page_contents prefix obs
      | Some key \<Rightarrow>
          if key = prefix then page_contents prefix obs
          else \<lparr>ro_key = key, ro_size = clamp_len (so_size ob), ro_modified = so_modified ob,
                ro_is_prefix = False\<rparr> # page_contents prefix obs)"

fun list_loop ::
  "'w s3_client \<Rightarrow> nat \<Rightarrow> string \<Rightarrow> bool \<Rightarrow> string option \<Rightarrow> raw_object list \<Rightarrow> ('w, raw_object list) sr" where
  "list_loop C 0 prefix delimited token out w = (w, Inl Hang)"
| "list_loop C (Suc fuel) prefix delimited token out w =
     (case sctx ''listing objects failed'' (c_list_objects_v2 C prefix delimited token) w of
        (w', Inl e) \<Rightarrow> (w', Inl e)
      | (w', Inr resp) \<Rightarrow>
          let out' = out @ page_prefixes (sp_common_prefixes resp) @ page_contents prefix (sp_contents resp)
          in if sp_is_truncated resp = Some True \<and> sp_next_token resp \<noteq> None
             then list_loop C fuel prefix delimited (sp_next_token resp) out' w'
             else (w', Inr out'))"

definition list_inner :: "'w s3_client \<Rightarrow> nat \<Rightarrow> string \<Rightarrow> bool \<Rightarrow> ('w, raw_object list) sr" where
  "list_inner C fuel prefix delimited = list_loop C fuel prefix delimited None []"

definition copy_one :: "'w s3_client \<Rightarrow> string \<Rightarrow> string \<Rightarrow> string \<Rightarrow> ('w, unit) sr" where
  "copy_one C bucket from to = sctx ''copy failed'' (c_copy_object C (encode_copy_source bucket from) to)"

text \<open>\<open>body.collect()\<close>\<close>

definition collect_body :: "string \<Rightarrow> reader \<Rightarrow> bytes result" where
  "collect_body ctx r = (case rd_content r of (d, None) \<Rightarrow> Inr d | (d, Some e) \<Rightarrow> Inl (Ctx ctx e))"

definition s3_get :: "'w s3_client \<Rightarrow> string \<Rightarrow> ('w, bytes option) sr" where
  "s3_get C key w =
     (case c_get_object C key None w of
        (w', Inr (len, body)) \<Rightarrow> (w', rbind (collect_body ''reading object body'' body) (\<lambda>d. Inr (Some d)))
      | (w', Inl NoSuchKey) \<Rightarrow> (w', Inr None)
      | (w', Inl (S3Other m)) \<Rightarrow> (w', Inl (Msg (''get failed: '' @ m))))"

definition s3_get_stream :: "'w s3_client \<Rightarrow> string \<Rightarrow> ('w, u64 \<times> reader) sr" where
  "s3_get_stream C key w =
     (case c_get_object C key None w of
        (w', Inr (len, body)) \<Rightarrow> (w', Inr (clamp_len len, body))
      | (w', Inl e) \<Rightarrow> (w', Inl (Msg (''download failed: '' @ key))))"

definition s3_put :: "'w s3_client \<Rightarrow> string \<Rightarrow> bytes \<Rightarrow> ('w, unit) sr" where
  "s3_put C key data = sctx (''upload failed: '' @ key) (c_put_object C key data)"

definition s3_put_throttled :: "'w s3_client \<Rightarrow> string \<Rightarrow> bytes \<Rightarrow> u64 option \<Rightarrow> ('w, unit) sr" where
  "s3_put_throttled C key data limiter =
     sctx (''upload failed: '' @ key) (c_put_object C key (concat (throttled_bytestream data limiter)))"

definition s3_create_multipart :: "'w s3_client \<Rightarrow> string \<Rightarrow> ('w, multipart_upload) sr" where
  "s3_create_multipart C key =
     sbind (sctx ''starting multipart upload'' (c_create_multipart C key)) (\<lambda>i.
     case i of
       None \<Rightarrow> serr (Msg ''no upload id'')
     | Some uid \<Rightarrow> sret \<lparr>upload_id = uid, mp_key = key\<rparr>)"

definition s3_upload_part ::
  "'w s3_client \<Rightarrow> multipart_upload \<Rightarrow> int \<Rightarrow> bytes \<Rightarrow> u64 option \<Rightarrow> ('w, string \<times> u64 list) sr" where
  "s3_upload_part C mp n data limiter =
     sbind (sctx ''uploading part'' (c_upload_part C (mp_key mp) (upload_id mp) n
       (concat (throttled_bytestream data limiter)))) (\<lambda>tag.
     sret (case tag of Some t \<Rightarrow> t | None \<Rightarrow> [],
       if is_throttled limiter
       then map of_nat (snd (paced_send 0 0 (throttled_bytestream data limiter)))
       else [of_nat (length data)]))"

definition s3_complete_multipart :: "'w s3_client \<Rightarrow> multipart_upload \<Rightarrow> (int \<times> string) list \<Rightarrow> ('w, unit) sr" where
  "s3_complete_multipart C mp etags =
     sctx ''completing multipart upload'' (c_complete_multipart C (mp_key mp) (upload_id mp) etags)"

definition s3_abort_multipart :: "'w s3_client \<Rightarrow> multipart_upload \<Rightarrow> ('w, unit) sr" where
  "s3_abort_multipart C mp =
     sctx ''aborting multipart upload'' (c_abort_multipart C (mp_key mp) (upload_id mp))"

definition s3_delete :: "'w s3_client \<Rightarrow> string list \<Rightarrow> ('w, unit) sr" where
  "s3_delete C ks =
     sfold (\<lambda>_ batch. sbind (sctx ''delete failed'' (c_delete_objects C batch)) (\<lambda>_. sret ()))
       () (chunks 1000 ks)"

definition s3_rename :: "'w s3_client \<Rightarrow> nat \<Rightarrow> string \<Rightarrow> string \<Rightarrow> string \<Rightarrow> ('w, unit) sr" where
  "s3_rename C fuel bucket from to =
     (if ends_with slash from then
        sbind (list_inner C fuel from False) (\<lambda>objs.
        sbind (sfold (\<lambda>old_keys ob.
            sbind (copy_one C bucket (ro_key ob)
              (to @ (case strip_prefix from (ro_key ob) of Some suffix \<Rightarrow> suffix | None \<Rightarrow> ro_key ob)))
            (\<lambda>_. sret (old_keys @ [ro_key ob]))) [] objs) (\<lambda>old_keys.
        sbind (s3_get C from) (\<lambda>marker.
        sbind (if marker \<noteq> None then copy_one C bucket from to else sret ()) (\<lambda>_.
        s3_delete C (old_keys @ [from])))))
      else
        sbind (copy_one C bucket from to) (\<lambda>_. s3_delete C [from]))"

definition s3_get_range :: "'w s3_client \<Rightarrow> string \<Rightarrow> u64 \<Rightarrow> ('w, u64 \<times> reader) sr" where
  "s3_get_range C key offset w =
     (if offset = 0 then s3_get_stream C key w
      else case c_get_object C key (Some (RangeFrom offset)) w of
        (w', Inr (len, body)) \<Rightarrow> (w', Inr (offset + clamp_len len, body))
      | (w', Inl e) \<Rightarrow> (w', Inl (Msg (''ranged download failed: '' @ key))))"

definition s3_read_header :: "'w s3_client \<Rightarrow> string \<Rightarrow> nat \<Rightarrow> ('w, bytes) sr" where
  "s3_read_header C key len w =
     (case c_get_object C key (Some (RangeTo (saturating_sub (of_nat len) 1))) w of
        (w', Inr (l, body)) \<Rightarrow> (w', collect_body ''reading header body'' body)
      | (w', Inl e) \<Rightarrow> (w', Inl (Msg (''reading header: '' @ key))))"

definition s3_connect :: "'w s3_client \<Rightarrow> string \<Rightarrow> ('w, unit) sr" where
  "s3_connect C bucket =
     sctx (''cannot access bucket '' @ bucket @ '' - check endpoint, credentials and bucket name'')
       (c_head_bucket C)"

text \<open>The trait object; methods the source does not override are the trait's defaults.\<close>

definition s3_backend :: "'w s3_client \<Rightarrow> nat \<Rightarrow> string \<Rightarrow> 'w backend" where
  "s3_backend C fuel bucket = \<lparr>
     be_health_check = c_head_bucket C,
     be_list = (\<lambda>prefix. list_inner C fuel prefix True),
     be_list_recursive = (\<lambda>prefix. list_inner C fuel prefix False),
     be_get = s3_get C,
     be_get_stream = s3_get_stream C,
     be_put = s3_put C,
     be_put_throttled = s3_put_throttled C,
     be_get_vault = s3_get C VAULT_KEY,
     be_put_vault = s3_put C VAULT_KEY,
     be_prepare_parents = (\<lambda>key. sret ()),
     be_create_multipart = s3_create_multipart C,
     be_upload_part = s3_upload_part C,
     be_complete_multipart = s3_complete_multipart C,
     be_abort_multipart = s3_abort_multipart C,
     be_delete = s3_delete C,
     be_rename = s3_rename C fuel bucket,
     be_get_range = s3_get_range C,
     be_read_header = s3_read_header C,
     be_tables = (\<lambda>t w. w)\<rparr>"

section \<open>What S3 promises\<close>

definition s3_get_law :: "'w s3_client \<Rightarrow> ('w \<Rightarrow> string \<rightharpoonup> bytes) \<Rightarrow> bool" where
  "s3_get_law C obs \<longleftrightarrow> (\<forall>k w w' x. c_get_object C k None w = (w', x) \<longrightarrow>
     obs w' = obs w \<and>
     (\<forall>len body d. x = Inr (len, body) \<longrightarrow> rd_content body = (d, None) \<longrightarrow> obs w k = Some d) \<and>
     (x = Inl NoSuchKey \<longrightarrow> obs w k = None))"

definition s3_put_law :: "'w s3_client \<Rightarrow> ('w \<Rightarrow> string \<rightharpoonup> bytes) \<Rightarrow> bool" where
  "s3_put_law C obs \<longleftrightarrow> (\<forall>k d w w' x. c_put_object C k d w = (w', x) \<longrightarrow>
     (\<forall>k'. k' \<noteq> k \<longrightarrow> obs w' k' = obs w k') \<and> (x = Inr () \<longrightarrow> obs w' k = Some d))"

definition s3_copy_law :: "'w s3_client \<Rightarrow> string \<Rightarrow> ('w \<Rightarrow> string \<rightharpoonup> bytes) \<Rightarrow> bool" where
  "s3_copy_law C bucket obs \<longleftrightarrow> (\<forall>from to w w' x. c_copy_object C (encode_copy_source bucket from) to w = (w', x) \<longrightarrow>
     (\<forall>k'. k' \<noteq> to \<longrightarrow> obs w' k' = obs w k') \<and>
     (x = Inr () \<longrightarrow> obs w from \<noteq> None \<and> obs w' to = obs w from))"

definition s3_delete_law :: "'w s3_client \<Rightarrow> ('w \<Rightarrow> string \<rightharpoonup> bytes) \<Rightarrow> bool" where
  "s3_delete_law C obs \<longleftrightarrow> (\<forall>ks w w' refused. c_delete_objects C ks w = (w', Inr refused) \<longrightarrow>
     (\<forall>k. obs w' k = (if k \<in> set ks - set refused then None else obs w k)))"

text \<open>
  \<open>s3_pages C prefix d t w ps w'\<close>: asked for a listing from token \<open>t\<close> on, the server answers with
  the pages \<open>ps\<close>, each but the last announcing the token of the next.
\<close>

inductive s3_pages ::
  "'w s3_client \<Rightarrow> string \<Rightarrow> bool \<Rightarrow> string option \<Rightarrow> 'w \<Rightarrow> s3_page list \<Rightarrow> 'w \<Rightarrow> bool"
  for C :: "'w s3_client" and prefix :: string and d :: bool where
  last_page: "c_list_objects_v2 C prefix d t w = (w', Inr p) \<Longrightarrow> sp_is_truncated p \<noteq> Some True \<Longrightarrow>
    s3_pages C prefix d t w [p] w'"
| next_page: "c_list_objects_v2 C prefix d t w = (w1, Inr p) \<Longrightarrow> sp_is_truncated p = Some True \<Longrightarrow>
    sp_next_token p = Some t' \<Longrightarrow> s3_pages C prefix d (Some t') w1 ps w' \<Longrightarrow>
    s3_pages C prefix d t w (p # ps) w'"

inductive_cases s3_pages_Nil: "s3_pages C prefix d t w [] w'"
inductive_cases s3_pages_Cons: "s3_pages C prefix d t w (p # ps) w'"

definition page_keys :: "s3_page list \<Rightarrow> string list" where
  "page_keys ps = List.map_filter so_key (concat (map sp_contents ps))"

text \<open>
  A truncated page carries the token of the next; a complete undelimited listing names every
  object under the prefix exactly once, has no common prefixes, and changes nothing.
\<close>

definition s3_list_law :: "'w s3_client \<Rightarrow> ('w \<Rightarrow> string \<rightharpoonup> bytes) \<Rightarrow> bool" where
  "s3_list_law C obs \<longleftrightarrow>
     (\<forall>prefix d t w w' p. c_list_objects_v2 C prefix d t w = (w', Inr p) \<longrightarrow>
        sp_is_truncated p = Some True \<longrightarrow> sp_next_token p \<noteq> None) \<and>
     (\<forall>prefix w ps w'. s3_pages C prefix False None w ps w' \<longrightarrow>
        obs w' = obs w \<and> distinct (page_keys ps) \<and>
        set (page_keys ps) = {k. obs w k \<noteq> None \<and> starts_with prefix k} \<and>
        (\<forall>p \<in> set ps. sp_common_prefixes p = []))"

definition s3_laws :: "'w s3_client \<Rightarrow> string \<Rightarrow> ('w \<Rightarrow> string \<rightharpoonup> bytes) \<Rightarrow> bool" where
  "s3_laws C bucket obs \<longleftrightarrow> s3_get_law C obs \<and> s3_put_law C obs \<and> s3_copy_law C bucket obs \<and>
     s3_delete_law C obs \<and> s3_list_law C obs"

text \<open>The S3 backend satisfies the contract of a backend whenever the client keeps its promises.\<close>

lemma s3_get_reads:
  assumes "s3_get_law C obs" "s3_get C k w = (w', r)"
  shows "obs w' = obs w \<and> (\<forall>x. r = Inr x \<longrightarrow> x = obs w k)"
proof -
  obtain w1 x where c: "c_get_object C k None w = (w1, x)" by fastforce
  note l = assms(1) [unfolded s3_get_law_def, rule_format, OF c]
  show ?thesis
  proof (cases x)
    case (Inl e)
    with assms(2) c l show ?thesis by (cases e) (auto simp: s3_get_def)
  next
    case (Inr y)
    obtain len body where y: "y = (len, body)" by fastforce
    obtain d e where d: "rd_content body = (d, e)" by fastforce
    have "e = None \<longrightarrow> obs w k = Some d" using l Inr y d by blast
    with assms(2) c l Inr y d show ?thesis by (cases e) (auto simp: s3_get_def collect_body_def)
  qed
qed

lemma s3_put_stores:
  assumes "s3_put_law C obs" "s3_put C k d w = (w', u)"
  shows "(\<forall>k'. k' \<noteq> k \<longrightarrow> obs w' k' = obs w k') \<and> (u = Inr () \<longrightarrow> obs w' k = Some d)"
proof -
  obtain w1 x where c: "c_put_object C k d w = (w1, x)" by fastforce
  note l = assms(1) [unfolded s3_put_law_def, rule_format, OF c]
  from assms(2) c have "w' = w1" "u = with_ctx (''upload failed: '' @ k) x" by (simp_all add: s3_put_def sctx_apply)
  with l show ?thesis by simp
qed

interpretation s3_store: object_store "s3_backend C fuel bucket" obs "\<lambda>_. s3_get_law C obs \<and> s3_put_law C obs"
  for C :: "'w s3_client" and fuel bucket obs
proof
  fix w k w' r
  assume "s3_get_law C obs \<and> s3_put_law C obs" "be_get (s3_backend C fuel bucket) k w = (w', r)"
  then show "(s3_get_law C obs \<and> s3_put_law C obs) \<and> obs w' = obs w \<and> (\<forall>x. r = Inr x \<longrightarrow> x = obs w k)"
    using s3_get_reads [of C obs k w w' r] by (simp add: s3_backend_def)
next
  fix w k d w' u
  assume "s3_get_law C obs \<and> s3_put_law C obs" "be_put (s3_backend C fuel bucket) k d w = (w', u)"
  then show "(s3_get_law C obs \<and> s3_put_law C obs) \<and> (\<forall>k'. object_key k' \<longrightarrow> k' \<noteq> k \<longrightarrow> obs w' k' = obs w k') \<and>
      (u = Inr () \<longrightarrow> obs w' k = Some d)"
    using s3_put_stores [of C obs k d w w' u] by (simp add: s3_backend_def)
next
  fix w t
  assume "s3_get_law C obs \<and> s3_put_law C obs"
  then show "(s3_get_law C obs \<and> s3_put_law C obs) \<and> obs (be_tables (s3_backend C fuel bucket) t w) = obs w"
    by (simp add: s3_backend_def)
qed

section \<open>Listing\<close>

lemma page_contents_keys:
  "map ro_key (page_contents prefix obs) = filter (\<lambda>k. k \<noteq> prefix) (List.map_filter so_key obs)"
  by (induction obs) (auto simp: List.map_filter_simps split: option.splits)

definition page_objects :: "string \<Rightarrow> s3_page list \<Rightarrow> raw_object list" where
  "page_objects prefix ps =
     concat (map (\<lambda>p. page_prefixes (sp_common_prefixes p) @ page_contents prefix (sp_contents p)) ps)"

lemma list_loop_pages:
  assumes tok: "\<forall>t w w' p. c_list_objects_v2 C prefix d t w = (w', Inr p) \<longrightarrow>
      sp_is_truncated p = Some True \<longrightarrow> sp_next_token p \<noteq> None"
  shows "list_loop C fuel prefix d t out w = (w', Inr res) \<Longrightarrow>
     \<exists>ps. s3_pages C prefix d t w ps w' \<and> res = out @ page_objects prefix ps"
proof (induction fuel arbitrary: t out w)
  case (Suc fuel)
  obtain w1 x where c: "c_list_objects_v2 C prefix d t w = (w1, x)" by fastforce
  with Suc.prems obtain p where x: "x = Inr p" by (cases x) (auto simp: sctx_apply)
  show ?case
  proof (cases "sp_is_truncated p = Some True")
    case True
    then obtain t' where t': "sp_next_token p = Some t'" using tok c x by blast
    have "list_loop C fuel prefix d (Some t') (out @ page_prefixes (sp_common_prefixes p) @
        page_contents prefix (sp_contents p)) w1 = (w', Inr res)"
      using Suc.prems c x True t' by (simp add: sctx_apply)
    from Suc.IH [OF this] obtain ps where "s3_pages C prefix d (Some t') w1 ps w'"
      "res = (out @ page_prefixes (sp_common_prefixes p) @ page_contents prefix (sp_contents p)) @ page_objects prefix ps"
      by blast
    then show ?thesis using c x True t'
      by (intro exI [of _ "p # ps"]) (auto simp: page_objects_def intro: next_page)
  next
    case False
    with Suc.prems c x show ?thesis
      by (intro exI [of _ "[p]"]) (auto simp: sctx_apply page_objects_def intro: last_page)
  qed
qed simp

lemma page_objects_keys:
  "\<forall>p \<in> set ps. sp_common_prefixes p = [] \<Longrightarrow>
     map ro_key (page_objects prefix ps) = filter (\<lambda>k. k \<noteq> prefix) (page_keys ps)"
  by (induction ps) (auto simp: page_objects_def page_keys_def page_contents_keys List.map_filter_def)

lemma list_inner_complete:
  assumes "s3_list_law C obs" "list_inner C fuel prefix False w = (w', Inr out)"
  shows "obs w' = obs w" "distinct (map ro_key out)"
    "set (map ro_key out) = {k. obs w k \<noteq> None \<and> starts_with prefix k \<and> k \<noteq> prefix}"
proof -
  have "\<forall>t w w' p. c_list_objects_v2 C prefix False t w = (w', Inr p) \<longrightarrow>
      sp_is_truncated p = Some True \<longrightarrow> sp_next_token p \<noteq> None"
    using assms(1) unfolding s3_list_law_def by blast
  from list_loop_pages [OF this assms(2) [unfolded list_inner_def]]
  obtain ps where ps: "s3_pages C prefix False None w ps w'" and out: "out = page_objects prefix ps"
    by auto
  have L: "obs w' = obs w" "distinct (page_keys ps)"
    "set (page_keys ps) = {k. obs w k \<noteq> None \<and> starts_with prefix k}" "\<forall>p \<in> set ps. sp_common_prefixes p = []"
    using assms(1) ps unfolding s3_list_law_def by blast+
  have k: "map ro_key out = filter (\<lambda>k. k \<noteq> prefix) (page_keys ps)"
    unfolding out by (rule page_objects_keys [OF L(4)])
  show "obs w' = obs w" by (rule L(1))
  show "distinct (map ro_key out)" unfolding k using L(2) by simp
  show "set (map ro_key out) = {k. obs w k \<noteq> None \<and> starts_with prefix k \<and> k \<noteq> prefix}"
    unfolding k using L(3) by auto
qed

lemma list_loop_returns:
  "s3_pages C prefix d t w ps w' \<Longrightarrow> length ps \<le> fuel \<Longrightarrow>
     list_loop C fuel prefix d t out w = (w', Inr (out @ page_objects prefix ps))"
proof (induction arbitrary: fuel out rule: s3_pages.induct)
  case (last_page t w w' p)
  then obtain f where "fuel = Suc f" by (cases fuel) auto
  with last_page show ?case by (simp add: sctx_apply page_objects_def)
next
  case (next_page t w w1 p t' ps w')
  then obtain f where "fuel = Suc f" by (cases fuel) auto
  with next_page show ?case by (simp add: sctx_apply page_objects_def)
qed

text \<open>
  C26. A recursive listing is complete over any number of pages: when the server's answers form
  \<open>n\<close> pages, \<open>n\<close> iterations of the loop return, and the result names every object under the
  prefix exactly once, except the folder marker itself.
\<close>

theorem list_recursive_complete:
  assumes "s3_list_law C obs" "s3_pages C prefix False None w ps w'" "length ps \<le> fuel"
  shows "\<exists>out. be_list_recursive (s3_backend C fuel bucket) prefix w = (w', Inr out) \<and>
    distinct (map ro_key out) \<and>
    set (map ro_key out) = {k. obs w k \<noteq> None \<and> starts_with prefix k \<and> k \<noteq> prefix}"
proof -
  have "list_inner C fuel prefix False w = (w', Inr (page_objects prefix ps))"
    unfolding list_inner_def using list_loop_returns [OF assms(2,3), of "[]"] by simp
  with list_inner_complete [OF assms(1) this] show ?thesis by (simp add: s3_backend_def)
qed

section \<open>Copy sources\<close>

definition hex_val :: "char \<Rightarrow> nat" where
  "hex_val c = (if (of_char c :: nat) < 58 then of_char c - 48 else of_char c - 55)"

text \<open>URL decoding, as the server applies it to the copy source.\<close>

fun percent_decode :: "string \<Rightarrow> string" where
  "percent_decode [] = []"
| "percent_decode (c # cs) =
     (if c = CHR ''%'' then
        (case cs of a # b # r \<Rightarrow> char_of (16 * hex_val a + hex_val b) # percent_decode r | _ \<Rightarrow> c # percent_decode cs)
      else c # percent_decode cs)"

lemma hex_val_digit: "n < 16 \<Longrightarrow> hex_val (hex_digit n) = n"
  by (auto simp: hex_val_def hex_digit_def)

lemma percent_decode_char:
  "percent_decode ((if unreserved c then [c] else CHR ''%'' # hex_upper [of_char c]) @ r) = c # percent_decode r"
proof (cases "unreserved c")
  case True
  then have "c \<noteq> CHR ''%''" by (auto simp: unreserved_def)
  with True show ?thesis by simp
next
  case False
  let ?n = "unat (of_char c :: u8)"
  have "?n div 16 < 16" using unat_bound [of "of_char c :: u8"] by simp
  then have "16 * hex_val (hex_digit (?n div 16)) + hex_val (hex_digit (?n mod 16)) = ?n"
    by (simp add: hex_val_digit)
  with False show ?thesis by (simp add: hex_upper_def char_of_unat_of_char)
qed

lemma decode_copy_source:
  "percent_decode (drop (Suc (length bucket)) (encode_copy_source bucket key)) = key"
proof -
  have "percent_decode (concat (map (\<lambda>c. if unreserved c then [c] else CHR ''%'' # hex_upper [of_char c]) key)) = key"
    by (induction key) (simp_all only: list.map concat.simps percent_decode_char percent_decode.simps(1))
  then show ?thesis by (simp add: encode_copy_source_def)
qed

text \<open>The server recovers the key from the encoded copy source, so two keys never share one.\<close>

interpretation copy_source: codec "\<lambda>key. Inr (encode_copy_source bucket key)"
  "\<lambda>src. Inr (percent_decode (drop (Suc (length bucket)) src))" "\<lambda>_. True" for bucket
  by unfold_locales (auto simp: decode_copy_source)

text \<open>
  Copy sources are encoded faithfully: the server's URL decoding of what follows the bucket name
  gives back the key, whatever bytes it has; and only unreserved characters, the percent sign
  and hex digits are sent.
\<close>

theorem copy_source_encoding:
  "percent_decode (drop (Suc (length bucket)) (encode_copy_source bucket key)) = key \<and>
   list_all (\<lambda>c. unreserved c \<or> c = CHR ''%'' \<or> is_upper_hex c) (drop (Suc (length bucket)) (encode_copy_source bucket key))"
proof -
  have "list_all (\<lambda>c. unreserved c \<or> c = CHR ''%'' \<or> is_upper_hex c)
      (concat (map (\<lambda>c. if unreserved c then [c] else CHR ''%'' # hex_upper [of_char c]) key))"
    by (auto simp: list_all_iff dest: hex_upper_chars)
  then show ?thesis using decode_copy_source by (simp add: encode_copy_source_def)
qed

section \<open>Paced bodies\<close>

lemma paced_send_sum:
  "fst (paced_send off rep fs) = max rep (if fs = [] then 0 else off + length (concat fs)) \<and>
   sum_list (snd (paced_send off rep fs)) + rep = fst (paced_send off rep fs)"
proof (induction fs arbitrary: off rep)
  case (Cons f fs)
  obtain a b where p: "paced_send (off + length f) (max rep (off + length f)) fs = (a, b)" by fastforce
  with Cons [of "off + length f" "max rep (off + length f)"] show ?case
    by (cases "fs = []") (auto simp: Let_def)
qed simp

text \<open>The reports of a sequence of attempts: attempt \<open>i\<close> sends the first \<open>ks ! i\<close> frames.\<close>

fun paced_attempts :: "bytes \<Rightarrow> nat \<Rightarrow> nat list \<Rightarrow> nat \<times> nat list" where
  "paced_attempts data rep [] = (rep, [])"
| "paced_attempts data rep (k # ks) =
     (case paced_send 0 rep (take k (PacedBody_frames data)) of
        (rep', cbs) \<Rightarrow> (case paced_attempts data rep' ks of (rep'', cbs') \<Rightarrow> (rep'', cbs @ cbs')))"

lemma paced_frames_length:
  "length (concat (PacedBody_frames data)) = length data"
  "length (concat (take k (PacedBody_frames data))) \<le> length data"
proof -
  show full: "length (concat (PacedBody_frames data)) = length data"
    by (simp add: PacedBody_frames_def PACE_CHUNK_def)
  then show "length (concat (take k (PacedBody_frames data))) \<le> length data"
    by (metis append_take_drop_id concat_append length_append le_add1)
qed

lemma paced_attempt_sum:
  assumes "rep \<le> length data" "paced_send 0 rep (take k (PacedBody_frames data)) = (rep', cbs)"
  shows "rep \<le> rep'" "rep' \<le> length data" "sum_list cbs + rep = rep'"
    "length (PacedBody_frames data) \<le> k \<Longrightarrow> rep' = length data"
  using paced_send_sum [of 0 rep "take k (PacedBody_frames data)"] assms
    paced_frames_length(1) [of data] paced_frames_length(2) [of k data]
  by (auto simp: PacedBody_frames_def PACE_CHUNK_def)

lemma paced_attempts_sum:
  assumes "rep \<le> length data"
  shows "rep \<le> fst (paced_attempts data rep ks) \<and> fst (paced_attempts data rep ks) \<le> length data \<and>
    sum_list (snd (paced_attempts data rep ks)) + rep = fst (paced_attempts data rep ks) \<and>
    ((\<exists>k \<in> set ks. length (PacedBody_frames data) \<le> k) \<longrightarrow> fst (paced_attempts data rep ks) = length data)"
  using assms
proof (induction ks arbitrary: rep)
  case (Cons k ks)
  obtain rep' cbs where p: "paced_send 0 rep (take k (PacedBody_frames data)) = (rep', cbs)" by fastforce
  note P = paced_attempt_sum [OF Cons.prems p]
  from Cons.IH [OF P(2)] P p show ?case by (auto split: prod.splits)
qed simp

text \<open>
  Throttled progress is counted once: over any sequence of attempts the client library makes
  to send a paced body, each cut off after any number of frames, the bytes reported sum up to
  the furthest position reached, never more than the body has, and to its whole length as soon
  as one attempt sends all of it.
\<close>

theorem paced_progress_counts_once:
  "sum_list (snd (paced_attempts data 0 ks)) \<le> length data \<and>
   sum_list (snd (paced_attempts data 0 (ks @ [length (PacedBody_frames data)]))) = length data"
  using paced_attempts_sum [of 0 data ks]
    paced_attempts_sum [of 0 data "ks @ [length (PacedBody_frames data)]"] by auto

section \<open>Deleting and renaming\<close>

lemma s3_delete_effect:
  assumes "s3_delete_law C obs" "s3_delete C ks w = (w', Inr ())"
  shows "k \<notin> set ks \<Longrightarrow> obs w' k = obs w k"
    and "(\<And>b v v' refused. c_delete_objects C b v = (v', Inr refused) \<Longrightarrow> refused = []) \<Longrightarrow>
      k \<in> set ks \<Longrightarrow> obs w' k = None"
proof -
  let ?f = "\<lambda>_ batch. sbind (sctx ''delete failed'' (c_delete_objects C batch)) (\<lambda>_. sret ())"
  have step: "\<exists>refused. c_delete_objects C b v = (v', Inr refused)"
    if "?f () b v = (v', Inr ())" for b v v'
    using that by (cases "c_delete_objects C b v"; cases "snd (c_delete_objects C b v)")
      (auto simp: sbind_apply sctx_apply sret_def)
  have frame: "sfold ?f () bs v = (v', Inr ()) \<Longrightarrow> k \<notin> set (concat bs) \<Longrightarrow> obs v' k = obs v k" for bs v v'
  proof (induction bs arbitrary: v)
    case (Cons b bs)
    from Cons.prems(1) obtain v1 where v1: "?f () b v = (v1, Inr ())" "sfold ?f () bs v1 = (v', Inr ())"
      by (auto simp: sbind_apply [of "?f () b"] split: prod.splits sum.splits)
    with step obtain refused where "c_delete_objects C b v = (v1, Inr refused)" by blast
    with assms(1) Cons.prems(2) have "obs v1 k = obs v k" unfolding s3_delete_law_def by auto
    with Cons v1 show ?case by simp
  qed (simp add: sret_def)
  have gone: "sfold ?f () bs v = (v', Inr ()) \<Longrightarrow> k \<in> set (concat bs) \<or> obs v k = None \<Longrightarrow> obs v' k = None"
    if nr: "\<And>b v v' refused. c_delete_objects C b v = (v', Inr refused) \<Longrightarrow> refused = []" for bs v v'
  proof (induction bs arbitrary: v)
    case (Cons b bs)
    from Cons.prems(1) obtain v1 where v1: "?f () b v = (v1, Inr ())" "sfold ?f () bs v1 = (v', Inr ())"
      by (auto simp: sbind_apply [of "?f () b"] split: prod.splits sum.splits)
    with step obtain refused where c: "c_delete_objects C b v = (v1, Inr refused)" by blast
    with nr have "refused = []" by blast
    with assms(1) c Cons.prems(2) have "k \<in> set (concat bs) \<or> obs v1 k = None"
      unfolding s3_delete_law_def by auto
    with Cons.IH v1 show ?case by blast
  qed (simp add: sret_def)
  have ks: "set (concat (chunks 1000 ks)) = set ks" by simp
  show "k \<notin> set ks \<Longrightarrow> obs w' k = obs w k"
    using frame [of "chunks 1000 ks" w w'] assms(2) ks unfolding s3_delete_def by blast
  show "(\<And>b v v' refused. c_delete_objects C b v = (v', Inr refused) \<Longrightarrow> refused = []) \<Longrightarrow>
      k \<in> set ks \<Longrightarrow> obs w' k = None"
    using gone [of "chunks 1000 ks" w w'] assms(2) ks unfolding s3_delete_def by blast
qed

text \<open>
  A refused deletion is reported as success: the service may accept a batch and refuse single
  keys in its answer; \<open>delete\<close> does not look at them and returns success with the object still there.
\<close>

theorem delete_ignores_refusals:
  assumes "s3_delete_law C obs" "ks \<noteq> []" "length ks \<le> 1000"
    and "c_delete_objects C ks w = (w', Inr refused)" "k \<in> set refused"
  shows "be_delete (s3_backend C fuel bucket) ks w = (w', Inr ()) \<and> obs w' k = obs w k"
proof -
  have "s3_delete C ks w = (w', Inr ())"
    using assms(2-4) by (simp add: s3_delete_def chunks_small sbind_apply sctx_apply sret_def)
  moreover have "obs w' k = obs w k" using assms(1,4,5) unfolding s3_delete_law_def by auto
  ultimately show ?thesis by (simp add: s3_backend_def)
qed

lemma copy_one_effect:
  assumes "s3_copy_law C bucket obs" "copy_one C bucket from to w = (w', Inr ())"
  shows "obs w' = (obs w)(to := obs w from)"
proof -
  obtain x where c: "c_copy_object C (encode_copy_source bucket from) to w = (w', x)" and x: "x = Inr ()"
    using assms(2) by (cases "c_copy_object C (encode_copy_source bucket from) to w") (auto simp: copy_one_def sctx_apply)
  with assms(1) have "\<forall>k'. k' \<noteq> to \<longrightarrow> obs w' k' = obs w k'" "obs w' to = obs w from"
    unfolding s3_copy_law_def by blast+
  then show ?thesis by auto
qed

text \<open>Two prefixes under which no common key exists.\<close>

definition incomparable :: "string \<Rightarrow> string \<Rightarrow> bool" where
  "incomparable a b \<longleftrightarrow> \<not> starts_with a b \<and> \<not> starts_with b a"

lemma incomparable_neq: "incomparable a b \<Longrightarrow> a @ s \<noteq> b @ t"
  unfolding incomparable_def starts_with_iff by (metis append_eq_append_conv2)

text \<open>The copy loop of \<open>rename\<close>.\<close>

definition copy_tree :: "'w s3_client \<Rightarrow> string \<Rightarrow> string \<Rightarrow> string \<Rightarrow> string list \<Rightarrow> raw_object list \<Rightarrow> ('w, string list) sr" where
  "copy_tree C bucket from to = sfold (\<lambda>old_keys ob.
     sbind (copy_one C bucket (ro_key ob)
       (to @ (case strip_prefix from (ro_key ob) of Some suffix \<Rightarrow> suffix | None \<Rightarrow> ro_key ob)))
     (\<lambda>_. sret (old_keys @ [ro_key ob])))"

lemma copy_tree_effect:
  assumes "s3_copy_law C bucket obs" "incomparable from to"
  shows "copy_tree C bucket from to acc objs w = (w', Inr old) \<Longrightarrow>
    \<forall>ob \<in> set objs. starts_with from (ro_key ob) \<Longrightarrow>
    old = acc @ map ro_key objs \<and>
    (\<forall>s. obs w' (to @ s) = (if from @ s \<in> ro_key ` set objs then obs w (from @ s) else obs w (to @ s))) \<and>
    (\<forall>k. \<not> starts_with to k \<longrightarrow> obs w' k = obs w k)"
proof (induction objs arbitrary: acc w)
  case Nil
  then show ?case by (simp add: copy_tree_def sret_def)
next
  case (Cons ob objs)
  from Cons.prems(2) obtain s0 where s0: "ro_key ob = from @ s0" by (auto simp: starts_with_iff)
  obtain w1 where c: "copy_one C bucket (from @ s0) (to @ s0) w = (w1, Inr ())"
    and rest: "copy_tree C bucket from to (acc @ [ro_key ob]) objs w1 = (w', Inr old)"
    using Cons.prems(1)
    by (cases "copy_one C bucket (from @ s0) (to @ s0) w"; cases "snd (copy_one C bucket (from @ s0) (to @ s0) w)")
      (auto simp: copy_tree_def s0 sbind_apply sret_def)
  have e: "obs w1 = (obs w)(to @ s0 := obs w (from @ s0))" by (rule copy_one_effect [OF assms(1) c])
  have f: "obs w1 (from @ s) = obs w (from @ s)" for s
    unfolding e using incomparable_neq [OF assms(2), of s s0] by simp
  have n: "\<not> starts_with to k \<Longrightarrow> obs w1 k = obs w k" for k
    unfolding e by (auto simp: starts_with_iff)
  have IH: "old = (acc @ [ro_key ob]) @ map ro_key objs"
    "obs w' (to @ s) = (if from @ s \<in> ro_key ` set objs then obs w1 (from @ s) else obs w1 (to @ s))"
    "\<not> starts_with to k \<longrightarrow> obs w' k = obs w1 k" for s k
    using Cons.IH [OF rest] Cons.prems(2) by auto
  show ?case using IH f n by (auto simp: s0 e)
qed

text \<open>
  Renaming a folder on S3 moves its whole tree: for prefixes that do not contain each other, if
  \<open>rename\<close> succeeds and the service refused no deletion, then afterwards nothing is left under
  the old prefix, everything that was there is under the new one with the same content, whatever
  else was under the new prefix is untouched, and so is every other key.
\<close>

theorem s3_rename_moves_tree:
  assumes "s3_laws C bucket obs" "ends_with slash from" "incomparable from to"
    and "be_rename (s3_backend C fuel bucket) from to w = (w', Inr ())"
    and "\<forall>b v v' refused. c_delete_objects C b v = (v', Inr refused) \<longrightarrow> refused = []"
  shows "(\<forall>s. obs w' (from @ s) = None) \<and>
    (\<forall>s. obs w' (to @ s) = (if obs w (from @ s) \<noteq> None then obs w (from @ s) else obs w (to @ s))) \<and>
    (\<forall>k. \<not> starts_with from k \<longrightarrow> \<not> starts_with to k \<longrightarrow> obs w' k = obs w k)"
proof -
  have laws: "s3_get_law C obs" "s3_copy_law C bucket obs" "s3_delete_law C obs" "s3_list_law C obs"
    using assms(1) by (simp_all add: s3_laws_def)
  have "s3_rename C fuel bucket from to w = (w', Inr ())" using assms(4) by (simp add: s3_backend_def)
  then obtain w1 objs w2 old w3 marker w4 where
    l: "list_inner C fuel from False w = (w1, Inr objs)" and
    c: "copy_tree C bucket from to [] objs w1 = (w2, Inr old)" and
    g: "s3_get C from w2 = (w3, Inr marker)" and
    m: "(if marker \<noteq> None then copy_one C bucket from to else sret ()) w3 = (w4, Inr ())" and
    d: "s3_delete C (old @ [from]) w4 = (w', Inr ())"
    using assms(2) by (auto simp: s3_rename_def copy_tree_def [symmetric] sbind_apply split: prod.splits sum.splits)
  note L = list_inner_complete [OF laws(4) l]
  have "\<forall>ob \<in> set objs. starts_with from (ro_key ob)" using L(3) by auto
  from copy_tree_effect [OF laws(2) assms(3) c this]
  have old: "old = map ro_key objs"
    and to2: "obs w2 (to @ s) = (if from @ s \<in> ro_key ` set objs then obs w1 (from @ s) else obs w1 (to @ s))"
    and fr2: "\<not> starts_with to k \<Longrightarrow> obs w2 k = obs w1 k" for s k by auto
  have nst: "\<not> starts_with to (from @ s)" for s
    using incomparable_neq [OF assms(3), of s] by (auto simp: starts_with_iff)
  have g3: "obs w3 = obs w2 \<and> (\<forall>x. Inr marker = Inr x \<longrightarrow> x = obs w2 from)"
    using s3_get_reads [OF laws(1) g] by simp
  have o4: "obs w4 = (if obs w2 from \<noteq> None then (obs w2)(to := obs w2 from) else obs w2)"
    using m g3 copy_one_effect [OF laws(2), of "from" "to" w3 w4] by (auto simp: sret_def split: if_splits)
  have mem: "from @ s \<in> ro_key ` set objs \<longleftrightarrow> obs w (from @ s) \<noteq> None \<and> s \<noteq> []" for s
  proof -
    have "ro_key ` set objs = {k. obs w k \<noteq> None \<and> starts_with from k \<and> k \<noteq> from}" using L(3) by simp
    then show ?thesis by (auto simp: starts_with_iff)
  qed
  have fromw: "obs w2 (from @ s) = obs w (from @ s)" for s using fr2 [OF nst] L(1) by simp
  have to4: "obs w4 (to @ s) = (if obs w (from @ s) \<noteq> None then obs w (from @ s) else obs w (to @ s))" for s
    using o4 to2 [of s] mem [of s] L(1) fromw [of "[]"] by (cases "s = []") auto
  have from4: "obs w4 (from @ s) = obs w (from @ s)" for s
    using o4 fromw incomparable_neq [OF assms(3), of s "[]"] by auto
  have other4: "\<not> starts_with to k \<Longrightarrow> obs w4 k = obs w k" for k
    using o4 fr2 [of k] L(1) starts_with_iff [of to k] by auto
  have keys: "set (old @ [from]) \<subseteq> {k. starts_with from k}"
    using L(3) old by (auto simp: starts_with_iff)
  note D = s3_delete_effect [OF laws(3) d]
  have nf: "\<not> starts_with from (to @ s)" for s
    using incomparable_neq [OF assms(3), of _ s] by (auto simp: starts_with_iff eq_commute)
  have "obs w' (from @ s) = None" for s
  proof (cases "from @ s \<in> set (old @ [from])")
    case True
    then show ?thesis using D(2) assms(5) by blast
  next
    case False
    then have "obs w (from @ s) = None" using mem [of s] old by auto
    then show ?thesis using D(1) [OF False] from4 by simp
  qed
  moreover have "obs w' k = obs w4 k" if "\<not> starts_with from k" for k
    by (rule D(1)) (use keys that in blast)
  ultimately show ?thesis using to4 other4 nf by simp
qed

end
