(* ===== verification/Reference_S3.thy ===== *)
theory Reference_S3
  imports S3
begin

text \<open>
  A concrete S3 client over an in-memory bucket, used where a theorem about the client library's
  behaviour is to be instantiated: a bucket is an association list of objects and the parts
  uploaded so far. It satisfies \<open>s3_laws\<close>; \<open>ref_backend\<close> is the S3 backend on top of it.
\<close>

record mem =
  mem_objs :: "(string \<times> bytes) list"
  mem_parts :: "(int \<times> bytes) list"

definition mem_obs :: "mem \<Rightarrow> string \<rightharpoonup> bytes" where
  "mem_obs w = map_of (mem_objs w)"

definition mem_store :: "string \<Rightarrow> bytes \<Rightarrow> mem \<Rightarrow> mem" where
  "mem_store k d w = w\<lparr>mem_objs := (k, d) # mem_objs w\<rparr>"

definition mem_keys :: "string \<Rightarrow> mem \<Rightarrow> string list" where
  "mem_keys prefix w = remdups (filter (starts_with prefix) (map fst (mem_objs w)))"

definition mem_object :: "mem \<Rightarrow> string \<Rightarrow> s3_object" where
  "mem_object w k = \<lparr>so_key = Some k, so_size = map_option (int \<circ> length) (mem_obs w k), so_modified = None\<rparr>"

definition mem_list :: "string \<Rightarrow> bool \<Rightarrow> string option \<Rightarrow> (mem, s3_page) sr" where
  "mem_list prefix delimited token w =
     (let ks = mem_keys prefix w;
          deep = (\<lambda>k. slash \<in> set (drop (length prefix) k));
          cp = (\<lambda>k. prefix @ takeWhile (\<lambda>c. c \<noteq> slash) (drop (length prefix) k) @ [slash])
      in (w, Inr \<lparr>sp_common_prefixes = (if delimited then map Some (remdups (map cp (filter deep ks))) else []),
                  sp_contents = map (mem_object w) (if delimited then filter (\<lambda>k. \<not> deep k) ks else ks),
                  sp_is_truncated = Some False, sp_next_token = None\<rparr>))"

definition mem_get :: "string \<Rightarrow> s3_range option \<Rightarrow> mem \<Rightarrow> mem \<times> (s3_error + (int option \<times> reader))" where
  "mem_get k rg w =
     (w, case mem_obs w k of
           None \<Rightarrow> Inl NoSuchKey
         | Some d \<Rightarrow>
             let part = (case rg of None \<Rightarrow> d | Some (RangeFrom a) \<Rightarrow> drop (unat a) d
                         | Some (RangeTo b) \<Rightarrow> take (Suc (unat b)) d)
             in Inr (Some (int (length part)), [Inr part]))"

definition mem_copy :: "string \<Rightarrow> string \<Rightarrow> (mem, unit) sr" where
  "mem_copy src to w =
     (case mem_obs w (percent_decode (drop 2 src)) of
        None \<Rightarrow> (w, Inl (Msg ''NoSuchKey''))
      | Some d \<Rightarrow> (mem_store to d w, Inr ()))"

definition mem_delete :: "string list \<Rightarrow> (mem, string list) sr" where
  "mem_delete ks w = (w\<lparr>mem_objs := filter (\<lambda>(k, d). k \<notin> set ks) (mem_objs w)\<rparr>, Inr [])"

definition mem_upload_part :: "string \<Rightarrow> string \<Rightarrow> int \<Rightarrow> bytes \<Rightarrow> (mem, string option) sr" where
  "mem_upload_part k uid n d w = (w\<lparr>mem_parts := AList.update n d (mem_parts w)\<rparr>, Inr (Some ''tag''))"

definition mem_complete :: "string \<Rightarrow> string \<Rightarrow> (int \<times> string) list \<Rightarrow> (mem, unit) sr" where
  "mem_complete k uid etags w =
     (mem_store k (concat (map (\<lambda>(n, t). case map_of (mem_parts w) n of Some d \<Rightarrow> d | None \<Rightarrow> []) etags))
        (w\<lparr>mem_parts := []\<rparr>), Inr ())"

definition mem_client :: "mem s3_client" where
  "mem_client = \<lparr>
     c_head_bucket = sret (),
     c_list_objects_v2 = mem_list,
     c_get_object = mem_get,
     c_put_object = (\<lambda>k d w. (mem_store k d w, Inr ())),
     c_copy_object = mem_copy,
     c_create_multipart = (\<lambda>k. sret (Some ''upload'')),
     c_upload_part = mem_upload_part,
     c_complete_multipart = mem_complete,
     c_abort_multipart = (\<lambda>k uid w. (w\<lparr>mem_parts := []\<rparr>, Inr ())),
     c_delete_objects = mem_delete\<rparr>"

definition ref_backend :: "mem backend" where
  "ref_backend = s3_backend mem_client 1 ''b''"

lemma mem_obs_store [simp]: "mem_obs (mem_store k d w) = (mem_obs w)(k \<mapsto> d)"
  by (simp add: mem_obs_def mem_store_def)

lemma mem_obs_delete: "mem_obs (w\<lparr>mem_objs := filter (\<lambda>(k, d). k \<notin> set ks) (mem_objs w)\<rparr>) k =
    (if k \<in> set ks then None else mem_obs w k)"
proof -
  have "map_of (filter (\<lambda>(k, d). k \<notin> set ks) xs) k = (if k \<in> set ks then None else map_of xs k)"
    for xs :: "(string \<times> bytes) list"
    by (induction xs) auto
  then show ?thesis by (simp add: mem_obs_def)
qed

lemma mem_get_law: "s3_get_law mem_client mem_obs"
  by (auto simp: s3_get_law_def mem_client_def mem_get_def split: option.splits)

lemma mem_put_law: "s3_put_law mem_client mem_obs"
  by (auto simp: s3_put_law_def mem_client_def)

lemma mem_copy_law: "s3_copy_law mem_client ''b'' mem_obs"
proof -
  have "percent_decode (drop 2 (encode_copy_source ''b'' k)) = k" for k
    using decode_copy_source [of "''b''" k] by (simp add: numeral_2_eq_2)
  then show ?thesis by (auto simp: s3_copy_law_def mem_client_def mem_copy_def split: option.splits)
qed

lemma mem_delete_law: "s3_delete_law mem_client mem_obs"
  by (auto simp: s3_delete_law_def mem_client_def mem_delete_def mem_obs_delete)

lemma mem_list_law: "s3_list_law mem_client mem_obs"
proof -
  have nt: "sp_is_truncated p \<noteq> Some True" if "mem_list prefix d t w = (w', Inr p)" for prefix d t w w' p
    using that by (auto simp: mem_list_def Let_def)
  have pg: "\<exists>p. ps = [p] \<and> mem_list prefix False None w = (w', Inr p)"
    if "s3_pages mem_client prefix False None w ps w'" for prefix w ps w'
    using that nt by cases (auto simp: mem_client_def)
  have km: "List.map_filter so_key (map (mem_object w) ks) = ks" for w ks
    by (induction ks) (auto simp: List.map_filter_simps mem_object_def)
  have "set (mem_keys prefix w) = {k. mem_obs w k \<noteq> None \<and> starts_with prefix k}" for prefix w
  proof -
    have "k \<in> fst ` set (mem_objs w) \<longleftrightarrow> mem_obs w k \<noteq> None" for k
      by (simp add: mem_obs_def map_of_eq_None_iff)
    then show ?thesis by (auto simp: mem_keys_def)
  qed
  moreover have "distinct (mem_keys prefix w)" for prefix w by (simp add: mem_keys_def)
  ultimately have "mem_obs w' = mem_obs w \<and> distinct (page_keys ps) \<and>
      set (page_keys ps) = {k. mem_obs w k \<noteq> None \<and> starts_with prefix k} \<and>
      (\<forall>p \<in> set ps. sp_common_prefixes p = [])"
    if "s3_pages mem_client prefix False None w ps w'" for prefix w ps w'
    using pg [OF that] by (auto simp: mem_list_def Let_def page_keys_def km)
  then show ?thesis using nt unfolding s3_list_law_def by (auto simp: mem_client_def)
qed

lemma mem_laws: "s3_laws mem_client ''b'' mem_obs"
  by (simp add: s3_laws_def mem_get_law mem_put_law mem_copy_law mem_delete_law mem_list_law)

definition sample_bucket :: mem where
  "sample_bucket = \<lparr>mem_objs = [(''a/'', []), (''a/x'', [1, 2]), (''a/d/y'', [3]), (''c'', [4])], mem_parts = []\<rparr>"

section \<open>Instances of the theorems on the S3 backend\<close>

theorem list_recursive_complete_witness:
  "\<exists>out w'. be_list_recursive (s3_backend mem_client 1 ''b'') ''a/'' sample_bucket = (w', Inr out) \<and>
    distinct (map ro_key out) \<and>
    set (map ro_key out) = {k. mem_obs sample_bucket k \<noteq> None \<and> starts_with ''a/'' k \<and> k \<noteq> ''a/''}"
proof -
  obtain p where "mem_list ''a/'' False None sample_bucket = (sample_bucket, Inr p)" "sp_is_truncated p = Some False"
    by (simp add: mem_list_def Let_def)
  then have "s3_pages mem_client ''a/'' False None sample_bucket [p] sample_bucket"
    by (intro last_page) (simp_all add: mem_client_def)
  moreover have "length [p] \<le> 1" by simp
  ultimately show ?thesis using list_recursive_complete [OF mem_list_law] by blast
qed

theorem delete_ignores_refusals_witness:
  "be_delete (s3_backend (mem_client\<lparr>c_delete_objects := (\<lambda>ks w. (w, Inr ks))\<rparr>) 1 ''b'') [''c''] sample_bucket =
     (sample_bucket, Inr ()) \<and> mem_obs sample_bucket ''c'' = mem_obs sample_bucket ''c''"
  by (rule delete_ignores_refusals [where refused = "[''c'']"]) (auto simp: s3_delete_law_def)

lemma mem_no_refusals: "\<forall>b v v' refused. c_delete_objects mem_client b v = (v', Inr refused) \<longrightarrow> refused = []"
  by (simp add: mem_client_def mem_delete_def)

theorem s3_rename_moves_tree_witness:
  "\<exists>w'. be_rename (s3_backend mem_client 1 ''b'') ''a/'' ''z/'' sample_bucket = (w', Inr ()) \<and>
    (\<forall>s. mem_obs w' (''a/'' @ s) = None) \<and>
    (\<forall>s. mem_obs w' (''z/'' @ s) = (if mem_obs sample_bucket (''a/'' @ s) \<noteq> None
       then mem_obs sample_bucket (''a/'' @ s) else mem_obs sample_bucket (''z/'' @ s))) \<and>
    (\<forall>k. \<not> starts_with ''a/'' k \<longrightarrow> \<not> starts_with ''z/'' k \<longrightarrow> mem_obs w' k = mem_obs sample_bucket k)"
proof -
  have "snd (be_rename (s3_backend mem_client 1 ''b'') ''a/'' ''z/'' sample_bucket) = Inr ()"
    by code_simp
  then obtain w' where r: "be_rename (s3_backend mem_client 1 ''b'') ''a/'' ''z/'' sample_bucket = (w', Inr ())"
    by (metis prod.collapse)
  have "ends_with slash ''a/''" "incomparable ''a/'' ''z/''"
    by (simp_all add: ends_with_def incomparable_def starts_with_def)
  from s3_rename_moves_tree [OF mem_laws this r mem_no_refusals] r show ?thesis by blast
qed

end
