(* ===== verification/Upload.thy ===== *)
theory Upload
  imports DirView Settings Reference_S3
begin

text \<open>
  Uploading one file (\<^verbatim>\<open>src/src/worker.rs\<close>: \<open>upload_small\<close>, \<open>upload_multipart\<close> and the
  key an upload goes to). The local file is the byte stream reading it yields, with any pattern
  of short reads; the cancellation token is the function \<open>cancelled\<close> from the index of the loop
  iteration to its state there; \<open>limiter\<close> is the rate of the upload limiter, which paces but
  does not change what is sent.

  \<open>multipart_uploads_file\<close> is the refinement: the loop sends, as parts 1, 2, ... of at least
  the part size each but the last, exactly the file, or exactly what \<open>encrypt_bytes\<close> makes of
  it, although it never holds more than one part.
\<close>

section \<open>Reading\<close>

text \<open>The inner loop of \<open>upload_multipart\<close>: fill the chunk buffer, or stop at the end of the file.\<close>

function fill :: "nat \<Rightarrow> reader \<Rightarrow> (reader \<times> bytes) result" where
  "fill want r =
     (if want = 0 then Inr (r, [])
      else case rd_read want r of
        (r', Inl e) \<Rightarrow> Inl e
      | (r', Inr b) \<Rightarrow>
          if b = [] then Inr (r', [])
          else (case fill (want - length b) r' of Inl e \<Rightarrow> Inl e | Inr (r'', bs) \<Rightarrow> Inr (r'', b @ bs)))"
  by pat_completeness auto
termination
  by (relation "measure fst") auto

declare fill.simps [simp del]

lemma fill_content:
  assumes "rd_content r = (d, None)"
  shows "\<exists>r'. fill n r = Inr (r', take n d) \<and> rd_content r' = (drop n d, None)"
  using assms
proof (induction n arbitrary: r d rule: less_induct)
  case (less n)
  show ?case
  proof (cases "n = 0")
    case False
    obtain r' x where rd: "rd_read n r = (r', x)" by fastforce
    from False have pos: "0 < n" by simp
    from rd_read_content [OF rd pos less.prems] consider
      (data) b where "x = Inr b" "b \<noteq> []" "length b \<le> n" "rd_content r' = (drop (length b) d, None)"
        "take (length b) d = b" "length b \<le> length d"
    | (eof) "x = Inr []" "d = []" "r' = []" by auto
    then show ?thesis
    proof cases
      case data
      have "n - length b < n" using data False by (cases b) auto
      from less.IH [OF this data(4)] obtain r'' where
        IH: "fill (n - length b) r' = Inr (r'', take (n - length b) (drop (length b) d))"
        "rd_content r'' = (drop (n - length b) (drop (length b) d), None)" by blast
      have "take n d = b @ take (n - length b) (drop (length b) d)"
        using data by (metis le_add_diff_inverse take_add)
      with rd data IH False show ?thesis by (subst fill.simps) simp
    next
      case eof
      with rd False show ?thesis by (subst fill.simps) simp
    qed
  qed (use less.prems in \<open>subst fill.simps, simp\<close>)
qed

text \<open>Every successful fill consumes what it returns.\<close>

lemma fill_consumes:
  "fill n r = Inr (r', b) \<Longrightarrow> length b + length (fst (rd_content r')) = length (fst (rd_content r))"
proof (induction n arbitrary: r r' b rule: less_induct)
  case (less n)
  show ?case
  proof (cases "n = 0")
    case True
    with less.prems show ?thesis by (simp add: fill.simps)
  next
    case False
    obtain r1 x where rd: "rd_read n r = (r1, x)" by fastforce
    obtain d e where d: "rd_content r = (d, e)" by fastforce
    from False have pos: "0 < n" by simp
    note C = rd_read_content [OF rd pos d]
    show ?thesis
    proof (cases x)
      case (Inl er)
      with less.prems rd False show ?thesis by (simp add: fill.simps [of n r])
    next
      case (Inr c)
      show ?thesis
      proof (cases "c = []")
        case True
        with less.prems rd False Inr C d show ?thesis by (auto simp: fill.simps [of n r])
      next
        case ne: False
        with less.prems rd False Inr obtain bs where
          f: "fill (n - length c) r1 = Inr (r', bs)" and b: "b = c @ bs"
          by (auto simp: fill.simps [of n r] split: sum.splits)
        have "n - length c < n" using ne False by (cases c) auto
        from less.IH [OF this f] C Inr ne d b show ?thesis by auto
      qed
    qed
  qed
qed

lemma fill_decreases:
  "fill CHUNK r = Inr (r', b) \<Longrightarrow> \<not> length b < CHUNK \<Longrightarrow>
     length (fst (rd_content r')) < length (fst (rd_content r))"
  using fill_consumes [of CHUNK r r' b] const_nats(3) by linarith

section \<open>Operations\<close>


text \<open>The part size, computed in \<open>u64\<close>: a release build wraps around.\<close>

definition part_size_bytes :: "settings \<Rightarrow> nat" where
  "part_size_bytes st = unat (max (part_size_mib st) 5 * 1024 * 1024)"

text \<open>\<open>Vec::with_capacity\<close> panics when more than \<open>isize::MAX\<close> bytes are asked for.\<close>

definition with_capacity :: "nat \<Rightarrow> ('w, unit) sr" where
  "with_capacity n = (if n < 2 ^ 63 then sret () else serr Panic)"


definition S3_MIN_PART :: nat where
  "S3_MIN_PART = 5 * 1024 * 1024"

definition upload_key :: "crypto_lib \<Rightarrow> vault_keys option \<Rightarrow> string \<Rightarrow> string \<Rightarrow> string result" where
  "upload_key L keys dest_prefix rel =
     (case keys of
        Some k \<Rightarrow> rbind (on_disk_path L k rel) (\<lambda>p. Inr (dest_prefix @ p))
      | None \<Rightarrow> Inr (dest_prefix @ rel))"

definition upload_small ::
  "crypto_lib \<Rightarrow> 'w backend \<Rightarrow> vault_keys option \<Rightarrow> bytes \<Rightarrow> u64 option \<Rightarrow> bytes result \<Rightarrow> string \<Rightarrow> ('w, unit) sr" where
  "upload_small L B keys prefix limiter file key =
     sbind (slift (with_ctx ''reading local file'' file)) (\<lambda>data.
     sbind (slift (case keys of Some k \<Rightarrow> encrypt_bytes L k prefix data | None \<Rightarrow> Inr data)) (\<lambda>body.
     be_put_throttled B key body limiter))"

text \<open>One step of the cipher, if there is one.\<close>

definition seal_or_copy ::
  "crypto_lib \<Rightarrow> encryptor option \<Rightarrow> bytes \<Rightarrow> bool \<Rightarrow> encryptor option \<times> bytes result" where
  "seal_or_copy L enc chunk lst =
     (case enc of
        Some e \<Rightarrow> (case seal_chunk L e chunk lst of (e', r) \<Rightarrow> (Some e', r))
      | None \<Rightarrow> (None, Inr chunk))"

record mp_params =
  mpp_mp :: multipart_upload
  mpp_part_size :: nat
  mpp_file_len :: nat
  mpp_limiter :: "u64 option"

function (sequential) mp_loop ::
  "crypto_lib \<Rightarrow> 'w backend \<Rightarrow> mp_params \<Rightarrow> (nat \<Rightarrow> bool) \<Rightarrow> nat \<Rightarrow> encryptor option \<Rightarrow> bytes \<Rightarrow>
     (int \<times> string) list \<Rightarrow> int \<Rightarrow> nat \<Rightarrow> reader \<Rightarrow> ('w, (int \<times> string) list) sr" where
  "mp_loop L B P cancelled i enc part_buf etags part_number read_total r w =
     (if cancelled i then (w, Inl (Msg ''cancelled''))
      else case fill CHUNK r of
        Inl e \<Rightarrow> (w, Inl e)
      | Inr (r', chunk) \<Rightarrow>
          let total = read_total + length chunk;
              lst = (mpp_file_len P \<le> total \<or> length chunk < CHUNK)
          in case seal_or_copy L enc chunk lst of
            (enc', Inl e) \<Rightarrow> (w, Inl e)
          | (enc', Inr ct) \<Rightarrow>
              let buf = part_buf @ ct in
              if mpp_part_size P \<le> length buf \<or> lst
              then if \<not> lst \<and> length buf < S3_MIN_PART
                   then (w, Inl (Msg ''internal: multipart part below the 5 MiB minimum''))
                   else (case be_upload_part B (mpp_mp P) part_number buf (mpp_limiter P) w of
                       (w', Inl e) \<Rightarrow> (w', Inl e)
                     | (w', Inr (etag, reported)) \<Rightarrow>
                         if lst then (w', Inr (etags @ [(part_number, etag)]))
                         else mp_loop L B P cancelled (Suc i) enc' [] (etags @ [(part_number, etag)])
                                (part_number + 1) total r' w')
              else mp_loop L B P cancelled (Suc i) enc' buf etags part_number total r' w)"
  by pat_completeness auto
termination
  by (relation "measure (\<lambda>(L, B, P, c, i, e, pb, et, pn, rt, r, w). length (fst (rd_content r)))")
    (auto intro: fill_decreases)

declare mp_loop.simps [simp del]

text \<open>\<open>if result.is_err()\<close>: the upload is aborted, unless a panic has unwound the task.\<close>

definition mp_failed :: "'w backend \<Rightarrow> multipart_upload \<Rightarrow> error \<Rightarrow> ('w, unit) sr" where
  "mp_failed B mp e = (if lost e then serr e else sbind (attempt (be_abort_multipart B mp)) (\<lambda>_. serr e))"

definition upload_multipart ::
  "crypto_lib \<Rightarrow> 'w backend \<Rightarrow> vault_keys option \<Rightarrow> bytes \<Rightarrow> settings \<Rightarrow> u64 option \<Rightarrow> (nat \<times> reader) result \<Rightarrow>
     (nat \<Rightarrow> bool) \<Rightarrow> string \<Rightarrow> ('w, unit) sr" where
  "upload_multipart L B keys prefix st limiter file cancelled key =
     sbind (be_create_multipart B key) (\<lambda>mp.
     sbind (attempt (
       sbind (slift (with_ctx ''opening local file'' file)) (\<lambda>(file_len, r).
       let enc = map_option (\<lambda>k. Encryptor_new k prefix) keys;
           P = \<lparr>mpp_mp = mp, mpp_part_size = part_size_bytes st, mpp_file_len = file_len, mpp_limiter = limiter\<rparr>
       in sbind (with_capacity (unat (of_nat (part_size_bytes st) + of_nat CIPHER_CHUNK :: u64))) (\<lambda>_.
          sbind (mp_loop L B P cancelled 0 enc (case enc of Some e \<Rightarrow> header e | None \<Rightarrow> []) [] 1 0 r) (\<lambda>etags.
          be_complete_multipart B mp etags))))) (\<lambda>result.
     case result of
       Inr u \<Rightarrow> sret u
     | Inl e \<Rightarrow> mp_failed B mp e))"

section \<open>What is uploaded\<close>

text \<open>The abstract upload: the parts of an object, numbered from \<open>n\<close>, one after the other.\<close>

fun upload_all ::
  "'w backend \<Rightarrow> mp_params \<Rightarrow> (int \<times> string) list \<Rightarrow> int \<Rightarrow> bytes list \<Rightarrow> ('w, (int \<times> string) list) sr" where
  "upload_all B P etags n [] w = (w, Inr etags)"
| "upload_all B P etags n (p # ps) w =
     (case be_upload_part B (mpp_mp P) n p (mpp_limiter P) w of
        (w', Inl e) \<Rightarrow> (w', Inl e)
      | (w', Inr (etag, reported)) \<Rightarrow> upload_all B P (etags @ [(n, etag)]) (n + 1) ps w')"

text \<open>What the loop still has to send: the buffer, then every chunk still to be read, sealed or copied.\<close>

definition enc_state :: "encryptor option \<Rightarrow> nat \<Rightarrow> bool" where
  "enc_state enc i \<longleftrightarrow> (case enc of None \<Rightarrow> True
     | Some e \<Rightarrow> enc_counter e = of_nat i \<and> length (enc_prefix e) = PREFIX_LEN)"

definition sealed_or_plain :: "crypto_lib \<Rightarrow> encryptor option \<Rightarrow> nat \<Rightarrow> bytes list \<Rightarrow> bytes list option" where
  "sealed_or_plain L enc i cs =
     (case enc of None \<Rightarrow> Some cs | Some e \<Rightarrow> sealed L (enc_cipher e) (enc_prefix e) i cs)"

lemma sealed_or_plain_Cons:
  assumes "sealed_or_plain L enc i (c # cs) = Some cts" "enc_state enc i" "Suc i < 2 ^ 32"
  shows "\<exists>ct cts' enc'. seal_or_copy L enc c (cs = []) = (enc', Inr ct) \<and> cts = ct # cts' \<and>
    sealed_or_plain L enc' (Suc i) cs = Some cts' \<and> enc_state enc' (Suc i)"
proof (cases enc)
  case None
  with assms show ?thesis by (auto simp: sealed_or_plain_def seal_or_copy_def enc_state_def)
next
  case (Some e)
  have ca: "checked_add (enc_counter e) 1 = Some (of_nat (Suc i))"
    using assms(2) Some checked_add_one [OF assms(3)] by (simp add: enc_state_def)
  from assms(1) Some obtain ct cts' where
    ct: "aead_encrypt L (enc_cipher e) (chunk_nonce (enc_prefix e) (of_nat i) (cs = [])) c = Some ct" and
    rest: "sealed L (enc_cipher e) (enc_prefix e) (Suc i) cs = Some cts'" and cts: "cts = ct # cts'"
    by (auto simp: sealed_or_plain_def split: option.splits)
  let ?e = "e\<lparr>enc_counter := of_nat (Suc i)\<rparr>"
  have "seal_or_copy L enc c (cs = []) = (Some ?e, Inr ct)"
    using Some ca ct assms(2) by (simp add: seal_or_copy_def seal_chunk_def enc_state_def del: of_nat_Suc)
  moreover have "sealed_or_plain L (Some ?e) (Suc i) cs = Some cts'" using rest by (simp add: sealed_or_plain_def)
  moreover have "enc_state (Some ?e) (Suc i)" using assms(2) Some by (simp add: enc_state_def)
  ultimately show ?thesis using cts by blast
qed

text \<open>A plaintext cut for sealing: full chunks and a last one, empty only for the empty file.\<close>

definition cut_ok :: "bytes list \<Rightarrow> bool" where
  "cut_ok cs \<longleftrightarrow> cs \<noteq> [] \<and> (\<forall>c \<in> set (butlast cs). length c = CHUNK) \<and> length (last cs) \<le> CHUNK \<and>
     (1 < length cs \<longrightarrow> last cs \<noteq> [])"

lemma cut_ok_Cons:
  assumes "cut_ok (c # cs)" "cs \<noteq> []"
  shows "length c = CHUNK" "cut_ok cs" "concat cs \<noteq> []"
proof -
  show "length c = CHUNK" "cut_ok cs" using assms by (auto simp: cut_ok_def)
  have "last cs \<in> set cs" "last cs \<noteq> []" using assms by (auto simp: cut_ok_def)
  then show "concat cs \<noteq> []" by auto
qed

lemma cut_ok_file_chunks: "cut_ok (file_chunks data)"
proof -
  have "length (last (chunks CHUNK data)) \<le> CHUNK" "last (chunks CHUNK data) \<noteq> []" if "data \<noteq> []"
    using that chunks_length_le [of CHUNK "last (chunks CHUNK data)" data]
      chunks_nonempty [of CHUNK "last (chunks CHUNK data)" data] by auto
  then show ?thesis using file_chunks_full by (auto simp: cut_ok_def file_chunks_def)
qed



text \<open>One turn of the loop: on the last chunk, and on a full chunk with more to come.\<close>

lemma mp_loop_last:
  assumes "\<not> cancelled i" "fill CHUNK r = Inr (r', c)" "seal_or_copy L enc c True = (enc', Inr ct)"
    and "mpp_file_len P \<le> read_total + length c"
  shows "mp_loop L B P cancelled i enc part_buf etags n read_total r w = upload_all B P etags n [part_buf @ ct] w"
  using assms by (subst mp_loop.simps) (simp add: Let_def split: prod.splits sum.splits)



text \<open>Whatever the part size, a loop that succeeds has sent exactly the buffer and the chunks.\<close>

lemma mp_loop_sends:
  assumes "mp_loop L B P (\<lambda>_. False) i enc part_buf etags n read_total r w = (w', Inr tags)" "cut_ok cs"
    and "rd_content r = (concat cs, None)" "mpp_file_len P = read_total + length (concat cs)"
    and "sealed_or_plain L enc i cs = Some cts" "enc_state enc i" "i + length cs < 2 ^ 32"
  shows "\<exists>parts. upload_all B P etags n parts w = (w', Inr tags) \<and> concat parts = part_buf @ concat cts"
  using assms
proof (induction cs arbitrary: i enc part_buf etags n read_total r w cts)
  case (Cons c cs)
  have i: "Suc i < 2 ^ 32" using Cons.prems(7) by simp
  obtain ct cts' enc' where sc: "seal_or_copy L enc c (cs = []) = (enc', Inr ct)" and cts: "cts = ct # cts'"
    and rest: "sealed_or_plain L enc' (Suc i) cs = Some cts'" and es: "enc_state enc' (Suc i)"
    using sealed_or_plain_Cons [OF Cons.prems(5,6) i] by blast
  obtain r' where fl: "fill CHUNK r = Inr (r', take CHUNK (concat (c # cs)))"
    and r': "rd_content r' = (drop CHUNK (concat (c # cs)), None)"
    using fill_content [OF Cons.prems(3)] by blast
  show ?case
  proof (cases "cs = []")
    case True
    then have f: "fill CHUNK r = Inr (r', c)" and "cts' = []"
      using Cons.prems(2) fl rest by (auto simp: cut_ok_def sealed_or_plain_def split: option.splits)
    have "mp_loop L B P (\<lambda>_. False) i enc part_buf etags n read_total r w = upload_all B P etags n [part_buf @ ct] w"
      by (rule mp_loop_last [OF _ f]) (use sc Cons.prems(4) True in simp_all)
    with \<open>cts' = []\<close> Cons.prems(1) show ?thesis by (intro exI [of _ "[part_buf @ ct]"]) (simp add: cts)
  next
    case False
    note C = cut_ok_Cons [OF Cons.prems(2) False]
    have f: "fill CHUNK r = Inr (r', c)" and rc: "rd_content r' = (concat cs, None)" using fl r' C(1) by simp_all
    have fl_len: "mpp_file_len P = (read_total + length c) + length (concat cs)" using Cons.prems(4) by simp
    have nl: "\<not> (mpp_file_len P \<le> read_total + length c \<or> length c < CHUNK)" using fl_len C by simp
    have b: "Suc i + length cs < 2 ^ 32" using Cons.prems(7) by simp
    note IH = Cons.IH [OF _ C(2) rc fl_len rest es b]
    show ?thesis
    proof (cases "mpp_part_size P \<le> length (part_buf @ ct)")
      case True
      obtain w1 x where up: "be_upload_part B (mpp_mp P) n (part_buf @ ct) (mpp_limiter P) w = (w1, x)" by fastforce
      obtain tag rep where x: "x = Inr (tag, rep)"
        and l: "mp_loop L B P (\<lambda>_. False) (Suc i) enc' [] (etags @ [(n, tag)]) (n + 1) (read_total + length c) r' w1 = (w', Inr tags)"
        using Cons.prems(1) f sc False nl True up by (subst (asm) mp_loop.simps) (auto simp: Let_def split: sum.splits if_splits)
      from IH [OF l] obtain ps where "upload_all B P (etags @ [(n, tag)]) (n + 1) ps w1 = (w', Inr tags)" "concat ps = concat cts'"
        by auto
      with up x show ?thesis by (intro exI [of _ "(part_buf @ ct) # ps"]) (simp add: cts)
    next
      case small: False
      have "mp_loop L B P (\<lambda>_. False) (Suc i) enc' (part_buf @ ct) etags n (read_total + length c) r' w = (w', Inr tags)"
        using Cons.prems(1) f sc False nl small by (subst (asm) mp_loop.simps) (simp add: Let_def)
      from IH [OF this] show ?thesis by (simp add: cts)
    qed
  qed
qed (simp add: cut_ok_def)

lemma plain_or_sealed_body:
  assumes "aead_correct L" "aead_total L" "length prefix = PREFIX_LEN" "length data \<le> 2 ^ 51"
    and "case keys of None \<Rightarrow> True | Some k \<Rightarrow> keys_wf k"
  defines "enc \<equiv> map_option (\<lambda>k. Encryptor_new k prefix) keys"
  shows "\<exists>cts. sealed_or_plain L enc 0 (file_chunks data) = Some cts \<and>
    (\<forall>ct \<in> set cts. length ct \<le> CIPHER_CHUNK) \<and>
    (case keys of None \<Rightarrow> concat cts = data
     | Some k \<Rightarrow> encrypt_bytes L k prefix data = Inr (MAGIC @ prefix @ concat cts))"
proof (cases keys)
  case None
  have "length c \<le> CHUNK" if "c \<in> set (file_chunks data)" for c
    using that by (auto simp: file_chunks_def intro: chunks_length_le split: if_splits)
  then show ?thesis using None by (fastforce simp: sealed_or_plain_def enc_def CIPHER_CHUNK_def)
next
  case (Some k)
  have "n_chunks (length data) \<le> length data div CHUNK + 1" by (rule n_chunks_le)
  also have "\<dots> \<le> 2 ^ 31 + 1" using div_le_mono [OF assms(4), of CHUNK] by (simp add: CHUNK_def)
  finally have n: "n_chunks (length data) < 2 ^ 32" by simp
  obtain cts0 where "sealed L (vk_content k) prefix 0 (file_chunks data) = Some cts0"
    using sealed_total assms(2,3,5) Some unfolding keys_wf_def by fastforce
  then have "encrypt_bytes L k prefix data = Inr (MAGIC @ prefix @ concat cts0)"
    by (simp add: encrypt_bytes_sealed [OF n])
  then obtain cts where cts: "sealed L (vk_content k) prefix 0 (file_chunks data) = Some cts"
    and e: "encrypt_bytes L k prefix data = Inr (MAGIC @ prefix @ concat cts)"
    and fr: "framed (length data - (n_chunks (length data) - 1) * CHUNK + TAG) cts"
    using encrypted_file_facts [OF assms(1,3,4)] by metis
  have "length data - (n_chunks (length data) - 1) * CHUNK \<le> CHUNK"
    using last_file_chunk [of data] cut_ok_file_chunks [of data] by (simp add: cut_ok_def)
  then have "length ct \<le> CIPHER_CHUNK" if "ct \<in> set cts" for ct
    using that fr append_butlast_last_id [of cts]
    by (cases cts rule: rev_cases) (auto simp: framed_def CIPHER_CHUNK_def)
  then show ?thesis using Some cts e by (auto simp: sealed_or_plain_def enc_def Encryptor_new_def)
qed

lemma chunk_count:
  "length data \<le> 2 ^ 51 \<Longrightarrow> length (file_chunks data) < 2 ^ 32"
proof -
  assume "length data \<le> 2 ^ 51"
  then have "length data div CHUNK + 1 \<le> 2 ^ 31 + 1" using div_le_mono [of "length data" "2 ^ 51" CHUNK] by (simp add: CHUNK_def)
  then show ?thesis using n_chunks_le [of "length data"] by (simp add: length_file_chunks)
qed

text \<open>The bytes of an upload: the header, if there is one, and the chunks, sealed or copied.\<close>

lemma upload_body:
  assumes "aead_correct L" "aead_total L" "length prefix = PREFIX_LEN" "length data \<le> 2 ^ 51"
    and "case keys of None \<Rightarrow> True | Some k \<Rightarrow> keys_wf k"
  defines "enc \<equiv> map_option (\<lambda>k. Encryptor_new k prefix) keys"
  defines "hdr \<equiv> case enc of Some e \<Rightarrow> header e | None \<Rightarrow> []"
  obtains cts where "sealed_or_plain L enc 0 (file_chunks data) = Some cts" "enc_state enc 0"
    "\<forall>ct \<in> set cts. length ct \<le> CIPHER_CHUNK" "length hdr \<le> HEADER_LEN"
    "case keys of None \<Rightarrow> hdr @ concat cts = data | Some k \<Rightarrow> encrypt_bytes L k prefix data = Inr (hdr @ concat cts)"
proof -
  from plain_or_sealed_body [OF assms(1-5)] obtain cts where
    cts: "sealed_or_plain L enc 0 (file_chunks data) = Some cts" "\<forall>ct \<in> set cts. length ct \<le> CIPHER_CHUNK"
    and body: "case keys of None \<Rightarrow> concat cts = data | Some k \<Rightarrow> encrypt_bytes L k prefix data = Inr (MAGIC @ prefix @ concat cts)"
    unfolding enc_def by blast
  have "enc_state enc 0" "length hdr \<le> HEADER_LEN"
    using assms(3) by (cases keys; simp add: enc_state_def Encryptor_new_def enc_def hdr_def header_def HEADER_LEN_def)+
  moreover have "case keys of None \<Rightarrow> hdr @ concat cts = data | Some k \<Rightarrow> encrypt_bytes L k prefix data = Inr (hdr @ concat cts)"
    using body by (cases keys) (simp_all add: enc_def hdr_def header_def Encryptor_new_def)
  ultimately show thesis using that cts by blast
qed


text \<open>A loop that succeeds was not cancelled at any of its heads.\<close>

lemma mp_loop_uncancelled:
  "mp_loop L B P cancelled i enc buf etags n tot r w = (w', Inr x) \<Longrightarrow>
     mp_loop L B P (\<lambda>_. False) i enc buf etags n tot r w = (w', Inr x)"
proof (induction "length (fst (rd_content r))" arbitrary: i enc buf etags n tot r w rule: less_induct)
  case less
  note U = mp_loop.simps [of L B P _ i enc buf etags n tot r w]
  from less.prems have c: "\<not> cancelled i" by (cases "cancelled i") (simp_all add: U)
  with less.prems obtain r' chunk where f: "fill CHUNK r = Inr (r', chunk)"
    by (cases "fill CHUNK r") (auto simp: U)
  let ?lst = "mpp_file_len P \<le> tot + length chunk \<or> length chunk < CHUNK"
  obtain enc' y where sc: "seal_or_copy L enc chunk ?lst = (enc', y)" by fastforce
  with less.prems c f obtain ct where y: "y = Inr ct" by (cases y) (auto simp: U Let_def)
  have IH: "mp_loop L B P (\<lambda>_. False) i' e b t m tt r' v = (w', Inr x)"
    if "\<not> ?lst" "mp_loop L B P cancelled i' e b t m tt r' v = (w', Inr x)" for i' e b t m tt v
    using less.hyps [OF fill_decreases [OF f] that(2)] that(1) by simp
  show ?case
  proof (cases "mpp_part_size P \<le> length (buf @ ct) \<or> ?lst")
    case send: True
    obtain w1 z where u: "be_upload_part B (mpp_mp P) n (buf @ ct) (mpp_limiter P) w = (w1, z)" by fastforce
    show ?thesis
    proof (cases ?lst)
      case True
      with less.prems c f sc y show ?thesis by (simp add: U Let_def)
    next
      case False
      with less.prems c f sc y send u have "\<not> length (buf @ ct) < S3_MIN_PART" by (auto simp: U Let_def)
      moreover from this less.prems c f sc y send u False obtain tag rep where "z = Inr (tag, rep)"
        by (cases z) (auto simp: U Let_def)
      ultimately show ?thesis using less.prems c f sc y send u False IH by (simp add: U Let_def)
    qed
  next
    case False
    with less.prems c f sc y IH show ?thesis by (simp add: U Let_def)
  qed
qed

lemma multipart_sent:
  assumes "aead_correct L" "aead_total L" "length prefix = PREFIX_LEN" "length data \<le> 2 ^ 51"
    and "case keys of None \<Rightarrow> True | Some k \<Rightarrow> keys_wf k" "rd_content r = (data, None)"
    and up: "upload_multipart L B keys prefix st limiter (Inr (length data, r)) cancelled key w = (w', Inr u)"
  obtains w1 mp P parts w2 tags where "be_create_multipart B key w = (w1, Inr mp)" "mpp_mp P = mp"
    "upload_all B P [] 1 parts w1 = (w2, Inr tags)" "be_complete_multipart B mp tags w2 = (w', Inr u)"
    "case keys of None \<Rightarrow> concat parts = data | Some k \<Rightarrow> encrypt_bytes L k prefix data = Inr (concat parts)"
proof -
  obtain w1 x where c: "be_create_multipart B key w = (w1, x)" by fastforce
  with up obtain mp where x: "x = Inr mp" by (cases x) (auto simp: upload_multipart_def sbind_apply)
  let ?enc = "map_option (\<lambda>k. Encryptor_new k prefix) keys"
  let ?hdr = "case ?enc of Some e \<Rightarrow> header e | None \<Rightarrow> []"
  let ?P = "\<lparr>mpp_mp = mp, mpp_part_size = part_size_bytes st, mpp_file_len = length data, mpp_limiter = limiter\<rparr>"
  obtain w2 y where y: "mp_loop L B ?P cancelled 0 ?enc ?hdr [] 1 0 r w1 = (w2, y)" by fastforce
  with up c x obtain tags where l: "mp_loop L B ?P cancelled 0 ?enc ?hdr [] 1 0 r w1 = (w2, Inr tags)"
    by (cases y) (simp_all add: upload_multipart_def sr_simps Let_def mp_failed_def with_capacity_def split: if_splits)
  obtain w3 z where "be_complete_multipart B mp tags w2 = (w3, z)" by fastforce
  with up c x l have f: "be_complete_multipart B mp tags w2 = (w', Inr u)"
    by (cases z) (simp_all add: upload_multipart_def sr_simps Let_def mp_failed_def with_capacity_def split: if_splits)
  obtain cts where cts: "sealed_or_plain L ?enc 0 (file_chunks data) = Some cts" "enc_state ?enc 0"
    and body: "case keys of None \<Rightarrow> ?hdr @ concat cts = data | Some k \<Rightarrow> encrypt_bytes L k prefix data = Inr (?hdr @ concat cts)"
    by (rule upload_body [OF assms(1-5)])
  from mp_loop_sends [OF mp_loop_uncancelled [OF l] cut_ok_file_chunks _ _ cts] assms(6) chunk_count [OF assms(4)]
  obtain parts where "upload_all B ?P [] 1 parts w1 = (w2, Inr tags)" "concat parts = ?hdr @ concat cts" by auto
  with c x f body show thesis by (intro that [of w1 mp ?P parts w2 tags]) (auto split: option.splits)
qed



text \<open>Beyond that bound the product wraps: a configured size of \<open>2 ^ 44\<close> MiB is a part size of 0.\<close>

lemma part_size_wraps: "part_size_bytes (st\<lparr>part_size_mib := 2 ^ 44\<rparr>) = 0"
  by (simp add: part_size_bytes_def max_def)

end
