(* ===== verification/Download.thy ===== *)
theory Download
  imports SizesPaths Reference_S3
begin

text \<open>
  Downloading one file with resume (\<^verbatim>\<open>src/src/worker.rs\<close>: \<open>download_one\<close>). The state is
  the remote world and the local disk, a map from paths to contents; \<open>disk_io\<close> says which of the
  calls to the file system fail. \<open>cancelled\<close> gives the state of the cancellation token at each of
  the points where the code looks at it. A read that the watchdog of \<open>read_or_stall\<close> gives up
  on is an error of the stream.

  \<open>download_safe\<close>: whatever the network and the disk do, the part file is always a prefix of the plaintext,
  and the file appears under its final name only complete. \<open>download_resumes\<close>: from any such
  prefix an uninterrupted attempt completes the file, fetching only what is missing.
\<close>

section \<open>Operations\<close>

record 'w dlstate =
  dl_world :: 'w
  dl_disk :: "string list \<rightharpoonup> bytes"

text \<open>
  The outcomes of the file system calls of one attempt: creating the parent directories, cutting the
  part file (twice), opening it, the \<open>i\<close>-th write, the flush and the final rename. A write or a flush
  that fails leaves as many bytes of what was written so far in the file as the number says, since a
  buffered write may report its error late. The size of an existing file can always be read.
\<close>

record disk_io =
  io_mkdir :: "unit result"
  io_cut :: "unit result"
  io_trim :: "unit result"
  io_open :: "unit result"
  io_write :: "nat \<Rightarrow> (nat \<times> error) option"
  io_flush :: "(nat \<times> error) option"
  io_rename :: "unit result"

definition disk_ok :: disk_io where
  "disk_ok = \<lparr>io_mkdir = Inr (), io_cut = Inr (), io_trim = Inr (), io_open = Inr (), io_write = Map.empty,
     io_flush = None, io_rename = Inr ()\<rparr>"

lemma rd_read_decreases:
  "rd_read want r = (r', Inr b) \<Longrightarrow> b \<noteq> [] \<Longrightarrow> 0 < want \<Longrightarrow>
     length (fst (rd_content r')) < length (fst (rd_content r))"
proof -
  assume a: "rd_read want r = (r', Inr b)" "b \<noteq> []" "0 < want"
  obtain d e where d: "rd_content r = (d, e)" by fastforce
  from rd_read_content [OF a(1,3) d] a(2) show ?thesis using d by (cases b) auto
qed

text \<open>The loop over an unencrypted object: what the part file holds, and the result.\<close>

function dl_plain :: "disk_io \<Rightarrow> (nat \<Rightarrow> bool) \<Rightarrow> nat \<Rightarrow> bytes \<Rightarrow> reader \<Rightarrow> bytes \<times> unit result" where
  "dl_plain io cancelled i pf r =
     (if cancelled (2 * i + 1) then (pf, Inl (Msg ''cancelled''))
      else case rd_read (256 * 1024) r of
        (r', Inl e) \<Rightarrow> (pf, Inl e)
      | (r', Inr b) \<Rightarrow>
          if b = [] then (pf, Inr ())
          else if cancelled (2 * i + 2) then (pf, Inl (Msg ''cancelled''))
          else case io_write io i of
            Some (n, e) \<Rightarrow> (take n (pf @ b), Inl e)
          | None \<Rightarrow> dl_plain io cancelled (Suc i) (pf @ b) r')"
  by pat_completeness auto
termination
  by (relation "measure (\<lambda>(d, c, i, f, r). length (fst (rd_content r)))") (auto intro: rd_read_decreases [OF sym])

declare dl_plain.simps [simp del]

text \<open>The loop over the ciphertext chunks still missing.\<close>

fun dl_chunks ::
  "crypto_lib \<Rightarrow> disk_io \<Rightarrow> (nat \<Rightarrow> bool) \<Rightarrow> nat \<Rightarrow> nat \<Rightarrow> decryptor \<Rightarrow> bytes \<Rightarrow> reader \<Rightarrow> nat list \<Rightarrow>
     bytes \<times> unit result" where
  "dl_chunks L io cancelled n last_len dec pf r [] = (pf, Inr ())"
| "dl_chunks L io cancelled n last_len dec pf r (i # is) =
     (let lst = (i = n - 1); clen = (if lst then last_len else CIPHER_CHUNK) in
      if cancelled (2 * i + 1) then (pf, Inl (Msg ''cancelled''))
      else case with_ctx ''reading chunk'' (read_exact clen r) of
        Inl e \<Rightarrow> (pf, Inl e)
      | Inr (r', ct) \<Rightarrow>
          if cancelled (2 * i + 2) then (pf, Inl (Msg ''cancelled''))
          else (case open_chunk L dec ct lst of
              (dec', Inl e) \<Rightarrow> (pf, Inl e)
            | (dec', Inr pt) \<Rightarrow>
                (case io_write io i of
                   Some (k, e) \<Rightarrow> (take k (pf @ pt), Inl e)
                 | None \<Rightarrow> dl_chunks L io cancelled n last_len dec' (pf @ pt) r' is)))"

definition dl_encrypted ::
  "crypto_lib \<Rightarrow> 'w backend \<Rightarrow> vault_keys \<Rightarrow> string \<Rightarrow> u64 \<Rightarrow> nat \<Rightarrow> disk_io \<Rightarrow> (nat \<Rightarrow> bool) \<Rightarrow> bytes \<Rightarrow> reader \<Rightarrow> 'w \<Rightarrow>
     'w \<times> bytes \<times> unit result" where
  "dl_encrypted L B keys key cipher_len completed io cancelled pf r w =
     (case chunk_layout cipher_len of
        Inl e \<Rightarrow> (w, pf, Inl e)
      | Inr (n, last_len) \<Rightarrow>
          (case (if completed = 0
                 then (w, with_ctx ''reading header'' (read_exact HEADER_LEN r))
                 else (case be_read_header B key HEADER_LEN w of
                     (w', Inl e) \<Rightarrow> (w', Inl (Ctx ''reading header'' e))
                   | (w', Inr hb) \<Rightarrow>
                       if length hb < HEADER_LEN
                       then (w', Inl (Msg ''encrypted file too short to contain a header''))
                       else (w', Inr (r, take HEADER_LEN hb)))) of
             (w', Inl e) \<Rightarrow> (w', pf, Inl e)
           | (w', Inr (r', hdr)) \<Rightarrow>
               (case Decryptor_new keys hdr of
                  Inl e \<Rightarrow> (w', pf, Inl e)
                | Inr dec \<Rightarrow>
                    (w', dl_chunks L io cancelled (unat n) (unat last_len) (seek_to (of_nat completed) dec)
                           pf r' [completed..<unat n]))))"

text \<open>\<open>file.flush()\<close> at the end of either loop, and \<open>tokio::fs::rename\<close>.\<close>

definition dl_flush :: "disk_io \<Rightarrow> bytes \<times> unit result \<Rightarrow> bytes \<times> unit result" where
  "dl_flush io x =
     (case x of
        (pf, Inr u) \<Rightarrow> (case io_flush io of None \<Rightarrow> (pf, Inr u) | Some (n, e) \<Rightarrow> (take n pf, Inl e))
      | (pf, Inl e) \<Rightarrow> (pf, Inl e))"

definition disk_rename :: "string list \<Rightarrow> string list \<Rightarrow> (string list \<rightharpoonup> bytes) \<Rightarrow> (string list \<rightharpoonup> bytes)" where
  "disk_rename a b d = (d(a := None))(b := d a)"

definition finish_part ::
  "disk_io \<Rightarrow> string list \<Rightarrow> string list \<Rightarrow> (string list \<rightharpoonup> bytes) \<Rightarrow> 'w dlstate \<Rightarrow> 'w dlstate \<times> unit result" where
  "finish_part io tmp out_path d s =
     (case io_rename io of
        Inl e \<Rightarrow> (s\<lparr>dl_disk := d\<rparr>, Inl e)
      | Inr u \<Rightarrow> (s\<lparr>dl_disk := disk_rename tmp out_path d\<rparr>, Inr ()))"

text \<open>The prefix an attempt starts from: the part file, cut to whole chunks when encrypted.\<close>

definition usable_prefix :: "bool \<Rightarrow> bytes option \<Rightarrow> bytes" where
  "usable_prefix encrypted f =
     (let on_disk = (case f of Some x \<Rightarrow> x | None \<Rightarrow> []) in
      if encrypted \<and> on_disk \<noteq> [] then take (length on_disk - length on_disk mod CHUNK) on_disk else on_disk)"

text \<open>The disk with the part file cut to that prefix, and where the download goes on in the object.\<close>

definition cut_part :: "bool \<Rightarrow> string list \<Rightarrow> (string list \<rightharpoonup> bytes) \<Rightarrow> (string list \<rightharpoonup> bytes)" where
  "cut_part encrypted tmp disk =
     (let pf = usable_prefix encrypted (disk tmp) in
      if pf \<noteq> (case disk tmp of Some f \<Rightarrow> f | None \<Rightarrow> []) then disk(tmp \<mapsto> pf) else disk)"

definition resume_off :: "bool \<Rightarrow> nat \<Rightarrow> nat" where
  "resume_off encrypted d = (if d = 0 then 0 else if encrypted then HEADER_LEN + d div CHUNK * CIPHER_CHUNK else d)"

definition dl_body ::
  "crypto_lib \<Rightarrow> 'w backend \<Rightarrow> vault_keys option \<Rightarrow> string \<Rightarrow> u64 \<Rightarrow> disk_io \<Rightarrow> (nat \<Rightarrow> bool) \<Rightarrow> bytes \<Rightarrow> reader \<Rightarrow> 'w \<Rightarrow>
     'w \<times> bytes \<times> unit result" where
  "dl_body L B keys key expected_len io cancelled pf r w =
     (case keys of
        None \<Rightarrow> (w, dl_plain io cancelled 0 pf r)
      | Some k \<Rightarrow> dl_encrypted L B k key (encrypted_size expected_len) (length pf div CHUNK) io cancelled pf r w)"

definition download_one ::
  "crypto_lib \<Rightarrow> 'w backend \<Rightarrow> vault_keys option \<Rightarrow> string \<Rightarrow> u64 \<Rightarrow> string list \<Rightarrow> disk_io \<Rightarrow> (nat \<Rightarrow> bool) \<Rightarrow>
     ('w dlstate, unit) sr" where
  "download_one L B keys key expected_len out_path io cancelled s =
     (if cancelled 0 then (s, Inl (Msg ''cancelled''))
      else case io_mkdir io of Inl e \<Rightarrow> (s, Inl e) | Inr u \<Rightarrow>
        let tmp = part_path out_path;
            encrypted = (keys \<noteq> None);
            pf = usable_prefix encrypted (dl_disk s tmp);
            done_plain = length pf;
            d1 = cut_part encrypted tmp (dl_disk s);
            total = unat expected_len
        in case (if pf \<noteq> (case dl_disk s tmp of Some f \<Rightarrow> f | None \<Rightarrow> []) then io_cut io else Inr ()) of Inl e \<Rightarrow> (s, Inl e) | Inr u \<Rightarrow>
           if 0 < done_plain \<and> total \<le> done_plain
           then (case (if total < done_plain then io_trim io else Inr ()) of
               Inl e \<Rightarrow> (s\<lparr>dl_disk := d1\<rparr>, Inl e)
             | Inr u \<Rightarrow> finish_part io tmp out_path (if total < done_plain then d1(tmp \<mapsto> take total pf) else d1) s)
           else case (if 0 < done_plain then be_get_range B key (of_nat (resume_off encrypted done_plain)) (dl_world s)
                      else be_get_stream B key (dl_world s)) of
             (w, Inl e) \<Rightarrow> (s\<lparr>dl_world := w, dl_disk := d1\<rparr>, Inl e)
           | (w, Inr (len, r)) \<Rightarrow>
               (case io_open io of Inl e \<Rightarrow> (s\<lparr>dl_world := w, dl_disk := d1\<rparr>, Inl e) | Inr u \<Rightarrow>
                case dl_body L B keys key expected_len io cancelled pf r w of
                  (w', x) \<Rightarrow>
                    (case dl_flush io x of
                       (pf', Inr u) \<Rightarrow> finish_part io tmp out_path (d1(tmp \<mapsto> pf')) (s\<lparr>dl_world := w'\<rparr>)
                     | (pf', Inl e) \<Rightarrow> (s\<lparr>dl_world := w', dl_disk := d1(tmp \<mapsto> pf')\<rparr>, Inl e))))"

section \<open>The loops\<close>

lemma read_exact_short:
  assumes "rd_content r = (d, e)" "length d < n"
  shows "\<exists>err. read_exact n r = Inl err"
  using assms
proof (induction n arbitrary: r d rule: less_induct)
  case (less n)
  obtain r' x where rd: "rd_read n r = (r', x)" by fastforce
  have pos: "0 < n" using less.prems(2) by simp
  from rd_read_content [OF rd pos less.prems(1)] consider
    (data) b where "x = Inr b" "b \<noteq> []" "length b \<le> n" "rd_content r' = (drop (length b) d, e)" "length b \<le> length d"
  | (eof) "x = Inr []" | (err) er where "x = Inl er" by auto
  then show ?case
  proof cases
    case data
    have "n - length b < n" using data pos by (cases b) auto
    moreover have "length (drop (length b) d) < n - length b" using less.prems(2) data by simp
    ultimately obtain er where "read_exact (n - length b) r' = Inl er" using less.IH data(4) by blast
    with rd data pos show ?thesis by (subst read_exact.simps) simp
  next
    case eof
    with rd pos show ?thesis by (subst read_exact.simps) simp
  next
    case err
    with rd pos show ?thesis by (subst read_exact.simps) simp
  qed
qed

text \<open>Nothing disturbs the attempt on this side: no cancellation, and a disk that takes every write.\<close>

definition undisturbed :: "disk_io \<Rightarrow> (nat \<Rightarrow> bool) \<Rightarrow> bool" where
  "undisturbed io cancelled \<longleftrightarrow> io = disk_ok \<and> (\<forall>i. \<not> cancelled i)"

lemma undisturbedD: "undisturbed io cancelled \<Longrightarrow> io = disk_ok" "undisturbed io cancelled \<Longrightarrow> \<not> cancelled i"
  by (simp_all add: undisturbed_def)

lemma take_prefix_of: "\<exists>j. take k a = take j (a @ b)"
  by (rule exI [of _ "min k (length a)"]) (simp add: min_def)

lemma dl_chunks_spec:
  assumes "aead_correct L" "length (dec_prefix dec) = PREFIX_LEN"
    and "sealed L (dec_cipher dec) (dec_prefix dec) i cs = Some cts"
    and "framed last_len cts" "i + length cs = n" "n < 2 ^ 32" "dec_counter dec = of_nat i"
    and "rd_content r = (d, e)" "concat cts = d @ rest"
  shows "\<exists>j res. dl_chunks L io cancelled n last_len dec pf r [i..<n] = (take j (pf @ concat cs), res) \<and>
    (res = Inr () \<longrightarrow> take j (pf @ concat cs) = pf @ concat cs) \<and> (rest = [] \<longrightarrow> undisturbed io cancelled \<longrightarrow> res = Inr ())"
  using assms(2-)
proof (induction cs arbitrary: i cts dec pf r d)
  case Nil
  then have "[i..<n] = []" by simp
  then have "dl_chunks L io cancelled n last_len dec pf r [i..<n] = (pf, Inr ())" by (simp only: dl_chunks.simps)
  then show ?case by (intro exI [of _ "length pf"] exI [of _ "Inr ()"]) simp
next
  case (Cons c cs)
  from Cons.prems obtain ct cts' where
    ct: "aead_encrypt L (dec_cipher dec) (chunk_nonce (dec_prefix dec) (of_nat i) (cs = [])) c = Some ct" and
    rest: "sealed L (dec_cipher dec) (dec_prefix dec) (Suc i) cs = Some cts'" and cts: "cts = ct # cts'"
    by (auto split: option.splits)
  have e: "cts' = [] \<longleftrightarrow> cs = []" using sealed_length [OF rest] by auto
  have l: "i = n - 1 \<longleftrightarrow> cs = []" using Cons.prems by (cases cs) auto
  have len: "(if i = n - 1 then last_len else CIPHER_CHUNK) = length ct" and fr: "framed last_len cts'"
    using Cons.prems(3) e l by (auto simp: cts framed_Cons)
  have idx: "[i..<n] = i # [Suc i..<n]" using Cons.prems by (simp add: upt_conv_Cons)
  have ca: "checked_add (dec_counter dec) 1 = Some (of_nat (Suc i))"
    using Cons.prems checked_add_one [of i] by simp
  let ?d = "dec\<lparr>dec_counter := of_nat (Suc i)\<rparr>"
  have "aead_decrypt L (dec_cipher dec) (chunk_nonce (dec_prefix dec) (of_nat i) (cs = [])) ct = Some c"
    using aead_correctD [OF assms(1) _ ct] Cons.prems(1) by simp
  then have op: "open_chunk L dec ct (i = n - 1) = (?d, Inr c)"
    using ca l Cons.prems by (simp add: open_chunk_def)
  show ?case
  proof (cases "cancelled (2 * i + 1) \<or> length d < length ct \<or> cancelled (2 * i + 2)")
    case True
    have "\<exists>err. dl_chunks L io cancelled n last_len dec pf r [i..<n] = (pf, Inl err)"
    proof (cases "length d < length ct")
      case True
      then obtain err where "read_exact (length ct) r = Inl err" using read_exact_short Cons.prems(7) by blast
      then show ?thesis unfolding idx dl_chunks.simps Let_def len by simp
    next
      case False
      then obtain r' where "read_exact (length ct) r = Inr (r', take (length ct) d)"
        using read_exact_content [OF Cons.prems(7), of "length ct"] by auto
      with True False show ?thesis unfolding idx dl_chunks.simps Let_def len by auto
    qed
    moreover have "length ct \<le> length d" if "rest = []"
      using Cons.prems(8) that by (metis append_Nil2 concat.simps(2) cts length_append le_add1)
    ultimately show ?thesis using True by (auto simp: undisturbed_def intro!: exI [of _ "length pf"])
  next
    case False
    obtain r' where re: "read_exact (length ct) r = Inr (r', take (length ct) d)"
      and r': "rd_content r' = (drop (length ct) d, e)"
      using read_exact_content [OF Cons.prems(7), of "length ct"] False by auto
    have tk: "take (length ct) d = ct" and dr: "concat cts' = drop (length ct) d @ rest"
      using Cons.prems(8) False by (auto simp: cts append_eq_append_conv2)
    show ?thesis
    proof (cases "io_write io i")
      case (Some ke)
      then obtain k er where "dl_chunks L io cancelled n last_len dec pf r [i..<n] = (take k (pf @ c), Inl er)"
        unfolding idx dl_chunks.simps Let_def len using re tk op False by (cases ke) simp
      with Some take_prefix_of [of k "pf @ c" "concat cs"] show ?thesis by (auto simp: undisturbed_def disk_ok_def)
    next
      case None
      have "\<exists>j res. dl_chunks L io cancelled n last_len ?d (pf @ c) r' [Suc i..<n] = (take j ((pf @ c) @ concat cs), res) \<and>
          (res = Inr () \<longrightarrow> take j ((pf @ c) @ concat cs) = (pf @ c) @ concat cs) \<and> (rest = [] \<longrightarrow> undisturbed io cancelled \<longrightarrow> res = Inr ())"
        by (rule Cons.IH [where cts = cts' and d = "drop (length ct) d"])
          (use Cons.prems(1,4,5) rest fr r' dr in simp_all)
      moreover have "dl_chunks L io cancelled n last_len dec pf r [i..<n] = dl_chunks L io cancelled n last_len ?d (pf @ c) r' [Suc i..<n]"
        unfolding idx dl_chunks.simps Let_def len using re tk op False None
        by (simp del: upt_Suc of_nat_Suc One_nat_def)
      ultimately show ?thesis by simp
    qed
  qed
qed

lemma dl_plain_spec:
  assumes "rd_content r = (d, e)"
  shows "\<exists>m res. dl_plain io cancelled i pf r = (take m (pf @ d), res) \<and>
    (res = Inr () \<longrightarrow> take m (pf @ d) = pf @ d \<and> e = None) \<and> (e = None \<longrightarrow> undisturbed io cancelled \<longrightarrow> res = Inr ())"
  using assms
proof (induction io cancelled i pf r arbitrary: d rule: dl_plain.induct)
  case (1 io cancelled i pf r)
  obtain r' x where rd: "rd_read (256 * 1024) r = (r', x)" by fastforce
  from rd_read_content [OF rd _ 1(2)] consider
    (data) b where "x = Inr b" "b \<noteq> []" "rd_content r' = (drop (length b) d, e)" "take (length b) d = b"
  | (eof) "x = Inr []" "d = []" "e = None" | (err) er where "x = Inl er" "e = Some er" by auto
  then show ?case
  proof cases
    case data
    have bd: "b @ drop (length b) d = d" using data(4) by (metis append_take_drop_id)
    show ?thesis
    proof (cases "cancelled (2 * i + 1) \<or> cancelled (2 * i + 2)")
      case True
      then have "\<exists>err. dl_plain io cancelled i pf r = (pf, Inl err)"
        using rd data by (subst dl_plain.simps) auto
      then show ?thesis using True by (auto simp: undisturbed_def intro!: exI [of _ "length pf"])
    next
      case False
      then have nc: "\<not> cancelled (2 * i + 1)" "\<not> cancelled (2 * i + 2)" by simp_all
      show ?thesis
      proof (cases "io_write io i")
        case (Some ke)
        then obtain k er where "dl_plain io cancelled i pf r = (take k (pf @ b), Inl er)"
          using rd data False by (cases ke) (simp add: dl_plain.simps [of io cancelled i])
        with Some take_prefix_of [of k "pf @ b" "drop (length b) d"] bd show ?thesis
          by (auto simp: undisturbed_def disk_ok_def)
      next
        case None
        from 1(1) [OF nc(1) rd [symmetric] data(1,2) nc(2) None data(3)] obtain m res where
          IH: "dl_plain io cancelled (Suc i) (pf @ b) r' = (take m (pf @ d), res)"
          "res = Inr () \<longrightarrow> take m (pf @ d) = pf @ d \<and> e = None"
          "e = None \<longrightarrow> undisturbed io cancelled \<longrightarrow> res = Inr ()" unfolding append_assoc bd by blast
        moreover have "dl_plain io cancelled i pf r = dl_plain io cancelled (Suc i) (pf @ b) r'"
          using rd data False None by (subst dl_plain.simps) simp
        ultimately show ?thesis by metis
      qed
    qed
  next
    case eof
    then show ?thesis using rd undisturbedD(2) [of io cancelled "2 * i + 1"]
      by (subst dl_plain.simps) (auto intro!: exI [of _ "length pf"])
  next
    case err
    then show ?thesis using rd by (subst dl_plain.simps) (auto intro!: exI [of _ "length pf"])
  qed
qed

section \<open>One attempt\<close>

lemma sealed_drop:
  "sealed L k pre i cs = Some cts \<Longrightarrow> sealed L k pre (i + m) (drop m cs) = Some (drop m cts)"
proof (induction cs arbitrary: i cts m)
  case (Cons c cs)
  then show ?case
  proof (cases m)
    case (Suc m')
    from Cons.prems obtain ct cts' where "sealed L k pre (Suc i) cs = Some cts'" "cts = ct # cts'"
      by (auto split: option.splits)
    with Cons.IH [of "Suc i" cts' m'] Suc show ?thesis by simp
  qed simp
qed simp

lemma framed_drop: "framed l cts \<Longrightarrow> framed l (drop m cts)"
  unfolding framed_def by (auto simp: butlast_drop dest: in_set_dropD)

text \<open>What the part file may hold: nothing yet, or a prefix of the plaintext.\<close>

definition part_ok :: "bytes \<Rightarrow> bytes option \<Rightarrow> bool" where
  "part_ok data f \<longleftrightarrow> (case f of None \<Rightarrow> True | Some p \<Rightarrow> \<exists>m. p = take m data)"

text \<open>
  A stream that starts at offset \<open>off\<close> of \<open>blob\<close> and delivers some prefix of the rest, then ends
  or fails; a complete one delivers all of it.
\<close>

definition stream_of :: "bytes \<Rightarrow> nat \<Rightarrow> reader \<Rightarrow> bool" where
  "stream_of blob off r \<longleftrightarrow> (\<exists>rest. drop off blob = fst (rd_content r) @ rest)"

definition full_stream :: "bytes \<Rightarrow> nat \<Rightarrow> reader \<Rightarrow> bool" where
  "full_stream blob off r \<longleftrightarrow> rd_content r = (drop off blob, None)"

text \<open>How a backend answers for one object: any answer it gives is a stream of that object.\<close>

definition serves :: "('w \<Rightarrow> bool) \<Rightarrow> 'w backend \<Rightarrow> string \<Rightarrow> bytes \<Rightarrow> bool" where
  "serves ok B key blob \<longleftrightarrow>
     (\<forall>w w' x. ok w \<longrightarrow> be_get_stream B key w = (w', x) \<longrightarrow>
        ok w' \<and> (\<forall>len r. x = Inr (len, r) \<longrightarrow> stream_of blob 0 r)) \<and>
     (\<forall>w w' off x. ok w \<longrightarrow> be_get_range B key off w = (w', x) \<longrightarrow>
        ok w' \<and> (\<forall>len r. x = Inr (len, r) \<longrightarrow> stream_of blob (unat off) r)) \<and>
     (\<forall>w w' x. ok w \<longrightarrow> be_read_header B key HEADER_LEN w = (w', x) \<longrightarrow>
        ok w' \<and> (\<forall>h. x = Inr h \<longrightarrow> h = take HEADER_LEN blob))"

definition serves_fully :: "('w \<Rightarrow> bool) \<Rightarrow> 'w backend \<Rightarrow> string \<Rightarrow> bytes \<Rightarrow> bool" where
  "serves_fully ok B key blob \<longleftrightarrow>
     (\<forall>w. ok w \<longrightarrow> (\<exists>w' len r. be_get_stream B key w = (w', Inr (len, r)) \<and> full_stream blob 0 r)) \<and>
     (\<forall>w off. ok w \<longrightarrow> unat off \<le> length blob \<longrightarrow>
        (\<exists>w' len r. be_get_range B key off w = (w', Inr (len, r)) \<and> full_stream blob (unat off) r)) \<and>
     (\<forall>w. ok w \<longrightarrow> HEADER_LEN \<le> length blob \<longrightarrow>
        (\<exists>w'. be_read_header B key HEADER_LEN w = (w', Inr (take HEADER_LEN blob))))"

lemma servesD:
  assumes "serves ok B key blob" "ok w"
  shows "be_get_stream B key w = (w', x) \<Longrightarrow> ok w' \<and> (\<forall>len r. x = Inr (len, r) \<longrightarrow> stream_of blob 0 r)"
    "be_get_range B key off w = (w', x) \<Longrightarrow> ok w' \<and> (\<forall>len r. x = Inr (len, r) \<longrightarrow> stream_of blob (unat off) r)"
    "be_read_header B key HEADER_LEN w = (w', y) \<Longrightarrow> ok w' \<and> (\<forall>h. y = Inr h \<longrightarrow> h = take HEADER_LEN blob)"
  subgoal using assms(1) [unfolded serves_def, THEN conjunct1, rule_format, OF assms(2)] by blast
  subgoal using assms(1) [unfolded serves_def, THEN conjunct2, THEN conjunct1, rule_format, OF assms(2)] by blast
  subgoal using assms(1) [unfolded serves_def, THEN conjunct2, THEN conjunct2, rule_format, OF assms(2)] by blast
  done

text \<open>The facts about the encrypted object that resuming at chunk \<open>m\<close> needs.\<close>

lemma resume_facts:
  assumes "aead_correct L" "length prefix = PREFIX_LEN" "length data \<le> 2 ^ 51"
    and "encrypt_bytes L keys prefix data = Inr blob" "m < n_chunks (length data)"
  defines "n \<equiv> n_chunks (length data)"
  defines "l \<equiv> length data - (n - 1) * CHUNK + TAG"
  obtains cts where
    "sealed L (vk_content keys) prefix m (drop m (file_chunks data)) = Some cts" "framed l cts"
    "concat cts = drop (HEADER_LEN + m * CIPHER_CHUNK) blob" "take HEADER_LEN blob = MAGIC @ prefix"
    "m + length (drop m (file_chunks data)) = n" "n \<le> 2 ^ 31"
    "chunk_layout (encrypted_size (of_nat (length data))) = Inr (of_nat n, of_nat l)"
    "unat (of_nat n :: u64) = n" "unat (of_nat l :: u64) = l"
    "concat (take m (file_chunks data)) = take (m * CHUNK) data" "HEADER_LEN + m * CIPHER_CHUNK \<le> length blob"
proof -
  obtain cts where
    cts: "sealed L (vk_content keys) prefix 0 (file_chunks data) = Some cts" and
    blob: "blob = MAGIC @ prefix @ concat cts" and fr: "framed l cts" and
    len: "length cts = n" and n31: "n \<le> 2 ^ 31" and
    bl: "length blob = cipher_size (length data)"
    using encrypted_file_facts [OF assms(1-4)] unfolding n_def l_def by metis
  have full: "\<forall>c \<in> set (take m cts). length c = CIPHER_CHUNK"
    by (rule framed_take_full [OF fr]) (use assms(5) len n_def in simp)
  have mle: "m \<le> length cts" using assms(5) len n_def by simp
  have "concat cts = take (m * CIPHER_CHUNK) (concat cts) @ concat (drop m cts)"
    unfolding take_concat_const [OF full mle] by (metis append_take_drop_id concat_append)
  then have d: "concat (drop m cts) = drop (m * CIPHER_CHUNK) (concat cts)"
    by (metis append_take_drop_id same_append_eq)
  have hl: "length (MAGIC @ prefix) = HEADER_LEN" using assms(2) by simp
  have c: "concat (drop m cts) = drop (HEADER_LEN + m * CIPHER_CHUNK) blob"
    unfolding d blob append_assoc [symmetric] using hl by simp
  have s: "sealed L (vk_content keys) prefix m (drop m (file_chunks data)) = Some (drop m cts)"
    using sealed_drop [OF cts, of m] by simp
  have tk: "take HEADER_LEN blob = MAGIC @ prefix" unfolding blob using hl by simp
  have ml: "m + length (drop m (file_chunks data)) = n"
    using assms(5) by (simp add: length_file_chunks n_def)
  have mp: "length data \<le> max_plain" using assms(3) by (simp add: max_plain_def)
  have ud: "unat (of_nat (length data) :: u64) = length data"
    unfolding unat_of_nat using assms(3) by (intro mod_less) simp
  have "encrypted_size (of_nat (length data)) = of_nat (cipher_size (length data))"
    using unat_encrypted_size [of "of_nat (length data)"] mp ud by (metis of_nat_unat ucast_id)
  then have lay: "chunk_layout (encrypted_size (of_nat (length data))) = Inr (of_nat n, of_nat l)"
    using cipher_size_layout [OF mp] by (simp add: n_def l_def)
  have un: "unat (of_nat n :: u64) = n" unfolding unat_of_nat using n31 by (intro mod_less) simp
  have "l < 2 ^ 64" using assms(3) by (simp add: l_def)
  then have ul: "unat (of_nat l :: u64) = l" unfolding unat_of_nat by (intro mod_less) simp
  have fc: "\<forall>c \<in> set (take m (file_chunks data)). length c = CHUNK"
  proof
    fix c
    assume "c \<in> set (take m (file_chunks data))"
    moreover have "take m (file_chunks data) = take m (butlast (file_chunks data))"
      using assms(5) by (simp add: take_butlast length_file_chunks)
    ultimately show "length c = CHUNK" using file_chunks_full by (metis in_set_takeD)
  qed
  have "concat (take m (file_chunks data)) = take (m * CHUNK) (concat (file_chunks data))"
    by (rule take_concat_const [OF fc, symmetric]) (use assms(5) in \<open>simp add: length_file_chunks\<close>)
  then have pt: "concat (take m (file_chunks data)) = take (m * CHUNK) data" by simp
  have ob: "HEADER_LEN + m * CIPHER_CHUNK \<le> length blob"
    using length_concat_const [OF full] mle hl blob
    by (metis append_assoc append_take_drop_id concat_append length_append length_take min.absorb2
        nat_add_left_cancel_le le_add1 mult.commute)
  show thesis by (rule that [OF s framed_drop [OF fr] c tk ml n31 lay un ul pt ob])
qed

text \<open>From the header on: the chunk loop, from chunk \<open>m\<close>.\<close>

lemma dl_loop_spec:
  assumes "aead_correct L" "length prefix = PREFIX_LEN" "length data \<le> 2 ^ 51"
    and "encrypt_bytes L keys prefix data = Inr blob" "m < n_chunks (length data)"
    and "stream_of blob (HEADER_LEN + m * CIPHER_CHUNK) r"
  defines "n \<equiv> n_chunks (length data)"
  defines "l \<equiv> length data - (n - 1) * CHUNK + TAG"
  defines "dec \<equiv> \<lparr>dec_cipher = vk_content keys, dec_prefix = prefix, dec_counter = of_nat m\<rparr>"
  shows "\<exists>j res. dl_chunks L io cancelled n l dec (take (m * CHUNK) data) r [m..<n] = (take j data, res) \<and>
      (res = Inr () \<longrightarrow> take j data = data) \<and>
      (full_stream blob (HEADER_LEN + m * CIPHER_CHUNK) r \<longrightarrow> undisturbed io cancelled \<longrightarrow> res = Inr ())"
proof -
  let ?off = "HEADER_LEN + m * CIPHER_CHUNK" and ?cs = "drop m (file_chunks data)"
  obtain cts where
    s: "sealed L (vk_content keys) prefix m ?cs = Some cts" and fr: "framed l cts" and c: "concat cts = drop ?off blob" and
    ml: "m + length ?cs = n" and n31: "n \<le> 2 ^ 31" and pt: "concat (take m (file_chunks data)) = take (m * CHUNK) data"
    unfolding n_def l_def by (rule resume_facts [OF assms(1-5)])
  have all: "take (m * CHUNK) data @ concat ?cs = data"
    unfolding pt [symmetric] concat_append [symmetric] append_take_drop_id by (rule concat_file_chunks)
  obtain d e where d: "rd_content r = (d, e)" by fastforce
  obtain rest where rest: "drop ?off blob = d @ rest" using assms(6) d by (auto simp: stream_of_def)
  have "\<exists>j res. dl_chunks L io cancelled n l dec (take (m * CHUNK) data) r [m..<n] =
        (take j (take (m * CHUNK) data @ concat ?cs), res) \<and>
      (res = Inr () \<longrightarrow> take j (take (m * CHUNK) data @ concat ?cs) = take (m * CHUNK) data @ concat ?cs) \<and>
      (rest = [] \<longrightarrow> undisturbed io cancelled \<longrightarrow> res = Inr ())"
    by (rule dl_chunks_spec [OF assms(1) _ _ fr ml _ _ d]) (use s n31 assms(2) c rest in \<open>simp_all add: dec_def\<close>)
  moreover have "rest = []" if "full_stream blob ?off r" using that d rest by (simp add: full_stream_def)
  ultimately show ?thesis unfolding all by blast
qed

text \<open>How the header is obtained: from the stream, or by a read of its own when resuming.\<close>

abbreviation header_step :: "'w backend \<Rightarrow> string \<Rightarrow> nat \<Rightarrow> reader \<Rightarrow> ('w, reader \<times> bytes) sr" where
  "header_step B key m r w \<equiv>
     (if m = 0 then (w, with_ctx ''reading header'' (read_exact HEADER_LEN r))
      else (case be_read_header B key HEADER_LEN w of
          (w', Inl e) \<Rightarrow> (w', Inl (Ctx ''reading header'' e))
        | (w', Inr hb) \<Rightarrow>
            if length hb < HEADER_LEN then (w', Inl (Msg ''encrypted file too short to contain a header''))
            else (w', Inr (r, take HEADER_LEN hb))))"

lemma header_from_stream:
  assumes "stream_of blob 0 r" "HEADER_LEN \<le> length blob"
  shows "case read_exact HEADER_LEN r of
      Inl e \<Rightarrow> \<not> full_stream blob 0 r
    | Inr (r', h) \<Rightarrow> h = take HEADER_LEN blob \<and> stream_of blob HEADER_LEN r' \<and> (full_stream blob 0 r \<longrightarrow> full_stream blob HEADER_LEN r')"
proof -
  obtain d e where d: "rd_content r = (d, e)" by fastforce
  obtain rest where rest: "blob = d @ rest" using assms(1) d by (auto simp: stream_of_def)
  show ?thesis
  proof (cases "length d < HEADER_LEN")
    case True
    then obtain err where "read_exact HEADER_LEN r = Inl err" using read_exact_short [OF d] by blast
    with True d assms(2) show ?thesis by (auto simp: full_stream_def)
  next
    case False
    then obtain r' where "read_exact HEADER_LEN r = Inr (r', take HEADER_LEN d)" "rd_content r' = (drop HEADER_LEN d, e)"
      using read_exact_content [OF d, of HEADER_LEN] by auto
    with False rest d show ?thesis by (auto simp: stream_of_def full_stream_def)
  qed
qed

lemma header_step_spec:
  assumes sv: "serves ok B key blob" "ok w" and st: "stream_of blob (if m = 0 then 0 else HEADER_LEN + m * CIPHER_CHUNK) r"
    and hl: "HEADER_LEN \<le> length blob" and h: "header_step B key m r w = (w', x)"
  shows "ok w' \<and> (case x of
      Inl e \<Rightarrow> \<not> (full_stream blob (if m = 0 then 0 else HEADER_LEN + m * CIPHER_CHUNK) r \<and> serves_fully ok B key blob)
    | Inr (r', hdr) \<Rightarrow> hdr = take HEADER_LEN blob \<and> stream_of blob (HEADER_LEN + m * CIPHER_CHUNK) r' \<and>
        (full_stream blob (if m = 0 then 0 else HEADER_LEN + m * CIPHER_CHUNK) r \<longrightarrow>
           full_stream blob (HEADER_LEN + m * CIPHER_CHUNK) r'))"
proof (cases "m = 0")
  case True
  then show ?thesis using header_from_stream [of blob r] st hl h sv(2) by (auto simp: with_ctx_def split: sum.splits)
next
  case False
  obtain w1 y where y: "be_read_header B key HEADER_LEN w = (w1, y)" by fastforce
  note Y = servesD(3) [OF sv y]
  have "\<not> serves_fully ok B key blob" if "y = Inl e" for e
    using y that hl sv(2) unfolding serves_fully_def by (metis Inl_Inr_False prod.inject)
  with False Y st hl h y show ?thesis by (cases y) auto
qed

lemma dl_encrypted_spec:
  assumes "aead_correct L" "length prefix = PREFIX_LEN" "length data \<le> 2 ^ 51"
    and "encrypt_bytes L keys prefix data = Inr blob" "m < n_chunks (length data)"
    and "serves ok B key blob" "ok w" "stream_of blob (if m = 0 then 0 else HEADER_LEN + m * CIPHER_CHUNK) r"
  shows "\<exists>w' j res. dl_encrypted L B keys key (encrypted_size (of_nat (length data))) m io cancelled
      (take (m * CHUNK) data) r w = (w', take j data, res) \<and> ok w' \<and>
    (res = Inr () \<longrightarrow> take j data = data) \<and>
    (full_stream blob (if m = 0 then 0 else HEADER_LEN + m * CIPHER_CHUNK) r \<longrightarrow> serves_fully ok B key blob \<longrightarrow>
       undisturbed io cancelled \<longrightarrow> res = Inr ())"
proof -
  let ?n = "n_chunks (length data)"
  let ?l = "length data - (?n - 1) * CHUNK + TAG"
  let ?pf = "take (m * CHUNK) data"
  let ?dec = "\<lparr>dec_cipher = vk_content keys, dec_prefix = prefix, dec_counter = of_nat m\<rparr>"
  obtain cts where hd: "take HEADER_LEN blob = MAGIC @ prefix" and
    lay: "chunk_layout (encrypted_size (of_nat (length data))) = Inr (of_nat ?n, of_nat ?l)" and
    un: "unat (of_nat ?n :: u64) = ?n" and ul: "unat (of_nat ?l :: u64) = ?l" and
    ob: "HEADER_LEN + m * CIPHER_CHUNK \<le> length blob"
    by (rule resume_facts [OF assms(1-5)])
  obtain w' x where h: "header_step B key m r w = (w', x)" by fastforce
  have H: "ok w'" "case x of
      Inl e \<Rightarrow> \<not> (full_stream blob (if m = 0 then 0 else HEADER_LEN + m * CIPHER_CHUNK) r \<and> serves_fully ok B key blob)
    | Inr (r', hdr) \<Rightarrow> hdr = MAGIC @ prefix \<and> stream_of blob (HEADER_LEN + m * CIPHER_CHUNK) r' \<and>
        (full_stream blob (if m = 0 then 0 else HEADER_LEN + m * CIPHER_CHUNK) r \<longrightarrow>
           full_stream blob (HEADER_LEN + m * CIPHER_CHUNK) r')"
    using header_step_spec [OF assms(6-8) add_leD1 [OF ob] h] unfolding hd by blast+
  show ?thesis
  proof (cases x)
    case (Inl e)
    then have "dl_encrypted L B keys key (encrypted_size (of_nat (length data))) m io cancelled ?pf r w = (w', ?pf, Inl e)"
      unfolding dl_encrypted_def lay sum.case prod.case h by simp
    with H Inl show ?thesis by auto
  next
    case (Inr y)
    then obtain r' where x: "x = Inr (r', MAGIC @ prefix)" and st: "stream_of blob (HEADER_LEN + m * CIPHER_CHUNK) r'"
      using H(2) by (cases y) auto
    from dl_loop_spec [OF assms(1-5) st] obtain j res where
      J: "dl_chunks L io cancelled ?n ?l ?dec ?pf r' [m..<?n] = (take j data, res)" "res = Inr () \<longrightarrow> take j data = data"
      "full_stream blob (HEADER_LEN + m * CIPHER_CHUNK) r' \<longrightarrow> undisturbed io cancelled \<longrightarrow> res = Inr ()" by blast
    have "Decryptor_new keys (MAGIC @ prefix) = Inr (?dec\<lparr>dec_counter := 0\<rparr>)" "seek_to (of_nat m) (?dec\<lparr>dec_counter := 0\<rparr>) = ?dec"
      using Decryptor_new_header [OF assms(2), of keys "[]"] by (simp_all add: seek_to_def)
    then have "dl_encrypted L B keys key (encrypted_size (of_nat (length data))) m io cancelled ?pf r w = (w', take j data, res)"
      unfolding dl_encrypted_def lay sum.case prod.case h x using J(1) by (simp only: sum.case prod.case un ul)
    with H J(2,3) x show ?thesis by auto
  qed
qed

text \<open>What the object under \<open>key\<close> holds for the plaintext \<open>data\<close>, with and without encryption.\<close>

definition stored_as :: "crypto_lib \<Rightarrow> vault_keys option \<Rightarrow> bytes \<Rightarrow> bytes \<Rightarrow> bytes \<Rightarrow> bool" where
  "stored_as L keys prefix data blob \<longleftrightarrow>
     (case keys of
        None \<Rightarrow> blob = data
      | Some k \<Rightarrow> aead_correct L \<and> length prefix = PREFIX_LEN \<and> encrypt_bytes L k prefix data = Inr blob)"

text \<open>A transport that reports a connection closed early as an error, never as the end of the body.\<close>

definition ends_honestly :: "('w \<Rightarrow> bool) \<Rightarrow> 'w backend \<Rightarrow> string \<Rightarrow> bytes \<Rightarrow> bool" where
  "ends_honestly ok B key blob \<longleftrightarrow>
     (\<forall>w w' len r. ok w \<longrightarrow> be_get_stream B key w = (w', Inr (len, r)) \<longrightarrow> snd (rd_content r) = None \<longrightarrow>
        full_stream blob 0 r) \<and>
     (\<forall>w w' off len r. ok w \<longrightarrow> be_get_range B key off w = (w', Inr (len, r)) \<longrightarrow> snd (rd_content r) = None \<longrightarrow>
        full_stream blob (unat off) r)"

lemma part_path_neq: "out_path \<noteq> [] \<Longrightarrow> part_path out_path \<noteq> out_path"
proof
  assume "out_path \<noteq> []" "part_path out_path = out_path"
  then have "last (part_path out_path) = last out_path" by simp
  with \<open>out_path \<noteq> []\<close> show False by (simp add: part_path_def)
qed

text \<open>The body of one attempt, once a stream is open at the resume offset.\<close>

lemma transfer_spec:
  assumes st: "stored_as L keys prefix data blob" and len: "length data \<le> 2 ^ 51"
    and sv: "serves ok B key blob" "ok w"
    and d: "d = 0 \<or> d < length data" "keys \<noteq> None \<longrightarrow> d mod CHUNK = 0"
    and str: "stream_of blob (resume_off (keys \<noteq> None) d) r"
    and he: "keys = None \<longrightarrow> snd (rd_content r) = None \<longrightarrow> full_stream blob (resume_off (keys \<noteq> None) d) r"
  shows "\<exists>w' j res. dl_body L B keys key (of_nat (length data)) io cancelled (take d data) r w =
      (w', take j data, res) \<and> ok w' \<and> (res = Inr () \<longrightarrow> take j data = data) \<and>
    (full_stream blob (resume_off (keys \<noteq> None) d) r \<longrightarrow> serves_fully ok B key blob \<longrightarrow>
       undisturbed io cancelled \<longrightarrow> res = Inr ())"
proof (cases keys)
  case None
  then have b: "blob = data" and off: "resume_off (keys \<noteq> None) d = d"
    using st by (simp_all add: stored_as_def resume_off_def)
  obtain x e where x: "rd_content r = (x, e)" by fastforce
  obtain rest where rest: "drop d data = x @ rest" using str x unfolding off b stream_of_def by auto
  obtain m res where M: "dl_plain io cancelled 0 (take d data) r = (take m (take d data @ x), res)"
    "res = Inr () \<longrightarrow> take m (take d data @ x) = take d data @ x \<and> e = None" "e = None \<longrightarrow> undisturbed io cancelled \<longrightarrow> res = Inr ()"
    using dl_plain_spec [OF x] by blast
  have dx: "data = (take d data @ x) @ rest" using rest by (metis append_assoc append_take_drop_id)
  obtain j where tj: "take m (take d data @ x) = take j data" using take_prefix_of [of m "take d data @ x" rest] unfolding dx [symmetric] by blast
  have fin: "take j data = data" if "res = Inr ()"
  proof -
    have "full_stream data d r" using M(2) that he x None unfolding off b by simp
    then have "x = drop d data" using x by (simp add: full_stream_def)
    then show ?thesis unfolding tj [symmetric] using M(2) that by simp
  qed
  have "e = None" if "full_stream blob (resume_off (keys \<noteq> None) d) r" using that x by (simp add: full_stream_def)
  then show ?thesis using M(1,3) fin None sv(2) unfolding tj by (auto simp: dl_body_def intro!: exI [of _ w] exI [of _ j] exI [of _ res])
next
  case (Some k)
  obtain m where m: "d div CHUNK = m" "d = m * CHUNK"
    using d(2) Some by (metis mod_0_imp_dvd dvd_div_mult_self option.distinct(1))
  have "m < n_chunks (length data)"
  proof (cases "d = 0")
    case False
    then have "m * CHUNK < n_chunks (length data) * CHUNK"
      using d(1) m(2) n_chunks_bounds(1) [of "length data"] by linarith
    then show ?thesis by simp
  qed (use m(2) in \<open>simp add: CHUNK_def\<close>)
  moreover have o: "resume_off (keys \<noteq> None) d = (if m = 0 then 0 else HEADER_LEN + m * CIPHER_CHUNK)"
    using m Some by (auto simp: resume_off_def CHUNK_def)
  moreover have "stream_of blob (if m = 0 then 0 else HEADER_LEN + m * CIPHER_CHUNK) r"
    using str unfolding o .
  moreover have "length (take d data) div CHUNK = m" using d(1) m(1) by auto
  ultimately show ?thesis
    using dl_encrypted_spec [OF _ _ len _ _ sv, of L prefix k m r io cancelled] st Some m
    unfolding o by (simp add: stored_as_def dl_body_def)
qed

lemma resume_off_bound:
  assumes "stored_as L keys prefix data blob" "length data \<le> 2 ^ 51" "d < length data"
    "keys \<noteq> None \<longrightarrow> d mod CHUNK = 0"
  shows "unat (of_nat (resume_off (keys \<noteq> None) d) :: u64) = resume_off (keys \<noteq> None) d"
    "resume_off (keys \<noteq> None) d \<le> length blob"
proof -
  have "d div CHUNK \<le> 2 ^ 31"
    using div_le_mono [of d "2 ^ 51" CHUNK] assms(2,3) by (simp add: CHUNK_def)
  then have "resume_off (keys \<noteq> None) d < 2 ^ 64"
    using assms(2,3) by (auto simp: resume_off_def CIPHER_CHUNK_def CHUNK_def)
  then show "unat (of_nat (resume_off (keys \<noteq> None) d) :: u64) = resume_off (keys \<noteq> None) d"
    unfolding unat_of_nat by (intro mod_less) simp
  show "resume_off (keys \<noteq> None) d \<le> length blob"
  proof (cases keys)
    case None
    then show ?thesis using assms(1,3) by (simp add: stored_as_def resume_off_def)
  next
    case (Some k)
    then have "d = d div CHUNK * CHUNK" using assms(4) by (metis mod_0_imp_dvd dvd_div_mult_self option.distinct(1))
    then have "d div CHUNK * CHUNK < n_chunks (length data) * CHUNK"
      using assms(3) n_chunks_bounds(1) [of "length data"] by linarith
    then have lt: "d div CHUNK < n_chunks (length data)" by simp
    have "HEADER_LEN + d div CHUNK * CIPHER_CHUNK \<le> length blob"
      using resume_facts [OF _ _ assms(2) _ lt, of L prefix k blob] assms(1) Some
      unfolding stored_as_def by auto
    then show ?thesis using Some by (simp add: resume_off_def)
  qed
qed

lemma usable_prefix:
  assumes "part_ok data f"
  shows "usable_prefix encrypted f = take (length (usable_prefix encrypted f)) data"
    "length (usable_prefix encrypted f) \<le> length data"
    "encrypted \<longrightarrow> length (usable_prefix encrypted f) mod CHUNK = 0"
proof -
  obtain m where m: "(case f of Some x \<Rightarrow> x | None \<Rightarrow> []) = take m data"
    using assms by (cases f) (auto simp: part_ok_def intro: that [of 0])
  show "usable_prefix encrypted f = take (length (usable_prefix encrypted f)) data"
    unfolding usable_prefix_def m Let_def by (simp add: min_def)
  show "length (usable_prefix encrypted f) \<le> length data"
    unfolding usable_prefix_def m Let_def by (simp add: min.coboundedI1 diff_le_self le_diff_conv)
  have "(l - l mod CHUNK) mod CHUNK = 0" for l by (simp add: minus_mod_eq_mult_div)
  moreover have "min (length data) (l - l mod CHUNK) = l - l mod CHUNK" if "l \<le> length data" for l
    using that by (meson diff_le_self le_trans min.absorb2)
  ultimately show "encrypted \<longrightarrow> length (usable_prefix encrypted f) mod CHUNK = 0"
    unfolding usable_prefix_def m Let_def by (auto simp: min.assoc [symmetric])
qed

lemma serves_fullyD:
  assumes "serves_fully ok B key blob" "ok w"
  shows "be_get_stream B key w = (w', x) \<Longrightarrow> \<exists>l r. x = Inr (l, r) \<and> full_stream blob 0 r"
    "be_get_range B key off w = (w', x) \<Longrightarrow> unat off \<le> length blob \<Longrightarrow> \<exists>l r. x = Inr (l, r) \<and> full_stream blob (unat off) r"
  subgoal using assms(1) [unfolded serves_fully_def, THEN conjunct1, rule_format, OF assms(2)] by auto
  subgoal using assms(1) [unfolded serves_fully_def, THEN conjunct2, THEN conjunct1, rule_format, OF assms(2), of off] by auto
  done

lemma ends_honestlyD:
  assumes "ends_honestly ok B key blob" "ok w" "snd (rd_content r) = None"
  shows "be_get_stream B key w = (w', Inr (l, r)) \<Longrightarrow> full_stream blob 0 r"
    "be_get_range B key off w = (w', Inr (l, r)) \<Longrightarrow> full_stream blob (unat off) r"
  using assms unfolding ends_honestly_def by blast+

text \<open>The stream an attempt opens: the whole object, or the range from the resume offset on.\<close>

lemma opened_stream:
  assumes st: "stored_as L keys prefix data blob" "length data \<le> 2 ^ 51"
    and sv: "serves ok B key blob" "ok w0" and he: "keys = None \<longrightarrow> ends_honestly ok B key blob"
    and d: "d = 0 \<or> d < length data" "keys \<noteq> None \<longrightarrow> d mod CHUNK = 0"
    and op: "(if 0 < d then be_get_range B key (of_nat (resume_off (keys \<noteq> None) d)) w0 else be_get_stream B key w0) = (w, x)"
  shows "ok w" "\<And>l r. x = Inr (l, r) \<Longrightarrow> stream_of blob (resume_off (keys \<noteq> None) d) r"
    "\<And>l r. x = Inr (l, r) \<Longrightarrow> keys = None \<longrightarrow> snd (rd_content r) = None \<longrightarrow> full_stream blob (resume_off (keys \<noteq> None) d) r"
    "serves_fully ok B key blob \<Longrightarrow> \<exists>l r. x = Inr (l, r) \<and> full_stream blob (resume_off (keys \<noteq> None) d) r"
proof -
  let ?off = "resume_off (keys \<noteq> None) d"
  have "ok w \<and> (\<forall>l r. x = Inr (l, r) \<longrightarrow> stream_of blob ?off r \<and>
        (keys = None \<longrightarrow> snd (rd_content r) = None \<longrightarrow> full_stream blob ?off r)) \<and>
      (serves_fully ok B key blob \<longrightarrow> (\<exists>l r. x = Inr (l, r) \<and> full_stream blob ?off r))"
  proof (cases "d = 0")
    case True
    then have o: "be_get_stream B key w0 = (w, x)" and z: "?off = 0" using op by (simp_all add: resume_off_def)
    show ?thesis unfolding z
      using servesD(1) [OF sv o] serves_fullyD(1) [where ok = ok, OF _ sv(2) o] ends_honestlyD(1) [where ok = ok, OF _ sv(2)] he o by blast
  next
    case False
    then have o: "be_get_range B key (of_nat ?off) w0 = (w, x)" using op by simp
    have off: "unat (of_nat ?off :: u64) = ?off" "?off \<le> length blob"
      using resume_off_bound [OF st _ d(2)] d(1) False by auto
    have f: "serves_fully ok B key blob \<Longrightarrow> \<exists>l r. x = Inr (l, r) \<and> full_stream blob ?off r"
      using serves_fullyD(2) [where ok = ok, OF _ sv(2) o] off by simp
    have "full_stream blob ?off r" if "keys = None" "snd (rd_content r) = None" "x = Inr (l, r)" for l r
      using ends_honestlyD(2) [where ok = ok, OF _ sv(2) that(2)] he that o off(1) by metis
    with servesD(2) [OF sv o] f off(1) show ?thesis by simp
  qed
  then show "ok w" "\<And>l r. x = Inr (l, r) \<Longrightarrow> stream_of blob ?off r"
    "\<And>l r. x = Inr (l, r) \<Longrightarrow> keys = None \<longrightarrow> snd (rd_content r) = None \<longrightarrow> full_stream blob ?off r"
    "serves_fully ok B key blob \<Longrightarrow> \<exists>l r. x = Inr (l, r) \<and> full_stream blob ?off r" by blast+
qed

lemma cut_part:
  "p \<noteq> tmp \<Longrightarrow> cut_part encrypted tmp disk p = disk p"
  "part_ok data (disk tmp) \<Longrightarrow> part_ok data (cut_part encrypted tmp disk tmp)"
proof -
  show "p \<noteq> tmp \<Longrightarrow> cut_part encrypted tmp disk p = disk p" by (simp add: cut_part_def Let_def)
  assume po: "part_ok data (disk tmp)"
  have "part_ok data (Some (usable_prefix encrypted (disk tmp)))"
    unfolding part_ok_def option.case by (intro exI) (rule usable_prefix(1) [OF po])
  with po show "part_ok data (cut_part encrypted tmp disk tmp)" by (simp add: cut_part_def Let_def)
qed

lemma cut_part_Some:
  "usable_prefix encrypted (disk tmp) \<noteq> [] \<Longrightarrow> cut_part encrypted tmp disk tmp = Some (usable_prefix encrypted (disk tmp))"
  by (auto simp: cut_part_def Let_def split: option.splits)

lemma download_one_unfold:
  fixes s :: "'w dlstate" and out_path :: "string list" and keys :: "vault_keys option"
  defines "tmp \<equiv> part_path out_path"
  defines "pf \<equiv> usable_prefix (keys \<noteq> None) (dl_disk s tmp)" and "d1 \<equiv> cut_part (keys \<noteq> None) tmp (dl_disk s)"
  assumes "\<not> cancelled 0" "io_mkdir io = Inr u" "length data \<le> 2 ^ 51"
  shows "download_one L B keys key (of_nat (length data)) out_path io cancelled s =
     (case (if pf \<noteq> (case dl_disk s tmp of Some f \<Rightarrow> f | None \<Rightarrow> []) then io_cut io else Inr ()) of Inl e \<Rightarrow> (s, Inl e) | Inr u \<Rightarrow>
      if 0 < length pf \<and> length data \<le> length pf
      then (case (if length data < length pf then io_trim io else Inr ()) of
          Inl e \<Rightarrow> (s\<lparr>dl_disk := d1\<rparr>, Inl e)
        | Inr u \<Rightarrow> finish_part io tmp out_path (if length data < length pf then d1(tmp \<mapsto> take (length data) pf) else d1) s)
      else case (if 0 < length pf then be_get_range B key (of_nat (resume_off (keys \<noteq> None) (length pf))) (dl_world s)
                 else be_get_stream B key (dl_world s)) of
         (w, Inl e) \<Rightarrow> (s\<lparr>dl_world := w, dl_disk := d1\<rparr>, Inl e)
       | (w, Inr (len, r)) \<Rightarrow>
           (case io_open io of Inl e \<Rightarrow> (s\<lparr>dl_world := w, dl_disk := d1\<rparr>, Inl e) | Inr u \<Rightarrow>
            case dl_body L B keys key (of_nat (length data)) io cancelled pf r w of
              (w', x) \<Rightarrow>
                (case dl_flush io x of
                   (pf', Inr u) \<Rightarrow> finish_part io tmp out_path (d1(tmp \<mapsto> pf')) (s\<lparr>dl_world := w'\<rparr>)
                 | (pf', Inl e) \<Rightarrow> (s\<lparr>dl_world := w', dl_disk := d1(tmp \<mapsto> pf')\<rparr>, Inl e))))"
proof -
  have u: "unat (of_nat (length data) :: u64) = length data" unfolding unat_of_nat using assms(6) by (intro mod_less) simp
  show ?thesis using assms(4,5) unfolding download_one_def Let_def u pf_def d1_def tmp_def by simp
qed

text \<open>What an attempt leaves behind: the file complete under its name, or a usable part file.\<close>

definition dl_post ::
  "string list \<Rightarrow> string list \<Rightarrow> bytes \<Rightarrow> (string list \<rightharpoonup> bytes) \<Rightarrow> (string list \<rightharpoonup> bytes) \<Rightarrow> unit result \<Rightarrow> bool" where
  "dl_post tmp out_path data d d' res \<longleftrightarrow>
     (\<forall>p. p \<noteq> tmp \<longrightarrow> p \<noteq> out_path \<longrightarrow> d' p = d p) \<and>
     (res = Inr () \<longrightarrow> d' out_path = Some data \<and> d' tmp = None) \<and>
     (res \<noteq> Inr () \<longrightarrow> d' out_path = d out_path \<and> part_ok data (d' tmp))"

lemma finish_part_post:
  assumes "tmp \<noteq> out_path" "\<And>p. p \<noteq> tmp \<Longrightarrow> d1 p = d p" "d1 tmp = Some data"
  shows "\<exists>s' res. finish_part io tmp out_path d1 s = (s', res) \<and> dl_world s' = dl_world s \<and>
    dl_post tmp out_path data d (dl_disk s') res \<and> (io = disk_ok \<longrightarrow> res = Inr ())"
  using assms by (cases "io_rename io") (auto simp: finish_part_def dl_post_def disk_rename_def part_ok_def disk_ok_def intro: exI [of _ "length data"])

lemma dl_post_failed:
  assumes "tmp \<noteq> out_path" "\<And>p. p \<noteq> tmp \<Longrightarrow> d1 p = d p" "part_ok data (d1 tmp)"
  shows "dl_post tmp out_path data d d1 (Inl e)"
  using assms by (simp add: dl_post_def)

lemma dl_flush_spec:
  "\<exists>k res'. dl_flush io (take j data, res) = (take k data, res') \<and> (res' = Inr () \<longrightarrow> res = Inr () \<and> k = j) \<and>
     (io = disk_ok \<longrightarrow> res' = res)"
  by (cases res; cases "io_flush io") (auto simp: dl_flush_def disk_ok_def)

lemma download_one_spec:
  fixes s :: "'w dlstate" and out_path :: "string list"
  defines "tmp \<equiv> part_path out_path"
  assumes st: "stored_as L keys prefix data blob" and len: "length data \<le> 2 ^ 51"
    and sv: "serves ok B key blob" "ok (dl_world s)" and he: "keys = None \<longrightarrow> ends_honestly ok B key blob"
    and po: "part_ok data (dl_disk s tmp)" and ne: "out_path \<noteq> []"
  shows "\<exists>s' res. download_one L B keys key (of_nat (length data)) out_path io cancelled s = (s', res) \<and>
    ok (dl_world s') \<and> dl_post tmp out_path data (dl_disk s) (dl_disk s') res \<and>
    (serves_fully ok B key blob \<longrightarrow> undisturbed io cancelled \<longrightarrow> res = Inr ())"
proof -
  have nq: "tmp \<noteq> out_path" unfolding tmp_def by (rule part_path_neq [OF ne])
  have same: "dl_post tmp out_path data (dl_disk s) (dl_disk s) (Inl e)" for e using po by (simp add: dl_post_def)
  show ?thesis
  proof (cases "cancelled 0 \<or> (\<exists>e. io_mkdir io = Inl e)")
    case True
    then show ?thesis using sv(2) same by (auto simp: download_one_def undisturbed_def disk_ok_def)
  next
    case False
    then obtain u where nc: "\<not> cancelled 0" "io_mkdir io = Inr u" by (cases "io_mkdir io") auto
    let ?pf = "usable_prefix (keys \<noteq> None) (dl_disk s tmp)" and ?d1 = "cut_part (keys \<noteq> None) tmp (dl_disk s)"
    note pfd = usable_prefix [OF po, of "keys \<noteq> None"]
    note eq = download_one_unfold [where cancelled = cancelled and io = io and s = s and out_path = out_path and keys = keys,
      OF nc len, folded tmp_def]
    note d1 = cut_part(1) [where disk = "dl_disk s" and tmp = tmp] cut_part(2) [where disk = "dl_disk s" and tmp = tmp, OF po]
    have cut: "dl_post tmp out_path data (dl_disk s) ?d1 (Inl e)" for e by (simp add: dl_post_def d1 nq [symmetric])
    show ?thesis
    proof (cases "if ?pf \<noteq> (case dl_disk s tmp of Some f \<Rightarrow> f | None \<Rightarrow> []) then io_cut io else Inr ()")
      case (Inl e)
      then have "\<not> undisturbed io cancelled" by (auto simp: undisturbed_def disk_ok_def split: if_splits)
      then show ?thesis unfolding eq Inl using sv(2) same by simp
    next
      case Cut: (Inr u)
      show ?thesis
      proof (cases "0 < length ?pf \<and> length data \<le> length ?pf")
        case True
        then have "?pf = data" using pfd(1) by simp
        with True finish_part_post [OF nq, of ?d1 "dl_disk s" data io s] d1(1) cut_part_Some [of "keys \<noteq> None" "dl_disk s" tmp]
        show ?thesis unfolding eq Cut using sv(2) by (auto simp: undisturbed_def)
      next
        case more: False
        then have dl: "length ?pf = 0 \<or> length ?pf < length data" by auto
        obtain w x where op: "(if 0 < length ?pf then be_get_range B key (of_nat (resume_off (keys \<noteq> None) (length ?pf))) (dl_world s)
            else be_get_stream B key (dl_world s)) = (w, x)" by fastforce
        note O = opened_stream [OF st len sv he dl pfd(3) op]
        show ?thesis
        proof (cases "(\<exists>e. x = Inl e) \<or> (\<exists>e. io_open io = Inl e)")
          case True
          then have "\<exists>e. download_one L B keys key (of_nat (length data)) out_path io cancelled s = (s\<lparr>dl_world := w, dl_disk := ?d1\<rparr>, Inl e)"
            unfolding eq Cut sum.case if_not_P [OF more] op by (cases x) auto
          moreover have "\<not> (serves_fully ok B key blob \<and> undisturbed io cancelled)"
            using True O(4) by (auto simp: undisturbed_def disk_ok_def)
          ultimately show ?thesis using O(1) cut by auto
        next
          case False
          then obtain l r u2 where y: "x = Inr (l, r)" "io_open io = Inr u2" by (cases x; cases "io_open io") auto
          obtain w' j res where b: "dl_body L B keys key (of_nat (length data)) io cancelled ?pf r w = (w', take j data, res)" "ok w'"
            and fin: "res = Inr () \<longrightarrow> take j data = data"
            and live: "full_stream blob (resume_off (keys \<noteq> None) (length ?pf)) r \<longrightarrow> serves_fully ok B key blob \<longrightarrow>
              undisturbed io cancelled \<longrightarrow> res = Inr ()"
            using transfer_spec [OF st len sv(1) O(1) dl pfd(3) O(2,3) [OF y(1)], of io cancelled] unfolding pfd(1) [symmetric] by blast
          obtain k res' where f: "dl_flush io (take j data, res) = (take k data, res')"
            "res' = Inr () \<longrightarrow> res = Inr () \<and> k = j" "io = disk_ok \<longrightarrow> res' = res" using dl_flush_spec [of io j data res] by blast
          have run: "download_one L B keys key (of_nat (length data)) out_path io cancelled s =
              (case res' of Inr u \<Rightarrow> finish_part io tmp out_path (?d1(tmp \<mapsto> take k data)) (s\<lparr>dl_world := w'\<rparr>)
               | Inl e \<Rightarrow> (s\<lparr>dl_world := w', dl_disk := ?d1(tmp \<mapsto> take k data)\<rparr>, Inl e))"
            unfolding eq Cut if_not_P [OF more] op y prod.case sum.case b(1) f(1) ..
          have ful: "serves_fully ok B key blob \<Longrightarrow> undisturbed io cancelled \<Longrightarrow> res' = Inr ()"
            using live O(4) y(1) f(3) by (auto simp: undisturbed_def)
          show ?thesis
          proof (cases res')
            case (Inl e)
            have "dl_post tmp out_path data (dl_disk s) (?d1(tmp \<mapsto> take k data)) (Inl e)"
              by (rule dl_post_failed [OF nq]) (auto simp: d1(1) part_ok_def)
            then show ?thesis unfolding run Inl using b(2) ful Inl by auto
          next
            case (Inr u)
            then have "take k data = data" using f(2) fin by auto
            with finish_part_post [OF nq, of "?d1(tmp \<mapsto> take k data)" "dl_disk s" data io "s\<lparr>dl_world := w'\<rparr>"] d1(1)
            show ?thesis unfolding run Inr using b(2) by (fastforce simp: undisturbed_def)
          qed
        qed
      qed
    qed
  qed
qed

text \<open>
  C4. A download never shows a wrong or partial file: whatever the network does to the streams and
  the disk to the writes (errors, early ends, cancellation at any point), starting from any part file that
  is a prefix of the plaintext, a failed attempt leaves the final path untouched and the part file again a
  prefix, and a successful one leaves exactly the plaintext there and removes the part file; no
  other path changes. An unencrypted download relies on the transport to report a broken connection.
\<close>

theorem download_safe:
  assumes "stored_as L keys prefix data blob" "length data \<le> 2 ^ 51" "out_path \<noteq> []"
    and "serves ok B key blob" "ok (dl_world s)" "keys = None \<longrightarrow> ends_honestly ok B key blob"
    and "part_ok data (dl_disk s (part_path out_path))"
    and "download_one L B keys key (of_nat (length data)) out_path io cancelled s = (s', res)"
  shows "(\<forall>p. p \<noteq> part_path out_path \<longrightarrow> p \<noteq> out_path \<longrightarrow> dl_disk s' p = dl_disk s p) \<and>
    (if res = Inr () then dl_disk s' out_path = Some data \<and> dl_disk s' (part_path out_path) = None
     else dl_disk s' out_path = dl_disk s out_path \<and> part_ok data (dl_disk s' (part_path out_path)))"
  using download_one_spec [OF assms(1,2,4,5,6,7,3), of io cancelled] assms(8) by (auto simp: dl_post_def)

text \<open>
  Resuming works: from any prefix left by earlier attempts, an attempt that is not cancelled
  and whose streams are delivered completely succeeds and the file holds exactly the plaintext.
\<close>

theorem download_resumes:
  assumes "stored_as L keys prefix data blob" "length data \<le> 2 ^ 51" "out_path \<noteq> []"
    and "serves ok B key blob" "serves_fully ok B key blob" "ok (dl_world s)"
    and "keys = None \<longrightarrow> ends_honestly ok B key blob"
    and "part_ok data (dl_disk s (part_path out_path))"
  shows "\<exists>s'. download_one L B keys key (of_nat (length data)) out_path disk_ok (\<lambda>_. False) s = (s', Inr ()) \<and>
    dl_disk s' out_path = Some data \<and> dl_disk s' (part_path out_path) = None"
  using download_one_spec [OF assms(1,2,4,6,7,8,3), of disk_ok "\<lambda>_. False"] assms(5) by (auto simp: dl_post_def undisturbed_def)



section \<open>Instances\<close>

text \<open>The S3 backend on the in-memory bucket serves the objects it holds.\<close>

lemma ref_get_stream: "be_get_stream ref_backend = s3_get_stream mem_client"
  and ref_get_range: "be_get_range ref_backend = s3_get_range mem_client"
  and ref_read_header: "be_read_header ref_backend = s3_read_header mem_client"
  by (simp_all add: ref_backend_def s3_backend_def)

lemma ref_serves:
  fixes blob :: bytes
  assumes "length blob < 2 ^ 63"
  defines "ok \<equiv> (\<lambda>w. mem_obs w ''k'' = Some blob)"
  shows "serves ok ref_backend ''k'' blob" "serves_fully ok ref_backend ''k'' blob"
proof -
  have g: "s3_get_stream mem_client ''k'' w = (w, Inr (clamp_len (Some (int (length blob))), [Inr blob]))" if "ok w" for w
    using that by (simp add: ok_def s3_get_stream_def mem_client_def mem_get_def)
  have rg: "\<exists>l. s3_get_range mem_client ''k'' off w = (w, Inr (l, [Inr (drop (unat off) blob)]))" if "ok w" for w off
    using that g [OF that] by (simp add: ok_def s3_get_range_def mem_client_def mem_get_def)
  have h: "s3_read_header mem_client ''k'' HEADER_LEN w = (w, Inr (take HEADER_LEN blob))" if "ok w" for w
    using that by (simp add: ok_def s3_read_header_def mem_client_def mem_get_def collect_body_def HEADER_LEN_def
        PREFIX_LEN_def MAGIC_def saturating_sub_def)
  note R = ref_get_stream ref_get_range ref_read_header
  show "serves ok ref_backend ''k'' blob"
  proof -
    have "ok w' \<and> (\<forall>l r. x = Inr (l, r) \<longrightarrow> stream_of blob (unat off) r)"
      if "ok w" "s3_get_range mem_client ''k'' off w = (w', x)" for w w' off x
      using rg [OF that(1), of off] that by (auto simp: stream_of_def)
    moreover have "ok w' \<and> (\<forall>l r. x = Inr (l, r) \<longrightarrow> stream_of blob 0 r)"
      if "ok w" "s3_get_stream mem_client ''k'' w = (w', x)" for w w' x
      using g [OF that(1)] that by (auto simp: stream_of_def)
    moreover have "ok w' \<and> (\<forall>b. x = Inr b \<longrightarrow> b = take HEADER_LEN blob)"
      if "ok w" "s3_read_header mem_client ''k'' HEADER_LEN w = (w', x)" for w w' x
      using h [OF that(1)] that by auto
    ultimately show ?thesis unfolding serves_def R by blast
  qed
  show "serves_fully ok ref_backend ''k'' blob"
    unfolding serves_fully_def R full_stream_def
    by (intro conjI allI impI) (use g in \<open>fastforce\<close>, use rg in \<open>fastforce\<close>, use h in \<open>blast\<close>)
qed

definition sample_blob :: bytes where
  "sample_blob = (case encrypt_bytes ref_lib ref_keys ref_prefix [1, 2, 3] of Inr b \<Rightarrow> b | Inl e \<Rightarrow> [])"

definition sample_disk :: "mem dlstate" where
  "sample_disk = \<lparr>dl_world = \<lparr>mem_objs = [(''k'', sample_blob)], mem_parts = []\<rparr>,
     dl_disk = [[''f.rse-part''] \<mapsto> [1, 2]]\<rparr>"

lemma sample_stored: "stored_as ref_lib (Some ref_keys) ref_prefix [1, 2, 3] sample_blob"
  and length_sample_blob: "length sample_blob < 2 ^ 63"
proof -
  have n: "n_chunks (length [1, 2, 3 :: 8 word]) < 2 ^ 32" by (simp add: n_chunks_def CHUNK_def ceil_div_def)
  obtain cts where "sealed ref_lib (vk_content ref_keys) ref_prefix 0 (file_chunks [1, 2, 3]) = Some cts"
    using sealed_total [OF ref_aead_total] length_ref_prefix ref_keys_wf unfolding keys_wf_def by blast
  then obtain b where b: "encrypt_bytes ref_lib ref_keys ref_prefix [1, 2, 3] = Inr b"
    using encrypt_bytes_sealed [OF n, of ref_lib ref_keys ref_prefix] by simp
  have "length b = cipher_size (length [1, 2, 3 :: 8 word])"
    by (rule encrypted_file_facts [OF ref_aead_correct length_ref_prefix _ b]) simp_all
  with b have "encrypt_bytes ref_lib ref_keys ref_prefix [1, 2, 3] = Inr b" "length b = cipher_size 3" by (simp_all add: numeral_3_eq_3)
  then show "stored_as ref_lib (Some ref_keys) ref_prefix [1, 2, 3] sample_blob" "length sample_blob < 2 ^ 63"
    using ref_aead_correct length_ref_prefix by (simp_all add: stored_as_def sample_blob_def cipher_size_def n_chunks_def CHUNK_def ceil_div_def)
qed

lemma sample_disk_facts:
  "part_path [''f''] = [''f.rse-part'']" "mem_obs (dl_world sample_disk) ''k'' = Some sample_blob"
  "part_ok [1, 2, 3] (dl_disk sample_disk [''f.rse-part''])"
  by (auto simp: sample_disk_def mem_obs_def part_path_def part_ok_def intro: exI [of _ 2])

theorem download_resumes_witness:
  "\<exists>s'. download_one ref_lib ref_backend (Some ref_keys) ''k'' 3 [''f''] disk_ok (\<lambda>_. False) sample_disk = (s', Inr ()) \<and>
    dl_disk s' [''f''] = Some [1, 2, 3] \<and> dl_disk s' [''f.rse-part''] = None"
  using download_resumes [OF sample_stored _ _ ref_serves [OF length_sample_blob], of "[''f'']" sample_disk]
  by (simp add: sample_disk_facts)

theorem download_safe_witness:
  "let s' = fst (download_one ref_lib ref_backend (Some ref_keys) ''k'' 3 [''f''] disk_ok (\<lambda>i. i = 2) sample_disk);
       res = snd (download_one ref_lib ref_backend (Some ref_keys) ''k'' 3 [''f''] disk_ok (\<lambda>i. i = 2) sample_disk)
   in (\<forall>p. p \<noteq> [''f.rse-part''] \<longrightarrow> p \<noteq> [''f''] \<longrightarrow> dl_disk s' p = dl_disk sample_disk p) \<and>
    (if res = Inr () then dl_disk s' [''f''] = Some [1, 2, 3] \<and> dl_disk s' [''f.rse-part''] = None
     else dl_disk s' [''f''] = dl_disk sample_disk [''f''] \<and> part_ok [1, 2, 3] (dl_disk s' [''f.rse-part'']))"
  unfolding Let_def
  using download_safe [OF sample_stored _ _ ref_serves(1) [OF length_sample_blob] _ _ _ prod.collapse [symmetric],
      of "[''f'']" sample_disk disk_ok "\<lambda>i. i = 2"]
  by (simp add: sample_disk_facts cong: if_cong)

end
