(* ===== verification/Retry.thy ===== *)
theory Retry
  imports Download Upload TransferHub ManifestStore
begin

text \<open>
  The stall watchdog and the retry loops of the worker (\<^verbatim>\<open>src/src/worker.rs\<close>:
  \<open>guard_stall\<close>, the loop of \<open>upload_one\<close>, the loop of a download task in \<open>run_download\<close>).

  \<open>guard_stall\<close> is the \<open>select!\<close> loop over what it observes: the operation becoming ready, or a
  poll at some time with the byte counter and the state of the limiter. Times are milliseconds.
  The watchdog drops the operation it gives up on; a dropped download leaves what it leaves
  when its token is cancelled at the same point.

  A retry loop returns, besides its result, one \<open>retry_log\<close> entry per retry: the error, the
  recovery chosen and the delay. Reconnecting and health probes act on the remote world, which
  includes the connection.
\<close>

section \<open>The watchdog\<close>

datatype 'a observation = OpReady "'a result" | PollTick nat "nat option" bool

definition poll_interval :: "nat \<Rightarrow> nat" where
  "poll_interval idle = max (max idle 5000 div 4) 1000"

fun guard_loop :: "nat \<Rightarrow> nat \<Rightarrow> nat \<Rightarrow> nat option \<Rightarrow> 'a observation list \<Rightarrow> 'a result option" where
  "guard_loop idle tot seen idle_since [] = None"
| "guard_loop idle tot seen idle_since (OpReady res # obs) = Some res"
| "guard_loop idle tot seen idle_since (PollTick t moved unlimited # obs) =
     (let now = (case moved of Some b \<Rightarrow> b | None \<Rightarrow> seen) in
      if 0 < tot \<and> tot \<le> now then guard_loop idle tot now None obs
      else if now \<noteq> seen then guard_loop idle tot now None obs
      else let budget = (if unlimited then idle else idle * 4) in
        case idle_since of
          None \<Rightarrow> guard_loop idle tot seen (Some t) obs
        | Some t0 \<Rightarrow>
            if budget \<le> t - t0 then Some (Inl (Stalled (of_nat (budget div 1000))))
            else guard_loop idle tot seen (Some t0) obs)"

definition guard_stall :: "nat \<Rightarrow> nat \<Rightarrow> nat option \<Rightarrow> 'a observation list \<Rightarrow> 'a result option" where
  "guard_stall idle tot moved obs =
     guard_loop (max idle 5000) tot (case moved of Some b \<Rightarrow> b | None \<Rightarrow> 0) None obs"

text \<open>A poll that finds the counter at \<open>c\<close> (or no counter at all).\<close>

fun idle_at :: "nat \<Rightarrow> 'a observation \<Rightarrow> bool" where
  "idle_at c (OpReady r) = False"
| "idle_at c (PollTick t moved u) = (moved = None \<or> moved = Some c)"

fun is_tick :: "'a observation \<Rightarrow> bool" where
  "is_tick (OpReady r) = False"
| "is_tick (PollTick t moved u) = True"

definition stall_evidence ::
  "nat \<Rightarrow> nat \<Rightarrow> nat \<Rightarrow> nat \<Rightarrow> 'a observation list \<Rightarrow> 'a observation list \<Rightarrow> bool" where
  "stall_evidence idle tot c t0 mid rest \<longleftrightarrow>
     (\<exists>t1 moved u post. rest = PollTick t1 moved u # post \<and> list_all (idle_at c) mid \<and>
        idle_at c (PollTick t1 moved u :: 'a observation) \<and> (tot = 0 \<or> c < tot) \<and>
        (if u then idle else idle * 4) \<le> t1 - t0)"

text \<open>
  What the loop has when it stalls: either the run of idle polls that began at \<open>since\<close> went on for too
  long, or such a run lies wholly in the polls to come.
\<close>

definition stalls_in :: "nat \<Rightarrow> nat \<Rightarrow> nat \<Rightarrow> nat option \<Rightarrow> 'a observation list \<Rightarrow> bool" where
  "stalls_in idle tot seen since obs \<longleftrightarrow>
     (\<exists>t0 mid rest. since = Some t0 \<and> obs = mid @ rest \<and> stall_evidence idle tot seen t0 mid rest) \<or>
     (\<exists>pre t0 m0 u0 mid rest c. obs = pre @ PollTick t0 m0 u0 # mid @ rest \<and>
        idle_at c (PollTick t0 m0 u0 :: 'a observation) \<and> stall_evidence idle tot c t0 mid rest)"

lemma stalls_inE:
  fixes obs :: "'a observation list"
  assumes "stalls_in idle tot seen since obs"
  obtains (now) t0 mid rest where "since = Some t0" "obs = mid @ rest" "stall_evidence idle tot seen t0 mid rest"
    | (later) pre t0 m0 u0 mid rest c where "obs = pre @ PollTick t0 m0 u0 # mid @ rest"
        "idle_at c (PollTick t0 m0 u0 :: 'a observation)" "stall_evidence idle tot c t0 mid rest"
  using assms unfolding stalls_in_def by (elim disjE exE conjE) auto

lemma stalls_in_now:
  "obs = mid @ rest \<Longrightarrow> stall_evidence idle tot seen t0 mid rest \<Longrightarrow> stalls_in idle tot seen (Some t0) obs"
  unfolding stalls_in_def by (intro disjI1 exI conjI) simp_all

lemma stalls_in_run:
  "obs = pre @ PollTick t0 m0 u0 # mid @ rest \<Longrightarrow> idle_at c (PollTick t0 m0 u0 :: 'a observation) \<Longrightarrow>
     stall_evidence idle tot c t0 mid rest \<Longrightarrow> stalls_in idle tot seen since (obs :: 'a observation list)"
  unfolding stalls_in_def by (intro disjI2 exI conjI) assumption+

lemma stalls_in_later:
  assumes "stalls_in idle tot seen' None obs"
  shows "stalls_in idle tot seen since (x # obs)"
  using assms
proof (cases rule: stalls_inE)
  case (later pre)
  from later(2,3) show ?thesis by (rule stalls_in_run [where pre = "x # pre", rotated]) (simp add: later(1))
qed simp

lemma stalls_in_began:
  fixes obs :: "'a observation list"
  assumes "stalls_in idle tot seen (Some t) obs" "idle_at seen (PollTick t moved u :: 'a observation)"
  shows "stalls_in idle tot seen None (PollTick t moved u # obs)"
  using assms(1)
proof (cases rule: stalls_inE)
  case now
  then show ?thesis using assms(2) by (intro stalls_in_run [where pre = "[]"]) auto
next
  case (later pre)
  from later(2,3) show ?thesis by (rule stalls_in_run [where pre = "_ # pre", rotated]) (simp add: later(1))
qed

lemma stalls_in_goes_on:
  assumes "stalls_in idle tot seen (Some t0) obs" "idle_at seen x"
  shows "stalls_in idle tot seen (Some t0) (x # obs)"
  using assms(1)
proof (cases rule: stalls_inE)
  case (now t mid)
  then show ?thesis using assms(2) by (intro stalls_in_now [where mid = "x # mid"]) (auto simp: stall_evidence_def)
next
  case (later pre)
  from later(2,3) show ?thesis by (rule stalls_in_run [where pre = "x # pre", rotated]) (simp add: later(1))
qed

lemma guard_loop_evidence:
  assumes "list_all is_tick obs" "guard_loop idle tot seen since obs = Some res"
  shows "stalls_in idle tot seen since obs"
  using assms
proof (induction idle tot seen since obs rule: guard_loop.induct)
  case (3 idle tot seen since t moved unlimited obs)
  let ?x = "PollTick t moved unlimited :: 'a observation" and ?b = "case moved of Some b \<Rightarrow> b | None \<Rightarrow> seen"
  have tk: "list_all is_tick obs" using 3(5) by simp
  show ?case
  proof (cases "(0 < tot \<and> tot \<le> ?b) \<or> ?b \<noteq> seen")
    case True
    then show ?thesis
    proof (cases "0 < tot \<and> tot \<le> ?b")
      case True
      then show ?thesis using 3 by (intro stalls_in_later) (auto simp: Let_def)
    next
      case False
      with True show ?thesis using 3 by (intro stalls_in_later) (auto simp: Let_def)
    qed
  next
    case False
    then have q: "\<not> (0 < tot \<and> tot \<le> ?b)" "\<not> ?b \<noteq> seen" and sh: "idle_at seen ?x" and lt: "tot = 0 \<or> seen < tot"
      by (auto split: option.splits)
    show ?thesis
    proof (cases since)
      case None
      then have "guard_loop idle tot seen (Some t) obs = Some res" using 3(6) q by (simp add: Let_def)
      from stalls_in_began [OF 3(3) [OF refl q refl None tk this] sh] show ?thesis by (simp add: None)
    next
      case (Some t0)
      show ?thesis
      proof (cases "(if unlimited then idle else idle * 4) \<le> t - t0")
        case True
        then have "stall_evidence idle tot seen t0 [] (?x # obs)" using lt sh by (simp add: stall_evidence_def)
        then show ?thesis unfolding Some by (rule stalls_in_now [where mid = "[]", rotated]) simp
      next
        case False
        then have "guard_loop idle tot seen (Some t0) obs = Some res" using 3(6) q Some by (auto simp: Let_def)
        from stalls_in_goes_on [OF 3(4) [OF refl q refl Some False tk this] sh] show ?thesis by (simp add: Some)
      qed
    qed
  qed
qed auto

text \<open>
  C40. The watchdog raises no false alarm: when it gives up on an operation, there was a stretch of
  polls, all finding the byte counter at the same value below the total (or an unknown total),
  spanning at least the idle time, five seconds at least, and four times as long while a rate cap
  is set. In particular it never fires once every byte is on the wire.
\<close>

theorem watchdog_sound:
  fixes obs :: "'a observation list"
  assumes "list_all is_tick obs" "guard_stall idle tot moved obs = Some res"
  shows "\<exists>pre t0 m0 u0 mid t1 m1 u1 post c.
    obs = pre @ PollTick t0 m0 u0 # mid @ PollTick t1 m1 u1 # post \<and>
    list_all (idle_at c) ((PollTick t0 m0 u0 :: 'a observation) # mid @ [PollTick t1 m1 u1]) \<and>
    (tot = 0 \<or> c < tot) \<and> (if u1 then max idle 5000 else max idle 5000 * 4) \<le> t1 - t0"
proof -
  obtain pre t0 m0 u0 mid rest c where o: "obs = pre @ PollTick t0 m0 u0 # mid @ rest"
    and s: "idle_at c (PollTick t0 m0 u0 :: 'a observation)" and e: "stall_evidence (max idle 5000) tot c t0 mid rest"
    using guard_loop_evidence [OF assms(1) assms(2) [unfolded guard_stall_def]] by (cases rule: stalls_inE) auto
  from e obtain t1 m1 u1 post where "rest = PollTick t1 m1 u1 # post" "list_all (idle_at c) mid"
    "idle_at c (PollTick t1 m1 u1 :: 'a observation)" "tot = 0 \<or> c < tot"
    "(if u1 then max idle 5000 else max idle 5000 * 4) \<le> t1 - t0"
    unfolding stall_evidence_def by blast
  with o s show ?thesis
    by (intro exI [of _ pre] exI [of _ t0] exI [of _ m0] exI [of _ u0] exI [of _ mid] exI [of _ t1] exI [of _ m1]
        exI [of _ u1] exI [of _ post] exI [of _ c]) simp
qed

theorem watchdog_sound_witness:
  "\<exists>pre t0 m0 u0 mid t1 m1 u1 post c.
    [PollTick 0 (Some 3) True, PollTick 5000 None True] = pre @ PollTick t0 m0 u0 # mid @ PollTick t1 m1 u1 # post \<and>
    list_all (idle_at c) ((PollTick t0 m0 u0 :: unit observation) # mid @ [PollTick t1 m1 u1]) \<and>
    ((10 :: nat) = 0 \<or> c < 10) \<and> (if u1 then max (0 :: nat) 5000 else max 0 5000 * 4) \<le> t1 - t0"
  by (rule watchdog_sound [where moved = "Some 3" and res = "Inl (Stalled 5)"]) (simp_all add: guard_stall_def)

text \<open>Polls at the given times and limiter states, all finding the counter at \<open>c\<close>.\<close>

definition wedged :: "nat \<Rightarrow> (nat \<times> bool) list \<Rightarrow> 'a observation list" where
  "wedged c ts = map (\<lambda>(t, u). PollTick t (Some c) u) ts"

lemma guard_loop_wedged:
  assumes "tot = 0 \<or> c < tot" "\<exists>(t, u) \<in> set ts. idle * 4 \<le> t - t0"
  shows "\<exists>b. guard_loop idle tot c (Some t0) (wedged c ts) = Some (Inl (Stalled b))"
  using assms(2)
proof (induction ts)
  case (Cons x ts)
  obtain t u where x: "x = (t, u)" by fastforce
  show ?case
  proof (cases "(if u then idle else idle * 4) \<le> t - t0")
    case True
    then show ?thesis using assms(1) by (auto simp: x wedged_def Let_def)
  next
    case False
    then have "\<not> idle * 4 \<le> t - t0" by (auto split: if_splits)
    with Cons.prems have "\<exists>(t, u) \<in> set ts. idle * 4 \<le> t - t0" by (auto simp: x)
    from Cons.IH [OF this] show ?thesis using assms(1) False by (auto simp: x wedged_def Let_def)
  qed
qed simp

text \<open>
  A wedged transfer is given up: if the operation never becomes ready and no byte moves, eighteen
  polls at the watchdog's own period suffice for it to return the stall error, with or without a
  rate cap, even one that is switched on and off meanwhile.
\<close>

theorem watchdog_detects:
  assumes "tot = 0 \<or> c < tot" "18 \<le> length us"
  shows "\<exists>b. guard_stall idle tot (Some c)
    (wedged c (zip (map (\<lambda>i. t + i * poll_interval idle) [0..<length us]) us) :: 'a observation list) =
    Some (Inl (Stalled b))"
proof -
  let ?m = "max idle 5000"
  let ?p = "poll_interval idle"
  have "?m div 4 * 4 + ?m mod 4 = ?m" "?m mod 4 < 4" "5000 \<le> ?m" by simp_all
  then have "?m * 4 \<le> 17 * (?m div 4)" by linarith
  then have p: "?m * 4 \<le> 17 * ?p" by (simp add: poll_interval_def)
  obtain u vs where us: "us = u # vs" using assms(2) by (cases us) auto
  let ?ts = "zip (map (\<lambda>i. t + i * ?p) [1..<length us]) vs"
  have "[0..<length us] = 0 # [1..<length us]" using us by (metis One_nat_def length_greater_0_conv list.distinct(1) upt_conv_Cons)
  then have z: "zip (map (\<lambda>i. t + i * ?p) [0..<length us]) us = (t, u) # ?ts" by (simp add: us)
  have "(t + 17 * ?p, vs ! 16) \<in> set ?ts"
    unfolding set_zip using assms(2) us by (auto intro!: exI [of _ 16] simp: nth_append)
  then have "\<exists>(t', u') \<in> set ?ts. ?m * 4 \<le> t' - t" using p
    by (intro bexI [where x = "(t + 17 * ?p, vs ! 16)"]) simp_all
  from guard_loop_wedged [OF assms(1) this] show ?thesis
    using assms(1) unfolding guard_stall_def z by (auto simp: wedged_def Let_def)
qed

theorem watchdog_detects_witness:
  "\<exists>b. guard_stall 45000 100 (Some 7)
    (wedged 7 (zip (map (\<lambda>i. 0 + i * poll_interval 45000) [0..<length (replicate 18 True)]) (replicate 18 True))
       :: unit observation list) = Some (Inl (Stalled b))"
  by (rule watchdog_detects) simp_all

section \<open>The retry loops\<close>

datatype recovery = Healed | Reconnected

record retry_log =
  rl_error :: error
  rl_recovery :: recovery
  rl_delay :: nat

text \<open>
  What a loop runs on: the guarded operation of each attempt; the cancellation token at the head of
  an attempt and when a retry is decided; what the two recoveries do after each attempt (the network
  need not answer every time in the same way).
\<close>

record 's retry_env =
  rt_op :: "nat \<Rightarrow> ('s, unit) sr"
  rt_cancelled_head :: "nat \<Rightarrow> bool"
  rt_cancelled :: "nat \<Rightarrow> bool"
  rt_wait_until_healthy :: "nat \<Rightarrow> 's \<Rightarrow> 's"
  rt_force_reconnect :: "nat \<Rightarrow> 's \<Rightarrow> 's"

fun is_stalled :: "error \<Rightarrow> bool" where
  "is_stalled (Stalled b) = True"
| "is_stalled (Ctx m e) = is_stalled e"
| "is_stalled e = False"

definition recover :: "'s retry_env \<Rightarrow> nat \<Rightarrow> nat \<Rightarrow> error \<Rightarrow> 's \<Rightarrow> nat \<times> recovery \<times> 's" where
  "recover R att stalls e s =
     (let n = (if is_stalled e then stalls + 1 else 0) in
      if 2 \<le> n then (0, Reconnected, rt_force_reconnect R att s) else (n, Healed, rt_wait_until_healthy R att s))"

text \<open>
  The two loops differ in the check at the head, which only the upload makes, and in the delay
  before the next attempt.
\<close>

function retry_loop ::
  "'s retry_env \<Rightarrow> nat \<Rightarrow> (nat \<Rightarrow> nat) \<Rightarrow> nat \<Rightarrow> nat \<Rightarrow> 's \<Rightarrow> 's \<times> unit result \<times> retry_log list" where
  "retry_loop R max_retries delay att stalls s =
     (if rt_cancelled_head R att then (s, Inl (Msg ''cancelled''), [])
      else case rt_op R att s of
        (s', Inr u) \<Rightarrow> (s', Inr u, [])
      | (s', Inl e) \<Rightarrow>
          if att < max_retries \<and> \<not> rt_cancelled R att
          then (case recover R att stalls e s' of
              (stalls', act, s'') \<Rightarrow>
                (case retry_loop R max_retries delay (att + 1) stalls' s'' of
                   (s3, res, lg) \<Rightarrow>
                     (s3, res, \<lparr>rl_error = e, rl_recovery = act, rl_delay = delay (att + 1)\<rparr> # lg)))
          else (s', Inl e, []))"
  by pat_completeness auto
termination
  by (relation "measure (\<lambda>(R, n, d, a, st, s). n - a)") auto

declare retry_loop.simps [simp del]

definition upload_loop :: "'s retry_env \<Rightarrow> nat \<Rightarrow> nat \<Rightarrow> 's \<Rightarrow> 's \<times> unit result \<times> retry_log list" where
  "upload_loop R max_retries reconnect_delay = retry_loop R max_retries (\<lambda>_. reconnect_delay) 0 0"

definition download_loop :: "'s retry_env \<Rightarrow> nat \<Rightarrow> 's \<Rightarrow> 's \<times> unit result \<times> retry_log list" where
  "download_loop R max_retries =
     retry_loop (R\<lparr>rt_cancelled_head := \<lambda>_. False\<rparr>) max_retries (\<lambda>att. 400 * 2 ^ min att 4) 0 0"

section \<open>How often and how the loops retry\<close>

text \<open>
  The recovery the \<open>i\<close>-th retry of a lg should have made, given the number of stalls counted before
  it: reconnect on every second consecutive stall, probe otherwise.
\<close>

fun recoveries_ok :: "nat \<Rightarrow> retry_log list \<Rightarrow> bool" where
  "recoveries_ok stalls [] = True"
| "recoveries_ok stalls (l # ls) =
     (if is_stalled (rl_error l) \<and> 1 \<le> stalls
      then rl_recovery l = Reconnected \<and> recoveries_ok 0 ls
      else rl_recovery l = Healed \<and> recoveries_ok (if is_stalled (rl_error l) then 1 else 0) ls)"

fun delays_ok :: "(nat \<Rightarrow> nat) \<Rightarrow> nat \<Rightarrow> retry_log list \<Rightarrow> bool" where
  "delays_ok d att [] = True"
| "delays_ok d att (l # ls) = (rl_delay l = d (att + 1) \<and> delays_ok d (att + 1) ls)"

lemma recover_eq:
  "stalls \<le> 1 \<Longrightarrow> recover R att stalls e s =
     (if is_stalled e \<and> 1 \<le> stalls then (0, Reconnected, rt_force_reconnect R att s)
      else (if is_stalled e then 1 else 0, Healed, rt_wait_until_healthy R att s))"
  by (auto simp: recover_def Let_def)

lemma retry_loop_log:
  assumes "stalls \<le> 1" "retry_loop R n d att stalls s = (s', res, lg)"
  shows "length lg \<le> n - att \<and> recoveries_ok stalls lg \<and> delays_ok d att lg \<and>
    (\<forall>e. res = Inl e \<longrightarrow> (\<forall>i. \<not> rt_cancelled R i \<and> \<not> rt_cancelled_head R i) \<longrightarrow> length lg = n - att)"
  using assms
proof (induction R n d att stalls s arbitrary: s' res lg rule: retry_loop.induct)
  case (1 R n d att stalls s)
  obtain s1 r where op: "rt_op R att s = (s1, r)" by fastforce
  show ?case
  proof (cases "rt_cancelled_head R att \<or> is_ok r \<or> \<not> (att < n \<and> \<not> rt_cancelled R att)")
    case True
    then have "lg = [] \<and> (\<forall>e. res = Inl e \<longrightarrow> (\<forall>i. \<not> rt_cancelled R i \<and> \<not> rt_cancelled_head R i) \<longrightarrow> n - att = 0)"
      using 1(3) op by (subst (asm) retry_loop.simps) (auto split: if_splits sum.splits)
    then show ?thesis by auto
  next
    case False
    then obtain e where r: "r = Inl e" by (cases r) auto
    have c: "\<not> rt_cancelled_head R att" "att < n \<and> \<not> rt_cancelled R att" using False by auto
    obtain st act s2 where rc: "recover R att stalls e s1 = (st, act, s2)" using prod_cases3 by blast
    obtain s3 res' lg' where l: "retry_loop R n d (att + 1) st s2 = (s3, res', lg')" using prod_cases3 by blast
    have eq: "res = res'" "lg = \<lparr>rl_error = e, rl_recovery = act, rl_delay = d (att + 1)\<rparr> # lg'"
      using 1(3) c op r rc l by (subst (asm) retry_loop.simps; simp)+
    have st: "st \<le> 1" using rc recover_eq [OF 1(2), of R att e s1] by (auto split: if_splits)
    from 1(1) [OF c(1) op [symmetric] r c(2) rc [symmetric] refl st l]
    show ?thesis using rc recover_eq [OF 1(2), of R att e s1] c(2) unfolding eq by (auto split: if_splits)
  qed
qed

text \<open>
  An invariant of the state that failed attempts and recoveries keep holds when the loop fails,
  and held when the attempt began that made it succeed.
\<close>

lemma retry_loop_inv:
  assumes "I s" "\<And>i s s' e. I s \<Longrightarrow> rt_op R i s = (s', Inl e) \<Longrightarrow> I s'"
    and "\<And>i s. I s \<Longrightarrow> I (rt_wait_until_healthy R i s)" "\<And>i s. I s \<Longrightarrow> I (rt_force_reconnect R i s)"
    and "retry_loop R n d att stalls s = (s', res, lg)"
  shows "case res of Inl e \<Rightarrow> I s' | Inr u \<Rightarrow> \<exists>i s0. I s0 \<and> rt_op R i s0 = (s', Inr u)"
  using assms(1-5)
proof (induction R n d att stalls s arbitrary: s' res lg rule: retry_loop.induct)
  case (1 R n d att stalls s)
  obtain s1 r where op: "rt_op R att s = (s1, r)" by fastforce
  show ?case
  proof (cases "rt_cancelled_head R att \<or> is_ok r \<or> \<not> (att < n \<and> \<not> rt_cancelled R att)")
    case True
    then show ?thesis
      using 1(6) op 1(2) 1(3) [OF 1(2)] by (subst (asm) retry_loop.simps) (auto split: if_splits sum.splits)
  next
    case False
    then obtain e where r: "r = Inl e" by (cases r) auto
    have c: "\<not> rt_cancelled_head R att" "att < n \<and> \<not> rt_cancelled R att" using False by auto
    obtain st act s2 where rc: "recover R att stalls e s1 = (st, act, s2)" using prod_cases3 by blast
    obtain s3 res' lg' where l: "retry_loop R n d (att + 1) st s2 = (s3, res', lg')" using prod_cases3 by blast
    have eq: "s' = s3" "res = res'"
      using 1(6) c op r rc l by (subst (asm) retry_loop.simps; simp)+
    have "I s1" using 1(3) [OF 1(2)] op r by simp
    then have I2: "I s2" using rc 1(4,5) by (auto simp: recover_def Let_def split: if_splits)
    show ?thesis unfolding eq
      by (rule 1(1) [OF c(1) op [symmetric] r c(2) rc [symmetric] refl I2 1(3,4,5) l])
  qed
qed

text \<open>
  If attempt \<open>k\<close> is within the retries and succeeds from every state the recovery before it can leave, the
  loop succeeds, unless it is cancelled.
\<close>

lemma retry_loop_succeeds:
  assumes "I s" "\<And>i s s' e. I s \<Longrightarrow> rt_op R i s = (s', Inl e) \<Longrightarrow> I s'"
    and "\<And>i s. I s \<Longrightarrow> I (rt_wait_until_healthy R i s)" "\<And>i s. I s \<Longrightarrow> I (rt_force_reconnect R i s)"
    and "\<And>s s'. I s \<Longrightarrow> s' = rt_wait_until_healthy R (k - 1) s \<or> s' = rt_force_reconnect R (k - 1) s \<Longrightarrow> is_ok (snd (rt_op R k s'))"
    and "att < k" "k \<le> n" "\<And>i. \<not> rt_cancelled R i" "\<And>i. \<not> rt_cancelled_head R i"
    and "retry_loop R n d att stalls s = (s', res, lg)"
  shows "is_ok res"
  using assms
proof (induction R n d att stalls s arbitrary: s' res lg rule: retry_loop.induct)
  case (1 R n d att stalls s)
  obtain s1 r where op: "rt_op R att s = (s1, r)" by fastforce
  show ?case
  proof (cases r)
    case (Inr u)
    then show ?thesis using 1(11) op 1(9,10) by (subst (asm) retry_loop.simps) auto
  next
    case (Inl e)
    obtain st act s2 where rc: "recover R att stalls e s1 = (st, act, s2)" using prod_cases3 by blast
    obtain s3 res' lg' where l: "retry_loop R n d (att + 1) st s2 = (s3, res', lg')" using prod_cases3 by blast
    have c: "\<not> rt_cancelled_head R att" "att < n \<and> \<not> rt_cancelled R att" using 1(7-10) by auto
    have eq: "res = res'"
      using 1(11) c op Inl rc l by (subst (asm) retry_loop.simps; simp)+
    have I1: "I s1" using 1(3) [OF 1(2)] op Inl by simp
    have s2: "s2 = rt_wait_until_healthy R att s1 \<or> s2 = rt_force_reconnect R att s1"
      using rc by (auto simp: recover_def Let_def split: if_splits)
    then have I2: "I s2" using I1 1(4,5) by auto
    show ?thesis
    proof (cases "att + 1 < k")
      case True
      show ?thesis unfolding eq
        by (rule 1(1) [OF c(1) op [symmetric] Inl c(2) rc [symmetric] refl I2 1(3,4,5,6) True 1(8,9,10) l])
    next
      case False
      then have "k = att + 1" using 1(7) by simp
      then have "is_ok (snd (rt_op R (att + 1) s2))" using 1(6) [OF I1] s2 by simp
      then show ?thesis using l 1(10) unfolding eq
        by (subst (asm) retry_loop.simps) (auto split: prod.splits sum.splits)
    qed
  qed
qed

text \<open>
  Retrying is bounded and escalates as documented: a download makes at most \<open>retries\<close> retries;
  unless it is cancelled it gives up only after all of them; it reconnects exactly on every second
  consecutive stall and otherwise probes the connection first; and it waits 800, 1600, 3200,
  then always 6400 milliseconds.
\<close>

theorem download_retry_policy:
  assumes "download_loop R n s = (s', res, lg)"
  shows "length lg \<le> n \<and> recoveries_ok 0 lg \<and> delays_ok (\<lambda>att. 400 * 2 ^ min att 4) 0 lg \<and>
    (\<forall>e. res = Inl e \<longrightarrow> (\<forall>i. \<not> rt_cancelled R i) \<longrightarrow> length lg = n)"
  using retry_loop_log [OF _ assms [unfolded download_loop_def]] by simp

definition sample_retry :: "nat retry_env" where
  "sample_retry = \<lparr>rt_op = (\<lambda>i s. if i < 3 then (s, Inl (Stalled 5)) else (s, Inr ())),
     rt_cancelled_head = (\<lambda>_. False), rt_cancelled = (\<lambda>_. False),
     rt_wait_until_healthy = (\<lambda>_. Suc), rt_force_reconnect = (\<lambda>_ s. s + 10)\<rparr>"

theorem download_retry_policy_witness:
  "case download_loop sample_retry 4 0 of (s', res, lg) \<Rightarrow>
     res = Inr () \<and> map rl_recovery lg = [Healed, Reconnected, Healed] \<and> length lg \<le> 4 \<and> recoveries_ok 0 lg \<and>
     delays_ok (\<lambda>att. 400 * 2 ^ min att 4) 0 lg"
proof -
  have e: "download_loop sample_retry 4 0 =
      (12, Inr (), [\<lparr>rl_error = Stalled 5, rl_recovery = Healed, rl_delay = 800\<rparr>,
         \<lparr>rl_error = Stalled 5, rl_recovery = Reconnected, rl_delay = 1600\<rparr>,
         \<lparr>rl_error = Stalled 5, rl_recovery = Healed, rl_delay = 3200\<rparr>])"
    by (simp add: download_loop_def sample_retry_def retry_loop.simps recover_def)
  show ?thesis using download_retry_policy [OF e] unfolding e by simp
qed

lemma upload_retry_policy:
  assumes "upload_loop R n d s = (s', res, lg)"
  shows "length lg \<le> n \<and> recoveries_ok 0 lg \<and> delays_ok (\<lambda>_. d) 0 lg \<and>
    (\<forall>e. res = Inl e \<longrightarrow> (\<forall>i. \<not> rt_cancelled R i \<and> \<not> rt_cancelled_head R i) \<longrightarrow> length lg = n)"
  using retry_loop_log [OF _ assms [unfolded upload_loop_def]] by simp

section \<open>The task of one upload\<close>

text \<open>
  The local file of an upload: its length, its content read at once, and the stream an open handle
  yields. \<open>faults\<close> gives for each attempt the token at its head, the token inside the multipart
  loop, whether the watchdog drops the operation (with what the remote side looks like then and
  the budget reported), the token when a retry is decided, and what the recovery after it does.
\<close>

record local_file =
  lf_metadata :: "u64 result"
  lf_read :: "bytes result"
  lf_open :: "(nat \<times> reader) result"

record 'w faults =
  fl_head :: "nat \<Rightarrow> bool"
  fl_inside :: "nat \<Rightarrow> nat \<Rightarrow> bool"
  fl_dropped :: "nat \<Rightarrow> (('w \<Rightarrow> 'w) \<times> u64) option"
  fl_decide :: "nat \<Rightarrow> bool"
  fl_heal :: "nat \<Rightarrow> 'w \<Rightarrow> 'w"
  fl_reconnect :: "nat \<Rightarrow> 'w \<Rightarrow> 'w"

definition on_world :: "('w \<Rightarrow> 'w) \<Rightarrow> 'w ctx \<Rightarrow> 'w ctx" where
  "on_world f s = s\<lparr>cx_world := f (cx_world s)\<rparr>"

definition upload_attempt ::
  "'w env \<Rightarrow> vault_keys option \<Rightarrow> settings \<Rightarrow> u64 option \<Rightarrow> local_file \<Rightarrow> u64 \<Rightarrow> string \<Rightarrow> (nat \<Rightarrow> bool) \<Rightarrow>
     ('w ctx, unit) sr" where
  "upload_attempt E keys st limiter f plain_len key cancelled s =
     (let threshold = multipart_threshold_mib st * 1024 * 1024;
          prefix = ev_rnd E (cx_rng s)
      in sbind (onw (be_prepare_parents (ev_backend E) key)) (\<lambda>_.
         onw (if plain_len \<le> threshold
              then upload_small (ev_lib E) (ev_backend E) keys prefix limiter (lf_read f) key
              else upload_multipart (ev_lib E) (ev_backend E) keys prefix st limiter (lf_open f) cancelled key))
         (s\<lparr>cx_rng := Suc (cx_rng s)\<rparr>))"

definition guarded :: "settings \<Rightarrow> (('s \<Rightarrow> 's) \<times> u64) option \<Rightarrow> ('s, unit) sr \<Rightarrow> ('s, unit) sr" where
  "guarded st dropped op s =
     (if stall_timeout_secs st = 0 then op s
      else case dropped of None \<Rightarrow> op s | Some (f, budget) \<Rightarrow> (f s, Inl (Stalled budget)))"

definition upload_one ::
  "'w env \<Rightarrow> vault_keys option \<Rightarrow> settings \<Rightarrow> u64 option \<Rightarrow> nat \<Rightarrow> 'w faults \<Rightarrow> local_file \<Rightarrow> string \<Rightarrow> string \<Rightarrow>
     ('w ctx, unit) sr" where
  "upload_one E keys st limiter reconnect_delay F f dest_prefix rel s =
     (case upload_key (ev_lib E) keys dest_prefix rel of
        Inl e \<Rightarrow> (s, Inl e)
      | Inr key \<Rightarrow>
          (case lf_metadata f of
             Inl e \<Rightarrow> (s, Inl e)
           | Inr plain_len \<Rightarrow>
               let R = \<lparr>rt_op = (\<lambda>i. guarded st (map_option (\<lambda>(g, b). (on_world g, b)) (fl_dropped F i))
                            (upload_attempt E keys st limiter f plain_len key (fl_inside F i))),
                        rt_cancelled_head = fl_head F, rt_cancelled = fl_decide F,
                        rt_wait_until_healthy = (\<lambda>i. on_world (fl_heal F i)),
                        rt_force_reconnect = (\<lambda>i. on_world (fl_reconnect F i))\<rparr>
               in case upload_loop R (unat (retries st)) reconnect_delay s of (s', res, lg) \<Rightarrow> (s', res)))"

section \<open>The task of one download\<close>

text \<open>
  A dropped download stops at one of its awaits: \<open>dropped = Some (j, b)\<close> stops it at the \<open>j\<close>-th
  place where it looks at its token, unless it has finished before.
\<close>

definition download_attempt ::
  "crypto_lib \<Rightarrow> 'w backend \<Rightarrow> vault_keys option \<Rightarrow> settings \<Rightarrow> string \<Rightarrow> u64 \<Rightarrow> string list \<Rightarrow> disk_io \<Rightarrow> (nat \<Rightarrow> bool) \<Rightarrow>
     (nat \<times> u64) option \<Rightarrow> ('w dlstate, unit) sr" where
  "download_attempt L B keys st key sz out_path io cancelled dropped s =
     (case (if stall_timeout_secs st = 0 then None else dropped) of
        None \<Rightarrow> download_one L B keys key sz out_path io cancelled s
      | Some (j, budget) \<Rightarrow>
          (case download_one L B keys key sz out_path io (\<lambda>k. cancelled k \<or> j \<le> k) s of
             (s', Inr u) \<Rightarrow> (s', Inr u)
           | (s', Inl e) \<Rightarrow> (s', Inl (Stalled budget))))"

text \<open>
  What disturbs a download: for each attempt the disk, the token, the watchdog, and the recovery after it;
  and whether the part file can be removed when the task gives up.
\<close>

record 'w dl_faults =
  df_io :: "nat \<Rightarrow> disk_io"
  df_inside :: "nat \<Rightarrow> nat \<Rightarrow> bool"
  df_dropped :: "nat \<Rightarrow> (nat \<times> u64) option"
  df_decide :: "nat \<Rightarrow> bool"
  df_heal :: "nat \<Rightarrow> 'w \<Rightarrow> 'w"
  df_reconnect :: "nat \<Rightarrow> 'w \<Rightarrow> 'w"
  df_remove :: bool

definition dl_on_world :: "('w \<Rightarrow> 'w) \<Rightarrow> 'w dlstate \<Rightarrow> 'w dlstate" where
  "dl_on_world f s = s\<lparr>dl_world := f (dl_world s)\<rparr>"

definition dl_retry_env ::
  "crypto_lib \<Rightarrow> 'w backend \<Rightarrow> vault_keys option \<Rightarrow> settings \<Rightarrow> 'w dl_faults \<Rightarrow> string \<Rightarrow> u64 \<Rightarrow> string list \<Rightarrow>
     'w dlstate retry_env" where
  "dl_retry_env L B keys st F key sz out_path =
     \<lparr>rt_op = (\<lambda>i. download_attempt L B keys st key sz out_path (df_io F i) (df_inside F i) (df_dropped F i)),
      rt_cancelled_head = (\<lambda>_. False), rt_cancelled = df_decide F,
      rt_wait_until_healthy = (\<lambda>i. dl_on_world (df_heal F i)), rt_force_reconnect = (\<lambda>i. dl_on_world (df_reconnect F i))\<rparr>"

definition download_task ::
  "crypto_lib \<Rightarrow> 'w backend \<Rightarrow> vault_keys option \<Rightarrow> settings \<Rightarrow> 'w dl_faults \<Rightarrow> string \<Rightarrow> string \<Rightarrow> u64 \<Rightarrow> string list \<Rightarrow>
     ('w dlstate, unit) sr" where
  "download_task L B keys st F key rel sz dest s =
     (let out_path = dest @ sanitize_rel rel
      in case download_loop (dl_retry_env L B keys st F key sz out_path) (unat (retries st)) s of
           (s', Inr u, lg) \<Rightarrow> (s', Inr u)
         | (s', Inl e, lg) \<Rightarrow>
             (if df_remove F then s'\<lparr>dl_disk := (dl_disk s')(part_path out_path := None)\<rparr> else s', Inl e))"

text \<open>What a download relies on: the object, and a backend that serves nothing else under its key.\<close>

definition dl_setup ::
  "crypto_lib \<Rightarrow> ('w \<Rightarrow> bool) \<Rightarrow> 'w backend \<Rightarrow> vault_keys option \<Rightarrow> bytes \<Rightarrow> bytes \<Rightarrow> string \<Rightarrow> bytes \<Rightarrow> bool" where
  "dl_setup L ok B keys prefix data key blob \<longleftrightarrow>
     stored_as L keys prefix data blob \<and> length data \<le> 2 ^ 51 \<and> serves ok B key blob \<and>
     (keys = None \<longrightarrow> ends_honestly ok B key blob)"

lemma download_attempt_spec:
  fixes s :: "'w dlstate" and out_path :: "string list"
  defines "tmp \<equiv> part_path out_path"
  assumes "dl_setup L ok B keys prefix data key blob" "ok (dl_world s)" "part_ok data (dl_disk s tmp)" "out_path \<noteq> []"
    and "download_attempt L B keys st key (of_nat (length data)) out_path io cancelled dropped s = (s', res)"
  shows "ok (dl_world s') \<and> dl_post tmp out_path data (dl_disk s) (dl_disk s') res \<and>
    (serves_fully ok B key blob \<longrightarrow> undisturbed io cancelled \<longrightarrow> dropped = None \<longrightarrow> res = Inr ())"
proof -
  have st0: "stored_as L keys prefix data blob" "length data \<le> 2 ^ 51" "serves ok B key blob"
    "keys = None \<longrightarrow> ends_honestly ok B key blob" using assms(2) by (simp_all add: dl_setup_def)
  note spec = download_one_spec [OF st0(1-3) assms(3) st0(4) assms(4)[unfolded tmp_def] assms(5), folded tmp_def]
  show ?thesis
  proof (cases "stall_timeout_secs st = 0 \<or> dropped = None")
    case True
    then have "download_one L B keys key (of_nat (length data)) out_path io cancelled s = (s', res)"
      using assms(6) by (auto simp: download_attempt_def)
    with spec [of io cancelled] show ?thesis by auto
  next
    case False
    then obtain j b where d: "dropped = Some (j, b)" by auto
    obtain s1 r where o: "download_one L B keys key (of_nat (length data)) out_path io (\<lambda>k. cancelled k \<or> j \<le> k) s = (s1, r)"
      by fastforce
    have "s' = s1" "res = (case r of Inl e \<Rightarrow> Inl (Stalled b) | Inr u \<Rightarrow> Inr u)"
      using assms(6) False d o by (auto simp: download_attempt_def split: sum.splits)
    with spec [of io "\<lambda>k. cancelled k \<or> j \<le> k"] o d show ?thesis by (cases r) (auto simp: dl_post_def)
  qed
qed

lemma download_loop_spec:
  fixes s :: "'w dlstate" and out_path :: "string list" and F :: "'w dl_faults"
  defines "tmp \<equiv> part_path out_path"
  assumes st0: "dl_setup L ok B keys prefix data key blob" and ok: "ok (dl_world s)"
    and po: "part_ok data (dl_disk s tmp)" and ne: "out_path \<noteq> []"
    and keep: "\<And>i w. ok w \<Longrightarrow> ok (df_heal F i w)" "\<And>i w. ok w \<Longrightarrow> ok (df_reconnect F i w)"
    and run: "download_loop (dl_retry_env L B keys st F key (of_nat (length data)) out_path) n s = (s', res, lg)"
  shows "dl_post tmp out_path data (dl_disk s) (dl_disk s') res"
    and "\<And>good k. dl_setup L good B keys prefix data key blob \<Longrightarrow> serves_fully good B key blob \<Longrightarrow>
      (\<And>w. ok w \<Longrightarrow> good (df_heal F (k - 1) w) \<and> good (df_reconnect F (k - 1) w)) \<Longrightarrow>
      0 < k \<Longrightarrow> k \<le> n \<Longrightarrow> undisturbed (df_io F k) (df_inside F k) \<Longrightarrow> df_dropped F k = None \<Longrightarrow> (\<And>i. \<not> df_decide F i) \<Longrightarrow> is_ok res"
proof -
  define I where "I = (\<lambda>t :: 'w dlstate. ok (dl_world t) \<and> part_ok data (dl_disk t tmp) \<and>
    (\<forall>p. p \<noteq> tmp \<longrightarrow> dl_disk t p = dl_disk s p))"
  note spec = download_attempt_spec [OF st0 _ _ ne, folded tmp_def]
  let ?R = "(dl_retry_env L B keys st F key (of_nat (length data)) out_path)\<lparr>rt_cancelled_head := \<lambda>_. False\<rparr>"
  have I0: "I s" using ok po by (simp add: I_def)
  have nq: "out_path \<noteq> tmp" using part_path_neq [OF ne] by (simp add: tmp_def)
  have If: "I t'" if "I t" "rt_op ?R i t = (t', Inl e)" for i t t' e
  proof -
    have "download_attempt L B keys st key (of_nat (length data)) out_path (df_io F i) (df_inside F i) (df_dropped F i) t = (t', Inl e)"
      using that(2) by (simp add: dl_retry_env_def)
    from spec [OF _ _ this] that(1) show ?thesis unfolding I_def dl_post_def by (metis Inl_Inr_False)
  qed
  have Ih: "I (rt_wait_until_healthy ?R i t)" "I (rt_force_reconnect ?R i t)" if "I t" for i t
    using that keep by (simp_all add: I_def dl_retry_env_def dl_on_world_def)
  have run': "retry_loop ?R n (\<lambda>att. 400 * 2 ^ min att 4) 0 0 s = (s', res, lg)"
    using run by (simp add: download_loop_def)
  have inv: "case res of Inl e \<Rightarrow> I s' | Inr u \<Rightarrow> \<exists>i t. I t \<and> rt_op ?R i t = (s', Inr u)"
    by (rule retry_loop_inv [of I, OF I0 _ _ _ run']) (use If Ih in \<open>blast+\<close>)
  show "dl_post tmp out_path data (dl_disk s) (dl_disk s') res"
  proof (cases res)
    case (Inl e)
    then show ?thesis using inv nq by (simp add: I_def dl_post_def)
  next
    case (Inr u)
    with inv obtain i t where t: "I t" "download_attempt L B keys st key (of_nat (length data)) out_path
        (df_io F i) (df_inside F i) (df_dropped F i) t = (s', Inr u)"
      by (fastforce simp: dl_retry_env_def)
    from spec [OF _ _ t(2)] t(1) Inr show ?thesis unfolding I_def dl_post_def by auto
  qed
  fix good k
  assume g: "dl_setup L good B keys prefix data key blob" "serves_fully good B key blob"
    "\<And>w. ok w \<Longrightarrow> good (df_heal F (k - 1) w) \<and> good (df_reconnect F (k - 1) w)" "0 < k" "k \<le> n"
    "undisturbed (df_io F k) (df_inside F k)" "df_dropped F k = None" "\<And>i. \<not> df_decide F i"
  have fin: "is_ok (snd (rt_op ?R k t'))"
    if "I t" "t' = rt_wait_until_healthy ?R (k - 1) t \<or> t' = rt_force_reconnect ?R (k - 1) t" for t t'
  proof -
    have t': "good (dl_world t')" "part_ok data (dl_disk t' tmp)"
      using that g(3) by (auto simp: I_def dl_retry_env_def dl_on_world_def)
    obtain t2 r where a: "download_attempt L B keys st key (of_nat (length data)) out_path (df_io F k) (df_inside F k) (df_dropped F k) t' = (t2, r)"
      by fastforce
    from download_attempt_spec [OF g(1) _ _ ne a] t' g(2,6,7) have "r = Inr ()" by (auto simp: tmp_def)
    then show ?thesis using a by (simp add: dl_retry_env_def)
  qed
  show "is_ok res"
    by (rule retry_loop_succeeds [of I, OF I0 _ _ _ _ g(4,5) _ _ run'])
      (use If Ih fin in \<open>blast+\<close>, use g(8) in \<open>simp_all add: dl_retry_env_def\<close>)
qed

text \<open>
  How a task leaves the disk: the target as it should be, the part file gone or, when it could not be removed,
  again a prefix of the file, and every other file as it was.
\<close>

definition task_post ::
  "string list \<Rightarrow> bytes \<Rightarrow> bool \<Rightarrow> (string list \<rightharpoonup> bytes) \<Rightarrow> (string list \<rightharpoonup> bytes) \<Rightarrow> unit result \<Rightarrow> bool" where
  "task_post out_path data removable d d' res \<longleftrightarrow>
     (\<forall>p. p \<noteq> out_path \<longrightarrow> p \<noteq> part_path out_path \<longrightarrow> d' p = d p) \<and>
     d' out_path = (if is_ok res then Some data else d out_path) \<and>
     (if is_ok res \<or> removable then d' (part_path out_path) = None else part_ok data (d' (part_path out_path)))"

lemma download_task_disk:
  assumes "dl_setup L ok B keys prefix data key blob" "ok (dl_world s)" "dest @ sanitize_rel rel \<noteq> []"
    and "part_ok data (dl_disk s (part_path (dest @ sanitize_rel rel)))"
    and "\<forall>i w. ok w \<longrightarrow> ok (df_heal F i w) \<and> ok (df_reconnect F i w)"
    and "download_task L B keys st F key rel (of_nat (length data)) dest s = (s', res)"
  shows "task_post (dest @ sanitize_rel rel) data (df_remove F) (dl_disk s) (dl_disk s') res"
proof -
  let ?out = "dest @ sanitize_rel rel"
  obtain t r lg where run: "download_loop (dl_retry_env L B keys st F key (of_nat (length data)) ?out) (unat (retries st)) s = (t, r, lg)"
    using prod_cases3 by blast
  have nq: "part_path ?out \<noteq> ?out" by (rule part_path_neq [OF assms(3)])
  have sp: "dl_post (part_path ?out) ?out data (dl_disk s) (dl_disk t) r"
    by (rule download_loop_spec(1) [OF assms(1,2,4,3) _ _ run]) (use assms(5) in blast)+
  show ?thesis
  proof (cases r)
    case (Inl e)
    then have "s' = (if df_remove F then t\<lparr>dl_disk := (dl_disk t)(part_path ?out := None)\<rparr> else t)" "res = Inl e"
      using assms(6) run by (simp_all add: download_task_def)
    then show ?thesis using sp Inl nq by (simp add: task_post_def dl_post_def)
  next
    case (Inr u)
    then have "s' = t" "res = Inr u" using assms(6) run by (simp_all add: download_task_def)
    then show ?thesis using sp Inr by (simp add: task_post_def dl_post_def)
  qed
qed

text \<open>
  C28. A download task is all or nothing over all its attempts, provided a part file it finds at the start is a
  prefix of the plaintext (the code does not check it) and, without encryption, the transport reports a
  connection that breaks off: whatever the network and the disk do in each of the attempts, whenever the
  watchdog drops one or the user cancels, the task ends with exactly the plaintext under the final path, or
  with an error and that path as it was; in both cases no part file is left behind, unless its removal
  fails after an error, and no other file is touched.
\<close>

theorem download_task_all_or_nothing:
  assumes "dl_setup L ok B keys prefix data key blob" "ok (dl_world s)" "dest @ sanitize_rel rel \<noteq> []"
    and "part_ok data (dl_disk s (part_path (dest @ sanitize_rel rel)))"
    and "\<forall>i w. ok w \<longrightarrow> ok (df_heal F i w) \<and> ok (df_reconnect F i w)"
    and "download_task L B keys st F key rel (of_nat (length data)) dest s = (s', res)"
  shows "(\<forall>p. p \<noteq> dest @ sanitize_rel rel \<longrightarrow> p \<noteq> part_path (dest @ sanitize_rel rel) \<longrightarrow> dl_disk s' p = dl_disk s p) \<and>
    dl_disk s' (dest @ sanitize_rel rel) = (if is_ok res then Some data else dl_disk s (dest @ sanitize_rel rel)) \<and>
    (is_ok res \<or> df_remove F \<longrightarrow> dl_disk s' (part_path (dest @ sanitize_rel rel)) = None)"
  using download_task_disk [OF assms] by (simp add: task_post_def)

text \<open>
  C7. A download survives faults: the first attempts may fail in any way, as long as the object itself stays.
  If the recovery that follows some attempt, the probe or the reconnection, brings back a connection that
  serves the object completely, and the next attempt, still within the configured retries, is neither
  cancelled, nor dropped by the watchdog, nor hit by a disk error, then the task succeeds, in that attempt or an
  earlier one, and the file holds exactly the plaintext. A part file found at the start must be a prefix of it.
\<close>

theorem download_survives_faults:
  assumes "dl_setup L ok B keys prefix data key blob" "ok (dl_world s)" "dest @ sanitize_rel rel \<noteq> []"
    and "part_ok data (dl_disk s (part_path (dest @ sanitize_rel rel)))"
    and "\<forall>i w. ok w \<longrightarrow> ok (df_heal F i w) \<and> ok (df_reconnect F i w)"
    and "dl_setup L good B keys prefix data key blob" "serves_fully good B key blob"
    and "\<forall>w. ok w \<longrightarrow> good (df_heal F k w) \<and> good (df_reconnect F k w)"
    and "Suc k \<le> unat (retries st)" "undisturbed (df_io F (Suc k)) (df_inside F (Suc k))" "df_dropped F (Suc k) = None"
    and "\<forall>i. \<not> df_decide F i"
  shows "\<exists>s'. download_task L B keys st F key rel (of_nat (length data)) dest s = (s', Inr ()) \<and>
    dl_disk s' (dest @ sanitize_rel rel) = Some data"
proof -
  let ?out = "dest @ sanitize_rel rel"
  obtain t r lg where run: "download_loop (dl_retry_env L B keys st F key (of_nat (length data)) ?out) (unat (retries st)) s = (t, r, lg)"
    using prod_cases3 by blast
  have "is_ok r"
    by (rule download_loop_spec(2) [OF assms(1,2,4,3) _ _ run assms(6,7) _ _ assms(9)]) (use assms in auto)
  then have r: "r = Inr ()" by (cases r) auto
  have "dl_post (part_path ?out) ?out data (dl_disk s) (dl_disk t) r"
    by (rule download_loop_spec(1) [OF assms(1,2,4,3) _ _ run]) (use assms(5) in blast)+
  with r run show ?thesis by (simp add: download_task_def dl_post_def)
qed

definition sample_faults :: "mem dl_faults" where
  "sample_faults = \<lparr>df_io = (\<lambda>i. if i = 0 then disk_ok\<lparr>io_flush := Some (1, Msg ''no space'')\<rparr> else disk_ok), df_inside = (\<lambda>_ _. False),
     df_dropped = (\<lambda>i. if i = 1 then Some (1, 45) else None), df_decide = (\<lambda>_. False), df_heal = (\<lambda>_. id), df_reconnect = (\<lambda>_. id),
     df_remove = True\<rparr>"

lemma sample_dl_setup:
  "dl_setup ref_lib (\<lambda>w. mem_obs w ''k'' = Some sample_blob) ref_backend (Some ref_keys) ref_prefix [1, 2, 3] ''k'' sample_blob"
  using sample_stored ref_serves(1) [OF length_sample_blob] by (simp add: dl_setup_def)

lemma sample_out: "sanitize_rel ''f'' = [''f'']"
  by code_simp

theorem download_survives_faults_witness:
  "\<exists>s'. download_task ref_lib ref_backend (Some ref_keys) Settings_default sample_faults ''k'' ''f'' 3 [] sample_disk = (s', Inr ()) \<and>
    dl_disk s' [''f''] = Some [1, 2, 3]"
  using download_survives_faults [OF sample_dl_setup _ _ _ _ sample_dl_setup ref_serves(2) [OF length_sample_blob],
      of sample_disk "[]" "''f''" sample_faults 1 Settings_default]
  by (simp add: sample_out sample_disk_facts sample_faults_def Settings_default_def undisturbed_def)

theorem download_task_all_or_nothing_witness:
  "dl_disk (fst (download_task ref_lib ref_backend (Some ref_keys) (Settings_default\<lparr>retries := 0\<rparr>) sample_faults
      ''k'' ''f'' 3 [] sample_disk)) [''f.rse-part''] = None"
  using download_task_all_or_nothing [OF sample_dl_setup _ _ _ _ prod.collapse [symmetric],
      of sample_disk "[]" "''f''" sample_faults "Settings_default\<lparr>retries := 0\<rparr>"]
  by (simp add: sample_out sample_disk_facts sample_faults_def)

end
