(* ===== verification/Operations.thy ===== *)
theory Operations
  imports Retry
begin

text \<open>
  The directory operations of the worker (\<^verbatim>\<open>src/src/worker.rs\<close>: \<open>list\<close>, \<open>raw_to_entry\<close>,
  \<open>create_folder\<close>, \<open>run_delete\<close>, \<open>run_move\<close>, \<open>run_rename\<close>, \<open>run_calculate_size\<close>,
  \<open>collect_folder_info\<close>, \<open>expand_folder\<close>, \<open>expand_paths\<close>, \<open>record_upload\<close> and the task of an
  upload). They compose the backend, the encryption of names and the manifest buffer; the state
  is the one of the buffer (\<open>ctx\<close>), the session's keys are an argument, and an operation that
  sends messages returns them. \<open>lower\<close> stands for \<open>to_lowercase\<close>.
\<close>

section \<open>Listing\<close>

definition raw_to_entry :: "crypto_lib \<Rightarrow> vault_keys option \<Rightarrow> raw_object \<Rightarrow> remote_entry" where
  "raw_to_entry L keys ob =
     (let raw_name = leaf_of (ro_key ob);
          (name, encrypted) =
            (case keys of
               Some k \<Rightarrow> (case decrypt_name L k raw_name of Inr n \<Rightarrow> (n, Some True) | Inl _ \<Rightarrow> (raw_name, Some False))
             | None \<Rightarrow> (raw_name, None))
      in \<lparr>re_key = ro_key ob, re_name = name, re_is_dir = ro_is_prefix ob, re_size = ro_size ob,
          re_modified = ro_modified ob, re_encrypted = encrypted\<rparr>)"

definition list_dir ::
  "(string \<Rightarrow> string) \<Rightarrow> 'w env \<Rightarrow> vault_keys option \<Rightarrow> string \<Rightarrow> ('w ctx, remote_entry list \<times> event list) sr" where
  "list_dir lower E keys prefix =
     sbind (onw (be_list (ev_backend E) prefix)) (\<lambda>objs.
     let raw = filter (\<lambda>ob. leaf_of (ro_key ob) \<noteq> VAULT_KEY) objs in
     case keys of
       Some k \<Rightarrow>
         sbind (load E k prefix) (\<lambda>m.
         let listing = build_listing lower raw m in
         sret (dl_entries listing,
           if 0 < dl_orphan_count listing
           then [Toast (nat_str (dl_orphan_count listing) @
                  '' item(s) here lost their names (interrupted upload); re-upload to restore'')]
           else []))
     | None \<Rightarrow> sret (sort_key (listing_key lower) (map (raw_to_entry (ev_lib E) None) raw), []))"

section \<open>Creating, deleting, moving, renaming\<close>

definition create_folder :: "'w env \<Rightarrow> vault_keys option \<Rightarrow> backend_kind \<Rightarrow> string \<Rightarrow> string \<Rightarrow> ('w ctx, unit) sr" where
  "create_folder E keys kind prefix name =
     sbind (slift (case keys of
         Some k \<Rightarrow> rbind (encrypt_name (ev_lib E) k name) (\<lambda>enc. Inr (hash_entry (ev_lib E) enc, Some enc))
       | None \<Rightarrow> Inr (name, None))) (\<lambda>(segment, enc).
     let key = prefix @ segment @ [slash] in
     sbind (onw (if kind = backend_kind.S3 then be_put (ev_backend E) key []
                 else be_prepare_parents (ev_backend E) (key @ ''x''))) (\<lambda>_.
     case (keys, enc) of
       (Some k, Some e) \<Rightarrow>
         sbind (edit E k prefix (upsert_folder (ev_lib E) e name)) (\<lambda>_.
         sbind (flush E k Forced) (\<lambda>_. sret ()))
     | _ \<Rightarrow> sret ()))"

definition delete_keys :: "'w env \<Rightarrow> string list \<Rightarrow> remote_entry \<Rightarrow> ('w ctx, string list) sr" where
  "delete_keys E ks item =
     (if re_is_dir item
      then sbind (onw (be_list_recursive (ev_backend E) (re_key item))) (\<lambda>objs.
           sret (ks @ map ro_key objs @ [re_key item]))
      else sret (ks @ [re_key item]))"

definition delete_record :: "'w env \<Rightarrow> vault_keys \<Rightarrow> remote_entry \<Rightarrow> ('w ctx, unit) sr" where
  "delete_record E k item =
     sbind (case encrypt_name (ev_lib E) k (re_name item) of
         Inr enc \<Rightarrow>
           sbind (attempt (edit E k (parent_prefix (re_key item)) (\<lambda>m. fst (remove_entry (ev_lib E) enc m)))) (\<lambda>_. sret ())
       | Inl _ \<Rightarrow> sret ()) (\<lambda>_ s.
       (if re_is_dir item
        then s\<lparr>cx_store := forget (trim_end_matches slash (re_key item)) (cx_store s)\<rparr> else s, Inr ()))"

definition run_delete :: "'w env \<Rightarrow> vault_keys option \<Rightarrow> remote_entry list \<Rightarrow> ('w ctx, nat) sr" where
  "run_delete E keys items =
     sbind (sfold (delete_keys E) [] items) (\<lambda>ks.
     sbind (onw (be_delete (ev_backend E) ks)) (\<lambda>_.
     case keys of
       None \<Rightarrow> sret (length ks)
     | Some k \<Rightarrow>
         sbind (sfold (\<lambda>_. delete_record E k) () items) (\<lambda>_.
         sbind (attempt (flush E k Forced)) (\<lambda>_. sret (length ks)))))"

definition move_record :: "'w env \<Rightarrow> vault_keys option \<Rightarrow> string \<Rightarrow> remote_entry \<Rightarrow> ('w ctx, unit) sr" where
  "move_record E keys dest_prefix item =
     (case keys of
        None \<Rightarrow> sret ()
      | Some k \<Rightarrow>
          (case encrypt_name (ev_lib E) k (re_name item) of
             Inl _ \<Rightarrow> sret ()
           | Inr enc \<Rightarrow>
               sbind (attempt (store_take_entry E k (parent_prefix (re_key item)) enc)) (\<lambda>taken.
               case taken of
                 Inr (Some e) \<Rightarrow> sbind (attempt (store_insert_entry E k dest_prefix enc e)) (\<lambda>_. sret ())
               | _ \<Rightarrow> sret ())))"

definition dir_key :: "string \<Rightarrow> string" where
  "dir_key key = (if ends_with slash key then key else key @ [slash])"

text \<open>Where an item would go, or \<open>None\<close> when the move is to be skipped.\<close>

definition move_target :: "string \<Rightarrow> remote_entry \<Rightarrow> (string \<times> string) option" where
  "move_target dest_prefix item =
     (let leaf = leaf_of (re_key item) in
      if re_is_dir item
      then let from = dir_key (re_key item); to = dest_prefix @ leaf @ [slash] in
           if to = from \<or> starts_with from dest_prefix then None else Some (from, to)
      else let to = dest_prefix @ leaf in if to = re_key item then None else Some (re_key item, to))"

definition move_item :: "'w env \<Rightarrow> vault_keys option \<Rightarrow> string \<Rightarrow> nat \<Rightarrow> remote_entry \<Rightarrow> ('w ctx, nat) sr" where
  "move_item E keys dest_prefix moved item =
     (case move_target dest_prefix item of
        None \<Rightarrow> sret moved
      | Some (from, to) \<Rightarrow>
          sbind (onw (be_rename (ev_backend E) from to)) (\<lambda>_.
          sbind (move_record E keys dest_prefix item) (\<lambda>_. sret (moved + 1))))"

definition run_move :: "'w env \<Rightarrow> vault_keys option \<Rightarrow> remote_entry list \<Rightarrow> string \<Rightarrow> ('w ctx, nat) sr" where
  "run_move E keys items dest_prefix =
     sbind (sfold (move_item E keys dest_prefix) 0 items) (\<lambda>moved.
     case keys of
       None \<Rightarrow> sret moved
     | Some k \<Rightarrow> sbind (attempt (flush E k Forced)) (\<lambda>_. sret moved))"

text \<open>
  \<open>new_name.trim().is_empty()\<close>: every character is white space, in UTF-8. Beside the ASCII ones
  these are U+0085, U+00A0, U+1680, U+2000 to U+200A, U+2028, U+2029, U+202F, U+205F and U+3000.
\<close>

fun blank_codes :: "nat list \<Rightarrow> bool" where
  "blank_codes [] = True"
| "blank_codes (c # cs) =
     (if c = 32 \<or> 9 \<le> c \<and> c \<le> 13 then blank_codes cs
      else case cs of
        [] \<Rightarrow> False
      | d # ds \<Rightarrow>
          if c = 0xC2 \<and> (d = 0x85 \<or> d = 0xA0) then blank_codes ds
          else (case ds of
              [] \<Rightarrow> False
            | f # fs \<Rightarrow>
                ((c = 0xE1 \<and> d = 0x9A \<and> f = 0x80) \<or>
                 (c = 0xE2 \<and> d = 0x80 \<and> (0x80 \<le> f \<and> f \<le> 0x8A \<or> f = 0xA8 \<or> f = 0xA9 \<or> f = 0xAF)) \<or>
                 (c = 0xE2 \<and> d = 0x81 \<and> f = 0x9F) \<or> (c = 0xE3 \<and> d = 0x80 \<and> f = 0x80)) \<and> blank_codes fs))"

definition blank :: "string \<Rightarrow> bool" where
  "blank s = blank_codes (map of_char s)"

definition rename_encrypted ::
  "'w env \<Rightarrow> vault_keys \<Rightarrow> string \<Rightarrow> bool \<Rightarrow> string \<Rightarrow> string \<Rightarrow> ('w ctx, unit) sr" where
  "rename_encrypted E k key is_dir old_name new_name =
     (let L = ev_lib E; parent = parent_prefix key in
      sbind (slift (encrypt_name L k old_name)) (\<lambda>old_enc.
      sbind (slift (encrypt_name L k new_name)) (\<lambda>new_enc.
      let new_hash = hash_entry L new_enc in
      if hash_entry L old_enc = new_hash then sret ()
      else
        sbind (load E k parent) (\<lambda>existing.
        if name_for existing new_hash \<noteq> None
        then serr (Msg (''an item named '' @ [CHR 0x22] @ new_name @ [CHR 0x22] @ '' already exists here''))
        else
          let (from, to) = (if is_dir then (dir_key key, parent @ new_hash @ [slash]) else (key, parent @ new_hash)) in
          sbind (onw (be_rename (ev_backend E) from to)) (\<lambda>_.
          sbind (\<lambda>s. (if is_dir then s\<lparr>cx_store := forget (trim_end_matches slash from) (cx_store s)\<rparr> else s, Inr ())) (\<lambda>_.
          sbind (edit E k parent (\<lambda>m. fst (rename_entry L old_enc new_enc new_name m))) (\<lambda>_.
          sbind (flush E k Forced) (\<lambda>_. sret ()))))))))"

definition rename_plain :: "'w env \<Rightarrow> string \<Rightarrow> bool \<Rightarrow> string \<Rightarrow> ('w ctx, unit) sr" where
  "rename_plain E key is_dir new_name =
     (let parent = parent_prefix key in
      if is_dir
      then let from = dir_key key; to = parent @ new_name @ [slash] in
           if to = from then sret () else onw (be_rename (ev_backend E) from to)
      else let to = parent @ new_name in
           if to = key then sret () else onw (be_rename (ev_backend E) key to))"

definition run_rename ::
  "'w env \<Rightarrow> vault_keys option \<Rightarrow> string \<Rightarrow> bool \<Rightarrow> string \<Rightarrow> string \<Rightarrow> bool \<Rightarrow> ('w ctx, unit) sr" where
  "run_rename E keys key is_dir old_name new_name encrypted =
     (if blank new_name \<or> slash \<in> set new_name then serr (Msg ''invalid name'')
      else case (encrypted, keys) of
        (True, Some k) \<Rightarrow> rename_encrypted E k key is_dir old_name new_name
      | _ \<Rightarrow> rename_plain E key is_dir new_name)"

section \<open>Sizes\<close>

definition is_metadata :: "string \<Rightarrow> bool" where
  "is_metadata leaf = (is_manifest_key leaf \<or> leaf = VAULT_KEY)"

fun size_loop :: "bool \<Rightarrow> u64 \<times> u64 \<Rightarrow> raw_object list \<Rightarrow> u64 \<times> u64" where
  "size_loop e2ee acc [] = acc"
| "size_loop e2ee (plaintext, enc_total) (ob # obs) =
     (if is_metadata (leaf_of (ro_key ob)) then size_loop e2ee (plaintext, enc_total) obs
      else size_loop e2ee
        (saturating_add plaintext (if e2ee then plaintext_of_ciphertext (ro_size ob) else ro_size ob),
         saturating_add enc_total (ro_size ob)) obs)"

definition run_calculate_size ::
  "'w env \<Rightarrow> vault_keys option \<Rightarrow> i64 \<Rightarrow> string \<Rightarrow> string \<Rightarrow> bool \<Rightarrow> ('w ctx, u64 \<times> u64) sr" where
  "run_calculate_size E keys now_ms key name encrypted =
     sbind (onw (be_list_recursive (ev_backend E) key)) (\<lambda>objects.
     let (plaintext, enc_total) = size_loop (keys \<noteq> None) (0, 0) objects in
     sbind (case (encrypted, keys) of
         (True, Some k) \<Rightarrow>
           (case encrypt_name (ev_lib E) k name of
              Inl _ \<Rightarrow> sret ()
            | Inr enc \<Rightarrow>
                sbind (attempt (edit E k (parent_prefix key) (set_folder_size (ev_lib E) enc plaintext enc_total now_ms))) (\<lambda>_.
                sbind (attempt (flush E k Forced)) (\<lambda>_. sret ())))
       | _ \<Rightarrow> sret ()) (\<lambda>_. sret (plaintext, enc_total)))"

section \<open>Walking a folder\<close>

text \<open>
  The \<open>while let Some(..) = stack.pop()\<close> loops: \<open>visit\<close> reads one directory, adds to the result and
  gives the subdirectories it pushes, in order. The head of the list is the top of the stack. The
  fuel bounds the number of directories visited.
\<close>

fun dir_walk ::
  "(string \<times> string \<Rightarrow> 'a \<Rightarrow> ('s, (string \<times> string) list \<times> 'a) sr) \<Rightarrow> nat \<Rightarrow> (string \<times> string) list \<Rightarrow> 'a \<Rightarrow> ('s, 'a) sr" where
  "dir_walk visit fuel [] acc = sret acc"
| "dir_walk visit 0 (d # stack) acc = serr Hang"
| "dir_walk visit (Suc fuel) (d # stack) acc =
     sbind (visit d acc) (\<lambda>(subs, acc'). dir_walk visit fuel (rev subs @ stack) acc')"

definition load_or_default :: "'w env \<Rightarrow> vault_keys \<Rightarrow> string \<Rightarrow> ('w ctx, manifest) sr" where
  "load_or_default E k dir =
     sbind (attempt (load E k dir)) (\<lambda>r. sret (case r of Inr m \<Rightarrow> m | Inl _ \<Rightarrow> Manifest_default))"

definition display_name :: "manifest \<Rightarrow> string \<Rightarrow> string" where
  "display_name m leaf = (case name_for m leaf of Some n \<Rightarrow> n | None \<Rightarrow> leaf)"

definition plain_size :: "manifest \<Rightarrow> string \<Rightarrow> raw_object \<Rightarrow> u64" where
  "plain_size m leaf ob =
     (case man_files m leaf of Some f \<Rightarrow> fe_size f | None \<Rightarrow> plaintext_of_ciphertext (ro_size ob))"

type_synonym target = "string \<times> string \<times> u64"

fun expand_entries ::
  "manifest \<Rightarrow> string \<Rightarrow> string \<Rightarrow> raw_object list \<Rightarrow> (string \<times> string) list \<times> target list \<Rightarrow> (string \<times> string) list \<times> target list" where
  "expand_entries m dir rel_base [] acc = acc"
| "expand_entries m dir rel_base (ob # obs) (subs, out) =
     (let leaf = leaf_of (ro_key ob) in
      if is_metadata leaf then expand_entries m dir rel_base obs (subs, out)
      else if ro_is_prefix ob
      then expand_entries m dir rel_base obs
             (subs @ [(dir @ leaf @ [slash], rel_base @ [slash] @ display_name m leaf)], out)
      else expand_entries m dir rel_base obs
             (subs, out @ [(ro_key ob, rel_base @ [slash] @ display_name m leaf, plain_size m leaf ob)]))"

definition expand_visit ::
  "'w env \<Rightarrow> vault_keys \<Rightarrow> string \<times> string \<Rightarrow> target list \<Rightarrow> ('w ctx, (string \<times> string) list \<times> target list) sr" where
  "expand_visit E k d out =
     sbind (load_or_default E k (fst d)) (\<lambda>m.
     sbind (onw (be_list (ev_backend E) (fst d))) (\<lambda>raw.
     sret (expand_entries m (fst d) (snd d) raw ([], out))))"

definition last_nonempty :: "string \<Rightarrow> string" where
  "last_nonempty key = (case filter (\<lambda>p. p \<noteq> []) (rev (split_on slash key)) of [] \<Rightarrow> [] | p # _ \<Rightarrow> p)"

fun expand_plain :: "string \<Rightarrow> raw_object list \<Rightarrow> target list" where
  "expand_plain parent [] = []"
| "expand_plain parent (ob # obs) =
     (if ends_with slash (ro_key ob) \<or> is_metadata (last_nonempty (ro_key ob)) then expand_plain parent obs
      else (ro_key ob, case strip_prefix parent (ro_key ob) of Some rel \<Rightarrow> rel | None \<Rightarrow> ro_key ob, ro_size ob)
        # expand_plain parent obs)"

definition expand_folder :: "nat \<Rightarrow> 'w env \<Rightarrow> vault_keys option \<Rightarrow> remote_entry \<Rightarrow> ('w ctx, target list) sr" where
  "expand_folder fuel E keys item =
     (case keys of
        None \<Rightarrow>
          sbind (onw (be_list_recursive (ev_backend E) (re_key item))) (\<lambda>objs.
          sret (expand_plain (parent_prefix (re_key item)) objs))
      | Some k \<Rightarrow>
          dir_walk (expand_visit E k) fuel [(trim_end_matches slash (re_key item) @ [slash], re_name item)] [])"

record info_acc =
  ia_files :: "file_info list"
  ia_folder_count :: nat
  ia_plaintext_total :: u64
  ia_encrypted_total :: u64

definition sub_rel :: "string \<Rightarrow> string \<Rightarrow> string" where
  "sub_rel rel_base name = (if rel_base = [] then name else rel_base @ [slash] @ name)"

fun info_entries ::
  "manifest \<Rightarrow> string \<Rightarrow> string \<Rightarrow> raw_object list \<Rightarrow> (string \<times> string) list \<times> info_acc \<Rightarrow> (string \<times> string) list \<times> info_acc" where
  "info_entries m dir rel_base [] acc = acc"
| "info_entries m dir rel_base (ob # obs) (subs, a) =
     (let leaf = leaf_of (ro_key ob) in
      if is_metadata leaf then info_entries m dir rel_base obs (subs, a)
      else if ro_is_prefix ob
      then info_entries m dir rel_base obs
             (subs @ [(dir @ leaf @ [slash], sub_rel rel_base (display_name m leaf))],
              a\<lparr>ia_folder_count := ia_folder_count a + 1\<rparr>)
      else let plaintext = plain_size m leaf ob in
           info_entries m dir rel_base obs (subs,
             a\<lparr>ia_plaintext_total := saturating_add (ia_plaintext_total a) plaintext,
               ia_encrypted_total := saturating_add (ia_encrypted_total a) (ro_size ob),
               ia_files := ia_files a @ [\<lparr>fi_rel_path = sub_rel rel_base (display_name m leaf),
                 fi_plaintext = plaintext, fi_encrypted = ro_size ob\<rparr>]\<rparr>))"

definition info_visit ::
  "'w env \<Rightarrow> vault_keys \<Rightarrow> string \<times> string \<Rightarrow> info_acc \<Rightarrow> ('w ctx, (string \<times> string) list \<times> info_acc) sr" where
  "info_visit E k d a =
     sbind (load_or_default E k (fst d)) (\<lambda>m.
     sbind (onw (be_list (ev_backend E) (fst d))) (\<lambda>raw.
     sret (info_entries m (fst d) (snd d) raw ([], a))))"

definition collect_folder_info :: "nat \<Rightarrow> 'w env \<Rightarrow> vault_keys option \<Rightarrow> string \<Rightarrow> string \<Rightarrow> ('w ctx, folder_info) sr" where
  "collect_folder_info fuel E keys key name =
     (case keys of
        None \<Rightarrow> serr (Msg ''folder info is only available for encrypted folders'')
      | Some k \<Rightarrow>
          sbind (dir_walk (info_visit E k) fuel [(trim_end_matches slash key @ [slash], [])]
              \<lparr>ia_files = [], ia_folder_count = 0, ia_plaintext_total = 0, ia_encrypted_total = 0\<rparr>) (\<lambda>a.
          sbind (attempt (load E k (parent_prefix key))) (\<lambda>pm.
          sret \<lparr>fin_name = name, fin_file_count = length (ia_files a), fin_folder_count = ia_folder_count a,
                fin_plaintext_total = ia_plaintext_total a, fin_encrypted_total = ia_encrypted_total a,
                fin_computed = (case pm of
                    Inr m \<Rightarrow>
                      (case encrypt_name (ev_lib E) k name of
                         Inr enc \<Rightarrow>
                           (case man_folders m (hash_entry (ev_lib E) enc) of
                              Some fo \<Rightarrow> fo_computed fo
                            | None \<Rightarrow> None)
                       | Inl _ \<Rightarrow> None)
                  | Inl _ \<Rightarrow> None),
                fin_files = sort_key (\<lambda>f. - int (unat (fi_encrypted f))) (ia_files a)\<rparr>)))"

section \<open>Uploading\<close>

datatype local_node = LFile u64 | LDir "(string \<times> local_node) list"

fun walk_dir :: "string list \<Rightarrow> local_node \<Rightarrow> (string list \<times> u64) list" where
  "walk_dir p (LFile n) = [(p, n)]"
| "walk_dir p (LDir es) = concat (map (\<lambda>(n, c). walk_dir (p @ [n]) c) es)"

text \<open>
  The paths dropped on the window, with what the file system holds there (\<open>None\<close>: neither a
  file nor a directory). The result carries the absolute path, the relative key and the size.
\<close>

definition expand_path :: "string list \<times> local_node option \<Rightarrow> (string list \<times> string \<times> u64) list" where
  "expand_path x =
     (case x of
        (path, None) \<Rightarrow> []
      | (path, Some (LFile n)) \<Rightarrow> [(path, if path = [] then [] else last path, n)]
      | (path, Some (LDir es)) \<Rightarrow>
          map (\<lambda>(q, n). (path @ q, path_to_key ((if path = [] then [] else [last path]) @ q), n))
            (walk_dir [] (LDir es)))"

definition expand_paths :: "(string list \<times> local_node option) list \<Rightarrow> (string list \<times> string \<times> u64) list" where
  "expand_paths paths = concat (map expand_path paths)"

fun record_loop :: "'w env \<Rightarrow> vault_keys \<Rightarrow> u64 \<Rightarrow> string \<Rightarrow> string list \<Rightarrow> ('w ctx, unit) sr" where
  "record_loop E k plaintext_size prefix [] = sret ()"
| "record_loop E k plaintext_size prefix (seg # segs) =
     (case encrypt_name (ev_lib E) k seg of
        Inl _ \<Rightarrow> sret ()
      | Inr enc \<Rightarrow>
          let lst = (segs = []) in
          sbind (attempt (edit E k prefix
              (if lst then upsert_file (ev_lib E) enc seg plaintext_size else upsert_folder (ev_lib E) enc seg))) (\<lambda>res.
          if \<not> is_ok res then sret ()
          else record_loop E k plaintext_size
                 (if lst then prefix else prefix @ hash_entry (ev_lib E) enc @ [slash]) segs))"

definition record_upload :: "'w env \<Rightarrow> vault_keys option \<Rightarrow> string \<Rightarrow> string \<Rightarrow> u64 \<Rightarrow> ('w ctx, unit) sr" where
  "record_upload E keys dest_prefix rel plaintext_size =
     (case keys of
        None \<Rightarrow> sret ()
      | Some k \<Rightarrow> record_loop E k plaintext_size dest_prefix (filter (\<lambda>x. x \<noteq> []) (split_on slash rel)))"

text \<open>The task of one file of \<open>run_upload\<close>, once it has its permit.\<close>

definition upload_task ::
  "'w env \<Rightarrow> vault_keys option \<Rightarrow> settings \<Rightarrow> u64 option \<Rightarrow> nat \<Rightarrow> 'w faults \<Rightarrow> bool \<Rightarrow> local_file \<Rightarrow> string \<Rightarrow> string \<Rightarrow> u64 \<Rightarrow>
     'w ctx \<Rightarrow> 'w ctx \<times> outcome" where
  "upload_task E keys st limiter reconnect_delay F cancelled f dest_prefix rel sz s =
     (if cancelled then (s, Skipped)
      else case upload_one E keys st limiter reconnect_delay F f dest_prefix rel s of
        (s', Inr u) \<Rightarrow> (fst (record_upload E keys dest_prefix rel sz s'), Succeeded)
      | (s', Inl e) \<Rightarrow> (s', Failed e))"

definition meter :: "settings \<Rightarrow> bool \<Rightarrow> u64 \<Rightarrow> u64" where
  "meter st encrypted plain =
     (if encrypted \<and> multipart_threshold_mib st * 1024 * 1024 < plain then wire_len plain else plain)"

definition upload_roster :: "settings \<Rightarrow> bool \<Rightarrow> (u64 \<times> string list \<times> string \<times> u64) list \<Rightarrow> file_progress list" where
  "upload_roster st encrypted items =
     map (\<lambda>(i, path, rel, sz). \<lparr>fp_id = i, fp_name = rel, fp_kind = transfer_kind.Upload, fp_done = 0,
       fp_total = unat (meter st encrypted sz), fp_speed_bps = 0\<rparr>) items"

fun assign_ids :: "hub \<Rightarrow> 'a list \<Rightarrow> hub \<times> (u64 \<times> 'a) list" where
  "assign_ids h [] = (h, [])"
| "assign_ids h (x # xs) =
     (case next_id h of (h1, i) \<Rightarrow> (case assign_ids h1 xs of (h2, ys) \<Rightarrow> (h2, (i, x) # ys)))"

text \<open>The part of \<open>run_upload\<close> before the tasks are spawned.\<close>

definition run_upload ::
  "nat \<Rightarrow> settings \<Rightarrow> bool \<Rightarrow> (string list \<times> local_node option) list \<Rightarrow> hub \<Rightarrow> hub \<times> (u64 \<times> string list \<times> string \<times> u64) list" where
  "run_upload now st encrypted paths h =
     (let files = expand_paths paths in
      if files = [] then (send (Toast ''Nothing to upload'') h, [])
      else case assign_ids h files of
        (h1, items) \<Rightarrow> (admit_roster now st (upload_roster st encrypted items) h1, items))"

section \<open>Downloading\<close>

definition download_roster :: "(u64 \<times> target) list \<Rightarrow> file_progress list" where
  "download_roster items =
     map (\<lambda>(i, key, rel, sz). \<lparr>fp_id = i, fp_name = rel, fp_kind = transfer_kind.Download, fp_done = 0,
       fp_total = unat sz, fp_speed_bps = 0\<rparr>) items"

section \<open>Saturating totals\<close>

definition sat :: "nat \<Rightarrow> nat" where
  "sat n = min n (2 ^ 64 - 1)"

lemma unat_saturating_add_sat: "unat (saturating_add a b :: u64) = sat (unat a + unat b)"
  by (simp add: unat_saturating_add sat_def)

lemma sat_sat [simp]: "sat (sat a + b) = sat (a + b)" "sat (a + sat b) = sat (a + b)" "sat (sat a) = sat a"
  by (simp_all add: sat_def)

lemma unat_sat: "unat (x :: u64) = sat (unat x)"
  using unat_bound [of x] by (simp add: sat_def)

definition counted :: "raw_object list \<Rightarrow> raw_object list" where
  "counted = filter (\<lambda>ob. \<not> is_metadata (leaf_of (ro_key ob)))"

lemma size_loop_sums:
  "size_loop e (p, c) obs = (p', c') \<Longrightarrow>
     unat p' = sat (unat p + sum_list (map (\<lambda>ob. unat (if e then plaintext_of_ciphertext (ro_size ob) else ro_size ob)) (counted obs))) \<and>
     unat c' = sat (unat c + sum_list (map (\<lambda>ob. unat (ro_size ob)) (counted obs)))"
proof (induction obs arbitrary: p c)
  case Nil
  then show ?case by (simp add: counted_def unat_sat [symmetric])
next
  case (Cons ob obs)
  show ?case
  proof (cases "is_metadata (leaf_of (ro_key ob))")
    case True
    with Cons show ?thesis by (simp add: counted_def)
  next
    case False
    with Cons.prems have "size_loop e (saturating_add p (if e then plaintext_of_ciphertext (ro_size ob) else ro_size ob),
        saturating_add c (ro_size ob)) obs = (p', c')" by simp
    from Cons.IH [OF this] False show ?thesis
      by (simp add: counted_def unat_saturating_add_sat add.assoc)
  qed
qed

lemma sum_list_sizes:
  assumes "\<forall>ob \<in> set (counted obs). ro_size ob = encrypted_size (pl ob) \<and> unat (pl ob) \<le> max_plain"
  shows "map (\<lambda>ob. unat (plaintext_of_ciphertext (ro_size ob))) (counted obs) = map (\<lambda>ob. unat (pl ob)) (counted obs)"
  using assms by (auto simp: plaintext_of_encrypted)

text \<open>
  Calculating a folder's size adds up what is there: the encrypted total is the sum of the sizes
  of all objects under the folder but the metadata, capped at the largest 64-bit value; without
  encryption the other total is the same sum; with encryption, when every such object is
  the encryption of a file of \<open>pl ob\<close> bytes, it is the sum of those plaintext sizes.
\<close>

theorem calculate_size_totals:
  assumes "run_calculate_size E keys now_ms key name encrypted s = (s', Inr (plaintext, enc_total))"
    and "be_list_recursive (ev_backend E) key (cx_world s) = (w', Inr objs)"
    and "keys \<noteq> None \<longrightarrow> (\<forall>ob \<in> set (counted objs). ro_size ob = encrypted_size (pl ob) \<and> unat (pl ob) \<le> max_plain)"
  shows "unat enc_total = sat (sum_list (map (\<lambda>ob. unat (ro_size ob)) (counted objs))) \<and>
    unat plaintext = sat (sum_list (map (\<lambda>ob. unat (if keys \<noteq> None then pl ob else ro_size ob)) (counted objs)))"
proof -
  obtain p c where pc: "size_loop (keys \<noteq> None) (0, 0) objs = (p, c)" by fastforce
  have "plaintext = p \<and> enc_total = c"
    using assms(1,2) pc
    by (auto simp: run_calculate_size_def sbind_apply onw_apply sret_def Let_def split: prod.splits sum.splits)
  then show ?thesis using size_loop_sums [OF pc] sum_list_sizes [of objs pl] assms(3)
    by (cases keys) auto
qed

theorem calculate_size_totals_witness:
  "\<exists>s' p c w' objs. run_calculate_size \<lparr>ev_lib = ref_lib, ev_json = ref_json, ev_backend = ref_backend, ev_rnd = \<lambda>_. ref_prefix\<rparr>
      None 0 ''a/'' ''a'' False
      \<lparr>cx_store = ManifestStore_new 10000, cx_world = sample_bucket, cx_now = 0, cx_rng = 0\<rparr> = (s', Inr (p, c)) \<and>
    be_list_recursive ref_backend ''a/'' sample_bucket = (w', Inr objs) \<and>
    unat c = sat (sum_list (map (\<lambda>ob. unat (ro_size ob)) (counted objs)))"
proof -
  let ?E = "\<lparr>ev_lib = ref_lib, ev_json = ref_json, ev_backend = ref_backend, ev_rnd = \<lambda>_. ref_prefix\<rparr>"
  let ?s = "\<lparr>cx_store = ManifestStore_new 10000, cx_world = sample_bucket, cx_now = 0, cx_rng = 0\<rparr>"
  obtain w' out where l: "be_list_recursive ref_backend ''a/'' sample_bucket = (w', Inr out)"
    by (auto simp: ref_backend_def s3_backend_def list_inner_def mem_client_def mem_list_def Let_def sctx_apply)
  obtain p c where pc: "size_loop False (0, 0) out = (p, c)" by fastforce
  have r: "run_calculate_size ?E None 0 ''a/'' ''a'' False ?s = (?s\<lparr>cx_world := w'\<rparr>, Inr (p, c))"
    using l pc by (simp add: run_calculate_size_def sbind_apply onw_apply sret_def)
  have "be_list_recursive (ev_backend ?E) ''a/'' (cx_world ?s) = (w', Inr out)" using l by simp
  from calculate_size_totals [OF r this] l r show ?thesis by blast
qed

section \<open>Walking a finite tree\<close>

definition subdirs :: "(string \<Rightarrow> raw_object list) \<Rightarrow> string \<Rightarrow> string list" where
  "subdirs ls dir = map (\<lambda>ob. dir @ leaf_of (ro_key ob) @ [slash])
     (filter (\<lambda>ob. ro_is_prefix ob \<and> \<not> is_metadata (leaf_of (ro_key ob))) (ls dir))"

text \<open>\<open>dir_count ls dir n\<close>: the tree below \<open>dir\<close> is finite and has \<open>n\<close> directories, \<open>dir\<close> included.\<close>

inductive dir_count :: "(string \<Rightarrow> raw_object list) \<Rightarrow> string \<Rightarrow> nat \<Rightarrow> bool" for ls where
  dir_count_node: "list_all2 (dir_count ls) (subdirs ls dir) ns \<Longrightarrow> dir_count ls dir (Suc (sum_list ns))"

inductive_cases dir_count_elim: "dir_count ls dir n"

lemma dir_walk_returns:
  assumes step: "\<And>d acc s. P s \<Longrightarrow> Q acc \<Longrightarrow> \<exists>s' subs acc'. visit d acc s = (s', Inr (subs, acc')) \<and> P s' \<and> Q acc' \<and>
      map fst subs = subdirs ls (fst d) \<and> f acc' = f acc + length subs"
  shows "list_all2 (dir_count ls) (map fst stack) ns \<Longrightarrow> sum_list ns \<le> fuel \<Longrightarrow> P s \<Longrightarrow> Q acc \<Longrightarrow>
    \<exists>s' acc'. dir_walk visit fuel stack acc s = (s', Inr acc') \<and> P s' \<and> Q acc' \<and> f acc' + length stack = f acc + sum_list ns"
proof (induction fuel arbitrary: stack ns acc s)
  case 0
  have "stack = []"
  proof (rule ccontr)
    assume "stack \<noteq> []"
    then obtain d st where "stack = d # st" by (cases stack) auto
    with 0(1) obtain n ns' where "ns = n # ns'" "dir_count ls (fst d) n" by (auto simp: list_all2_Cons1)
    then show False using 0(2) by (auto elim: dir_count_elim)
  qed
  with 0 show ?case by (simp add: sret_def)
next
  case (Suc fuel)
  show ?case
  proof (cases stack)
    case Nil
    with Suc show ?thesis by (simp add: sret_def)
  next
    case (Cons d st)
    from Suc.prems(1) Cons obtain n ns' where ns: "ns = n # ns'" and d: "dir_count ls (fst d) n"
      and st: "list_all2 (dir_count ls) (map fst st) ns'" by (auto simp: list_all2_Cons1)
    from d obtain ms where ms: "list_all2 (dir_count ls) (subdirs ls (fst d)) ms" "n = Suc (sum_list ms)"
      by (auto elim: dir_count_elim)
    from step [OF Suc.prems(3,4), of d] obtain s1 subs acc1 where
      v: "visit d acc s = (s1, Inr (subs, acc1))" "P s1" "Q acc1" "map fst subs = subdirs ls (fst d)" "f acc1 = f acc + length subs"
      by blast
    have "list_all2 (dir_count ls) (map fst (rev subs @ st)) (rev ms @ ns')"
      using ms(1) st v(4) by (simp add: rev_map [symmetric] list_all2_appendI list_all2_rev)
    moreover have "sum_list (rev ms @ ns') \<le> fuel" using Suc.prems(2) ns ms(2) by (simp add: sum_list_rev)
    ultimately obtain s' acc' where "dir_walk visit fuel (rev subs @ st) acc1 s1 = (s', Inr acc')" "P s'" "Q acc'"
      "f acc' + length (rev subs @ st) = f acc1 + sum_list (rev ms @ ns')"
      using Suc.IH v(2,3) by blast
    then show ?thesis using v Cons ns ms(2) by (auto simp: sbind_apply sum_list_rev)
  qed
qed

text \<open>
  A backend on which reading succeeds: listing a directory yields \<open>ls dir\<close>; fetching a manifest
  may fail, but leaves the remote side in order.
\<close>

definition readable :: "('w \<Rightarrow> bool) \<Rightarrow> 'w backend \<Rightarrow> (string \<Rightarrow> raw_object list) \<Rightarrow> bool" where
  "readable ok B ls \<longleftrightarrow>
     (\<forall>w dir. ok w \<longrightarrow> (\<exists>w'. be_list B dir w = (w', Inr (ls dir)) \<and> ok w')) \<and>
     (\<forall>w k w' r. ok w \<longrightarrow> be_get B k w = (w', r) \<longrightarrow> ok w')"

lemma load_world:
  assumes "readable ok (ev_backend E) ls" "ok (cx_world s)"
  shows "ok (cx_world (fst (load E k dir s)))"
proof -
  obtain w r where g: "be_get (ev_backend E) (manifest_object_key dir) (cx_world s) = (w, r)" by fastforce
  then have "ok w" using assms unfolding readable_def by blast
  with assms(2) g show ?thesis
    by (auto simp: load_def sbind_apply onw_apply slift_def split: option.splits sum.splits prod.splits)
qed

lemma visit_reads:
  assumes "readable ok (ev_backend E) ls" "ok (cx_world s)"
  shows "\<exists>s' m. sbind (load_or_default E k dir) (\<lambda>m. sbind (onw (be_list (ev_backend E) dir)) (\<lambda>raw. sret (g m raw))) s =
    (s', Inr (g m (ls dir))) \<and> ok (cx_world s')"
proof -
  let ?s1 = "fst (load E k dir s)"
  let ?m = "case snd (load E k dir s) of Inr m \<Rightarrow> m | Inl _ \<Rightarrow> Manifest_default"
  have ok1: "ok (cx_world ?s1)" by (rule load_world [OF assms])
  have "load_or_default E k dir s = (?s1, Inr ?m)"
    by (simp add: load_or_default_def sbind_apply attempt_apply sret_def)
  moreover obtain w' where "be_list (ev_backend E) dir (cx_world ?s1) = (w', Inr (ls dir))" "ok w'"
    using assms(1) ok1 unfolding readable_def by blast
  ultimately show ?thesis
    by (intro exI [of _ "?s1\<lparr>cx_world := w'\<rparr>"] exI [of _ ?m]) (simp add: sbind_apply onw_apply sret_def)
qed

definition info_ok :: "info_acc \<Rightarrow> bool" where
  "info_ok a \<longleftrightarrow>
     unat (ia_plaintext_total a) = sat (sum_list (map (\<lambda>f. unat (fi_plaintext f)) (ia_files a))) \<and>
     unat (ia_encrypted_total a) = sat (sum_list (map (\<lambda>f. unat (fi_encrypted f)) (ia_files a)))"

lemma info_entries_spec:
  assumes "info_entries m dir rel obs (subs, a) = (subs', a')" "info_ok a"
  shows "info_ok a' \<and> map fst subs' = map fst subs @ subdirs (\<lambda>_. obs) dir \<and>
    ia_folder_count a' + length subs = ia_folder_count a + length subs'"
  using assms
proof (induction obs arbitrary: subs a)
  case (Cons ob obs)
  show ?case
  proof (cases "is_metadata (leaf_of (ro_key ob))")
    case True
    with Cons show ?thesis by (simp add: subdirs_def)
  next
    case meta: False
    show ?thesis
    proof (cases "ro_is_prefix ob")
      case True
      let ?a = "a\<lparr>ia_folder_count := ia_folder_count a + 1\<rparr>"
      have "info_ok ?a" using Cons.prems(2) by (simp add: info_ok_def)
      with Cons.IH [of "subs @ [(dir @ leaf_of (ro_key ob) @ [slash], sub_rel rel (display_name m (leaf_of (ro_key ob))))]" ?a]
        Cons.prems(1) meta True
      show ?thesis by (auto simp: subdirs_def Let_def)
    next
      case False
      define b where "b = a\<lparr>ia_plaintext_total := saturating_add (ia_plaintext_total a) (plain_size m (leaf_of (ro_key ob)) ob),
               ia_encrypted_total := saturating_add (ia_encrypted_total a) (ro_size ob),
               ia_files := ia_files a @ [\<lparr>fi_rel_path = sub_rel rel (display_name m (leaf_of (ro_key ob))),
                 fi_plaintext = plain_size m (leaf_of (ro_key ob)) ob, fi_encrypted = ro_size ob\<rparr>]\<rparr>"
      have "info_ok b" using Cons.prems(2) by (simp add: b_def info_ok_def unat_saturating_add_sat)
      moreover have "ia_folder_count b = ia_folder_count a" by (simp add: b_def)
      moreover have "info_entries m dir rel obs (subs, b) = (subs', a')"
        using Cons.prems(1) meta False by (simp add: b_def Let_def)
      ultimately show ?thesis using Cons.IH [of subs b] meta False by (simp add: subdirs_def)
    qed
  qed
qed (simp add: subdirs_def)

text \<open>
  The folder breakdown terminates and adds up: on every finite directory tree the walk visits
  each directory once and returns; the number of folders is the number of directories below the
  root, the file count is the number of rows, both totals are the (capped) sums of the rows'
  sizes, and the rows are sorted by decreasing encrypted size.
\<close>

theorem folder_info_adds_up:
  assumes "readable ok (ev_backend E) ls" "ok (cx_world s)"
    and "dir_count ls (trim_end_matches slash key @ [slash]) n" "n \<le> fuel"
  shows "\<exists>s' info. collect_folder_info fuel E (Some k) key name s = (s', Inr info) \<and>
    fin_folder_count info + 1 = n \<and> fin_file_count info = length (fin_files info) \<and>
    unat (fin_plaintext_total info) = sat (sum_list (map (\<lambda>f. unat (fi_plaintext f)) (fin_files info))) \<and>
    unat (fin_encrypted_total info) = sat (sum_list (map (\<lambda>f. unat (fi_encrypted f)) (fin_files info))) \<and>
    sorted (map (\<lambda>f. - int (unat (fi_encrypted f))) (fin_files info))"
proof -
  let ?root = "trim_end_matches slash key @ [slash]"
  let ?a0 = "\<lparr>ia_files = [], ia_folder_count = 0, ia_plaintext_total = 0, ia_encrypted_total = 0\<rparr> :: info_acc"
  have step: "\<exists>s' subs acc'. info_visit E k d acc t = (s', Inr (subs, acc')) \<and> ok (cx_world s') \<and> info_ok acc' \<and>
      map fst subs = subdirs ls (fst d) \<and> ia_folder_count acc' = ia_folder_count acc + length subs"
    if okt: "ok (cx_world t)" and acc: "info_ok acc" for d acc t
  proof -
    obtain t' m where v: "info_visit E k d acc t = (t', Inr (info_entries m (fst d) (snd d) (ls (fst d)) ([], acc)))"
      "ok (cx_world t')"
      using visit_reads [OF assms(1) okt, of k "fst d" "\<lambda>m raw. info_entries m (fst d) (snd d) raw ([], acc)"]
      unfolding info_visit_def by blast
    obtain subs acc' where e: "info_entries m (fst d) (snd d) (ls (fst d)) ([], acc) = (subs, acc')" by fastforce
    from info_entries_spec [OF e acc] v e show ?thesis by (auto simp: subdirs_def)
  qed
  have "\<exists>t a. dir_walk (info_visit E k) fuel [(?root, [])] ?a0 s = (t, Inr a) \<and> ok (cx_world t) \<and> info_ok a \<and>
      ia_folder_count a + length [(?root, [] :: string)] = ia_folder_count ?a0 + sum_list [n]"
    by (rule dir_walk_returns [where P = "\<lambda>t. ok (cx_world t)" and Q = info_ok, OF step])
      (use assms in \<open>simp_all add: info_ok_def sat_def\<close>)
  then obtain t a where w: "dir_walk (info_visit E k) fuel [(?root, [])] ?a0 s = (t, Inr a)" "info_ok a"
    "ia_folder_count a + 1 = n" by auto
  let ?fs = "sort_key (\<lambda>f. - int (unat (fi_encrypted f))) (ia_files a)"
  have m: "sum_list (map g ?fs) = sum_list (map g (ia_files a))" for g :: "file_info \<Rightarrow> nat"
    by (simp only: sum_mset_sum_list [symmetric] mset_map mset_sort)
  show ?thesis using w m
    by (simp add: collect_folder_info_def sbind_apply attempt_apply sret_def info_ok_def)
qed

definition sample_ls :: "string \<Rightarrow> raw_object list" where
  "sample_ls dir =
     (if dir = ''D/''
      then [\<lparr>ro_key = ''D/x'', ro_size = 45, ro_modified = None, ro_is_prefix = False\<rparr>,
            \<lparr>ro_key = ''D/S/'', ro_size = 0, ro_modified = None, ro_is_prefix = True\<rparr>]
      else [])"

definition sample_env :: "mem env" where
  "sample_env = \<lparr>ev_lib = ref_lib, ev_json = ref_json, ev_backend = ref_backend, ev_rnd = \<lambda>_. ref_prefix\<rparr>"

definition sample_ctx :: "mem ctx" where
  "sample_ctx = \<lparr>cx_store = ManifestStore_new 10000, cx_world = \<lparr>mem_objs = [], mem_parts = []\<rparr>, cx_now = 0, cx_rng = 0\<rparr>"

lemma sample_leaves: "leaf_of ''D/x'' = ''x''" "leaf_of ''D/S/'' = ''S''" "trim_end_matches slash ''D'' = ''D''"
  by code_simp+

lemma sample_dir_count: "dir_count sample_ls (''D/'') 2"
proof -
  have m: "\<not> is_metadata ''S''" "\<not> is_metadata ''x''" by code_simp+
  have a: "subdirs sample_ls (''D/'') = [''D/S/'']"
    unfolding subdirs_def sample_ls_def using sample_leaves m by simp
  have b: "subdirs sample_ls (''D/S/'') = []"
    by (simp add: subdirs_def sample_ls_def)
  have "dir_count sample_ls (''D/S/'') (Suc (sum_list []))"
    by (rule dir_count_node) (simp only: b list_all2_Nil)
  then have "dir_count sample_ls (''D/'') (Suc (sum_list [Suc (sum_list [])]))"
    by (intro dir_count_node) (simp add: a)
  then show ?thesis by (simp add: numeral_2_eq_2)
qed

theorem folder_info_adds_up_witness:
  "\<exists>s' info. collect_folder_info 2 (sample_env\<lparr>ev_backend := ref_backend\<lparr>be_list := \<lambda>dir w. (w, Inr (sample_ls dir))\<rparr>\<rparr>)
      (Some ref_keys) ''D'' ''D'' sample_ctx = (s', Inr info) \<and>
    fin_folder_count info + 1 = 2 \<and> fin_file_count info = length (fin_files info) \<and>
    unat (fin_plaintext_total info) = sat (sum_list (map (\<lambda>f. unat (fi_plaintext f)) (fin_files info))) \<and>
    unat (fin_encrypted_total info) = sat (sum_list (map (\<lambda>f. unat (fi_encrypted f)) (fin_files info))) \<and>
    sorted (map (\<lambda>f. - int (unat (fi_encrypted f))) (fin_files info))"
  by (rule folder_info_adds_up [where ok = "\<lambda>_. True" and ls = sample_ls])
    (simp_all add: readable_def sample_dir_count sample_leaves)

section \<open>Recording uploads\<close>

lemma load_effect:
  assumes "load E k dir s = (s1, Inr m)"
  shows "\<exists>d. ms_get (cx_store s1) dir = Some d \<and> ds_manifest d = m"
    and "dir' \<noteq> dir \<Longrightarrow> ms_get (cx_store s1) dir' = ms_get (cx_store s) dir'"
    and "ms_get (cx_store s) dir \<noteq> None \<Longrightarrow> s1 = s"
proof -
  show "\<exists>d. ms_get (cx_store s1) dir = Some d \<and> ds_manifest d = m"
    and "dir' \<noteq> dir \<Longrightarrow> ms_get (cx_store s1) dir' = ms_get (cx_store s) dir'"
    and "ms_get (cx_store s) dir \<noteq> None \<Longrightarrow> s1 = s"
    using assms
    by (auto simp: load_def load_insert_def sbind_apply onw_apply slift_def buffer.look_put
        split: option.splits sum.splits prod.splits)
qed

lemma edit_effect:
  assumes "load E k dir s = (s1, Inr m)" "edit E k dir f s = (s2, r)"
  shows "r = Inr ()" "\<exists>d. ms_get (cx_store s2) dir = Some d \<and> ds_manifest d = f m \<and> ds_dirty d"
    and "dir' \<noteq> dir \<Longrightarrow> ms_get (cx_store s2) dir' = ms_get (cx_store s) dir'" and "cx_world s2 = cx_world s1"
proof -
  obtain d where d: "ms_get (cx_store s1) dir = Some d" "ds_manifest d = m" using load_effect(1) [OF assms(1)] by blast
  have e: "r = Inr ()" "s2 = s1\<lparr>cx_store := edit_dir dir f (cx_now s1) (cx_store s1)\<rparr>"
    using assms by (auto simp: edit_def sbind_apply)
  then show "r = Inr ()" "cx_world s2 = cx_world s1" by simp_all
  show "\<exists>d. ms_get (cx_store s2) dir = Some d \<and> ds_manifest d = f m \<and> ds_dirty d"
    using d by (simp add: e(2) edit_dir_def buffer.look_put)
  show "dir' \<noteq> dir \<Longrightarrow> ms_get (cx_store s2) dir' = ms_get (cx_store s) dir'"
    using d load_effect(2) [OF assms(1), of dir'] by (simp add: e(2) edit_dir_def buffer.look_put)
qed

text \<open>A manifest that cannot be loaded leaves the buffer as it was.\<close>

lemma load_failed: "load E k dir s = (s1, Inl e) \<Longrightarrow> cx_store s1 = cx_store s"
  by (auto simp: load_def load_insert_def sbind_apply onw_apply slift_def split: option.splits sum.splits prod.splits)

lemma edit_failed: "load E k dir s = (s1, Inl e) \<Longrightarrow> edit E k dir f s = (s1, Inl e)"
  by (simp add: edit_def sbind_apply)

text \<open>The directory of the \<open>i\<close>-th segment of an uploaded path.\<close>

definition dir_at :: "string \<Rightarrow> string list \<Rightarrow> nat \<Rightarrow> string" where
  "dir_at prefix hs i = prefix @ concat (map (\<lambda>h. h @ [slash]) (take i hs))"

definition recorded :: "manifest_store \<Rightarrow> string \<Rightarrow> string list \<Rightarrow> string list \<Rightarrow> u64 \<Rightarrow> nat \<Rightarrow> bool" where
  "recorded st prefix segs hs sz i \<longleftrightarrow>
     (\<exists>d. ms_get st (dir_at prefix hs i) = Some d \<and> ds_dirty d \<and>
        (if Suc i = length segs
         then man_files (ds_manifest d) (hs ! i) = Some \<lparr>fe_name = segs ! i, fe_size = sz, fe_extra = Map.empty\<rparr>
         else \<exists>fo. man_folders (ds_manifest d) (hs ! i) = Some fo \<and> fo_name fo = segs ! i))"

lemma dir_at_simps [simp]:
  "dir_at prefix hs 0 = prefix" "dir_at prefix (h # hs) (Suc i) = dir_at (prefix @ h @ [slash]) hs i"
  by (simp_all add: dir_at_def)

lemma recorded_Suc:
  "recorded st prefix (seg # segs) (h # hs) sz (Suc i) = recorded st (prefix @ h @ [slash]) segs hs sz i"
  by (simp only: recorded_def dir_at_simps nth_Cons_Suc length_Cons nat.inject)

lemma upsert_folder_name: "\<exists>fo. man_folders (upsert_folder L enc name m) (hash_entry L enc) = Some fo \<and> fo_name fo = name"
  by (auto simp: upsert_folder_def Let_def manifest_prims split: option.splits)

text \<open>How far the walk over the directories of a path came: the first \<open>n\<close> are recorded, no other buffer has
  changed, and unless these are all the manifest of the next one could not be loaded.\<close>

definition recorded_upto ::
  "'w env \<Rightarrow> vault_keys \<Rightarrow> manifest_store \<Rightarrow> 'w ctx \<Rightarrow> string \<Rightarrow> string list \<Rightarrow> string list \<Rightarrow> u64 \<Rightarrow> nat \<Rightarrow> bool" where
  "recorded_upto E k st s' prefix segs hs sz n \<longleftrightarrow> n \<le> length segs \<and>
     (\<forall>i < n. recorded (cx_store s') prefix segs hs sz i) \<and>
     (\<forall>dir. dir \<notin> dir_at prefix hs ` {..<n} \<longrightarrow> ms_get (cx_store s') dir = ms_get st dir) \<and>
     (n < length segs \<longrightarrow> (\<exists>t e. load E k (dir_at prefix hs n) t = (s', Inl e)))"

lemma dir_at_longer: "length prefix \<le> length (dir_at prefix hs i)"
  by (simp add: dir_at_def)

lemma record_loop_spec:
  "list_all2 (\<lambda>seg h. on_disk_segment (ev_lib E) k seg = Inr h) segs hs \<Longrightarrow>
    \<exists>s' n. record_loop E k sz prefix segs s = (s', Inr ()) \<and> recorded_upto E k (cx_store s) s' prefix segs hs sz n"
proof (induction segs arbitrary: hs prefix s)
  case Nil
  then show ?case by (simp add: sret_def recorded_upto_def)
next
  case (Cons seg segs)
  from Cons.prems obtain h hs' where hs: "hs = h # hs'" "on_disk_segment (ev_lib E) k seg = Inr h"
    and rest: "list_all2 (\<lambda>seg h. on_disk_segment (ev_lib E) k seg = Inr h) segs hs'" by (auto simp: list_all2_Cons1)
  obtain enc where enc: "encrypt_name (ev_lib E) k seg = Inr enc" and h: "h = hash_entry (ev_lib E) enc"
    using hs(2) by (auto simp: on_disk_segment_def rbind_eq_Inr)
  let ?f = "if segs = [] then upsert_file (ev_lib E) enc seg sz else upsert_folder (ev_lib E) enc seg"
  obtain s1 r where l: "load E k prefix s = (s1, r)" by fastforce
  show ?case
  proof (cases r)
    case (Inl e)
    have "record_loop E k sz prefix (seg # segs) s = (s1, Inr ())"
      using edit_failed [OF l [unfolded Inl], of ?f] by (simp add: enc Let_def sbind_apply attempt_apply sret_def)
    moreover have "recorded_upto E k (cx_store s) s1 prefix (seg # segs) hs sz 0"
      using l Inl load_failed [of E k prefix s s1 e] by (auto simp: recorded_upto_def)
    ultimately show ?thesis by blast
  next
    case (Inr m)
    obtain s2 q where e: "edit E k prefix ?f s = (s2, q)" by fastforce
    note E = edit_effect [OF l [unfolded Inr] e]
    obtain d where d: "ms_get (cx_store s2) prefix = Some d" "ds_manifest d = ?f m" "ds_dirty d" using E(2) by blast
    show ?thesis
    proof (cases "segs = []")
      case True
      have "record_loop E k sz prefix (seg # segs) s = (s2, Inr ())"
        using e E(1) True by (simp add: enc sbind_apply attempt_apply sret_def)
      moreover have "recorded (cx_store s2) prefix (seg # segs) hs sz 0"
        using d True by (auto simp: recorded_def hs(1) h upsert_file_def manifest_prims)
      then have "recorded_upto E k (cx_store s) s2 prefix (seg # segs) hs sz 1"
        using E(3) True by (auto simp: recorded_upto_def)
      ultimately show ?thesis by blast
    next
      case False
      let ?p = "prefix @ h @ [slash]"
      have r0: "record_loop E k sz prefix (seg # segs) s = record_loop E k sz ?p segs s2"
        using e E(1) False by (simp add: enc h sbind_apply attempt_apply)
      from Cons.IH [OF rest, of ?p s2] obtain s' n where
        s': "record_loop E k sz ?p segs s2 = (s', Inr ())" and R: "recorded_upto E k (cx_store s2) s' ?p segs hs' sz n" by blast
      have fr: "ms_get (cx_store s') dir = ms_get (cx_store s2) dir" if "dir \<notin> dir_at ?p hs' ` {..<n}" for dir
        using R that by (simp add: recorded_upto_def)
      have "prefix \<noteq> dir_at ?p hs' i" for i using dir_at_longer [of ?p hs' i] by auto
      then have "ms_get (cx_store s') prefix = Some d" using fr [of prefix] d(1) by auto
      then have "recorded (cx_store s') prefix (seg # segs) hs sz 0"
        using d False upsert_folder_name [of "ev_lib E" enc seg m] by (auto simp: recorded_def hs(1) h)
      moreover have "recorded (cx_store s') prefix (seg # segs) hs sz (Suc i)" if "i < n" for i
        using R that by (simp only: recorded_Suc hs(1) recorded_upto_def)
      ultimately have 1: "\<forall>i < Suc n. recorded (cx_store s') prefix (seg # segs) hs sz i"
        by (metis less_Suc_eq_0_disj)
      have "{..<Suc n} = insert 0 (Suc ` {..<n})" by (rule lessThan_Suc_eq_insert_0)
      then have i: "dir_at prefix hs ` {..<Suc n} = insert prefix (dir_at ?p hs' ` {..<n})" by (simp add: hs(1) image_image)
      have 2: "ms_get (cx_store s') dir = ms_get (cx_store s) dir" if "dir \<notin> dir_at prefix hs ` {..<Suc n}" for dir
        using that fr [of dir] E(3) [of dir] by (simp add: i)
      have "recorded_upto E k (cx_store s) s' prefix (seg # segs) hs sz (Suc n)"
        using 1 2 R by (auto simp: recorded_upto_def hs(1))
      with r0 s' show ?thesis by auto
    qed
  qed
qed

lemma on_disk_path_join:
  assumes "list_all2 (\<lambda>seg h. on_disk_segment L k seg = Inr h) segs hs" "segs \<noteq> []"
    "\<forall>seg \<in> set segs. seg \<noteq> [] \<and> slash \<notin> set seg"
  shows "on_disk_path L k (join_with slash segs) = Inr (join_with slash hs)"
proof -
  have "map_parts (on_disk_segment L k) segs = Inr hs"
    using assms(1,3) by (induction segs hs rule: list_all2_induct) auto
  moreover have "split_on slash (join_with slash segs) = segs" using assms(2,3) by (simp add: split_join)
  ultimately show ?thesis by (simp add: on_disk_path_def)
qed

lemma join_dir_at: "hs \<noteq> [] \<Longrightarrow> prefix @ join_with slash hs = dir_at prefix hs (length hs - 1) @ last hs"
proof (induction hs arbitrary: prefix)
  case (Cons h hs)
  show ?case
  proof (cases "hs = []")
    case False
    then have "dir_at prefix (h # hs) (length (h # hs) - 1) = dir_at (prefix @ h @ [slash]) hs (length hs - 1)"
      by (cases hs) auto
    with Cons.IH [OF False, of "prefix @ h @ [slash]"] False show ?thesis by (simp add: join_with_Cons)
  qed (simp add: dir_at_def)
qed simp

text \<open>
  C25. An uploaded file is recorded where it was stored, as far as the manifests can be loaded. For a
  relative path with segments \<open>segs\<close> the object goes to the on-disk names joined under the
  destination; \<open>record_upload\<close> enters every folder on the way in the manifest of its parent and the file's
  name and plaintext size in the manifest of exactly the directory that holds the object, under the
  object's own on-disk name, and marks each of them for writing. At the first directory whose manifest
  cannot be fetched or decrypted it stops, without an error and with no other manifest changed, so
  the upload then succeeds with the file unrecorded.
\<close>

theorem upload_recorded_where_stored:
  assumes "segs \<noteq> []" "\<forall>seg \<in> set segs. seg \<noteq> [] \<and> slash \<notin> set seg"
    and "list_all2 (\<lambda>seg h. on_disk_segment (ev_lib E) k seg = Inr h) segs hs"
  shows "upload_key (ev_lib E) (Some k) dest (join_with slash segs) = Inr (dir_at dest hs (length hs - 1) @ last hs) \<and>
    (\<exists>s' n. record_upload E (Some k) dest (join_with slash segs) sz s = (s', Inr ()) \<and> n \<le> length segs \<and>
      (\<forall>i < n. recorded (cx_store s') dest segs hs sz i) \<and>
      (\<forall>dir. dir \<notin> dir_at dest hs ` {..<n} \<longrightarrow> ms_get (cx_store s') dir = ms_get (cx_store s) dir) \<and>
      (n < length segs \<longrightarrow> (\<exists>t e. load E k (dir_at dest hs n) t = (s', Inl e))))"
proof -
  have "hs \<noteq> []" using assms(1,3) by auto
  then have "upload_key (ev_lib E) (Some k) dest (join_with slash segs) = Inr (dir_at dest hs (length hs - 1) @ last hs)"
    using on_disk_path_join [OF assms(3,1,2)] by (simp add: upload_key_def join_dir_at)
  moreover have "filter (\<lambda>x. x \<noteq> []) (split_on slash (join_with slash segs)) = segs"
    using assms(1,2) by (simp add: split_join filter_id_conv)
  ultimately show ?thesis
    using record_loop_spec [OF assms(3), of sz dest s] by (simp add: record_upload_def recorded_upto_def)
qed

text \<open>On the empty store of the sample every manifest loads, so the file is recorded.\<close>

lemma sample_loads:
  assumes "cx_world t = \<lparr>mem_objs = [], mem_parts = []\<rparr>"
  shows "load sample_env ref_keys dir t \<noteq> (s', Inl e)"
proof -
  have "be_get ref_backend key \<lparr>mem_objs = [], mem_parts = []\<rparr> = (\<lparr>mem_objs = [], mem_parts = []\<rparr>, Inr None)" for key
    by (simp add: ref_backend_def s3_backend_def s3_get_def mem_client_def mem_get_def mem_obs_def)
  then show ?thesis
    using assms by (auto simp: load_def load_insert_def sample_env_def sbind_apply onw_apply slift_def
        split: option.splits prod.splits)
qed

lemma sample_record:
  "\<exists>s1. record_upload sample_env (Some ref_keys) [] ''f'' 7 sample_ctx = (s1, Inr ()) \<and> ms_get (cx_store s1) [] \<noteq> None"
proof -
  obtain enc where enc: "encrypt_name ref_lib ref_keys ''f'' = Inr enc"
    using ref_segment [of "''f''"] by (auto simp: on_disk_segment_def rbind_eq_Inr)
  obtain t r where l: "load sample_env ref_keys [] sample_ctx = (t, r)" by fastforce
  then obtain m where "r = Inr m" using sample_loads [of sample_ctx] by (cases r) (auto simp: sample_ctx_def)
  note l = l [unfolded this]
  obtain s1 q where e: "edit sample_env ref_keys [] (upsert_file ref_lib enc ''f'' 7) sample_ctx = (s1, q)" by fastforce
  note E = edit_effect [OF l e]
  have "ev_lib sample_env = ref_lib" "split_on slash ''f'' = [''f'']" by (simp_all add: sample_env_def split_on.simps)
  then have "record_upload sample_env (Some ref_keys) [] ''f'' 7 sample_ctx = (s1, Inr ())"
    using e E(1) enc by (simp add: record_upload_def sbind_apply attempt_apply sret_def)
  with E(2) show ?thesis by auto
qed

theorem upload_recorded_where_stored_witness:
  "\<exists>h s'. upload_key ref_lib (Some ref_keys) [] ''f'' = Inr h \<and>
    record_upload sample_env (Some ref_keys) [] ''f'' 7 sample_ctx = (s', Inr ()) \<and> recorded (cx_store s') [] [''f''] [h] 7 0"
proof -
  obtain h where h: "on_disk_segment ref_lib ref_keys ''f'' = Inr h" using ref_segment [of "''f''"] by auto
  have l: "list_all2 (\<lambda>seg h. on_disk_segment (ev_lib sample_env) ref_keys seg = Inr h) [''f''] [h]"
    using h by (simp add: sample_env_def)
  from upload_recorded_where_stored [OF _ _ l, of "[]" 7 sample_ctx] obtain s' n where
    u: "upload_key ref_lib (Some ref_keys) [] ''f'' = Inr h"
      "record_upload sample_env (Some ref_keys) [] ''f'' 7 sample_ctx = (s', Inr ())" and
    n: "n \<le> 1" "\<forall>i < n. recorded (cx_store s') [] [''f''] [h] 7 i"
      "\<forall>dir. dir \<notin> dir_at [] [h] ` {..<n} \<longrightarrow> ms_get (cx_store s') dir = ms_get (cx_store sample_ctx) dir"
    by (auto simp: sample_env_def dir_at_def)
  have "n \<noteq> 0"
  proof
    assume "n = 0"
    then have "ms_get (cx_store s') [] = ms_get (cx_store sample_ctx) []" using n(3) by simp
    then show False using sample_record u(2) by (auto simp: sample_ctx_def ms_get_def ManifestStore_new_def)
  qed
  with u n(1,2) show ?thesis by (metis neq0_conv)
qed

end
