(* ===== verification/Operations_Correct.thy ===== *)
theory Operations_Correct
  imports Operations
begin

text \<open>
  What the directory operations do to the remote side and to the manifests. The contract of a
  backend is extended by what deleting, listing and renaming promise (\<open>movable_store\<close>), and
  the effects of the operations are proved once from it; the S3 backend satisfies it when the
  service keeps its promises and refuses no deletion. Manifest objects are excluded from the
  statements about objects: the buffer writes them.
\<close>

section \<open>Frames\<close>

text \<open>The manifests in the buffer, without the bookkeeping.\<close>

definition buffered :: "'w ctx \<Rightarrow> string \<Rightarrow> manifest option" where
  "buffered s dir = map_option ds_manifest (ms_get (cx_store s) dir)"

lemma flush_record_buffered: "map_option ds_manifest (ms_get (flush_record J dir fp st) dir') = map_option ds_manifest (ms_get st dir')"
  by (auto simp: flush_record_def buffer.look_put split: option.splits)

lemma flush_writes_buffered: "buffered (fst (flush_writes E n ws s)) = buffered s"
proof (induction ws arbitrary: n s)
  case (Cons x ws)
  obtain dir blob fp where x: "x = (dir, blob, fp)" by (cases x)
  show ?case
    using Cons.IH
    by (auto simp: x sbind_apply onw_apply buffered_def flush_record_buffered fun_eq_iff split: sum.splits)
qed (simp add: sret_def)

lemma flush_buffered: "buffered (fst (flush E k reason s)) = buffered s"
proof -
  obtain s1 ws where f: "flush_snapshot E k reason s = (s1, ws)" by fastforce
  then have "buffered s1 = buffered s" by (auto simp: flush_snapshot_def Let_def buffered_def fun_eq_iff split: prod.splits)
  then show ?thesis using f by (simp add: flush_def flush_writes_buffered)
qed

lemma load_buffered:
  "dir' \<noteq> dir \<or> buffered s dir \<noteq> None \<Longrightarrow> buffered (fst (load E k dir s)) dir' = buffered s dir'"
  by (auto simp: buffered_def load_def load_insert_def sbind_apply onw_apply slift_def buffer.look_put
      split: option.splits sum.splits prod.splits)

lemma edit_buffered: "dir' \<noteq> dir \<Longrightarrow> buffered (fst (edit E k dir f s)) dir' = buffered s dir'"
proof -
  assume n: "dir' \<noteq> dir"
  obtain s1 r where l: "load E k dir s = (s1, r)" by fastforce
  have "buffered s1 dir' = buffered s dir'" using load_buffered [of dir' dir s E k] n l by simp
  then show ?thesis using l n
    by (auto simp: edit_def sbind_apply buffered_def edit_dir_def buffer.look_put split: sum.splits option.splits)
qed

section \<open>Deleted folders stay buffered\<close>

lemma parent_prefix_shorter: "ends_with slash key \<Longrightarrow> parent_prefix key \<noteq> key"
proof
  assume e: "ends_with slash key" and p: "parent_prefix key = key"
  then obtain x where x: "key = x @ [slash]" using ends_with_obtain by blast
  have "length (trim_end_matches slash key) \<le> length x"
    unfolding x trim_end_snoc by (metis trim_end_matches_def length_dropWhile_le length_rev)
  moreover have "length (parent_prefix key) \<le> length (trim_end_matches slash key)"
    by (simp add: parent_prefix_def Let_def split: option.splits)
  ultimately show False using p x by simp
qed

lemma forget_trimmed:
  "ends_with slash dir \<Longrightarrow> ms_get (forget (trim_end_matches slash key) st) dir = ms_get st dir"
  using not_ends_with_trim [of slash key] by (auto simp: buffer.look_del)

lemma delete_record_buffered:
  assumes "ends_with slash dir" "dir \<noteq> parent_prefix (re_key item)"
  shows "buffered (fst (delete_record E k item s)) dir = buffered s dir"
proof (cases "encrypt_name (ev_lib E) k (re_name item)")
  case (Inl e)
  then show ?thesis using assms
    by (simp add: delete_record_def sbind_apply attempt_apply sret_def buffered_def forget_trimmed)
next
  case (Inr enc)
  then show ?thesis
    using assms edit_buffered [OF assms(2), of E k "\<lambda>m. fst (remove_entry (ev_lib E) enc m)" s]
    by (simp add: delete_record_def sbind_apply attempt_apply sret_def buffered_def forget_trimmed)
qed

text \<open>
  Deleting a folder does not forget its manifest: the buffer is keyed by directory prefixes,
  which end in a slash, while \<open>run_delete\<close> forgets the key without it. Whatever the outcome of
  the deletion, the manifest of the deleted folder stays in the buffer as it was, so a folder
  created anew under the same name is listed, and written, with the old entries.
\<close>

theorem deleted_folder_stays_buffered:
  assumes "re_is_dir item" "ends_with slash (re_key item)" "buffered s (re_key item) = Some m"
    and "run_delete E (Some k) [item] s = (s', res)"
  shows "buffered s' (re_key item) = Some m"
proof -
  let ?key = "re_key item"
  obtain w r where l: "be_list_recursive (ev_backend E) ?key (cx_world s) = (w, r)" by fastforce
  have st: "buffered (s\<lparr>cx_world := v\<rparr>) = buffered s" for v by (simp add: buffered_def fun_eq_iff)
  show ?thesis
  proof (cases r)
    case (Inl e)
    then have "s' = s\<lparr>cx_world := w\<rparr>" using assms(1,4) l
      by (auto simp: run_delete_def delete_keys_def sbind_apply onw_apply)
    then show ?thesis using st assms(3) by simp
  next
    case (Inr objs)
    let ?ks = "map ro_key objs @ [?key]"
    obtain w2 u where d: "be_delete (ev_backend E) ?ks w = (w2, u)" by fastforce
    show ?thesis
    proof (cases u)
      case (Inl e)
      then have "s' = s\<lparr>cx_world := w2\<rparr>" using assms(1,4) l Inr d
        by (auto simp: run_delete_def delete_keys_def sbind_apply onw_apply sret_def)
      then show ?thesis using st assms(3) by simp
    next
      case ok: (Inr v)
      let ?s1 = "s\<lparr>cx_world := w2\<rparr>"
      let ?s2 = "fst (delete_record E k item ?s1)"
      have dr: "snd (delete_record E k item ?s1) = Inr ()"
        by (simp add: delete_record_def sbind_apply attempt_apply sret_def split: sum.splits)
      have "s' = fst (flush E k Forced ?s2)"
        using assms(1,4) l Inr d ok dr
        by (auto simp: run_delete_def delete_keys_def sbind_apply onw_apply sret_def attempt_apply split: prod.splits)
      then have "buffered s' ?key = buffered ?s2 ?key" by (simp add: flush_buffered)
      also have "\<dots> = buffered ?s1 ?key"
        by (rule delete_record_buffered [OF assms(2)]) (use parent_prefix_shorter [OF assms(2)] in simp)
      finally show ?thesis using st assms(3) by simp
    qed
  qed
qed

definition sample_dir :: remote_entry where
  "sample_dir = \<lparr>re_key = ''D/'', re_name = ''D'', re_is_dir = True, re_size = 0, re_modified = None, re_encrypted = Some True\<rparr>"

definition stale_ctx :: "mem ctx" where
  "stale_ctx = sample_ctx\<lparr>cx_store := ms_put ''D/''
     \<lparr>ds_manifest = sample_manifest, ds_written_fingerprint = None, ds_last_change = 0, ds_dirty = False\<rparr>
     (ManifestStore_new 10000)\<rparr>"

theorem deleted_folder_stays_buffered_witness:
  "buffered (fst (run_delete sample_env (Some ref_keys) [sample_dir] stale_ctx)) ''D/'' = Some sample_manifest"
  using deleted_folder_stays_buffered [OF _ _ _ prod.collapse [symmetric], of sample_dir stale_ctx sample_manifest sample_env ref_keys]
  by (simp add: sample_dir_def ends_with_def buffered_def stale_ctx_def buffer.look_put)

section \<open>Stores whose objects can be listed, deleted and renamed\<close>

text \<open>Two remote states with the same objects apart from manifests.\<close>

definition data_eq :: "('w \<Rightarrow> string \<rightharpoonup> bytes) \<Rightarrow> 'w \<Rightarrow> 'w \<Rightarrow> bool" where
  "data_eq obs v w \<longleftrightarrow> (\<forall>x. (\<forall>dir. x \<noteq> manifest_object_key dir) \<longrightarrow> obs v x = obs w x)"

lemma data_eq_refl [simp]: "data_eq obs w w"
  by (simp add: data_eq_def)

lemma data_eq_trans: "data_eq obs u v \<Longrightarrow> data_eq obs v w \<Longrightarrow> data_eq obs u w"
  by (simp add: data_eq_def)

text \<open>The keys a selection covers: the entries themselves and everything below the folders.\<close>

definition covered :: "remote_entry list \<Rightarrow> string \<Rightarrow> bool" where
  "covered items x \<longleftrightarrow> (\<exists>item \<in> set items. x = re_key item \<or> re_is_dir item \<and> starts_with (re_key item) x)"

locale movable_store = object_store B abs ok
  for B :: "'w backend" and abs :: "'w \<Rightarrow> string \<rightharpoonup> bytes" and ok :: "'w \<Rightarrow> bool" +
  assumes put_frame: "ok w \<Longrightarrow> be_put B k d w = (w', u) \<Longrightarrow> k' \<noteq> k \<Longrightarrow> abs w' k' = abs w k'"
    and delete_law: "ok w \<Longrightarrow> be_delete B ks w = (w', Inr ()) \<Longrightarrow>
      ok w' \<and> abs w' = (\<lambda>x. if x \<in> set ks then None else abs w x)"
    and list_recursive_law: "ok w \<Longrightarrow> be_list_recursive B p w = (w', Inr objs) \<Longrightarrow>
      ok w' \<and> abs w' = abs w \<and> set (map ro_key objs) = {x. abs w x \<noteq> None \<and> starts_with p x \<and> x \<noteq> p}"
    and rename_file_law: "ok w \<Longrightarrow> \<not> ends_with slash a \<Longrightarrow> a \<noteq> b \<Longrightarrow> be_rename B a b w = (w', Inr ()) \<Longrightarrow>
      ok w' \<and> abs w' = (abs w)(b := abs w a, a := None)"
begin

lemma load_data:
  assumes "ev_backend E = B" "ok (cx_world s)"
  shows "ok (cx_world (fst (load E k dir s))) \<and> abs (cx_world (fst (load E k dir s))) = abs (cx_world s)"
proof -
  obtain w r where g: "be_get B (manifest_object_key dir) (cx_world s) = (w, r)" by fastforce
  note get_law [OF assms(2) object_key_manifest g]
  with assms g show ?thesis
    by (auto simp: load_def sbind_apply onw_apply slift_def split: option.splits sum.splits prod.splits)
qed

lemma edit_data:
  assumes "ev_backend E = B" "ok (cx_world s)"
  shows "ok (cx_world (fst (edit E k dir f s))) \<and> abs (cx_world (fst (edit E k dir f s))) = abs (cx_world s)"
proof -
  obtain s1 r where l: "load E k dir s = (s1, r)" by fastforce
  have "ok (cx_world s1) \<and> abs (cx_world s1) = abs (cx_world s)" using load_data [OF assms, of k dir] l by simp
  then show ?thesis using l by (auto simp: edit_def sbind_apply split: sum.splits)
qed

lemma flush_writes_data:
  assumes "ev_backend E = B"
  shows "ok (cx_world s) \<Longrightarrow> ok (cx_world (fst (flush_writes E n ws s))) \<and>
    data_eq abs (cx_world (fst (flush_writes E n ws s))) (cx_world s)"
proof (induction ws arbitrary: n s)
  case (Cons x ws)
  obtain dir blob fp where x: "x = (dir, blob, fp)" by (cases x)
  obtain w1 u where p: "be_put B (manifest_object_key dir) blob (cx_world s) = (w1, u)" by fastforce
  note P = put_law [OF Cons.prems object_key_manifest p]
  have d: "data_eq abs w1 (cx_world s)" using put_frame [OF Cons.prems p] by (auto simp: data_eq_def)
  show ?case
  proof (cases u)
    case (Inl e)
    then show ?thesis using p P d assms by (simp add: x sbind_apply onw_apply)
  next
    case (Inr v)
    let ?s1 = "s\<lparr>cx_world := w1, cx_store := flush_record (ev_json E) dir fp (cx_store s)\<rparr>"
    have "fst (flush_writes E n (x # ws) s) = fst (flush_writes E (Suc n) ws ?s1)"
      using p Inr assms by (simp add: x sbind_apply onw_apply)
    then show ?thesis using Cons.IH [of ?s1 "Suc n"] P d data_eq_trans by auto
  qed
qed (simp add: sret_def)

lemma flush_data:
  assumes "ev_backend E = B" "ok (cx_world s)"
  shows "ok (cx_world (fst (flush E k reason s))) \<and> data_eq abs (cx_world (fst (flush E k reason s))) (cx_world s)"
proof -
  obtain s1 ws where f: "flush_snapshot E k reason s = (s1, ws)" by fastforce
  then have "cx_world s1 = cx_world s" by (auto simp: flush_snapshot_def Let_def split: prod.splits)
  then show ?thesis using f flush_writes_data [OF assms(1), of s1 0 ws] assms(2) by (simp add: flush_def)
qed

lemma rename_file_effect:
  assumes "ev_backend E = B" "ok (cx_world s)" "\<not> ends_with slash key"
    and enc: "encrypt_name (ev_lib E) k old_name = Inr oe" "encrypt_name (ev_lib E) k new_name = Inr ne"
    and ne: "hash_entry (ev_lib E) oe \<noteq> hash_entry (ev_lib E) ne" "key \<noteq> parent_prefix key @ hash_entry (ev_lib E) ne"
    and l: "load E k (parent_prefix key) s = (s1, Inr m)"
    and run: "rename_encrypted E k key False old_name new_name s = (s', Inr ())"
  shows "name_for m (hash_entry (ev_lib E) ne) = None \<and>
    buffered s' (parent_prefix key) = Some (fst (rename_entry (ev_lib E) oe ne new_name m)) \<and>
    (\<exists>v. abs v = (abs (cx_world s))(parent_prefix key @ hash_entry (ev_lib E) ne := abs (cx_world s) key, key := None) \<and>
       data_eq abs (cx_world s') v)"
proof -
  let ?p = "parent_prefix key"
  let ?to = "?p @ hash_entry (ev_lib E) ne"
  let ?f = "\<lambda>m. fst (rename_entry (ev_lib E) oe ne new_name m)"
  have w1: "ok (cx_world s1)" "abs (cx_world s1) = abs (cx_world s)" using load_data [OF assms(1,2), of k ?p] l by simp_all
  let ?rest = "sbind (edit E k ?p ?f) (\<lambda>_. sbind (flush E k Forced) (\<lambda>_. sret ()))"
  have eq: "rename_encrypted E k key False old_name new_name s =
      (if name_for m (hash_entry (ev_lib E) ne) \<noteq> None
       then serr (Msg (''an item named '' @ [CHR 0x22] @ new_name @ [CHR 0x22] @ '' already exists here''))
       else sbind (onw (be_rename B key ?to)) (\<lambda>_. sbind (\<lambda>s. (s, Inr ())) (\<lambda>_. ?rest))) s1"
    using ne(1) l assms(1)
    by (simp add: rename_encrypted_def Let_def enc sbind_slift_Inr sbind_apply [of "load E k ?p"])
  have free: "name_for m (hash_entry (ev_lib E) ne) = None" using run unfolding eq by (auto simp: serr_def split: if_splits)
  obtain w2 u where rn: "be_rename B key ?to (cx_world s1) = (w2, u)" by fastforce
  let ?s2 = "s1\<lparr>cx_world := w2\<rparr>"
  have run2: "(case u of Inl e \<Rightarrow> (?s2, Inl e) | Inr x \<Rightarrow> ?rest ?s2) = (s', Inr ())"
    using run rn free unfolding eq
    by (simp add: sbind_apply [of "onw (be_rename B key ?to)"] onw_apply sbind_apply [of "\<lambda>s. (s, Inr ())"])
  then have u: "u = Inr ()" and rest: "?rest ?s2 = (s', Inr ())" by (cases u; simp)+
  note R = rename_file_law [OF w1(1) assms(3) ne(2) rn [unfolded u]]
  obtain d where d: "ms_get (cx_store s1) ?p = Some d" "ds_manifest d = m" using load_effect(1) [OF l] by blast
  have l2: "load E k ?p ?s2 = (?s2, Inr m)" using d by (simp add: load_def)
  obtain s3 r where e: "edit E k ?p ?f ?s2 = (s3, r)" by fastforce
  note ED = edit_effect [OF l2 e]
  have "cx_world s3 = w2" using ED(4) by simp
  have b3: "buffered s3 ?p = Some (?f m)" using ED(2) by (auto simp: buffered_def)
  have s': "s' = fst (flush E k Forced s3)"
    using rest e ED(1) by (auto simp: sbind_apply sret_def split: prod.splits sum.splits)
  have "ok (cx_world s3)" using R \<open>cx_world s3 = w2\<close> by simp
  from flush_data [OF assms(1) this, of k Forced] have "data_eq abs (cx_world s') w2" using s' \<open>cx_world s3 = w2\<close> by simp
  moreover have "buffered s' ?p = Some (?f m)" using b3 s' by (simp add: flush_buffered)
  ultimately show ?thesis using free R w1(2) by auto
qed

text \<open>What a list of deletions covers.\<close>

lemma delete_keys_effect:
  assumes "ev_backend E = B"
  shows "ok (cx_world s) \<Longrightarrow> sfold (delete_keys E) acc items s = (s', Inr ks) \<Longrightarrow>
    ok (cx_world s') \<and> abs (cx_world s') = abs (cx_world s) \<and> cx_store s' = cx_store s \<and>
    (\<forall>x. x \<in> set ks \<longleftrightarrow> x \<in> set acc \<or> (\<exists>item \<in> set items. x = re_key item \<or>
       re_is_dir item \<and> abs (cx_world s) x \<noteq> None \<and> starts_with (re_key item) x))"
proof (induction items arbitrary: acc s)
  case Nil
  then show ?case by (simp add: sret_def)
next
  case (Cons item items)
  show ?case
  proof (cases "re_is_dir item")
    case False
    then have "sfold (delete_keys E) (acc @ [re_key item]) items s = (s', Inr ks)"
      using Cons.prems(2) by (simp add: delete_keys_def [of E acc item] sbind_apply sret_def)
    from Cons.IH [OF Cons.prems(1) this] False show ?thesis by auto
  next
    case True
    obtain w r where l: "be_list_recursive B (re_key item) (cx_world s) = (w, r)" by fastforce
    with Cons.prems(2) True assms obtain objs where r: "r = Inr objs"
      by (cases r) (auto simp: delete_keys_def [of E acc item] sbind_apply onw_apply)
    note L = list_recursive_law [OF Cons.prems(1) l [unfolded r]]
    let ?s1 = "s\<lparr>cx_world := w\<rparr>"
    have "sfold (delete_keys E) (acc @ map ro_key objs @ [re_key item]) items ?s1 = (s', Inr ks)"
      using Cons.prems(2) True l r assms by (simp add: delete_keys_def [of E acc item] sbind_apply onw_apply sret_def)
    note H = Cons.IH [OF _ this]
    have w: "ok w" "abs w = abs (cx_world s)" using L by blast+
    have o: "x \<in> set (map ro_key objs) \<longleftrightarrow> abs (cx_world s) x \<noteq> None \<and> starts_with (re_key item) x \<and> x \<noteq> re_key item" for x
      using L by blast
    from H w have "ok (cx_world s')" "abs (cx_world s') = abs (cx_world s)" "cx_store s' = cx_store s" by simp_all
    moreover have "x \<in> set ks \<longleftrightarrow> x \<in> set acc \<or> x \<in> set (map ro_key objs) \<or> x = re_key item \<or>
        (\<exists>item \<in> set items. x = re_key item \<or> re_is_dir item \<and> abs (cx_world s) x \<noteq> None \<and> starts_with (re_key item) x)" for x
      using H w by auto
    ultimately show ?thesis unfolding o using True by auto
  qed
qed

lemma delete_record_data:
  assumes "ev_backend E = B" "ok (cx_world s)"
  shows "ok (cx_world (fst (delete_record E k item s))) \<and>
    abs (cx_world (fst (delete_record E k item s))) = abs (cx_world s) \<and> snd (delete_record E k item s) = Inr ()"
  using edit_data [OF assms, of k "parent_prefix (re_key item)"] assms(2)
  by (auto simp: delete_record_def sbind_apply attempt_apply sret_def split: sum.splits)

lemma delete_records_data:
  assumes "ev_backend E = B"
  shows "ok (cx_world s) \<Longrightarrow> sfold (\<lambda>_. delete_record E k) () items s = (s', r) \<Longrightarrow>
    r = Inr () \<and> ok (cx_world s') \<and> abs (cx_world s') = abs (cx_world s)"
proof (induction items arbitrary: s)
  case (Cons item items)
  note D = delete_record_data [OF assms Cons.prems(1), of k item]
  let ?s1 = "fst (delete_record E k item s)"
  have "sfold (\<lambda>_. delete_record E k) () items ?s1 = (s', r)"
    using Cons.prems(2) D by (simp add: sbind_apply split: prod.splits)
  from Cons.IH [OF _ this] D show ?case by simp
qed (simp add: sret_def)

lemma delete_effect:
  assumes "ev_backend E = B" "ok (cx_world s)" "run_delete E keys items s = (s', Inr n)"
  shows "\<exists>v. abs v = (\<lambda>x. if covered items x then None else abs (cx_world s) x) \<and> data_eq abs (cx_world s') v"
proof -
  obtain s1 r where c: "sfold (delete_keys E) [] items s = (s1, r)" by fastforce
  with assms(3) obtain ks where r: "r = Inr ks" by (cases r) (auto simp: run_delete_def sbind_apply)
  note K = delete_keys_effect [OF assms(1,2) c [unfolded r]]
  obtain w2 u where d: "be_delete B ks (cx_world s1) = (w2, u)" by fastforce
  have u: "u = Inr ()" using assms(1,3) c r d
    by (cases u) (auto simp: run_delete_def sbind_apply onw_apply)
  have w1: "ok (cx_world s1)" "abs (cx_world s1) = abs (cx_world s)" using K by blast+
  note D = delete_law [OF w1(1) d [unfolded u], unfolded w1(2)]
  have "abs w2 = (\<lambda>x. if covered items x then None else abs (cx_world s) x)"
  proof
    fix x
    have "x \<in> set ks \<Longrightarrow> covered items x" "covered items x \<Longrightarrow> x \<notin> set ks \<Longrightarrow> abs (cx_world s) x = None"
      using K by (auto simp: covered_def)
    then show "abs w2 x = (if covered items x then None else abs (cx_world s) x)" using D by auto
  qed
  moreover have "data_eq abs (cx_world s') w2"
  proof (cases keys)
    case None
    then have "cx_world s' = w2" using assms(1,3) c r d u by (auto simp: run_delete_def sbind_apply onw_apply sret_def)
    then show ?thesis by simp
  next
    case (Some k)
    let ?s2 = "s1\<lparr>cx_world := w2\<rparr>"
    obtain s3 r3 where f: "sfold (\<lambda>_. delete_record E k) () items ?s2 = (s3, r3)" by fastforce
    have S: "r3 = Inr () \<and> ok (cx_world s3) \<and> abs (cx_world s3) = abs w2"
      using delete_records_data [OF assms(1) _ f] D by simp
    have "s' = fst (flush E k Forced s3)"
      using assms(1,3) c r d u f S Some
      by (auto simp: run_delete_def sbind_apply onw_apply attempt_apply sret_def split: prod.splits)
    then have "data_eq abs (cx_world s') (cx_world s3)" using flush_data [OF assms(1), of s3 k Forced] S by simp
    then show ?thesis using S by (simp add: data_eq_def)
  qed
  ultimately show ?thesis by blast
qed

end

section \<open>The effects on the S3 backend\<close>

text \<open>The server carries out every deletion: the list of refused keys that comes with \<open>DeleteObjects\<close> is empty.\<close>

definition s3_no_refusals :: "'w s3_client \<Rightarrow> bool" where
  "s3_no_refusals C \<longleftrightarrow> (\<forall>b v v' refused. c_delete_objects C b v = (v', Inr refused) \<longrightarrow> refused = [])"

lemma s3_delete_all:
  assumes "s3_laws C bucket obs" "s3_no_refusals C" "s3_delete C ks w = (w', Inr ())"
  shows "obs w' = (\<lambda>x. if x \<in> set ks then None else obs w x)"
proof
  fix x
  have d: "s3_delete_law C obs" using assms(1) by (simp add: s3_laws_def)
  have "refused = []" if "c_delete_objects C b v = (v', Inr refused)" for b v v' refused
    using assms(2) that by (simp add: s3_no_refusals_def)
  then show "obs w' x = (if x \<in> set ks then None else obs w x)"
    using s3_delete_effect [OF d assms(3), of x] by auto
qed

interpretation s3_movable: movable_store "s3_backend C fuel bucket" obs "\<lambda>_. s3_laws C bucket obs \<and> s3_no_refusals C"
  for C :: "'w s3_client" and fuel bucket obs
proof
  fix w k w' r
  assume "s3_laws C bucket obs \<and> s3_no_refusals C" "be_get (s3_backend C fuel bucket) k w = (w', r)"
  then show "(s3_laws C bucket obs \<and> s3_no_refusals C) \<and> obs w' = obs w \<and> (\<forall>x. r = Inr x \<longrightarrow> x = obs w k)"
    using s3_get_reads [of C obs k w w' r] by (simp add: s3_laws_def s3_backend_def)
next
  fix w k d w' r
  assume "s3_laws C bucket obs \<and> s3_no_refusals C" "be_put (s3_backend C fuel bucket) k d w = (w', r)"
  then show "(s3_laws C bucket obs \<and> s3_no_refusals C) \<and> (\<forall>k'. object_key k' \<longrightarrow> k' \<noteq> k \<longrightarrow> obs w' k' = obs w k') \<and>
      (r = Inr () \<longrightarrow> obs w' k = Some d)"
    using s3_put_stores [of C obs k d w w' r]
    by (simp add: s3_laws_def s3_backend_def)
next
  fix w k d w' r k'
  assume "s3_laws C bucket obs \<and> s3_no_refusals C" "be_put (s3_backend C fuel bucket) k d w = (w', r)" "k' \<noteq> k"
  then show "obs w' k' = obs w k'"
    using s3_put_stores [of C obs k d w w' r] by (simp add: s3_laws_def s3_backend_def)
next
  fix w ks w'
  assume "s3_laws C bucket obs \<and> s3_no_refusals C" "be_delete (s3_backend C fuel bucket) ks w = (w', Inr ())"
  then show "(s3_laws C bucket obs \<and> s3_no_refusals C) \<and> obs w' = (\<lambda>x. if x \<in> set ks then None else obs w x)"
    using s3_delete_all [of C bucket obs ks w w'] by (simp add: s3_backend_def)
next
  fix w p w' objs
  assume "s3_laws C bucket obs \<and> s3_no_refusals C" "be_list_recursive (s3_backend C fuel bucket) p w = (w', Inr objs)"
  then show "(s3_laws C bucket obs \<and> s3_no_refusals C) \<and> obs w' = obs w \<and>
      set (map ro_key objs) = {x. obs w x \<noteq> None \<and> starts_with p x \<and> x \<noteq> p}"
    using list_inner_complete [of C obs fuel p w w' objs] by (simp add: s3_backend_def s3_laws_def)
next
  fix w a b w'
  assume ok: "s3_laws C bucket obs \<and> s3_no_refusals C" and f: "\<not> ends_with slash a" and ne: "a \<noteq> b"
    and r: "be_rename (s3_backend C fuel bucket) a b w = (w', Inr ())"
  obtain w1 u where c: "copy_one C bucket a b w = (w1, u)" by fastforce
  have u: "u = Inr ()" and d: "s3_delete C [a] w1 = (w', Inr ())"
    using r f c by (cases u; auto simp: s3_backend_def s3_rename_def sbind_apply split: sum.splits)+
  have "obs w1 = (obs w)(b := obs w a)" using copy_one_effect [of C bucket obs a b w w1] ok c u by (simp add: s3_laws_def)
  moreover have "obs w' = (\<lambda>x. if x \<in> set [a] then None else obs w1 x)" using ok s3_delete_all [of C bucket obs, OF _ _ d] by blast
  ultimately show "(s3_laws C bucket obs \<and> s3_no_refusals C) \<and> obs w' = (obs w)(b := obs w a, a := None)"
    using ok ne by auto
next
  fix w t
  assume "s3_laws C bucket obs \<and> s3_no_refusals C"
  then show "(s3_laws C bucket obs \<and> s3_no_refusals C) \<and> obs (be_tables (s3_backend C fuel bucket) t w) = obs w"
    by (simp add: s3_backend_def)
qed

text \<open>
  C24. A successful deletion on S3 removes exactly the selection, directory manifests aside: on a server
  that refuses no deletion (\<open>s3_no_refusals\<close>: \<open>DeleteObjects\<close> reports refused keys one by one, and the code
  does not read the list, see \<open>delete_ignores_refusals\<close>), of the objects that are not manifests every selected
  key and every object below a selected folder is gone afterwards, also in listings of many pages and more
  than a thousand keys, and every other one is unchanged. Manifests are left out because the flush that
  ends the deletion may write them anew, that of a deleted folder too when it is still in the buffer.
\<close>

theorem delete_removes_selection:
  assumes "s3_laws C bucket obs" "s3_no_refusals C" "ev_backend E = s3_backend C fuel bucket"
    and "run_delete E keys items s = (s', Inr n)" "\<forall>dir. x \<noteq> manifest_object_key dir"
  shows "obs (cx_world s') x = (if covered items x then None else obs (cx_world s) x)"
proof -
  from s3_movable.delete_effect [OF assms(3) _ assms(4), of obs] assms(1,2)
  obtain v where "obs v = (\<lambda>x. if covered items x then None else obs (cx_world s) x)"
    "data_eq obs (cx_world s') v" by blast
  then show ?thesis using assms(5) by (simp add: data_eq_def)
qed

text \<open>
  C23. Renaming a file of an encrypted directory on S3, whose manifest could be loaded, to a name with another
  hash, on a server that refuses no deletion (\<open>s3_no_refusals\<close>: the move is a copy and a deletion, and the
  refusals \<open>DeleteObjects\<close> reports are not read, so a refused one would leave the old object where it is):
  when the rename succeeds, no entry had the new name before; the bytes stored under the old hash are
  afterwards under the new one and no longer under the old; no other object changes apart from
  manifests; and the directory's manifest in the buffer is the one before with the entry renamed.
\<close>

theorem rename_moves_file:
  assumes "s3_laws C bucket obs" "s3_no_refusals C" "ev_backend E = s3_backend C fuel bucket"
    and "\<not> ends_with slash key"
    and "encrypt_name (ev_lib E) k old_name = Inr oe" "encrypt_name (ev_lib E) k new_name = Inr ne"
    and "hash_entry (ev_lib E) oe \<noteq> hash_entry (ev_lib E) ne" "key \<noteq> parent_prefix key @ hash_entry (ev_lib E) ne"
    and "load E k (parent_prefix key) s = (s1, Inr m)"
    and "run_rename E (Some k) key False old_name new_name True s = (s', Inr ())"
    and "\<forall>dir. x \<noteq> manifest_object_key dir"
  shows "name_for m (hash_entry (ev_lib E) ne) = None \<and>
    buffered s' (parent_prefix key) = Some (fst (rename_entry (ev_lib E) oe ne new_name m)) \<and>
    obs (cx_world s') x = (if x = key then None
      else if x = parent_prefix key @ hash_entry (ev_lib E) ne then obs (cx_world s) key else obs (cx_world s) x)"
proof -
  have run: "rename_encrypted E k key False old_name new_name s = (s', Inr ())"
    using assms(10) by (auto simp: run_rename_def serr_def split: if_splits)
  from s3_movable.rename_file_effect [OF assms(3) _ assms(4-9) run, of obs] assms(1,2)
  show ?thesis using assms(11) by (auto simp: data_eq_def)
qed

text \<open>
  A rename onto a name that exists is refused: when the directory's manifest has an entry under
  the hash of the new name, \<open>run_rename\<close> returns an error, no object changes, and the manifest stays
  as it was.
\<close>

theorem rename_collision_refused:
  assumes "s3_laws C bucket obs" "s3_no_refusals C" "ev_backend E = s3_backend C fuel bucket"
    and "\<not> blank new_name" "slash \<notin> set new_name"
    and enc: "encrypt_name (ev_lib E) k old_name = Inr oe" "encrypt_name (ev_lib E) k new_name = Inr ne"
    and "hash_entry (ev_lib E) oe \<noteq> hash_entry (ev_lib E) ne"
    and l: "load E k (parent_prefix key) s = (s1, Inr m)"
    and "name_for m (hash_entry (ev_lib E) ne) \<noteq> None"
  shows "\<exists>s' e. run_rename E (Some k) key is_dir old_name new_name True s = (s', Inl e) \<and>
    obs (cx_world s') = obs (cx_world s) \<and> buffered s' (parent_prefix key) = Some m"
proof -
  have "run_rename E (Some k) key is_dir old_name new_name True s =
      (s1, Inl (Msg (''an item named '' @ [CHR 0x22] @ new_name @ [CHR 0x22] @ '' already exists here'')))"
    using assms by (simp add: run_rename_def rename_encrypted_def Let_def sbind_slift_Inr sbind_apply [of "load E k (parent_prefix key)"] serr_def)
  moreover have "obs (cx_world s1) = obs (cx_world s)"
    using s3_movable.load_data [OF assms(3), where obs = obs and s = s and k = k and dir = "parent_prefix key"] assms(1,2) l by simp
  moreover have "buffered s1 (parent_prefix key) = Some m" using load_effect(1) [OF l] by (auto simp: buffered_def)
  ultimately show ?thesis by blast
qed


definition sample_items :: "remote_entry list" where
  "sample_items = [\<lparr>re_key = ''a/'', re_name = ''a'', re_is_dir = True, re_size = 0, re_modified = None, re_encrypted = None\<rparr>]"

definition bucket_ctx :: "mem ctx" where
  "bucket_ctx = sample_ctx\<lparr>cx_world := sample_bucket\<rparr>"

lemma sample_no_refusals: "s3_no_refusals mem_client"
  using mem_no_refusals by (simp add: s3_no_refusals_def)

lemma sample_backend: "ev_backend sample_env = s3_backend mem_client 1 ''b''"
  by (simp add: sample_env_def ref_backend_def)


lemma not_manifest_key:
  "take 4 (rev x) \<noteq> rev MANIFEST_KEY \<Longrightarrow> \<forall>dir. x \<noteq> manifest_object_key dir"
  by (auto simp: manifest_object_key_def MANIFEST_KEY_def)

lemma mem_s3_delete: "\<exists>w'. s3_delete mem_client ks w = (w', Inr ())"
proof -
  have "\<exists>w'. sfold (\<lambda>_ batch. sbind (sctx ''delete failed'' (c_delete_objects mem_client batch)) (\<lambda>_. sret ())) () bs w = (w', Inr ())" for bs
    by (induction bs arbitrary: w) (auto simp: sbind_apply sctx_apply sret_def mem_client_def mem_delete_def)
  then show ?thesis by (simp add: s3_delete_def)
qed

theorem delete_removes_selection_witness:
  "\<exists>s' n. run_delete sample_env None sample_items bucket_ctx = (s', Inr n) \<and>
     mem_obs (cx_world s') ''a/x'' = None \<and> mem_obs (cx_world s') ''c'' = Some [4]"
proof -
  obtain out where l: "list_inner mem_client 1 ''a/'' False sample_bucket = (sample_bucket, Inr out)"
    by (simp add: list_inner_def sctx_apply mem_client_def mem_list_def Let_def)
  obtain w where "s3_delete mem_client (map ro_key out @ [''a/'']) sample_bucket = (w, Inr ())" using mem_s3_delete by blast
  with l have "\<not> isl (snd (run_delete sample_env None sample_items bucket_ctx))"
    by (simp add: run_delete_def sample_items_def delete_keys_def sbind_apply onw_apply sample_env_def ref_backend_def
        s3_backend_def sret_def bucket_ctx_def)
  then obtain s' n where r: "run_delete sample_env None sample_items bucket_ctx = (s', Inr n)"
    by (metis prod.collapse sum.collapse(2))
  note D = delete_removes_selection [OF mem_laws sample_no_refusals sample_backend r not_manifest_key]
  have "mem_obs (cx_world s') ''a/x'' = None" using D [of "''a/x''"]
    by (simp add: covered_def sample_items_def starts_with_def MANIFEST_KEY_def)
  moreover have "mem_obs (cx_world s') ''c'' = Some [4]" using D [of "''c''"]
    by (simp add: covered_def sample_items_def starts_with_def MANIFEST_KEY_def bucket_ctx_def sample_bucket_def mem_obs_def)
  ultimately show ?thesis using r by blast
qed

text \<open>An environment whose digest tells short names apart.\<close>

definition digest_lib :: crypto_lib where
  "digest_lib = ref_lib\<lparr>base32hex_encode := map (\<lambda>b. char_of (unat b)), sha256 := \<lambda>b. replicate 31 0 @ [b ! 18]\<rparr>"

definition digest_env :: "mem env" where
  "digest_env = sample_env\<lparr>ev_lib := digest_lib\<rparr>"

definition file_ctx :: "manifest \<Rightarrow> mem ctx" where
  "file_ctx m = sample_ctx\<lparr>cx_world := \<lparr>mem_objs = [(''X'', [1, 2])], mem_parts = []\<rparr>,
     cx_store := ms_put [] \<lparr>ds_manifest = m, ds_written_fingerprint = None, ds_last_change = 0, ds_dirty = False\<rparr>
       (ManifestStore_new 10000)\<rparr>"

lemma digest_name: "encrypt_name digest_lib ref_keys [c] = Inr (map (\<lambda>b. char_of (unat b)) ((replicate 16 0 @ [0, 1, of_char c] @ replicate 13 0) :: bytes))"
  by (simp add: encrypt_name_def ref_keys_def pad_name_def as_bytes_def digest_lib_def ref_siv_encrypt_def ceil_div_def NAME_PAD_BLOCK_def u16_to_be_def)

lemma of_char_of_unat: "of_char (char_of (unat (b :: u8))) = b"
proof -
  have "(of_char c :: u8) = of_nat (of_char c)" for c :: char by (simp add: of_char_def)
  moreover have "unat b < 256" using unsigned_less [of b] by simp
  ultimately show ?thesis by simp
qed

lemma digest_hash: "hash_entry digest_lib (map (\<lambda>b. char_of (unat b)) ((replicate 16 0 @ [0, 1, c] @ replicate 13 0) :: bytes)) =
    hex_upper (replicate 31 0 @ [c])"
proof -
  have "as_bytes (map (\<lambda>b. char_of (unat b)) bs) = bs" for bs :: bytes
    by (simp add: as_bytes_def comp_def map_idI of_char_of_unat)
  then show ?thesis unfolding hash_entry_def by (simp add: digest_lib_def nth_append del: map_append list.map map_replicate)
qed

abbreviation name_y :: string where
  "name_y \<equiv> hash_entry digest_lib (map (\<lambda>b. char_of (unat b)) ((replicate 16 0 @ [0, 1, 121] @ replicate 13 0) :: bytes))"

lemma digest_names:
  "hash_entry digest_lib (map (\<lambda>b. char_of (unat b)) ((replicate 16 0 @ [0, 1, 120] @ replicate 13 0) :: bytes)) \<noteq> name_y" "''X'' \<noteq> name_y"
  "take 4 (rev name_y) \<noteq> rev MANIFEST_KEY"
proof -
  have c: "char_of (57 :: nat) \<noteq> CHR ''e''" by code_simp
  show "hash_entry digest_lib (map (\<lambda>b. char_of (unat b)) ((replicate 16 0 @ [0, 1, 120] @ replicate 13 0) :: bytes)) \<noteq> name_y"
    "''X'' \<noteq> name_y" "take 4 (rev name_y) \<noteq> rev MANIFEST_KEY"
    unfolding digest_hash using c by (simp_all add: hex_upper_def hex_digit_def MANIFEST_KEY_def)
qed

lemma digest_backend: "ev_backend digest_env = s3_backend mem_client 1 ''b''" "ev_lib digest_env = digest_lib"
  by (simp_all add: digest_env_def sample_backend)

lemma mem_put: "be_put (s3_backend mem_client fuel ''b'') key d w = (mem_store key d w, Inr ())"
  by (simp add: s3_backend_def s3_put_def sctx_apply mem_client_def)

lemma mem_flush:
  assumes "ev_backend E = s3_backend mem_client fuel ''b''"
  shows "\<exists>n. snd (flush E k reason s) = Inr n"
proof -
  have "\<exists>m. snd (flush_writes E n ws s) = Inr m" for n ws s
    using assms
    by (induction E n ws arbitrary: s rule: flush_writes.induct) (auto simp: sbind_apply onw_apply sret_def mem_put)
  then show ?thesis by (simp add: flush_def split: prod.splits)
qed

lemma file_ctx_load: "load E k [] (file_ctx m) = (file_ctx m, Inr m)"
  by (simp add: load_def file_ctx_def buffer.look_put)

lemma file_ctx_rename: "\<exists>w. be_rename (s3_backend mem_client 1 ''b'') ''X'' name_y (cx_world (file_ctx m)) = (w, Inr ())"
proof -
  have p: "\<not> ends_with slash ''X''" by code_simp
  obtain w where "s3_delete mem_client [''X''] (mem_store name_y [1, 2] (cx_world (file_ctx m))) = (w, Inr ())"
    using mem_s3_delete by blast
  then have "be_rename (s3_backend mem_client 1 ''b'') ''X'' name_y (cx_world (file_ctx m)) = (w, Inr ())"
    using p decode_copy_source [of "''b''" "''X''"]
    by (simp add: s3_backend_def s3_rename_def copy_one_def sbind_apply sctx_apply mem_client_def mem_copy_def numeral_2_eq_2
        file_ctx_def mem_obs_def)
  then show ?thesis by blast
qed

lemma rename_y_returns:
  "\<exists>s'. run_rename digest_env (Some ref_keys) ''X'' False ''x'' ''y'' True (file_ctx Manifest_default) = (s', Inr ())"
proof -
  have p: "parent_prefix ''X'' = []" "\<not> ends_with slash ''X''" "\<not> blank ''y''" by code_simp+
  obtain w where r: "be_rename (s3_backend mem_client 1 ''b'') ''X'' name_y (cx_world (file_ctx Manifest_default)) = (w, Inr ())"
    using file_ctx_rename by blast
  have e: "\<exists>s2. edit digest_env ref_keys [] f (s\<lparr>cx_world := w\<rparr>) = (s2, Inr ())" if "load digest_env ref_keys [] (s\<lparr>cx_world := w\<rparr>) = (s3, Inr m)" for f s s3 m
    using that by (simp add: edit_def sbind_apply)
  have l: "load digest_env ref_keys [] ((file_ctx Manifest_default)\<lparr>cx_world := w\<rparr>) = ((file_ctx Manifest_default)\<lparr>cx_world := w\<rparr>, Inr Manifest_default)"
    by (simp add: load_def file_ctx_def buffer.look_put)
  obtain f where f: "run_rename digest_env (Some ref_keys) ''X'' False ''x'' ''y'' True (file_ctx Manifest_default) =
     sbind (edit digest_env ref_keys [] f) (\<lambda>_. sbind (flush digest_env ref_keys Forced) (\<lambda>_. sret ())) ((file_ctx Manifest_default)\<lparr>cx_world := w\<rparr>)"
    using r p digest_names
    by (simp add: run_rename_def rename_encrypted_def Let_def digest_backend digest_name sbind_apply [of "load E k d" for E k d] file_ctx_load
       name_for_def Manifest_default_def sbind_apply [of "onw g" for g] onw_apply sbind_apply [of "\<lambda>s. (s, Inr ())"] sbind_slift_Inr)
  obtain s2 where "edit digest_env ref_keys [] f ((file_ctx Manifest_default)\<lparr>cx_world := w\<rparr>) = (s2, Inr ())" using e [OF l] by blast
  with f mem_flush [OF digest_backend(1), of ref_keys Forced s2] show ?thesis
    by (auto simp: sbind_apply sret_def split: prod.splits)
qed

theorem rename_moves_file_witness:
  "\<exists>s'. run_rename digest_env (Some ref_keys) ''X'' False ''x'' ''y'' True (file_ctx Manifest_default) = (s', Inr ()) \<and>
     mem_obs (cx_world s') name_y = Some [1, 2] \<and> mem_obs (cx_world s') ''X'' = None"
proof -
  obtain s' where r: "run_rename digest_env (Some ref_keys) ''X'' False ''x'' ''y'' True (file_ctx Manifest_default) = (s', Inr ())"
    using rename_y_returns by blast
  have p: "parent_prefix ''X'' = []" "\<not> ends_with slash ''X''" by code_simp+
  have m: "take 4 (rev ''X'') \<noteq> rev MANIFEST_KEY" by (simp add: MANIFEST_KEY_def)
  note R = rename_moves_file [OF mem_laws sample_no_refusals digest_backend(1) p(2),
      unfolded digest_backend(2) p(1), OF digest_name digest_name _ _ file_ctx_load r not_manifest_key]
  have "mem_obs (cx_world s') ''X'' = None" using R [OF _ _ m] digest_names by simp
  moreover have "mem_obs (cx_world s') name_y = Some [1, 2]" using R [OF _ _ digest_names(3)] digest_names
    by (simp add: file_ctx_def mem_obs_def)
  ultimately show ?thesis using r by blast
qed

theorem rename_collision_refused_witness:
  "\<exists>s' e. run_rename digest_env (Some ref_keys) ''X'' False ''x'' ''y'' True
      (file_ctx (Manifest_default\<lparr>man_files := [name_y \<mapsto> \<lparr>fe_name = ''y'', fe_size = 1, fe_extra = Map.empty\<rparr>]\<rparr>)) = (s', Inl e) \<and>
    mem_obs (cx_world s') ''X'' = Some [1, 2]"
proof -
  let ?m = "Manifest_default\<lparr>man_files := [name_y \<mapsto> \<lparr>fe_name = ''y'', fe_size = 1, fe_extra = Map.empty\<rparr>]\<rparr>"
  have p: "parent_prefix ''X'' = []" "\<not> blank ''y''" "slash \<notin> set ''y''" by code_simp+
  have "name_for ?m name_y \<noteq> None" by (simp add: name_for_def)
  then have "\<exists>s' e. run_rename digest_env (Some ref_keys) ''X'' False ''x'' ''y'' True (file_ctx ?m) = (s', Inl e) \<and>
      mem_obs (cx_world s') = mem_obs (cx_world (file_ctx ?m)) \<and> buffered s' [] = Some ?m"
    using rename_collision_refused [OF mem_laws sample_no_refusals digest_backend(1) p(2,3),
      where key = "''X''" and m = ?m and is_dir = False, unfolded digest_backend(2) p(1), OF digest_name digest_name _ file_ctx_load]
      digest_names by simp
  then show ?thesis by (auto simp: file_ctx_def mem_obs_def)
qed

end
