(* ===== verification/Session.thy ===== *)
theory Session
  imports Operations
begin

text \<open>
  Sessions (\<open>worker.rs\<close>: \<open>Session\<close>, \<open>Conn\<close>, \<open>connect\<close>, \<open>connect_backend\<close>): dialling a backend,
  opening or creating the vault, and the reconnection that is shared by all tasks of a session.
  What lies outside the program is in a \<open>platform\<close>: the cipher and serialisation libraries, the
  S3 client built from a profile, the sources of randomness. The constructors of the other three
  backends are parameters here. A session's \<open>Arc\<close>s are shared: tasks name a session by its place in a list
  (theory \<open>Dispatch\<close>), so that every task sees the backend, the counters and the buffer that
  another one has changed.
\<close>

section \<open>Data\<close>

record vault_json =
  vault_to_vec :: "vault_file \<Rightarrow> bytes option"
  vault_from_slice :: "bytes \<Rightarrow> vault_file option"

record 'w connectors =
  co_s3 :: "string \<Rightarrow> string \<Rightarrow> string \<Rightarrow> string \<Rightarrow> 'w s3_client"
  co_sftp :: "connection_profile \<Rightarrow> string \<Rightarrow> ('w, 'w backend) sr"
  co_nfs :: "connection_profile \<Rightarrow> ('w, 'w backend) sr"
  co_smb :: "connection_profile \<Rightarrow> string \<Rightarrow> ('w, 'w backend) sr"

record 'w platform =
  pf_lib :: crypto_lib
  pf_json :: json_lib
  pf_vault_json :: vault_json
  pf_connectors :: "'w connectors"
  pf_lower :: "string \<Rightarrow> string"
  pf_prefix :: "nat \<Rightarrow> bytes"
  pf_salt :: "nat \<Rightarrow> bytes"
  pf_fuel :: nat

record 'w session =
  se_keys :: "vault_keys option"
  se_store :: manifest_store
  se_profile :: connection_profile
  se_secret :: string
  se_backend :: "'w backend"
  se_generation :: u64
  se_reconnect_interval_ms :: u64
  se_download_limiter :: rate_limiter
  se_upload_limiter :: rate_limiter
  se_object :: 'w

text \<open>\<open>se_object\<close>: the state as the session's backend object last left it, for the tables the object keeps itself.\<close>

section \<open>Connecting\<close>

definition connect_backend :: "'w platform \<Rightarrow> connection_profile \<Rightarrow> string \<Rightarrow> ('w, 'w backend) sr" where
  "connect_backend P profile secret =
     (let K = pf_connectors P in
      case cp_kind profile of
        backend_kind.S3 \<Rightarrow>
          let C = co_s3 K (cp_endpoint profile) (cp_access_key_id profile) secret (cp_bucket profile) in
          sbind (s3_connect C (cp_bucket profile)) (\<lambda>_. sret (s3_backend C (pf_fuel P) (cp_bucket profile)))
      | Sftp \<Rightarrow> co_sftp K profile secret
      | Nfs \<Rightarrow> co_nfs K profile
      | Smb \<Rightarrow> co_smb K profile secret)"

text \<open>The keys of an encrypted session: from the vault if there is one, else from a new vault.\<close>

definition session_keys ::
  "'w platform \<Rightarrow> bytes \<Rightarrow> bytes \<Rightarrow> 'w backend \<Rightarrow> string option \<Rightarrow> ('w, vault_keys) sr" where
  "session_keys P salt prefix B password =
     (case password of
        Some (c # cs) \<Rightarrow>
          sbind (be_get_vault B) (\<lambda>v.
          case v of
            Some blob \<Rightarrow>
              sbind (slift (with_ctx ''the vault metadata is corrupted''
                (ok_or (Msg ''invalid JSON'') (vault_from_slice (pf_vault_json P) blob)))) (\<lambda>vault.
              slift (open_vault (pf_lib P) vault (c # cs)))
          | None \<Rightarrow>
              sbind (slift (create_vault (pf_lib P) (c # cs) salt prefix)) (\<lambda>(vault, keys).
              sbind (slift (ok_or (Msg ''serialising the vault'') (vault_to_vec (pf_vault_json P) vault))) (\<lambda>data.
              sbind (sctx ''storing vault metadata'' (be_put_vault B data)) (\<lambda>_. sret keys))))
      | _ \<Rightarrow> serr (Msg ''an encryption password is required when E2EE is enabled''))"

definition connect ::
  "'w platform \<Rightarrow> rat \<Rightarrow> bytes \<Rightarrow> bytes \<Rightarrow> connection_profile \<Rightarrow> string \<Rightarrow> string option \<Rightarrow> u64 \<Rightarrow> u64 \<Rightarrow> u64 \<Rightarrow>
     ('w, 'w session) sr" where
  "connect P now salt prefix profile secret password interval_ms download_bps upload_bps =
     sbind (connect_backend P profile secret) (\<lambda>B.
     sbind (if cp_e2ee profile
            then sbind (session_keys P salt prefix B password) (\<lambda>k. sret (Some k))
            else sret None) (\<lambda>keys.
     (\<lambda>w. (w, Inr \<lparr>se_keys = keys, se_store = ManifestStore_new 10000, se_profile = profile, se_secret = secret,
           se_backend = B, se_generation = 0, se_reconnect_interval_ms = interval_ms,
           se_download_limiter = RateLimiter_new now download_bps,
           se_upload_limiter = RateLimiter_new now upload_bps, se_object = w\<rparr>))))"

section \<open>Reconnecting\<close>

definition reconnect_delay :: "'w session \<Rightarrow> u64" where
  "reconnect_delay s = max (se_reconnect_interval_ms s) 200"

text \<open>
  The loop of \<open>rebuild\<close>. \<open>cancelled i\<close> is the token at the head of round \<open>i\<close>, \<open>woken i\<close> says that
  it ended the sleep of round \<open>i\<close>; \<open>Trying\<close> after \<open>fuel\<close> rounds.
\<close>

datatype 'b reconnect = Rebuilt 'b | Abandoned | Trying

fun rebuild_loop :: "('w, 'b) sr \<Rightarrow> (nat \<Rightarrow> bool) \<Rightarrow> (nat \<Rightarrow> bool) \<Rightarrow> nat \<Rightarrow> nat \<Rightarrow> 'w \<Rightarrow> 'w \<times> 'b reconnect" where
  "rebuild_loop dial cancelled woken i 0 w = (w, Trying)"
| "rebuild_loop dial cancelled woken i (Suc fuel) w =
     (if cancelled i then (w, Abandoned)
      else case dial w of
        (w', Inr b) \<Rightarrow> (w', Rebuilt b)
      | (w', Inl _) \<Rightarrow> if woken i then (w', Abandoned) else rebuild_loop dial cancelled woken (Suc i) fuel w')"

text \<open>
  The section of \<open>rebuild\<close> under the \<open>reconnect\<close> lock, for a task that read \<open>seen\<close> as the
  generation before it waited for the lock; the events it sends, and whether it returned.
\<close>

record token =
  tk_head :: "nat \<Rightarrow> bool"
  tk_sleep :: "nat \<Rightarrow> bool"
  tk_rounds :: nat

definition rebuild ::
  "'w platform \<Rightarrow> token \<Rightarrow> u64 \<Rightarrow> string \<Rightarrow> 'w session \<times> 'w \<Rightarrow> ('w session \<times> 'w) \<times> event list \<times> bool" where
  "rebuild P T seen reason sw =
     (case sw of (s, w) \<Rightarrow>
        if se_generation s \<noteq> seen then ((s, w), [], True)
        else case rebuild_loop (connect_backend P (se_profile s) (se_secret s)) (tk_head T) (tk_sleep T) 0 (tk_rounds T) w of
          (w', Rebuilt b) \<Rightarrow>
            ((s\<lparr>se_backend := b, se_generation := se_generation s + 1\<rparr>, w'), [Toast reason, Toast ''Reconnected''], True)
        | (w', Abandoned) \<Rightarrow> ((s, w'), [Toast reason], True)
        | (w', Trying) \<Rightarrow> ((s, w'), [Toast reason], False))"

text \<open>\<open>timed_out\<close>: the probe has not answered within 10 seconds.\<close>

definition wait_until_healthy ::
  "'w platform \<Rightarrow> token \<Rightarrow> bool \<Rightarrow> 'w session \<times> 'w \<Rightarrow> ('w session \<times> 'w) \<times> event list \<times> bool" where
  "wait_until_healthy P T timed_out sw =
     (case sw of (s, w) \<Rightarrow>
        (case be_health_check (se_backend s) w of (w', r) \<Rightarrow>
           if \<not> timed_out \<and> is_ok r then ((s, w'), [], True)
           else rebuild P T (se_generation s) ''Connection lost - reconnecting...'' (s, w')))"

definition force_reconnect ::
  "'w platform \<Rightarrow> token \<Rightarrow> 'w session \<times> 'w \<Rightarrow> ('w session \<times> 'w) \<times> event list \<times> bool" where
  "force_reconnect P T sw = rebuild P T (se_generation (fst sw)) ''Transfer stalled - reconnecting...'' sw"

section \<open>The vault\<close>

text \<open>What is relied on of \<open>serde_json\<close> for vault files: it reads what it has written.\<close>

definition vault_json_correct :: "vault_json \<Rightarrow> bool" where
  "vault_json_correct J \<longleftrightarrow> (\<forall>v d. vault_to_vec J v = Some d \<longrightarrow> vault_from_slice J d = Some v)"

text \<open>A store whose vault is an ordinary object.\<close>

locale vault_store = object_store B abs ok
  for B :: "'w backend" and abs :: "'w \<Rightarrow> string \<rightharpoonup> bytes" and ok :: "'w \<Rightarrow> bool" +
  assumes get_vault_law: "be_get_vault B = be_get B VAULT_KEY"
    and put_vault_law: "be_put_vault B = be_put B VAULT_KEY"
begin

lemma session_keys_vault:
  assumes "ok w" "session_keys P salt prefix B (Some pw) w = (w1, Inr k)"
    and "aead_correct (pf_lib P)" "base64_correct (pf_lib P)" "vault_json_correct (pf_vault_json P)" "length prefix = PREFIX_LEN"
  shows "ok w1 \<and> (\<exists>blob vault. abs w1 VAULT_KEY = Some blob \<and> vault_from_slice (pf_vault_json P) blob = Some vault \<and>
    open_vault (pf_lib P) vault pw = Inr k) \<and> pw \<noteq> []"
proof -
  from assms(2) obtain c cs where pw: "pw = c # cs" by (cases pw) (auto simp: session_keys_def serr_def)
  obtain w2 r where g: "be_get B VAULT_KEY w = (w2, r)" by fastforce
  note G = get_law [OF assms(1) object_key_vault g]
  from assms(2) g obtain v where r: "r = Inr v"
    by (cases r) (auto simp: session_keys_def pw get_vault_law sbind_apply)
  show ?thesis
  proof (cases v)
    case (Some blob)
    then obtain vault where "vault_from_slice (pf_vault_json P) blob = Some vault" "open_vault (pf_lib P) vault pw = Inr k" "w1 = w2"
      using assms(2) g r
      by (cases "vault_from_slice (pf_vault_json P) blob") (auto simp: session_keys_def pw get_vault_law sbind_apply slift_def)
    moreover have "abs w2 VAULT_KEY = Some blob" using G r Some by simp
    ultimately show ?thesis using G pw by simp
  next
    case None
    from assms(2) g r None obtain vault keys where c: "create_vault (pf_lib P) pw salt prefix = Inr (vault, keys)"
      by (cases "create_vault (pf_lib P) pw salt prefix") (auto simp: session_keys_def pw get_vault_law sbind_apply slift_def)
    from assms(2) g r None c obtain d where d: "vault_to_vec (pf_vault_json P) vault = Some d"
      by (cases "vault_to_vec (pf_vault_json P) vault") (auto simp: session_keys_def pw get_vault_law sbind_apply slift_def)
    obtain w3 u where p: "be_put B VAULT_KEY d w2 = (w3, u)" by fastforce
    have ok2: "ok w2" using G by blast
    note L = put_law [OF ok2 object_key_vault p]
    have "u = Inr () \<and> w1 = w3 \<and> k = keys"
      using assms(2) g r None c d p by (cases u) (auto simp: session_keys_def pw get_vault_law put_vault_law sbind_apply sctx_apply slift_def sret_def)
    then show ?thesis
      using L d assms(5) create_vault_opens [OF assms(3,4,6) c] pw unfolding vault_json_correct_def by auto
  qed
qed

lemma session_keys_open:
  assumes "ok w" "pw \<noteq> []" "abs w VAULT_KEY = Some blob" "vault_from_slice (pf_vault_json P) blob = Some vault"
    and "be_get_vault B w = (w', Inr v)"
  shows "session_keys P salt prefix B (Some pw) w = (w', open_vault (pf_lib P) vault pw)"
proof -
  have "v = Some blob" using get_law [OF assms(1) object_key_vault, of w' "Inr v"] assms(3,5) by (simp add: get_vault_law)
  then show ?thesis using assms by (cases pw) (auto simp: session_keys_def sbind_apply slift_def)
qed

lemma session_keys_keeps_vault:
  assumes "ok w" "abs w VAULT_KEY = Some blob" "session_keys P salt prefix B password w = (w', r)"
  shows "abs w' = abs w"
proof -
  obtain w2 x where g: "be_get B VAULT_KEY w = (w2, x)" by fastforce
  note G = get_law [OF assms(1) object_key_vault g]
  then have "abs w2 = abs w" "x = Inr v \<Longrightarrow> v = Some blob" for v using assms(2) by auto
  then show ?thesis using assms(3) g
    by (auto simp: session_keys_def get_vault_law sbind_apply slift_def serr_def split: option.splits list.splits sum.splits)
qed

end

interpretation s3_vault: vault_store "s3_backend C fuel bucket" obs "\<lambda>_. s3_get_law C obs \<and> s3_put_law C obs"
  for C :: "'w s3_client" and fuel bucket obs
  by unfold_locales (simp_all add: s3_backend_def)

text \<open>
  Reconnecting with the same password gives the same keys: once a session on S3 has obtained its
  keys, from an existing vault or by creating one, any later connection that reads the vault object
  left there derives exactly these keys, whatever randomness it is given.
\<close>

theorem reconnect_same_keys:
  assumes "s3_get_law C obs" "s3_put_law C obs" "aead_correct (pf_lib P)" "base64_correct (pf_lib P)"
    and "vault_json_correct (pf_vault_json P)" "length prefix = PREFIX_LEN"
    and first: "session_keys P salt prefix (s3_backend C fuel bucket) (Some pw) w = (w1, Inr k)"
    and "obs w2 VAULT_KEY = obs w1 VAULT_KEY" "be_get_vault (s3_backend C fuel bucket) w2 = (w3, Inr v)"
  shows "session_keys P salt' prefix' (s3_backend C fuel bucket) (Some pw) w2 = (w3, Inr k)"
proof -
  from s3_vault.session_keys_vault [OF _ first assms(3-6), of obs] assms(1,2)
  obtain blob vault where "obs w1 VAULT_KEY = Some blob" "vault_from_slice (pf_vault_json P) blob = Some vault"
    "open_vault (pf_lib P) vault pw = Inr k" "pw \<noteq> []" by blast
  then show ?thesis using s3_vault.session_keys_open [of C obs pw w2 blob P vault fuel bucket w3 v salt' prefix'] assms(1,2,8,9) by simp
qed

text \<open>
  Connecting never overwrites a vault and never works without a password: on an S3 store that has
  a vault object no connection attempt, successful or not, changes any object; and an encrypted
  profile with no or an empty password is refused once the backend is reached.
\<close>

theorem connect_keeps_vault:
  assumes "s3_get_law C obs" "s3_put_law C obs" "obs w VAULT_KEY = Some blob"
  shows "obs (fst (session_keys P salt prefix (s3_backend C fuel bucket) password w)) = obs w \<and>
    (password = None \<or> password = Some [] \<longrightarrow>
       snd (session_keys P salt prefix (s3_backend C fuel bucket) password w) =
         Inl (Msg ''an encryption password is required when E2EE is enabled''))"
proof -
  obtain w' r where s: "session_keys P salt prefix (s3_backend C fuel bucket) password w = (w', r)" by fastforce
  from s3_vault.session_keys_keeps_vault [of C obs w blob, OF _ assms(3) s] assms(1,2) have "obs w' = obs w" by blast
  moreover have "password = None \<or> password = Some [] \<longrightarrow>
      r = Inl (Msg ''an encryption password is required when E2EE is enabled'')"
    using s by (auto simp: session_keys_def serr_def)
  ultimately show ?thesis using s by simp
qed

section \<open>Reconnecting once, and until it works\<close>

text \<open>Tasks that found the same generation, in the order in which they get the lock.\<close>

fun run_waiters ::
  "'w platform \<Rightarrow> u64 \<Rightarrow> string \<Rightarrow> token list \<Rightarrow> 'w session \<times> 'w \<Rightarrow> ('w session \<times> 'w) \<times> event list" where
  "run_waiters P seen reason [] sw = (sw, [])"
| "run_waiters P seen reason (T # Ts) sw =
     (case rebuild P T seen reason sw of (sw1, evs, _) \<Rightarrow>
        (case run_waiters P seen reason Ts sw1 of (sw2, evs') \<Rightarrow> (sw2, evs @ evs')))"

lemma run_waiters_done:
  "se_generation s \<noteq> seen \<Longrightarrow> run_waiters P seen reason Ts (s, w) = ((s, w), [])"
  by (induction Ts) (simp_all add: rebuild_def)

text \<open>
  C29. An outage is repaired once: of any number of tasks that noticed it and queue for the reconnect
  lock at most one replaces the backend and announces it; those after it return at once. The
  generation grows by one exactly then, and nothing else of the session changes.
\<close>

theorem one_reconnect_per_outage:
  assumes "run_waiters P (se_generation s) reason Ts (s, w) = ((s', w'), evs)" "reason \<noteq> ''Reconnected''"
  shows "length (filter (\<lambda>e. e = Toast ''Reconnected'') evs) = (if se_generation s' = se_generation s then 0 else 1) \<and>
    s' = s\<lparr>se_backend := se_backend s', se_generation := se_generation s'\<rparr> \<and>
    (se_generation s' = se_generation s \<or> se_generation s' = se_generation s + 1)"
  using assms(1)
proof (induction Ts arbitrary: w evs)
  case (Cons T Ts)
  obtain sw1 evs1 b where r: "rebuild P T (se_generation s) reason (s, w) = (sw1, evs1, b)" by (metis prod_cases3)
  obtain sw2 evs2 where q: "run_waiters P (se_generation s) reason Ts sw1 = (sw2, evs2)" by fastforce
  have e: "sw2 = (s', w')" "evs = evs1 @ evs2" using Cons.prems r q by auto
  obtain w1 out where lp: "rebuild_loop (connect_backend P (se_profile s) (se_secret s)) (tk_head T) (tk_sleep T) 0 (tk_rounds T) w = (w1, out)"
    by fastforce
  show ?case
  proof (cases out)
    case (Rebuilt B)
    then have "sw1 = (s\<lparr>se_backend := B, se_generation := se_generation s + 1\<rparr>, w1)" "evs1 = [Toast reason, Toast ''Reconnected'']"
      using r lp by (auto simp: rebuild_def)
    then show ?thesis using q e assms(2) by (auto simp: run_waiters_done)
  next
    case Abandoned
    then have "sw1 = (s, w1)" "evs1 = [Toast reason]" using r lp by (auto simp: rebuild_def)
    then show ?thesis using Cons.IH [of w1 evs2] q e assms(2) by simp
  next
    case Trying
    then have "sw1 = (s, w1)" "evs1 = [Toast reason]" using r lp by (auto simp: rebuild_def)
    then show ?thesis using Cons.IH [of w1 evs2] q e assms(2) by simp
  qed
qed simp

text \<open>The remote state after \<open>n\<close> failed attempts.\<close>

fun after_failures :: "('w, 'b) sr \<Rightarrow> nat \<Rightarrow> 'w \<Rightarrow> 'w option" where
  "after_failures dial 0 w = Some w"
| "after_failures dial (Suc n) w = (case dial w of (w', Inl _) \<Rightarrow> after_failures dial n w' | (w', Inr _) \<Rightarrow> None)"

lemma rebuild_loop_returns:
  "after_failures dial n w = Some w1 \<Longrightarrow> dial w1 = (w2, Inr b) \<Longrightarrow> n < fuel \<Longrightarrow>
     (\<And>j. \<not> cancelled j \<and> \<not> woken j) \<Longrightarrow> rebuild_loop dial cancelled woken i fuel w = (w2, Rebuilt b)"
proof (induction n arbitrary: w i fuel)
  case 0
  then show ?case by (cases fuel) simp_all
next
  case (Suc n)
  then show ?case by (cases fuel) (auto split: prod.splits sum.splits)
qed

text \<open>
  Without a cancellation a reconnection goes on until it works: however many attempts fail, the
  first that succeeds ends it; the session then has the new backend, the next generation, and the
  user is told.
\<close>

theorem reconnect_persists:
  assumes "be_health_check (se_backend s) w = (w0, r)" "timed_out \<or> \<not> is_ok r"
    and "after_failures (connect_backend P (se_profile s) (se_secret s)) n w0 = Some w1"
    and "connect_backend P (se_profile s) (se_secret s) w1 = (w2, Inr B)"
    and "n < tk_rounds T" "\<And>j. \<not> tk_head T j \<and> \<not> tk_sleep T j"
  shows "wait_until_healthy P T timed_out (s, w) =
    ((s\<lparr>se_backend := B, se_generation := se_generation s + 1\<rparr>, w2),
     [Toast ''Connection lost - reconnecting...'', Toast ''Reconnected''], True)"
proof -
  have "rebuild_loop (connect_backend P (se_profile s) (se_secret s)) (tk_head T) (tk_sleep T) 0 (tk_rounds T) w0 = (w2, Rebuilt B)"
    by (rule rebuild_loop_returns [OF assms(3-6)])
  then show ?thesis using assms(1,2) by (auto simp: wait_until_healthy_def rebuild_def)
qed

section \<open>Instances\<close>

definition flaky_client :: "mem s3_client" where
  "flaky_client = mem_client\<lparr>c_head_bucket := \<lambda>w. case mem_parts w of
     [] \<Rightarrow> (w, Inr ()) | p # ps \<Rightarrow> (w\<lparr>mem_parts := ps\<rparr>, Inl (Msg ''timeout''))\<rparr>"

definition sample_platform :: "mem platform" where
  "sample_platform = \<lparr>pf_lib = ref_lib, pf_json = ref_json,
     pf_vault_json = \<lparr>vault_to_vec = \<lambda>v. if CHR ''|'' \<in> set (vf_salt v) \<or> vf_version v \<noteq> 1 then None
         else Some (as_bytes (vf_salt v @ CHR ''|'' # vf_canary v)),
       vault_from_slice = \<lambda>d. let t = map (\<lambda>b. char_of (unat b)) d in
         Some \<lparr>vf_version = 1, vf_salt = takeWhile (\<lambda>c. c \<noteq> CHR ''|'') t,
               vf_canary = tl (dropWhile (\<lambda>c. c \<noteq> CHR ''|'') t)\<rparr>\<rparr>,
     pf_connectors = \<lparr>co_s3 = \<lambda>_ _ _ _. flaky_client, co_sftp = \<lambda>_ _. serr (Msg ''no route''),
       co_nfs = \<lambda>_. serr (Msg ''no route''), co_smb = \<lambda>_ _. serr (Msg ''no route'')\<rparr>,
     pf_lower = id, pf_prefix = \<lambda>_. ref_prefix, pf_salt = \<lambda>_. replicate 16 1, pf_fuel = 1\<rparr>"

lemma sample_vault_json: "vault_json_correct (pf_vault_json sample_platform)"
proof -
  have "map (\<lambda>b. char_of (unat b)) (as_bytes t) = t" for t
    by (simp add: as_bytes_def char_of_unat_of_char comp_def)
  then show ?thesis
    by (auto simp: vault_json_correct_def sample_platform_def Let_def takeWhile_append dropWhile_append
        split: if_splits intro!: vault_file.equality)
qed

lemma sample_platform_simps [simp]:
  "pf_lib sample_platform = ref_lib" "pf_fuel sample_platform = 1"
  "co_s3 (pf_connectors sample_platform) a b c d = flaky_client"
  "pf_prefix sample_platform n = ref_prefix" "pf_salt sample_platform n = replicate 16 1"
  by (simp_all add: sample_platform_def)

lemma mem_vault:
  "be_get_vault (s3_backend mem_client fuel ''b'') w = (w, Inr (mem_obs w VAULT_KEY))"
  "be_put_vault (s3_backend mem_client fuel ''b'') d w = (mem_store VAULT_KEY d w, Inr ())"
  by (simp_all add: s3_backend_def s3_get_def s3_put_def mem_client_def mem_get_def collect_body_def sctx_apply
      split: option.splits)

text \<open>The first connection to an empty bucket.\<close>

lemma first_connection:
  "\<exists>w k. session_keys sample_platform (replicate 16 1) ref_prefix (s3_backend mem_client 1 ''b'') (Some ''pw'') \<lparr>mem_objs = [], mem_parts = []\<rparr> = (w, Inr k)"
proof -
  obtain k c where v: "create_vault ref_lib ''pw'' (replicate 16 1) ref_prefix =
      Inr (\<lparr>vf_version = 1, vf_salt = hex_upper (replicate 16 1), vf_canary = hex_upper c\<rparr>, k)"
    using create_vault_total [OF ref_aead_total ref_kdf_total, of "replicate 16 1" ref_prefix "''pw''"] length_ref_prefix by auto
  have "CHR ''|'' \<notin> set (hex_upper (replicate 16 1))"
  proof -
    have "CHR ''|'' \<noteq> char_of (48 :: nat)" "CHR ''|'' \<noteq> char_of (49 :: nat)" by code_simp+
    then show ?thesis by (auto simp: hex_upper_def hex_digit_def)
  qed
  then show ?thesis
    using v by (simp add: session_keys_def mem_vault sbind_apply slift_def sret_def sctx_apply mem_obs_def sample_platform_def)
qed

theorem reconnect_same_keys_witness:
  "\<exists>w1 k. session_keys sample_platform (replicate 16 1) ref_prefix (s3_backend mem_client 1 ''b'') (Some ''pw'')
      \<lparr>mem_objs = [], mem_parts = []\<rparr> = (w1, Inr k) \<and>
    session_keys sample_platform [] [] (s3_backend mem_client 1 ''b'') (Some ''pw'') w1 = (w1, Inr k)"
proof -
  obtain w1 k where f: "session_keys sample_platform (replicate 16 1) ref_prefix (s3_backend mem_client 1 ''b'') (Some ''pw'')
      \<lparr>mem_objs = [], mem_parts = []\<rparr> = (w1, Inr k)" using first_connection by blast
  from reconnect_same_keys [OF mem_get_law mem_put_law _ _ sample_vault_json length_ref_prefix f refl mem_vault(1)]
  have "session_keys sample_platform [] [] (s3_backend mem_client 1 ''b'') (Some ''pw'') w1 = (w1, Inr k)"
    by (simp add: ref_lib_laws)
  with f show ?thesis by blast
qed

theorem connect_keeps_vault_witness:
  "mem_obs (fst (session_keys sample_platform [] [] (s3_backend mem_client 1 ''b'') (Some [])
      \<lparr>mem_objs = [(VAULT_KEY, [7])], mem_parts = []\<rparr>)) VAULT_KEY = Some [7]"
proof -
  have "mem_obs \<lparr>mem_objs = [(VAULT_KEY, [7])], mem_parts = []\<rparr> VAULT_KEY = Some [7]" by (simp add: mem_obs_def)
  from connect_keeps_vault [OF mem_get_law mem_put_law this, of sample_platform "[]" "[]" 1 "''b''" "Some []"] this
  show ?thesis by simp
qed

definition sample_session :: "mem session" where
  "sample_session = \<lparr>se_keys = None, se_store = ManifestStore_new 10000,
     se_profile = ConnectionProfile_default\<lparr>cp_bucket := ''b''\<rparr>, se_secret = ''s'',
     se_backend = s3_backend flaky_client 1 ''b'', se_generation = 4, se_reconnect_interval_ms = 1000,
     se_download_limiter = RateLimiter_new 0 0, se_upload_limiter = RateLimiter_new 0 0,
     se_object = \<lparr>mem_objs = [], mem_parts = []\<rparr>\<rparr>"

definition patient :: token where
  "patient = \<lparr>tk_head = \<lambda>_. False, tk_sleep = \<lambda>_. False, tk_rounds = 5\<rparr>"

definition outage :: mem where
  "outage = \<lparr>mem_objs = [], mem_parts = [(1, []), (2, []), (3, [])]\<rparr>"

lemma sample_dial:
  "connect_backend sample_platform (se_profile sample_session) (se_secret sample_session) w =
     (case mem_parts w of
        [] \<Rightarrow> (w, Inr (s3_backend flaky_client 1 ''b''))
      | p # ps \<Rightarrow> (w\<lparr>mem_parts := ps\<rparr>, Inl (Ctx (''cannot access bucket b - check endpoint, credentials and bucket name'') (Msg ''timeout''))))"
  by (auto simp: connect_backend_def sample_session_def ConnectionProfile_default_def s3_connect_def sbind_apply sctx_apply
      flaky_client_def sret_def split: list.splits)

theorem reconnect_persists_witness:
  "wait_until_healthy sample_platform patient False (sample_session, outage) =
    ((sample_session\<lparr>se_backend := s3_backend flaky_client 1 ''b'', se_generation := se_generation sample_session + 1\<rparr>,
      \<lparr>mem_objs = [], mem_parts = []\<rparr>),
     [Toast ''Connection lost - reconnecting...'', Toast ''Reconnected''], True)"
proof -
  let ?w0 = "\<lparr>mem_objs = [], mem_parts = [(2, []), (3, [])]\<rparr>" and ?w2 = "\<lparr>mem_objs = [], mem_parts = []\<rparr>"
  let ?dial = "connect_backend sample_platform (se_profile sample_session) (se_secret sample_session)"
  have h: "be_health_check (se_backend sample_session) outage = (?w0, Inl (Msg ''timeout''))"
    by (simp add: sample_session_def s3_backend_def flaky_client_def outage_def)
  have f: "after_failures ?dial 2 ?w0 = Some ?w2" by (simp add: sample_dial numeral_2_eq_2)
  have d: "?dial ?w2 = (?w2, Inr (s3_backend flaky_client 1 ''b''))" by (simp add: sample_dial)
  show ?thesis by (rule reconnect_persists [OF h _ f d]) (simp_all add: patient_def)
qed

theorem one_reconnect_per_outage_witness:
  "\<exists>s' w' evs. run_waiters sample_platform 4 ''lost'' [patient, patient] (sample_session, outage) = ((s', w'), evs) \<and>
    length (filter (\<lambda>e. e = Toast ''Reconnected'') evs) = (if se_generation s' = 4 then 0 else 1)"
proof -
  obtain s' w' evs where r: "run_waiters sample_platform (se_generation sample_session) ''lost'' [patient, patient]
      (sample_session, outage) = ((s', w'), evs)" by (metis prod.exhaust)
  have "se_generation sample_session = 4" by (simp add: sample_session_def)
  with one_reconnect_per_outage [OF r] r show ?thesis by auto
qed

end
