(* ===== verification/Dispatch.thy ===== *)
theory Dispatch
  imports Session Operations_Correct
begin

text \<open>
  The dispatcher (\<open>worker.rs\<close>: \<open>dispatch\<close>, \<open>spawn_flush_timer\<close>) and the tasks it spawns. Handling a
  command changes the state at once and may add tasks; a pending task may run at any later moment, in any
  order, between any other commands (\<open>app_step\<close>). A task runs from its start to its end in one
  step; the finer interleavings inside the shared buffer and the shared batch are the subject of
  \<open>ManifestStore\<close> and \<open>TransferHub\<close>. Every session ever connected stays in a list, as tasks and
  timers that outlive it still hold it.
\<close>

section \<open>Commands, tasks, state\<close>

datatype command =
    Connect connection_profile string "string option"
  | Disconnect
  | List string
  | Upload "string list list" string
  | CreateFolder string string
  | Download "remote_entry list" "string list"
  | Delete "remote_entry list"
  | Move "remote_entry list" string
  | Rename string bool string string bool
  | CalculateSize string string bool
  | FolderInfo string string
  | CancelTransfers
  | CancelFile u64
  | SetSettings settings

datatype task =
    TList nat string
  | TUpload nat "string list list" string settings
  | TDownload nat "remote_entry list" "string list" settings
  | TCreateFolder nat string string
  | TDelete nat "remote_entry list"
  | TMove nat "remote_entry list" string
  | TRename nat string bool string string bool
  | TCalculateSize nat string string bool
  | TFolderInfo nat string string
  | TUploadFile nat settings u64 "string list" string string u64
  | TFlushUploads nat "u64 list"
  | TDownloadFile nat settings u64 target "string list"
  | TFinalFlush nat

record 'w app =
  ap_sessions :: "'w session list"
  ap_session :: "nat option"
  ap_timer :: "nat option"
  ap_settings :: settings
  ap_hub :: hub
  ap_tasks :: "task list"
  ap_lost :: nat
  ap_world :: 'w
  ap_disk :: "string list \<rightharpoonup> bytes"
  ap_now :: nat
  ap_rng :: nat

text \<open>
  What the machine around the program does during one step: the local files, how the network
  treats a transfer, whether a probe times out, how long a reconnection is pursued, the clock.
\<close>

record 'w host =
  ho_fs :: "string list \<Rightarrow> local_node option"
  ho_file :: "string list \<Rightarrow> local_file"
  ho_faults :: "'w faults"
  ho_dl_faults :: "'w dl_faults"
  ho_timed_out :: bool
  ho_rounds :: nat
  ho_now_ms :: i64

section \<open>Running an operation of a session\<close>

definition session_env :: "'w platform \<Rightarrow> 'w session \<Rightarrow> 'w env" where
  "session_env P s = \<lparr>ev_lib = pf_lib P, ev_json = pf_json P, ev_backend = se_backend s, ev_rnd = pf_prefix P\<rparr>"

text \<open>What an operation of the session works on: the shared state with the tables of the session's own backend object.\<close>

definition session_world :: "'w session \<Rightarrow> 'w app \<Rightarrow> 'w" where
  "session_world s st = be_tables (se_backend s) (se_object s) (ap_world st)"

definition session_ctx :: "'w session \<Rightarrow> 'w app \<Rightarrow> 'w ctx" where
  "session_ctx s st = \<lparr>cx_store = se_store s, cx_world = session_world s st, cx_now = ap_now st, cx_rng = ap_rng st\<rparr>"

definition put_ctx :: "nat \<Rightarrow> 'w ctx \<Rightarrow> 'w app \<Rightarrow> 'w app" where
  "put_ctx i c st =
     st\<lparr>ap_sessions := (ap_sessions st)[i := (ap_sessions st ! i)\<lparr>se_store := cx_store c, se_object := cx_world c\<rparr>],
     ap_world := cx_world c, ap_rng := cx_rng c\<rparr>"

definition run_op ::
  "'w platform \<Rightarrow> nat \<Rightarrow> ('w session \<Rightarrow> 'w env \<Rightarrow> ('w ctx, 'a) sr) \<Rightarrow> ('w app, 'a) sr" where
  "run_op P i f st =
     (let s = ap_sessions st ! i in
      case f s (session_env P s) (session_ctx s st) of (c, r) \<Rightarrow> (put_ctx i c st, r))"

definition app_send :: "event \<Rightarrow> 'w app \<Rightarrow> 'w app" where
  "app_send e st = st\<lparr>ap_hub := send e (ap_hub st)\<rparr>"

text \<open>\<open>wait_until_healthy\<close> with a token that nobody cancels.\<close>

definition heal :: "'w platform \<Rightarrow> 'w host \<Rightarrow> nat \<Rightarrow> 'w app \<Rightarrow> 'w app \<times> bool" where
  "heal P H i st =
     (case wait_until_healthy P \<lparr>tk_head = \<lambda>_. False, tk_sleep = \<lambda>_. False, tk_rounds = ho_rounds H\<rparr>
        (ho_timed_out H) (ap_sessions st ! i, session_world (ap_sessions st ! i) st) of
        ((s, w), evs, returned) \<Rightarrow>
          (fold app_send evs (st\<lparr>ap_sessions := (ap_sessions st)[i := s\<lparr>se_object := w\<rparr>], ap_world := w\<rparr>), returned))"

text \<open>The common shape of the spawned operations: on an error heal the session and retry once.\<close>

definition heal_retry ::
  "'w platform \<Rightarrow> 'w host \<Rightarrow> nat \<Rightarrow> ('w session \<Rightarrow> 'w env \<Rightarrow> ('w ctx, 'a) sr) \<Rightarrow> ('w app, 'a) sr" where
  "heal_retry P H i f st =
     (case run_op P i f st of
        (st1, Inr x) \<Rightarrow> (st1, Inr x)
      | (st1, Inl e) \<Rightarrow>
          if lost e then (st1, Inl e)
          else (case heal P H i st1 of
              (st2, True) \<Rightarrow> run_op P i f st2
            | (st2, False) \<Rightarrow> (st2, Inl Hang)))"

definition report :: "('a \<Rightarrow> event list) \<Rightarrow> (error \<Rightarrow> event) \<Rightarrow> 'w app \<times> 'a result \<Rightarrow> 'w app" where
  "report yes no sr =
     (case sr of
        (st, Inr x) \<Rightarrow> fold app_send (yes x) st
      | (st, Inl e) \<Rightarrow> if lost e then st else app_send (no e) st)"

section \<open>Commands\<close>

definition profile_label :: "connection_profile \<Rightarrow> string" where
  "profile_label p =
     (case cp_kind p of
        backend_kind.S3 \<Rightarrow> cp_bucket p
      | Sftp \<Rightarrow> cp_username p @ ''@'' @ cp_host p
      | Nfs \<Rightarrow> cp_host p @ '':'' @ cp_root_path p
      | Smb \<Rightarrow> cp_host p @ ''/'' @ cp_share p)"

definition push_task :: "task \<Rightarrow> 'w app \<Rightarrow> 'w app" where
  "push_task t st = st\<lparr>ap_tasks := ap_tasks st @ [t]\<rparr>"

text \<open>\<open>if let Some(t) = manifest_timer.take() \<lbrace> t.cancel(); \<rbrace>\<close>: the timer's task makes its final flush.\<close>

definition stop_timer :: "'w app \<Rightarrow> 'w app" where
  "stop_timer st =
     (case ap_timer st of
        None \<Rightarrow> st
      | Some i \<Rightarrow> push_task (TFinalFlush i) (st\<lparr>ap_timer := None\<rparr>))"

definition apply_settings :: "settings \<Rightarrow> 'w session \<Rightarrow> 'w session" where
  "apply_settings c s = s\<lparr>
     se_reconnect_interval_ms := max (reconnect_interval_secs c) 1 * 1000,
     se_store := set_interval (max (manifest_flush_secs c) 1 * 1000) (se_store s),
     se_download_limiter := set_rate (mbps_to_bps (max_download_mbps c)) (se_download_limiter s),
     se_upload_limiter := set_rate (mbps_to_bps (max_upload_mbps c)) (se_upload_limiter s)\<rparr>"

definition handle_connect :: "'w platform \<Rightarrow> connection_profile \<Rightarrow> string \<Rightarrow> string option \<Rightarrow> 'w app \<Rightarrow> 'w app" where
  "handle_connect P profile secret password st =
     (let c = ap_settings st in
      case connect P (of_nat (ap_now st)) (pf_salt P (ap_rng st)) (pf_prefix P (ap_rng st)) profile secret password
          (max (reconnect_interval_secs c) 1 * 1000) (mbps_to_bps (max_download_mbps c)) (mbps_to_bps (max_upload_mbps c))
          (ap_world st) of
        (w, Inr s) \<Rightarrow>
          let st1 = stop_timer (st\<lparr>ap_world := w, ap_rng := Suc (ap_rng st)\<rparr>);
              i = length (ap_sessions st1)
          in app_send (Connected (profile_label profile) (se_keys s \<noteq> None))
               (st1\<lparr>ap_sessions := ap_sessions st1 @ [s], ap_session := Some i, ap_timer := Some i\<rparr>)
      | (w, Inl e) \<Rightarrow>
          app_send (ConnectFailed e) (st\<lparr>ap_world := w, ap_rng := Suc (ap_rng st)\<rparr>))"

definition spawn_for :: "(nat \<Rightarrow> task) \<Rightarrow> 'w app \<Rightarrow> 'w app" where
  "spawn_for t st = (case ap_session st of None \<Rightarrow> st | Some i \<Rightarrow> push_task (t i) st)"

fun handle_command :: "'w platform \<Rightarrow> command \<Rightarrow> 'w app \<Rightarrow> 'w app" where
  "handle_command P (SetSettings c) st =
     (case ap_session st of
        None \<Rightarrow> st
      | Some i \<Rightarrow> st\<lparr>ap_sessions := (ap_sessions st)[i := apply_settings c (ap_sessions st ! i)]\<rparr>)\<lparr>ap_settings := c\<rparr>"
| "handle_command P Disconnect st =
     (stop_timer st)\<lparr>ap_hub := cancel_all (ap_hub st), ap_session := None\<rparr>"
| "handle_command P CancelTransfers st = st\<lparr>ap_hub := cancel_all (ap_hub st)\<rparr>"
| "handle_command P (CancelFile i) st = st\<lparr>ap_hub := cancel_file i (ap_hub st)\<rparr>"
| "handle_command P (Connect profile secret password) st = handle_connect P profile secret password st"
| "handle_command P (List prefix) st = spawn_for (\<lambda>i. TList i prefix) st"
| "handle_command P (Upload paths dest) st = spawn_for (\<lambda>i. TUpload i paths dest (ap_settings st)) st"
| "handle_command P (Download items dest) st = spawn_for (\<lambda>i. TDownload i items dest (ap_settings st)) st"
| "handle_command P (CreateFolder prefix name) st = spawn_for (\<lambda>i. TCreateFolder i prefix name) st"
| "handle_command P (Delete items) st = spawn_for (\<lambda>i. TDelete i items) st"
| "handle_command P (Move items dest) st = spawn_for (\<lambda>i. TMove i items dest) st"
| "handle_command P (Rename key is_dir old new encrypted) st = spawn_for (\<lambda>i. TRename i key is_dir old new encrypted) st"
| "handle_command P (CalculateSize key name encrypted) st = spawn_for (\<lambda>i. TCalculateSize i key name encrypted) st"
| "handle_command P (FolderInfo key name) st = spawn_for (\<lambda>i. TFolderInfo i key name) st"

section \<open>Tasks\<close>

text \<open>\<open>run_upload\<close>: admit the files, spawn their tasks, and a flush once they have all ended.\<close>

definition start_upload :: "'w host \<Rightarrow> nat \<Rightarrow> string list list \<Rightarrow> string \<Rightarrow> settings \<Rightarrow> 'w app \<Rightarrow> 'w app" where
  "start_upload H i paths dest c st =
     (let encrypted = se_keys (ap_sessions st ! i) \<noteq> None in
      case run_upload (ap_now st) c encrypted (map (\<lambda>p. (p, ho_fs H p)) paths) (ap_hub st) of
        (h, items) \<Rightarrow>
          st\<lparr>ap_hub := h, ap_tasks := ap_tasks st @
             map (\<lambda>(n, path, rel, sz). TUploadFile i c n path dest rel sz) items @
             (if encrypted \<and> items \<noteq> [] then [TFlushUploads i (map fst items)] else [])\<rparr>)"

text \<open>The first part of \<open>run_download\<close>: expand the folders, healing and retrying each once.\<close>

fun collect_targets ::
  "'w platform \<Rightarrow> 'w host \<Rightarrow> nat \<Rightarrow> remote_entry list \<Rightarrow> 'w app \<Rightarrow> 'w app \<times> target list option" where
  "collect_targets P H i [] st = (st, Some [])"
| "collect_targets P H i (item # items) st =
     (if re_is_dir item
      then (case heal_retry P H i (\<lambda>s E. expand_folder (pf_fuel P) E (se_keys s) item) st of
          (st1, Inr ts) \<Rightarrow> map_prod id (map_option (\<lambda>us. ts @ us)) (collect_targets P H i items st1)
        | (st1, Inl e) \<Rightarrow>
            if lost e then (st1, None)
            else collect_targets P H i items (app_send (ToastErr (''Listing '' @ re_name item @ '' failed'') e) st1))
      else map_prod id (map_option (\<lambda>us. (re_key item, re_name item, re_size item) # us)) (collect_targets P H i items st))"

definition start_download ::
  "'w platform \<Rightarrow> 'w host \<Rightarrow> nat \<Rightarrow> remote_entry list \<Rightarrow> string list \<Rightarrow> settings \<Rightarrow> 'w app \<Rightarrow> 'w app" where
  "start_download P H i items dest c st =
     (case collect_targets P H i items st of
        (st1, None) \<Rightarrow> st1
      | (st1, Some []) \<Rightarrow> app_send (Toast ''Nothing to download'') st1
      | (st1, Some targets) \<Rightarrow>
          (case assign_ids (ap_hub st1) targets of
             (h, xs) \<Rightarrow>
               st1\<lparr>ap_hub := admit_roster (ap_now st1) c (download_roster xs) h,
                   ap_tasks := ap_tasks st1 @ map (\<lambda>(n, t). TDownloadFile i c n t dest) xs\<rparr>))"

text \<open>How a file's task ends: a task that is lost never reaches \<open>task_done\<close>.\<close>

definition end_file :: "transfer_kind \<Rightarrow> u64 \<Rightarrow> string \<Rightarrow> outcome \<Rightarrow> 'w app \<Rightarrow> 'w app" where
  "end_file kind n rel out st =
     (if (case out of Failed e \<Rightarrow> lost e | _ \<Rightarrow> False) then st\<lparr>ap_lost := Suc (ap_lost st)\<rparr>
      else st\<lparr>ap_hub := finish_task kind n rel out (ap_hub st)\<rparr>)"

definition upload_file_task ::
  "'w platform \<Rightarrow> 'w host \<Rightarrow> nat \<Rightarrow> settings \<Rightarrow> u64 \<Rightarrow> string list \<Rightarrow> string \<Rightarrow> string \<Rightarrow> u64 \<Rightarrow> 'w app \<Rightarrow> 'w app" where
  "upload_file_task P H i c n path dest rel sz st =
     (let s = ap_sessions st ! i in
      case upload_task (session_env P s) (se_keys s) c (Some (rl_rate (se_upload_limiter s))) (unat (reconnect_delay s))
          (ho_faults H) (file_cancelled n (ap_hub st)) (ho_file H path) dest rel sz (session_ctx s st) of
        (ctx, out) \<Rightarrow> end_file transfer_kind.Upload n rel out (put_ctx i ctx st))"

definition download_file_task ::
  "'w platform \<Rightarrow> 'w host \<Rightarrow> nat \<Rightarrow> settings \<Rightarrow> u64 \<Rightarrow> target \<Rightarrow> string list \<Rightarrow> 'w app \<Rightarrow> 'w app" where
  "download_file_task P H i c n t dest st =
     (case t of (key, rel, sz) \<Rightarrow>
        if file_cancelled n (ap_hub st) then end_file transfer_kind.Download n rel Skipped st
        else let s = ap_sessions st ! i in
          case download_task (pf_lib P) (se_backend s) (se_keys s) c (ho_dl_faults H) key rel sz dest
              \<lparr>dl_world = session_world s st, dl_disk = ap_disk st\<rparr> of
            (d, res) \<Rightarrow>
              end_file transfer_kind.Download n rel (case res of Inr u \<Rightarrow> Succeeded | Inl e \<Rightarrow> Failed e)
                (st\<lparr>ap_sessions := (ap_sessions st)[i := s\<lparr>se_object := dl_world d\<rparr>], ap_world := dl_world d,
                   ap_disk := dl_disk d\<rparr>))"

text \<open>A flush whose result is dropped; sessions without keys have no manifests.\<close>

definition flush_session :: "'w platform \<Rightarrow> flush_reason \<Rightarrow> nat \<Rightarrow> 'w app \<Rightarrow> 'w app" where
  "flush_session P reason i st =
     (case se_keys (ap_sessions st ! i) of
        None \<Rightarrow> st
      | Some k \<Rightarrow> fst (run_op P i (\<lambda>s E. flush E k reason) st))"

fun run_task :: "'w platform \<Rightarrow> 'w host \<Rightarrow> task \<Rightarrow> 'w app \<Rightarrow> 'w app" where
  "run_task P H (TList i prefix) st =
     report (\<lambda>(entries, evs). evs @ [Listed prefix entries]) ListFailed
       (heal_retry P H i (\<lambda>s E. list_dir (pf_lower P) E (se_keys s) prefix) st)"
| "run_task P H (TUpload i paths dest c) st = start_upload H i paths dest c st"
| "run_task P H (TDownload i items dest c) st = start_download P H i items dest c st"
| "run_task P H (TCreateFolder i prefix name) st =
     report (\<lambda>_. [FolderCreated]) (ToastErr ''Creating folder failed'')
       (heal_retry P H i (\<lambda>s E. create_folder E (se_keys s) (cp_kind (se_profile s)) prefix name) st)"
| "run_task P H (TDelete i items) st =
     report (\<lambda>n. [Deleted n]) (ToastErr ''Delete failed'')
       (heal_retry P H i (\<lambda>s E. run_delete E (se_keys s) items) st)"
| "run_task P H (TMove i items dest) st =
     report (\<lambda>n. [Moved n]) (ToastErr ''Move failed'')
       (heal_retry P H i (\<lambda>s E. run_move E (se_keys s) items dest) st)"
| "run_task P H (TRename i key is_dir old new encrypted) st =
     report (\<lambda>_. [Renamed]) (ToastErr ''Rename failed'')
       (heal_retry P H i (\<lambda>s E. run_rename E (se_keys s) key is_dir old new encrypted) st)"
| "run_task P H (TCalculateSize i key name encrypted) st =
     report (\<lambda>(p, e). [SizeCalculated p e]) (ToastErr (''Size calculation for '' @ [CHR 0x22] @ name @ [CHR 0x22] @ '' failed''))
       (heal_retry P H i (\<lambda>s E. run_calculate_size E (se_keys s) (ho_now_ms H) key name encrypted) st)"
| "run_task P H (TFolderInfo i key name) st =
     report (\<lambda>info. [FolderInfoEv info]) (ToastErr ''Reading folder info failed'')
       (heal_retry P H i (\<lambda>s E. collect_folder_info (pf_fuel P) E (se_keys s) key name) st)"
| "run_task P H (TUploadFile i c n path dest rel sz) st = upload_file_task P H i c n path dest rel sz st"
| "run_task P H (TFlushUploads i ids) st = flush_session P Forced i st"
| "run_task P H (TDownloadFile i c n t dest) st = download_file_task P H i c n t dest st"
| "run_task P H (TFinalFlush i) st = flush_session P Forced i st"

text \<open>The flush after an upload waits for the tasks of its files.\<close>

fun waits_for :: "task \<Rightarrow> task \<Rightarrow> bool" where
  "waits_for (TFlushUploads i ids) (TUploadFile j c n path dest rel sz) = (n \<in> set ids)"
| "waits_for t u = False"

definition take_task :: "nat \<Rightarrow> 'w app \<Rightarrow> 'w app" where
  "take_task k st = st\<lparr>ap_tasks := take k (ap_tasks st) @ drop (Suc k) (ap_tasks st)\<rparr>"

inductive app_step :: "'w platform \<Rightarrow> 'w app \<Rightarrow> 'w app \<Rightarrow> bool" for P where
  recv_command: "app_step P st (handle_command P c st)"
| poll_task: "k < length (ap_tasks st) \<Longrightarrow> list_all (\<lambda>u. \<not> waits_for (ap_tasks st ! k) u) (ap_tasks st) \<Longrightarrow>
    app_step P st (run_task P H (ap_tasks st ! k) (take_task k st))"
| timer_fires: "ap_timer st = Some i \<Longrightarrow> app_step P st (flush_session P Timer i st)"
| time_passes: "ap_now st \<le> t \<Longrightarrow> app_step P st (st\<lparr>ap_now := t\<rparr>)"

definition dispatch_init :: "settings \<Rightarrow> 'w \<Rightarrow> (string list \<rightharpoonup> bytes) \<Rightarrow> nat \<Rightarrow> 'w app" where
  "dispatch_init c w disk now = \<lparr>ap_sessions = [], ap_session = None, ap_timer = None, ap_settings = c,
     ap_hub = TransferHub_new now, ap_tasks = [], ap_lost = 0, ap_world = w, ap_disk = disk, ap_now = now, ap_rng = 0\<rparr>"

inductive_cases app_step_cases: "app_step P st st'"

section \<open>The invariant\<close>

fun task_session :: "task \<Rightarrow> nat" where
  "task_session (TList i prefix) = i"
| "task_session (TUpload i paths dest c) = i"
| "task_session (TDownload i items local_dest c) = i"
| "task_session (TCreateFolder i prefix name) = i"
| "task_session (TDelete i items) = i"
| "task_session (TMove i items dest) = i"
| "task_session (TRename i key is_dir old new encrypted) = i"
| "task_session (TCalculateSize i key name encrypted) = i"
| "task_session (TFolderInfo i key name) = i"
| "task_session (TUploadFile i c n path dest rel sz) = i"
| "task_session (TFlushUploads i ids) = i"
| "task_session (TDownloadFile i c n t local_dest) = i"
| "task_session (TFinalFlush i) = i"

fun is_file_task :: "task \<Rightarrow> bool" where
  "is_file_task (TUploadFile i c n path dest rel sz) = True"
| "is_file_task (TDownloadFile i c n t dest) = True"
| "is_file_task _ = False"

text \<open>\<open>running\<close> is the number of file tasks that have left the list and not ended yet.\<close>

definition app_inv :: "nat \<Rightarrow> 'w app \<Rightarrow> bool" where
  "app_inv running st \<longleftrightarrow> ap_timer st = ap_session st \<and>
     (\<forall>i. ap_session st = Some i \<longrightarrow> i < length (ap_sessions st)) \<and>
     list_all (\<lambda>t. task_session t < length (ap_sessions st)) (ap_tasks st) \<and>
     hub_ok (ap_hub st) \<and>
     hb_outstanding (ap_hub st) = length (filter is_file_task (ap_tasks st)) + ap_lost st + running"

text \<open>What no operation changes of a session.\<close>

definition session_id :: "'w session \<Rightarrow> vault_keys option \<times> connection_profile \<times> string" where
  "session_id s = (se_keys s, se_profile s, se_secret s)"

definition neutral :: "event \<Rightarrow> bool" where
  "neutral e \<longleftrightarrow> \<not> is_started e \<and> \<not> is_finished e"

text \<open>Operations of session \<open>i\<close> change its buffer and connection, the remote side, and send messages; nothing else.\<close>

definition calm :: "nat \<Rightarrow> 'w app \<Rightarrow> 'w app \<Rightarrow> bool" where
  "calm i st st' \<longleftrightarrow> ap_tasks st' = ap_tasks st \<and> ap_lost st' = ap_lost st \<and> ap_session st' = ap_session st \<and>
     ap_timer st' = ap_timer st \<and> ap_settings st' = ap_settings st \<and>
     map session_id (ap_sessions st') = map session_id (ap_sessions st) \<and>
     (\<forall>j. j \<noteq> i \<longrightarrow> ap_sessions st' ! j = ap_sessions st ! j) \<and>
     (\<exists>evs. list_all neutral evs \<and> ap_hub st' = fold send evs (ap_hub st))"

lemma calm_refl [simp, intro]: "calm i st st"
  by (auto simp: calm_def intro: exI [of _ "[]"])

lemma calm_trans: "calm i a b \<Longrightarrow> calm i b c \<Longrightarrow> calm i a c"
proof -
  assume ab: "calm i a b" and bc: "calm i b c"
  from ab obtain x where x: "list_all neutral x" "ap_hub b = fold send x (ap_hub a)" by (auto simp: calm_def)
  from bc obtain y where y: "list_all neutral y" "ap_hub c = fold send y (ap_hub b)" by (auto simp: calm_def)
  have "list_all neutral (x @ y) \<and> ap_hub c = fold send (x @ y) (ap_hub a)" using x y by simp
  then show ?thesis using ab bc unfolding calm_def by metis
qed

lemma sends_ok:
  "list_all neutral evs \<Longrightarrow> hub_ok (fold send evs h) = hub_ok h \<and> hb_outstanding (fold send evs h) = hb_outstanding h"
proof (induction evs arbitrary: h)
  case (Cons e evs)
  then have "hub_ok (send e h) = hub_ok h" "hb_outstanding (send e h) = hb_outstanding h"
    by (auto simp: hub_ok_def send_def neutral_def settled_def)
  with Cons show ?case by simp
qed simp

lemma calm_inv: "calm i st st' \<Longrightarrow> app_inv n st \<Longrightarrow> app_inv n st'"
  using sends_ok by (auto simp: calm_def app_inv_def dest!: map_eq_imp_length_eq)

lemma calm_send: "neutral e \<Longrightarrow> calm i st (app_send e st)"
  by (auto simp: calm_def app_send_def intro!: exI [of _ "[e]"])

lemma calm_sends: "list_all neutral evs \<Longrightarrow> calm i st (fold app_send evs st)"
  by (induction evs arbitrary: st) (auto intro: calm_trans calm_send)

lemma session_id_store [simp]: "session_id (s\<lparr>se_store := x\<rparr>) = session_id s" "session_id (s\<lparr>se_object := w\<rparr>) = session_id s"
  by (simp_all add: session_id_def)

lemma map_update_same: "f y = f (xs ! i) \<Longrightarrow> map f (xs[i := y]) = map f xs"
  by (metis list_update_beyond list_update_id linorder_not_le map_update nth_map)

lemma put_ctx_calm: "calm i st (put_ctx i c st)"
  by (auto simp: calm_def put_ctx_def map_update_same intro: exI [of _ "[]"])

lemma run_op_calm: "calm i st (fst (run_op P i f st))"
  by (auto simp: run_op_def Let_def put_ctx_calm split: prod.splits)

lemma healthy_frame:
  assumes "wait_until_healthy P T timed_out (s, w) = ((s', w'), evs, b)"
  shows "session_id s' = session_id s" "list_all neutral evs" "se_store s' = se_store s"
  using assms
  by (auto simp: wait_until_healthy_def rebuild_def session_id_def neutral_def
      split: prod.splits if_splits reconnect.splits)

lemma heal_calm: "calm i st (fst (heal P H i st))"
proof -
  let ?T = "\<lparr>tk_head = \<lambda>_. False, tk_sleep = \<lambda>_. False, tk_rounds = ho_rounds H\<rparr>"
  obtain s w evs b where h: "wait_until_healthy P ?T (ho_timed_out H) (ap_sessions st ! i, session_world (ap_sessions st ! i) st) = ((s, w), evs, b)"
    by (metis prod.exhaust)
  note F = healthy_frame [OF h]
  have "calm i st (st\<lparr>ap_sessions := (ap_sessions st)[i := s\<lparr>se_object := w\<rparr>], ap_world := w\<rparr>)"
    using F(1) by (auto simp: calm_def map_update_same intro: exI [of _ "[]"])
  then show ?thesis using h calm_trans [OF _ calm_sends [OF F(2)]] by (simp add: heal_def)
qed

lemma heal_retry_calm: "calm i st (fst (heal_retry P H i f st))"
proof -
  obtain st1 r where r: "run_op P i f st = (st1, r)" by fastforce
  obtain st2 b where h: "heal P H i st1 = (st2, b)" by fastforce
  have "calm i st st1" "calm i st1 st2" "calm i st2 (fst (run_op P i f st2))"
    using run_op_calm [of i st P f] heal_calm [of i st1 P H] run_op_calm [of i st2 P f] r h by simp_all
  moreover from this have "calm i st st2" "calm i st (fst (run_op P i f st2))" using calm_trans by blast+
  ultimately show ?thesis
    using r h by (cases r; cases b) (simp_all add: heal_retry_def)
qed

lemma report_calm:
  assumes "calm i st (fst sr)" "\<And>x. snd sr = Inr x \<Longrightarrow> list_all neutral (yes x)" "\<And>e. neutral (no e)"
  shows "calm i st (report yes no sr)"
proof (cases sr)
  case (Pair st1 r)
  then have c: "calm i st st1" using assms(1) by simp
  show ?thesis
  proof (cases r)
    case (Inl e)
    then show ?thesis using Pair c calm_trans [OF c calm_send [OF assms(3)]] by (simp add: report_def)
  next
    case (Inr x)
    then show ?thesis using Pair calm_trans [OF c calm_sends [OF assms(2)]] by (simp add: report_def)
  qed
qed

lemma list_dir_neutral:
  "list_dir lower E keys prefix c = (c', Inr (es, evs)) \<Longrightarrow> list_all neutral evs"
  by (auto simp: list_dir_def sbind_apply sret_def Let_def neutral_def simp del: nat_str.simps
      split: prod.splits sum.splits option.splits if_splits)

lemma heal_retry_result:
  assumes "snd (heal_retry P H i f st) = Inr x"
  shows "\<exists>s E c c'. f s E c = (c', Inr x)"
proof -
  have *: "\<exists>s E c c'. f s E c = (c', Inr x)" if "run_op P i f st' = (st1, Inr x)" for st' st1
    using that by (auto simp: run_op_def Let_def split: prod.splits)
  obtain st1 r where r: "run_op P i f st = (st1, r)" by fastforce
  obtain st2 b where h: "heal P H i st1 = (st2, b)" by fastforce
  obtain st3 q where q: "run_op P i f st2 = (st3, q)" by fastforce
  have "r = Inr x \<or> q = Inr x"
    using assms r h q by (cases r; cases b) (auto simp: heal_retry_def split: if_splits)
  then show ?thesis using * r q by blast
qed

section \<open>Every step keeps it\<close>

lemma hub_frame:
  "hub_ok h \<Longrightarrow> hub_ok (cancel_all h)" "hub_ok h \<Longrightarrow> hub_ok (cancel_file i h)"
  "hb_outstanding (cancel_all h) = hb_outstanding h" "hb_outstanding (cancel_file i h) = hb_outstanding h"
  using hub.step_inv [of h HCancelAll] hub.step_inv [of h "HCancelFile i"]
  by (simp_all add: cancel_all_def cancel_file_def)

lemma next_id_frame: "hub_ok (fst (next_id h)) = hub_ok h" "hb_outstanding (fst (next_id h)) = hb_outstanding h"
  by (simp_all add: next_id_def hub_ok_def settled_def)

lemma assign_ids_frame:
  "assign_ids h xs = (h', ys) \<Longrightarrow> hub_ok h' = hub_ok h \<and> hb_outstanding h' = hb_outstanding h \<and> map snd ys = xs"
proof (induction xs arbitrary: h ys)
  case (Cons x xs)
  then show ?case using next_id_frame [of h] by (fastforce split: prod.splits)
qed simp

lemma admit_roster_frame:
  assumes "hub_ok h" "roster \<noteq> []"
  shows "hub_ok (admit_roster now c roster h)" "hb_outstanding (admit_roster now c roster h) = hb_outstanding h + length roster"
proof -
  show "hub_ok (admit_roster now c roster h)" using hub.step_inv [of h "HAdmit now c roster"] assms by simp
  show "hb_outstanding (admit_roster now c roster h) = hb_outstanding h + length roster"
    using assms(1) by (auto simp: admit_roster_def admit_def Let_def send_def hub_ok_def)
qed

lemma stop_timer_frame:
  "ap_sessions (stop_timer st) = ap_sessions st" "ap_hub (stop_timer st) = ap_hub st" "ap_lost (stop_timer st) = ap_lost st"
  "ap_timer (stop_timer st) = None" "filter is_file_task (ap_tasks (stop_timer st)) = filter is_file_task (ap_tasks st)"
  by (simp_all add: stop_timer_def push_task_def split: option.splits)

lemma stop_timer_tasks:
  "app_inv n st \<Longrightarrow> list_all (\<lambda>t. task_session t < length (ap_sessions st)) (ap_tasks (stop_timer st))"
  by (auto simp: app_inv_def stop_timer_def push_task_def split: option.splits)

lemma spawn_for_inv:
  "app_inv n st \<Longrightarrow> (\<And>i. task_session (t i) = i \<and> \<not> is_file_task (t i)) \<Longrightarrow> app_inv n (spawn_for t st)"
  by (auto simp: app_inv_def spawn_for_def push_task_def split: option.splits)

lemma handle_connect_inv:
  assumes "app_inv n st"
  shows "app_inv n (handle_connect P profile secret password st)"
proof -
  obtain w r where c: "connect P (of_nat (ap_now st)) (pf_salt P (ap_rng st)) (pf_prefix P (ap_rng st)) profile secret password
      (max (reconnect_interval_secs (ap_settings st)) 1 * 1000) (mbps_to_bps (max_download_mbps (ap_settings st)))
      (mbps_to_bps (max_upload_mbps (ap_settings st))) (ap_world st) = (w, r)" by fastforce
  let ?st = "st\<lparr>ap_world := w, ap_rng := Suc (ap_rng st)\<rparr>"
  have i: "app_inv n ?st" using assms by (simp add: app_inv_def)
  show ?thesis
  proof (cases r)
    case (Inl e)
    then show ?thesis
      using calm_inv [OF calm_send i] c by (simp add: handle_connect_def Let_def neutral_def)
  next
    case (Inr s)
    let ?st1 = "stop_timer ?st"
    have "app_inv n (?st1\<lparr>ap_sessions := ap_sessions ?st1 @ [s], ap_session := Some (length (ap_sessions ?st1)),
        ap_timer := Some (length (ap_sessions ?st1))\<rparr>)"
      using i stop_timer_tasks [OF i] by (auto simp: app_inv_def stop_timer_frame list_all_iff less_Suc_eq)
    from calm_inv [OF calm_send this] c Inr show ?thesis by (simp add: handle_connect_def Let_def neutral_def)
  qed
qed

lemma cancel_inv:
  "app_inv n st \<Longrightarrow> app_inv n (st\<lparr>ap_hub := cancel_all (ap_hub st)\<rparr>)"
  "app_inv n st \<Longrightarrow> app_inv n (st\<lparr>ap_hub := cancel_file i (ap_hub st)\<rparr>)"
  by (auto simp: app_inv_def hub_frame)

lemma handle_command_inv: "app_inv n st \<Longrightarrow> app_inv n (handle_command P c st)"
proof (cases c)
  case (Connect profile secret password)
  then show "app_inv n st \<Longrightarrow> ?thesis" by (simp add: handle_connect_inv)
next
  case Disconnect
  assume i: "app_inv n st"
  show ?thesis using i stop_timer_tasks [OF i]
    by (simp add: Disconnect app_inv_def stop_timer_frame hub_frame)
next
  case (SetSettings x)
  assume "app_inv n st"
  then show ?thesis by (auto simp: SetSettings app_inv_def split: option.splits)
qed (auto intro!: spawn_for_inv cancel_inv)

text \<open>Adding the tasks of admitted files.\<close>

lemma admit_inv:
  assumes "app_inv n st" "hub_ok h = hub_ok (ap_hub st)" "hb_outstanding h = hb_outstanding (ap_hub st)"
    and "roster \<noteq> []" "length (filter is_file_task ts) = length roster" "list_all (\<lambda>t. task_session t < length (ap_sessions st)) ts"
  shows "app_inv n (st\<lparr>ap_hub := admit_roster now c roster h, ap_tasks := ap_tasks st @ ts\<rparr>)"
  using assms admit_roster_frame [OF _ assms(4), of h now c] by (simp add: app_inv_def)

lemma upload_tasks:
  "filter is_file_task (map (\<lambda>(n, path, rel, sz). TUploadFile i c n path dest rel sz) xs) =
     map (\<lambda>(n, path, rel, sz). TUploadFile i c n path dest rel sz) xs"
  "list_all (\<lambda>t. task_session t = i) (map (\<lambda>(n, path, rel, sz). TUploadFile i c n path dest rel sz) xs)"
  by (induction xs) auto

lemma download_tasks:
  "filter is_file_task (map (\<lambda>(n, t). TDownloadFile i c n t dest) xs) = map (\<lambda>(n, t). TDownloadFile i c n t dest) xs"
  "list_all (\<lambda>t. task_session t = i) (map (\<lambda>(n, t). TDownloadFile i c n t dest) xs)"
  by (induction xs) auto

lemma start_upload_inv:
  assumes "app_inv n st" "i < length (ap_sessions st)"
  shows "app_inv n (start_upload H i paths dest c st)"
proof -
  let ?e = "se_keys (ap_sessions st ! i) \<noteq> None" and ?ps = "map (\<lambda>p. (p, ho_fs H p)) paths"
  show ?thesis
  proof (cases "expand_paths ?ps = []")
    case True
    then have "start_upload H i paths dest c st = app_send (Toast ''Nothing to upload'') st"
      by (simp add: start_upload_def run_upload_def Let_def app_send_def)
    then show ?thesis using calm_inv [OF calm_send assms(1)] by (simp add: neutral_def)
  next
    case False
    obtain h items where a: "assign_ids (ap_hub st) (expand_paths ?ps) = (h, items)" by fastforce
    note F = assign_ids_frame [OF a]
    let ?ts = "map (\<lambda>(n, path, rel, sz). TUploadFile i c n path dest rel sz) items @ (if ?e \<and> items \<noteq> [] then [TFlushUploads i (map fst items)] else [])"
    have "start_upload H i paths dest c st =
        st\<lparr>ap_hub := admit_roster (ap_now st) c (upload_roster c ?e items) h, ap_tasks := ap_tasks st @ ?ts\<rparr>"
      using a False by (simp add: start_upload_def run_upload_def Let_def)
    moreover have "items \<noteq> []" using F False by auto
    moreover have "list_all (\<lambda>t. task_session t < length (ap_sessions st)) ?ts"
      using upload_tasks(2) [of i c dest items] assms(2) by (auto simp: list_all_iff)
    ultimately show ?thesis
      using admit_inv [OF assms(1), of h "upload_roster c ?e items" ?ts "ap_now st" c] F upload_tasks(1) [of i c dest items]
      by (simp add: upload_roster_def)
  qed
qed

lemma map_prod_fst [simp]: "fst (map_prod id f x) = fst x"
  by (cases x) simp

lemma collect_targets_calm: "calm i st (fst (collect_targets P H i items st))"
proof (induction items arbitrary: st)
  case (Cons item items)
  let ?f = "\<lambda>s E. expand_folder (pf_fuel P) E (se_keys s) item"
  obtain st1 r where r: "heal_retry P H i ?f st = (st1, r)" by fastforce
  have c: "calm i st st1" using heal_retry_calm [of i st P H ?f] r by simp
  have "calm i st (fst (collect_targets P H i items st1))"
    "calm i st (fst (collect_targets P H i items (app_send (ToastErr (''Listing '' @ re_name item @ '' failed'') e) st1)))" for e
    using calm_trans [OF c Cons.IH] calm_trans [OF calm_trans [OF c calm_send] Cons.IH] by (simp_all add: neutral_def)
  then show ?case using r c Cons.IH [of st] by (cases r) simp_all
qed simp

lemma start_download_inv:
  assumes "app_inv n st" "i < length (ap_sessions st)"
  shows "app_inv n (start_download P H i items dest c st)"
proof -
  obtain st1 ts where t: "collect_targets P H i items st = (st1, ts)" by fastforce
  have c: "calm i st st1" using collect_targets_calm [of i st P H items] t by simp
  have i1: "app_inv n st1" by (rule calm_inv [OF c assms(1)])
  have l: "i < length (ap_sessions st1)" using c assms(2) by (auto simp: calm_def dest!: map_eq_imp_length_eq)
  consider "ts = None" | "ts = Some []" | x xs where "ts = Some (x # xs)" by (metis list.exhaust option.exhaust)
  then show ?thesis
  proof cases
    case 1
    then show ?thesis using t i1 by (simp add: start_download_def)
  next
    case 2
    then show ?thesis using t calm_inv [OF calm_send i1] by (simp add: start_download_def neutral_def)
  next
    case 3
    obtain h ys where a: "assign_ids (ap_hub st1) (x # xs) = (h, ys)" by fastforce
    note F = assign_ids_frame [OF a]
    let ?ts = "map (\<lambda>(n, t). TDownloadFile i c n t dest) ys"
    have "ys \<noteq> []" using F by auto
    moreover have "list_all (\<lambda>t. task_session t < length (ap_sessions st1)) ?ts"
      using download_tasks(2) [of i c dest ys] l by (auto simp: list_all_iff)
    moreover have "start_download P H i items dest c st =
        st1\<lparr>ap_hub := admit_roster (ap_now st1) c (download_roster ys) h, ap_tasks := ap_tasks st1 @ ?ts\<rparr>"
      using t 3 a by (simp add: start_download_def del: assign_ids.simps)
    ultimately show ?thesis
      using admit_inv [OF i1, of h "download_roster ys" ?ts "ap_now st1" c] F download_tasks(1) [of i c dest ys]
      by (simp add: download_roster_def)
  qed
qed

lemma finish_task_outstanding: "hb_outstanding (finish_task kind k rel out h) = hb_outstanding h - 1"
  by (auto simp: finish_task_def Let_def task_done_simps split: outcome.splits)

lemma end_file_inv: "app_inv (Suc n) st \<Longrightarrow> app_inv n (end_file kind k rel out st)"
  using finish_task_ok [of "ap_hub st" kind k rel out]
  by (auto simp: app_inv_def end_file_def finish_task_outstanding)

lemma calm_length: "calm i st st' \<Longrightarrow> length (ap_sessions st') = length (ap_sessions st)"
  by (auto simp: calm_def dest!: map_eq_imp_length_eq)

lemma upload_file_task_inv: "app_inv (Suc n) st \<Longrightarrow> app_inv n (upload_file_task P H i c k path dest rel sz st)"
  by (auto simp: upload_file_task_def Let_def intro!: end_file_inv calm_inv [OF put_ctx_calm] split: prod.splits)

lemma download_file_task_inv: "app_inv (Suc n) st \<Longrightarrow> app_inv n (download_file_task P H i c k t dest st)"
proof -
  assume i: "app_inv (Suc n) st"
  have "app_inv (Suc n) (st\<lparr>ap_sessions := (ap_sessions st)[i := s], ap_world := w, ap_disk := d\<rparr>)" for s w d
    using i by (simp add: app_inv_def)
  then show ?thesis using i by (auto simp: download_file_task_def Let_def intro!: end_file_inv split: prod.splits)
qed

lemma flush_session_calm: "calm i st (flush_session P reason i st)"
  by (auto simp: flush_session_def run_op_calm split: option.splits)

lemma list_task_calm: "calm i st (run_task P H (TList i prefix) st)"
proof -
  let ?f = "\<lambda>s E. list_dir (pf_lower P) E (se_keys s) prefix"
  have "list_all neutral (evs @ [Listed prefix es])" if "snd (heal_retry P H i ?f st) = Inr (es, evs)" for es evs
    using heal_retry_result [OF that] list_dir_neutral by (fastforce simp: neutral_def)
  then show ?thesis by (auto intro!: report_calm heal_retry_calm simp: neutral_def)
qed

lemma op_calm:
  "(\<And>x. list_all neutral (yes x)) \<Longrightarrow> (\<And>e. neutral (no e)) \<Longrightarrow> calm i st (report yes no (heal_retry P H i f st))"
  by (auto intro: report_calm heal_retry_calm)

lemma run_task_inv:
  assumes "app_inv (of_bool (is_file_task t)) st" "task_session t < length (ap_sessions st)"
  shows "app_inv 0 (run_task P H t st)"
proof -
  show ?thesis
  proof (cases t)
    case (TList i prefix)
    then show ?thesis using assms calm_inv [OF list_task_calm] by simp
  next
    case (TCalculateSize i key name encrypted)
    show ?thesis using assms by (auto simp: TCalculateSize neutral_def intro!: calm_inv [OF op_calm])
  next
    case (TUpload i paths dest c)
    then show ?thesis using assms start_upload_inv [of 0] by simp
  next
    case (TDownload i items dest c)
    then show ?thesis using assms start_download_inv [of 0] by simp
  next
    case (TUploadFile i c n path dest rel sz)
    then show ?thesis using assms upload_file_task_inv [of 0] by simp
  next
    case (TDownloadFile i c n t dest)
    then show ?thesis using assms download_file_task_inv [of 0] by simp
  next
    case (TFlushUploads i ids)
    then show ?thesis using assms calm_inv [OF flush_session_calm] by simp
  next
    case (TFinalFlush i)
    then show ?thesis using assms calm_inv [OF flush_session_calm] by simp
  qed (use assms in \<open>auto simp: neutral_def intro!: calm_inv [OF op_calm]\<close>)
qed



section \<open>Reachable states\<close>

lemma app_step_inv: "app_step P st st' \<Longrightarrow> app_inv 0 st \<Longrightarrow> app_inv 0 st'"
proof (induction rule: app_step.induct)
  case (recv_command st c)
  then show ?case by (rule handle_command_inv)
next
  case (poll_task k st H)
  obtain t xs ys where e: "ap_tasks st ! k = t" "take k (ap_tasks st) = xs" "drop (Suc k) (ap_tasks st) = ys" by blast
  then have "ap_tasks st = xs @ t # ys" using id_take_nth_drop [OF poll_task(1)] by blast
  then have "app_inv (of_bool (is_file_task t)) (take_task k st)" "task_session t < length (ap_sessions (take_task k st))"
    using poll_task(3) unfolding app_inv_def take_task_def e(2,3) by auto
  then show ?case unfolding e(1) by (rule run_task_inv)
next
  case (timer_fires st i)
  then show ?case using calm_inv [OF flush_session_calm] by blast
next
  case (time_passes st t)
  then show ?case by (simp add: app_inv_def)
qed

lemma dispatch_init_inv: "app_inv 0 (dispatch_init c w disk now)"
  using hub_new_ok [of now] by (simp add: app_inv_def dispatch_init_def TransferHub_new_def)

text \<open>
  C11. The dispatcher keeps its books under every order of commands, tasks, timers and faults: the
  flush timer runs for exactly the current session; every pending task belongs to a session that
  exists; the batch has exactly as many outstanding files as there are file tasks pending or lost,
  and it is open, with one start message more than finish messages, exactly while there are any.
\<close>

theorem dispatch_invariant:
  assumes "(app_step P)\<^sup>*\<^sup>* (dispatch_init c w disk now) st"
  shows "ap_timer st = ap_session st \<and>
    list_all (\<lambda>t. task_session t < length (ap_sessions st)) (ap_tasks st) \<and>
    hb_outstanding (ap_hub st) = length (filter is_file_task (ap_tasks st)) + ap_lost st \<and>
    (hb_open (ap_hub st) \<longleftrightarrow> 0 < length (filter is_file_task (ap_tasks st)) + ap_lost st) \<and>
    length (filter is_started (hb_events (ap_hub st))) =
      length (filter is_finished (hb_events (ap_hub st))) + of_bool (hb_open (ap_hub st))"
proof -
  from assms have "app_inv 0 st"
    by (induction rule: rtranclp_induct) (auto simp: dispatch_init_inv intro: app_step_inv)
  then show ?thesis by (simp add: app_inv_def hub_ok_def)
qed

section \<open>Disconnecting and reporting\<close>

context object_store
begin

lemma disconnect_saves:
  fixes st :: "'w app" and i :: nat
  defines "s \<equiv> ap_sessions st ! i"
  assumes "ap_timer st = Some i" "se_keys s = Some k" "se_backend s = B" "ok (ap_world st)"
    and "env_ok (session_env P s) k" "store_ok (pf_json P) (se_store s)"
    and "ms_get (se_store s) dir = Some d" "ds_dirty d" "storable (pf_json P) (ds_manifest d)"
    and "fp_ok (pf_json P) (ds_manifest d) \<noteq> ds_written_fingerprint d"
    and "flush (session_env P s) k Forced (session_ctx s st) = (c', Inr n)"
  shows "TFinalFlush i \<in> set (ap_tasks (handle_command P Disconnect st)) \<and> ap_session (handle_command P Disconnect st) = None \<and>
    (\<exists>blob. abs (ap_world (run_task P H (TFinalFlush i) (handle_command P Disconnect st))) (manifest_object_key dir) = Some blob \<and>
       Manifest_decrypt (pf_lib P) (pf_json P) k blob = Inr (ds_manifest d))"
proof -
  let ?st = "handle_command P Disconnect st"
  have frame: "ap_sessions ?st ! i = s" "session_ctx s ?st = session_ctx s st"
    using assms(2) by (simp_all add: stop_timer_def push_task_def s_def session_ctx_def session_world_def)
  have "ok (session_world s st)" using tables_law [OF assms(5)] assms(4) by (simp add: session_world_def)
  have "ap_world (run_task P H (TFinalFlush i) ?st) = cx_world c'"
    using assms(3,12) frame by (simp add: flush_session_def run_op_def Let_def put_ctx_def)
  moreover have "\<exists>blob. abs (cx_world c') (manifest_object_key dir) = Some blob \<and>
      Manifest_decrypt (pf_lib P) (pf_json P) k blob = Inr (ds_manifest d)"
    using flush_persists [OF _ _ _ _ assms(12)] assms \<open>ok (session_world s st)\<close> by (auto simp: session_env_def session_ctx_def)
  moreover have "TFinalFlush i \<in> set (ap_tasks ?st)" "ap_session ?st = None"
    using assms(2) by (simp_all add: stop_timer_def push_task_def)
  ultimately show ?thesis by simp
qed

end

text \<open>
  Disconnecting loses no directory changes: the command leaves a final flush behind, and when
  that flush runs and its writes are accepted, every directory that had changes not yet written is
  stored on S3 and decrypts to exactly its buffered content.
\<close>

theorem disconnect_saves_manifests:
  fixes st :: "'w app" and i :: nat
  defines "s \<equiv> ap_sessions st ! i"
  assumes "ap_session st = Some i" "ap_timer st = Some i" "i < length (ap_sessions st)" "se_keys s = Some k"
    and "se_backend s = s3_backend C fuel bucket" "s3_get_law C obs" "s3_put_law C obs"
    and "env_ok (session_env P s) k" "store_ok (pf_json P) (se_store s)"
    and "ms_get (se_store s) dir = Some d" "ds_dirty d" "storable (pf_json P) (ds_manifest d)"
    and "fp_ok (pf_json P) (ds_manifest d) \<noteq> ds_written_fingerprint d"
    and "flush (session_env P s) k Forced (session_ctx s st) = (c', Inr n)"
  shows "TFinalFlush i \<in> set (ap_tasks (handle_command P Disconnect st)) \<and> ap_session (handle_command P Disconnect st) = None \<and>
    (\<exists>blob. obs (ap_world (run_task P H (TFinalFlush i) (handle_command P Disconnect st))) (manifest_object_key dir) = Some blob \<and>
       Manifest_decrypt (pf_lib P) (pf_json P) k blob = Inr (ds_manifest d))"
  by (rule s3_store.disconnect_saves [OF assms(3)]) (use assms in simp_all)

lemma rename_entry_names:
  assumes "name_for m (hash_entry L oe) \<noteq> None"
  shows "name_for (fst (rename_entry L oe ne new_name m)) (hash_entry L ne) \<noteq> None"
  using assms
  by (auto simp: rename_entry_def name_for_def Let_def files_insert_def folders_insert_def files_remove_def folders_remove_def
      split: option.splits)

text \<open>
  C30. A rename that went through can be reported as a failure: when the object has been moved and the
  entry re-keyed in the buffer, but writing the manifest fails, the dispatcher runs the operation a
  second time, and that attempt finds the new name in the buffered manifest and is refused as a
  collision with itself, whatever the connection and the remote side are by then.
\<close>

theorem rename_retry_reports_collision:
  assumes "\<not> blank new_name" "slash \<notin> set new_name"
    and enc: "encrypt_name (ev_lib E) k old_name = Inr oe" "encrypt_name (ev_lib E) k new_name = Inr ne"
    and ne: "hash_entry (ev_lib E) oe \<noteq> hash_entry (ev_lib E) ne"
    and l: "load E k (parent_prefix key) s = (s1, Inr m)"
    and m: "name_for m (hash_entry (ev_lib E) oe) \<noteq> None" "name_for m (hash_entry (ev_lib E) ne) = None"
    and rn: "be_rename (ev_backend E) key (parent_prefix key @ hash_entry (ev_lib E) ne) (cx_world s1) = (w2, Inr ())"
    and ed: "edit E k (parent_prefix key) (\<lambda>m. fst (rename_entry (ev_lib E) oe ne new_name m)) (s1\<lparr>cx_world := w2\<rparr>) = (s3, Inr ())"
    and fl: "flush E k Forced s3 = (s4, Inl e)"
    and retry: "ev_lib E' = ev_lib E" "cx_store s5 = cx_store s4"
  shows "run_rename E (Some k) key False old_name new_name True s = (s4, Inl e) \<and>
    run_rename E' (Some k) key False old_name new_name True s5 =
      (s5, Inl (Msg (''an item named '' @ [CHR 0x22] @ new_name @ [CHR 0x22] @ '' already exists here'')))"
proof
  let ?p = "parent_prefix key"
  show "run_rename E (Some k) key False old_name new_name True s = (s4, Inl e)"
    using assms(1,2) enc ne l m(2) rn ed fl
    by (simp add: run_rename_def rename_encrypted_def Let_def sbind_slift_Inr sbind_apply onw_apply)
  have b1: "buffered s1 ?p = Some m" using load_effect(1) [OF l] by (auto simp: buffered_def)
  have "load E k ?p (s1\<lparr>cx_world := w2\<rparr>) = (s1\<lparr>cx_world := w2\<rparr>, Inr m)"
    using b1 by (auto simp: load_def buffered_def)
  from edit_effect(2) [OF this ed] have "buffered s3 ?p = Some (fst (rename_entry (ev_lib E) oe ne new_name m))"
    by (auto simp: buffered_def)
  then have "buffered s4 ?p = Some (fst (rename_entry (ev_lib E) oe ne new_name m))"
    using flush_buffered [of E k Forced s3] fl by simp
  then have "load E' k ?p s5 = (s5, Inr (fst (rename_entry (ev_lib E) oe ne new_name m)))"
    using retry(2) by (auto simp: load_def buffered_def)
  then show "run_rename E' (Some k) key False old_name new_name True s5 =
      (s5, Inl (Msg (''an item named '' @ [CHR 0x22] @ new_name @ [CHR 0x22] @ '' already exists here'')))"
    using assms(1,2) enc ne retry(1) rename_entry_names [OF m(1), of ne new_name]
    by (simp add: run_rename_def rename_encrypted_def Let_def sbind_slift_Inr sbind_apply [of "load E' k ?p"] serr_def)
qed

section \<open>Instances\<close>

definition sample_profile :: connection_profile where
  "sample_profile = ConnectionProfile_default\<lparr>cp_bucket := ''b''\<rparr>"

theorem dispatch_invariant_witness:
  "\<exists>st. (app_step sample_platform)\<^sup>*\<^sup>* (dispatch_init Settings_default \<lparr>mem_objs = [], mem_parts = []\<rparr> Map.empty 0) st \<and>
     ap_session st = Some 0 \<and> ap_timer st = ap_session st \<and>
     hb_outstanding (ap_hub st) = length (filter is_file_task (ap_tasks st)) + ap_lost st"
proof -
  let ?i = "dispatch_init Settings_default \<lparr>mem_objs = [], mem_parts = []\<rparr> Map.empty 0"
  let ?st = "handle_command sample_platform (Connect sample_profile ''s'' None) ?i"
  have r: "(app_step sample_platform)\<^sup>*\<^sup>* ?i ?st" by (rule r_into_rtranclp) (rule recv_command)
  have "ap_session ?st = Some 0"
    by (simp add: handle_connect_def connect_def connect_backend_def sample_profile_def ConnectionProfile_default_def Let_def
        s3_connect_def sbind_apply sctx_apply sret_def flaky_client_def dispatch_init_def stop_timer_def app_send_def)
  with dispatch_invariant [OF r] r show ?thesis by blast
qed

definition dirty_session :: "mem session" where
  "dirty_session = sample_session\<lparr>se_keys := Some ref_keys, se_backend := s3_backend mem_client 1 ''b'',
     se_store := ms_put [] \<lparr>ds_manifest = sample_manifest, ds_written_fingerprint = Some 1, ds_last_change = 0, ds_dirty = True\<rparr>
       (ManifestStore_new 10)\<rparr>"

definition dirty_app :: "mem app" where
  "dirty_app = (dispatch_init Settings_default \<lparr>mem_objs = [], mem_parts = []\<rparr> Map.empty 0)
     \<lparr>ap_sessions := [dirty_session], ap_session := Some 0, ap_timer := Some 0\<rparr>"

theorem disconnect_saves_manifests_witness:
  "\<forall>H. \<exists>blob. mem_obs (ap_world (run_task sample_platform H (TFinalFlush 0) (handle_command sample_platform Disconnect dirty_app)))
      (manifest_object_key []) = Some blob \<and>
    Manifest_decrypt ref_lib ref_json ref_keys blob = Inr sample_manifest"
proof -
  let ?s = "ap_sessions dirty_app ! 0"
  let ?d = "\<lparr>ds_manifest = sample_manifest, ds_written_fingerprint = Some 1, ds_last_change = 0, ds_dirty = True\<rparr>"
  have s: "ap_session dirty_app = Some 0" "ap_timer dirty_app = Some 0" "0 < length (ap_sessions dirty_app)"
    "se_keys ?s = Some ref_keys" "se_backend ?s = s3_backend mem_client 1 ''b''"
    by (simp_all add: dirty_app_def dirty_session_def)
  have J: "pf_json sample_platform = ref_json" by (simp add: sample_platform_def)
  have e: "env_ok (session_env sample_platform ?s) ref_keys"
    by (simp add: env_ok_def session_env_def ref_lib_laws J ref_json_correct)
  have st: "store_ok (pf_json sample_platform) (se_store ?s)" unfolding J using ref_store_ok by (simp add: dirty_app_def dirty_session_def)
  have g: "ms_get (se_store ?s) [] = Some ?d" by (simp add: dirty_app_def dirty_session_def buffer.look_put)
  have d: "ds_dirty ?d" "storable (pf_json sample_platform) (ds_manifest ?d)"
    "fp_ok (pf_json sample_platform) (ds_manifest ?d) \<noteq> ds_written_fingerprint ?d"
    by (simp_all add: J storable_def ref_json_sample sample_extra_ok fp_ok_def fingerprint_def fnv1a_def fnv_step_def)
  have "ev_backend (session_env sample_platform ?s) = s3_backend mem_client 1 ''b''" using s(5) by (simp add: session_env_def)
  from mem_flush [OF this, of ref_keys Forced "session_ctx ?s dirty_app"] obtain c' n where
    "flush (session_env sample_platform ?s) ref_keys Forced (session_ctx ?s dirty_app) = (c', Inr n)" by (metis prod.collapse)
  from disconnect_saves_manifests [OF s mem_get_law mem_put_law e st g d this] show ?thesis by (simp add: J)
qed

abbreviation name_x :: string where
  "name_x \<equiv> hash_entry digest_lib (map (\<lambda>b. char_of (unat b)) ((replicate 16 0 @ [0, 1, 120] @ replicate 13 0) :: bytes))"

text \<open>A connection that moves objects but refuses every write.\<close>

definition stuck_env :: "mem env" where
  "stuck_env = digest_env\<lparr>ev_backend := (s3_backend mem_client 1 ''b'')\<lparr>be_put := \<lambda>_ _ w. (w, Inl (Msg ''timeout''))\<rparr>,
     ev_json := \<lparr>to_vec = \<lambda>_. Some [1], from_slice = \<lambda>_. None\<rparr>\<rparr>"

definition x_manifest :: manifest where
  "x_manifest = Manifest_default\<lparr>man_files := [name_x \<mapsto> \<lparr>fe_name = ''x'', fe_size = 1, fe_extra = Map.empty\<rparr>]\<rparr>"

lemma stuck_flush:
  assumes "edit stuck_env ref_keys [] f ((file_ctx m)\<lparr>cx_world := w\<rparr>) = (s3, r)"
  shows "\<exists>s4 e. flush stuck_env ref_keys Forced s3 = (s4, Inl e)"
proof -
  have "aead_correct digest_lib" "aead_total digest_lib"
    using ref_aead_correct ref_aead_total by (simp_all add: digest_lib_def aead_correct_def aead_total_def)
  then obtain blob where b: "encrypt_bytes digest_lib ref_keys ref_prefix [1] = Inr blob"
    using encrypt_bytes_total [of digest_lib ref_keys ref_prefix "[1]"] by (auto simp: ref_lib_laws)
  have "cx_store s3 = edit_dir [] f 0 (cx_store (file_ctx m))"
    using assms file_ctx_load [of stuck_env ref_keys m]
    by (auto simp: edit_def sbind_apply load_def file_ctx_def sample_ctx_def buffer.look_put)
  then have "ms_inner (cx_store s3) = [([], \<lparr>ds_manifest = f m, ds_written_fingerprint = None, ds_last_change = 0, ds_dirty = True\<rparr>)]"
    "interval (cx_store s3) = 10000"
    by (simp_all add: edit_dir_def file_ctx_def sample_ctx_def ms_put_def ms_get_def ManifestStore_new_def interval_def)
  then show ?thesis using b
    by (simp add: flush_def flush_snapshot_def Let_def flush_candidates_def List.map_filter_simps fp_ok_def fingerprint_def
        stuck_env_def digest_env_def sample_env_def FlushPlan_select_def ms_get_def Manifest_encrypt_def sbind_apply onw_apply)
qed

theorem rename_retry_reports_collision_witness:
  "\<exists>s4 e. run_rename stuck_env (Some ref_keys) ''X'' False ''x'' ''y'' True (file_ctx x_manifest) = (s4, Inl e) \<and>
     run_rename digest_env (Some ref_keys) ''X'' False ''x'' ''y'' True s4 =
       (s4, Inl (Msg (''an item named '' @ [CHR 0x22] @ ''y'' @ [CHR 0x22] @ '' already exists here'')))"
proof -
  have p: "parent_prefix ''X'' = []" "\<not> blank ''y''" "slash \<notin> set ''y''" by code_simp+
  have E: "ev_lib stuck_env = digest_lib" "be_rename (ev_backend stuck_env) = be_rename (s3_backend mem_client 1 ''b'')"
    "ev_lib digest_env = ev_lib stuck_env"
    by (simp_all add: stuck_env_def digest_backend)
  have m: "name_for x_manifest name_x \<noteq> None" "name_for x_manifest name_y = None"
    using digest_names(1) by (simp_all add: x_manifest_def name_for_def Manifest_default_def)
  obtain w where w: "be_rename (s3_backend mem_client 1 ''b'') ''X'' ([] @ name_y) (cx_world (file_ctx x_manifest)) = (w, Inr ())"
    using file_ctx_rename by auto
  let ?ox = "map (\<lambda>b. char_of (unat b)) ((replicate 16 0 @ [0, 1, 120] @ replicate 13 0) :: bytes)"
  let ?oy = "map (\<lambda>b. char_of (unat b)) ((replicate 16 0 @ [0, 1, 121] @ replicate 13 0) :: bytes)"
  let ?f = "\<lambda>m. fst (rename_entry digest_lib ?ox ?oy ''y'' m)"
  have o: "encrypt_name digest_lib ref_keys ''x'' = Inr ?ox" "encrypt_name digest_lib ref_keys ''y'' = Inr ?oy"
    using digest_name [of "CHR ''x''"] digest_name [of "CHR ''y''"] by simp_all
  have "load stuck_env ref_keys [] ((file_ctx x_manifest)\<lparr>cx_world := w\<rparr>) = ((file_ctx x_manifest)\<lparr>cx_world := w\<rparr>, Inr x_manifest)"
    by (simp add: load_def file_ctx_def buffer.look_put)
  then obtain s3 where s3: "edit stuck_env ref_keys [] ?f ((file_ctx x_manifest)\<lparr>cx_world := w\<rparr>) = (s3, Inr ())"
    by (auto simp: edit_def sbind_apply)
  obtain s4 e where s4: "flush stuck_env ref_keys Forced s3 = (s4, Inl e)" using stuck_flush [OF s3] by blast
  show ?thesis
    using rename_retry_reports_collision [where key = "''X''" and s = "file_ctx x_manifest" and E = stuck_env and E' = digest_env,
      unfolded E(1,2) p(1), OF p(2,3) o digest_names(1) file_ctx_load m w s3 s4 _ refl] E(1,3) by auto
qed

end
