(* ===== verification/RemoteFs.thy ===== *)
theory RemoteFs
  imports Storage Settings "HOL-Library.Multiset"
begin

text \<open>
  What the file-system backends (\<^verbatim>\<open>storage/sftp.rs\<close>, \<^verbatim>\<open>smb.rs\<close>, \<^verbatim>\<open>nfs.rs\<close>) have in common, written once: the
  walk of \<open>list_recursive\<close>, the loop of \<open>prepare_parents\<close> over the parents of a key, writing a
  buffer in chunks, the table of uploads in flight. The locale \<open>fs_lister\<close> is what a walk relies
  on and shows that it finds every file once; \<open>dir_maker\<close> does the same for the creation of parents,
  \<open>file_server\<close> for writing through an open handle.

  A request that is never answered (or not before an enclosing \<open>timeout\<close> gives up) has the result \<open>Hang\<close>:
  nothing after it runs, and neither a \<open>context\<close> nor a handler of errors sees it.
\<close>

section \<open>State\<close>

text \<open>
  The server's side and the local configuration directory, with the tables of the backend object in
  use: uploads with their open handle, the counter of upload ids, the directories already created.
\<close>

record 'r fs_world =
  fw_remote :: 'r
  fw_conf :: conf
  fw_uploads :: "(string \<times> nat) list"
  fw_seq :: u64
  fw_known :: "string list"

text \<open>
  The tables are fields of the backend object, one to each session; the rest is shared. A session's
  operations run on \<open>fs_tables t w\<close>, the state \<open>w\<close> with the tables its object was left with in \<open>t\<close>.
\<close>

definition fs_tables :: "'r fs_world \<Rightarrow> 'r fs_world \<Rightarrow> 'r fs_world" where
  "fs_tables t w = w\<lparr>fw_uploads := fw_uploads t, fw_seq := fw_seq t, fw_known := fw_known t\<rparr>"

lemma fs_tables_shared [simp]: "fw_remote (fs_tables t w) = fw_remote w" "fw_conf (fs_tables t w) = fw_conf w" "fs_tables w w = w"
  by (simp_all add: fs_tables_def)

definition onr :: "('r, 'a) sr \<Rightarrow> ('r fs_world, 'a) sr" where
  "onr f w = (case f (fw_remote w) of (r, x) \<Rightarrow> (w\<lparr>fw_remote := r\<rparr>, x))"

lemma onr_apply: "onr f w = (w\<lparr>fw_remote := fst (f (fw_remote w))\<rparr>, snd (f (fw_remote w)))"
  by (simp add: onr_def split: prod.splits)

lemma onr_eq: "onr f w = (w', x) \<longleftrightarrow> f (fw_remote w) = (fw_remote w', x) \<and> w' = w\<lparr>fw_remote := fw_remote w'\<rparr>"
  by (cases w; cases w'; auto simp: onr_apply prod_eq_iff)

lemma sfold_one: "sfold f () [x] s = f () x s"
  by (cases "f () x s"; cases "snd (f () x s)") (simp_all add: sbind_apply sret_def)

lemma sbind_sret_right: "sbind m sret = m"
  by (rule ext) (auto simp: sbind_apply sret_def split: prod.splits sum.splits)

definition hctx :: "string \<Rightarrow> 'a result \<Rightarrow> 'a result" where
  "hctx m r = (if r = Inl Hang then Inl Hang else with_ctx m r)"

definition fctx :: "string \<Rightarrow> ('s, 'a) sr \<Rightarrow> ('s, 'a) sr" where
  "fctx m f = (\<lambda>s. case f s of (s', r) \<Rightarrow> (s', hctx m r))"

text \<open>The result of a request as a value, for code that looks at it (\<open>is_err\<close>, \<open>ok\<close>, \<open>match\<close>).\<close>

definition tried :: "('s, 'a) sr \<Rightarrow> ('s, 'a result) sr" where
  "tried f = (\<lambda>s. case f s of (s', r) \<Rightarrow> (s', if r = Inl Hang then Inl Hang else Inr r))"

definition timeout_as :: "string \<Rightarrow> ('s, 'a) sr \<Rightarrow> ('s, 'a) sr" where
  "timeout_as m f = (\<lambda>s. case f s of (s', r) \<Rightarrow> (s', if r = Inl Hang then Inl (Msg m) else r))"

definition with_timeout :: "('s, 'a) sr \<Rightarrow> ('s, 'a) sr" where
  "with_timeout = timeout_as ''operation timed out - connection appears dead''"

lemma hctx_Inr [simp]: "hctx m (Inr x) = Inr x" "hctx m r = Inr x \<longleftrightarrow> r = Inr x"
  by (auto simp: hctx_def)

lemma fctx_apply [sr_simps]: "fctx m f s = (fst (f s), hctx m (snd (f s)))"
  by (simp add: fctx_def split: prod.splits)

lemma tried_apply [sr_simps]:
  "tried f s = (fst (f s), if snd (f s) = Inl Hang then Inl Hang else Inr (snd (f s)))"
  by (simp add: tried_def split: prod.splits)

lemma with_timeout_Inr [simp]: "with_timeout f s = (s', Inr x) \<longleftrightarrow> f s = (s', Inr x)"
  by (auto simp: with_timeout_def timeout_as_def split: prod.splits)

lemma fst_with_timeout [simp]: "fst (with_timeout f s) = fst (f s)"
  by (simp add: with_timeout_def timeout_as_def split: prod.splits)

section \<open>Walking a tree\<close>

text \<open>The loop of \<open>list_recursive\<close>; the end of the \<open>Vec\<close> is the head of the list.\<close>

fun walk_files ::
  "(string \<Rightarrow> ('w, raw_object list) sr) \<Rightarrow> nat \<Rightarrow> string list \<Rightarrow> raw_object list \<Rightarrow> ('w, raw_object list) sr" where
  "walk_files lst fuel [] files = sret files"
| "walk_files lst 0 (p # stack) files = serr Hang"
| "walk_files lst (Suc fuel) (p # stack) files =
     sbind (lst p) (\<lambda>objs. walk_files lst fuel (rev (map ro_key (filter ro_is_prefix objs)) @ stack)
       (files @ filter (\<lambda>ob. \<not> ro_is_prefix ob) objs))"

text \<open>\<open>tree_files ls p fs n\<close>: the tree at \<open>p\<close> is finite, has the files \<open>fs\<close> and \<open>n\<close> directories.\<close>

inductive tree_files :: "(string \<Rightarrow> raw_object list) \<Rightarrow> string \<Rightarrow> raw_object multiset \<times> nat \<Rightarrow> bool" for ls where
  tree_node: "list_all2 (tree_files ls) (map ro_key (filter ro_is_prefix (ls p))) rs \<Longrightarrow>
    tree_files ls p (mset (filter (\<lambda>ob. \<not> ro_is_prefix ob) (ls p)) + sum_list (map fst rs), Suc (sum_list (map snd rs)))"

inductive_cases tree_files_elim: "tree_files ls p x"

locale fs_lister =
  fixes lst :: "string \<Rightarrow> ('w, raw_object list) sr"
    and ls :: "string \<Rightarrow> raw_object list"
    and dirs :: "string set"
    and ok :: "'w \<Rightarrow> bool"
  assumes reads: "ok w \<Longrightarrow> p \<in> dirs \<Longrightarrow> \<exists>w'. lst p w = (w', Inr (ls p)) \<and> ok w'"
    and closed: "ok w \<Longrightarrow> p \<in> dirs \<Longrightarrow> ob \<in> set (ls p) \<Longrightarrow> ro_is_prefix ob \<Longrightarrow> ro_key ob \<in> dirs"
begin

lemma walk_files_complete:
  "list_all2 (tree_files ls) stack rs \<Longrightarrow> set stack \<subseteq> dirs \<Longrightarrow> sum_list (map snd rs) \<le> fuel \<Longrightarrow> ok w \<Longrightarrow>
     \<exists>w' out. walk_files lst fuel stack files w = (w', Inr out) \<and> ok w' \<and> mset out = mset files + sum_list (map fst rs)"
proof (induction fuel arbitrary: stack rs files w)
  case 0
  have "stack = []"
  proof (rule ccontr)
    assume "stack \<noteq> []"
    then obtain p st where "stack = p # st" by (cases stack) auto
    with 0(1) obtain r rs' where "rs = r # rs'" "tree_files ls p r" by (auto simp: list_all2_Cons1)
    then show False using 0(3) by (auto elim: tree_files_elim)
  qed
  with 0 show ?case by (simp add: sret_def)
next
  case (Suc fuel)
  show ?case
  proof (cases stack)
    case Nil
    with Suc.prems show ?thesis by (simp add: sret_def)
  next
    case (Cons p st)
    from Suc.prems(1) Cons obtain r rs' where rs: "rs = r # rs'" and t: "tree_files ls p r"
      and st: "list_all2 (tree_files ls) st rs'" by (auto simp: list_all2_Cons1)
    from t obtain qs where qs: "list_all2 (tree_files ls) (map ro_key (filter ro_is_prefix (ls p))) qs"
      and r: "r = (mset (filter (\<lambda>ob. \<not> ro_is_prefix ob) (ls p)) + sum_list (map fst qs), Suc (sum_list (map snd qs)))"
      by (auto elim: tree_files_elim)
    have p: "p \<in> dirs" using Suc.prems(2) Cons by simp
    obtain w1 where w1: "lst p w = (w1, Inr (ls p))" "ok w1" using reads [OF Suc.prems(4) p] by blast
    let ?st = "rev (map ro_key (filter ro_is_prefix (ls p))) @ st" and ?fs = "files @ filter (\<lambda>ob. \<not> ro_is_prefix ob) (ls p)"
    have "list_all2 (tree_files ls) ?st (rev qs @ rs')" using qs st by (simp add: list_all2_appendI list_all2_rev)
    moreover have "set ?st \<subseteq> dirs" using Suc.prems(2) Cons closed [OF Suc.prems(4) p] by auto
    moreover have "sum_list (map snd (rev qs @ rs')) \<le> fuel"
      using Suc.prems(3) rs r by (simp add: rev_map [symmetric] sum_list_rev)
    ultimately obtain w' out where "walk_files lst fuel ?st ?fs w1 = (w', Inr out)" "ok w'"
      "mset out = mset ?fs + sum_list (map fst (rev qs @ rs'))"
      using Suc.IH w1(2) by blast
    then show ?thesis using Cons rs r w1 by (simp add: sbind_apply rev_map [symmetric] sum_list_rev add_ac)
  qed
qed

lemma walk_complete:
  assumes "tree_files ls p (fs, n)" "p \<in> dirs" "n \<le> fuel" "ok w"
  shows "\<exists>w' out. walk_files lst fuel [p] [] w = (w', Inr out) \<and> ok w' \<and> mset out = fs"
  using walk_files_complete [of "[p]" "[(fs, n)]" fuel w "[]"] assms by simp

end

section \<open>The parents of a key\<close>

fun partials :: "string \<Rightarrow> string list \<Rightarrow> string list" where
  "partials p [] = []"
| "partials p (seg # segs) =
     (let q = (if p = [] then p else p @ [slash]) @ seg in q # partials q segs)"

definition parent_dirs :: "string \<Rightarrow> string list" where
  "parent_dirs key =
     (let segments = split_on slash (trim_end_matches slash key) in
      if length segments \<le> 1 then [] else partials [] (butlast segments))"

text \<open>The loop of \<open>prepare_parents\<close>, around the backend's way to make sure of one directory.\<close>

fun make_parents :: "(string \<Rightarrow> ('r, unit) sr) \<Rightarrow> string list \<Rightarrow> ('r fs_world, unit) sr" where
  "make_parents mk [] w = (w, Inr ())"
| "make_parents mk (p # ps) w =
     (if p \<in> set (fw_known w) then make_parents mk ps w
      else case onr (mk p) w of
        (w', Inr u) \<Rightarrow> make_parents mk ps (w'\<lparr>fw_known := p # fw_known w'\<rparr>)
      | (w', Inl e) \<Rightarrow> (w', Inl e))"

text \<open>Making one directory succeeds only if it is there afterwards, and removes none.\<close>

locale dir_maker =
  fixes mk :: "string \<Rightarrow> ('r, unit) sr"
    and isdir :: "'r \<Rightarrow> string \<Rightarrow> bool"
    and ok :: "'r \<Rightarrow> bool"
  assumes made: "ok r \<Longrightarrow> mk p r = (r', x) \<Longrightarrow> ok r' \<and> (\<forall>q. isdir r q \<longrightarrow> isdir r' q) \<and> (x = Inr () \<longrightarrow> isdir r' p)"
begin

definition known_ok :: "'r fs_world \<Rightarrow> bool" where
  "known_ok w \<longleftrightarrow> ok (fw_remote w) \<and> (\<forall>p \<in> set (fw_known w). isdir (fw_remote w) p)"

lemma make_parents_made:
  "known_ok w \<Longrightarrow> make_parents mk ps w = (w', x) \<Longrightarrow>
     known_ok w' \<and> (\<forall>q. isdir (fw_remote w) q \<longrightarrow> isdir (fw_remote w') q) \<and>
     (x = Inr () \<longrightarrow> (\<forall>p \<in> set ps. isdir (fw_remote w') p))"
proof (induction ps arbitrary: w)
  case (Cons p ps)
  show ?case
  proof (cases "p \<in> set (fw_known w)")
    case True
    then have "isdir (fw_remote w) p" using Cons.prems(1) by (simp add: known_ok_def)
    moreover have "make_parents mk ps w = (w', x)" using Cons.prems(2) True by simp
    ultimately show ?thesis using Cons.IH [OF Cons.prems(1)] by auto
  next
    case False
    obtain r y where m: "mk p (fw_remote w) = (r, y)" by fastforce
    have M: "ok r" "\<forall>q. isdir (fw_remote w) q \<longrightarrow> isdir r q" "y = Inr () \<longrightarrow> isdir r p"
      using made [OF _ m] Cons.prems(1) by (auto simp: known_ok_def)
    show ?thesis
    proof (cases y)
      case (Inl e)
      then have "w' = w\<lparr>fw_remote := r\<rparr>" "x = Inl e" using Cons.prems(2) False m by (auto simp: onr_def)
      then show ?thesis using M Cons.prems(1) by (auto simp: known_ok_def)
    next
      case (Inr u)
      let ?w = "w\<lparr>fw_remote := r, fw_known := p # fw_known w\<rparr>"
      have "make_parents mk ps ?w = (w', x)" using Cons.prems(2) False m Inr by (simp add: onr_def)
      moreover have "known_ok ?w" using M Inr Cons.prems(1) by (auto simp: known_ok_def)
      ultimately show ?thesis using Cons.IH [of ?w] M Inr by auto
    qed
  qed
qed auto

end

section \<open>Writing through a handle\<close>

lemma u64_of_nat: "n < 2 ^ 64 \<Longrightarrow> unat (of_nat n :: u64) = n"
  by (simp add: unsigned_of_nat take_bit_nat_eq_self)

definition write_chunks :: "nat \<Rightarrow> (bytes \<Rightarrow> ('r, unit) sr) \<Rightarrow> bytes \<Rightarrow> ('r, unit) sr" where
  "write_chunks n wr data = sfold (\<lambda>_. wr) () (chunks n data)"

text \<open>\<open>d\<close> written at offset \<open>n\<close>; a gap reads as zeros.\<close>

definition splice :: "bytes \<Rightarrow> nat \<Rightarrow> bytes \<Rightarrow> bytes" where
  "splice c n d = take n c @ replicate (n - length c) 0 @ d @ drop (n + length d) c"

lemma splice_end: "splice c (length c) d = c @ d"
  by (simp add: splice_def)

lemma length_splice: "length (splice c n d) = max (length c) (n + length d)"
  by (simp add: splice_def)

lemma splice_splice: "n \<le> length c \<Longrightarrow> splice (splice c n d) (n + length d) e = splice c n (d @ e)"
  by (simp add: splice_def add.commute add.left_commute)

text \<open>
  What a server promises about opening a file for writing and writing to it: \<open>obs\<close> is the content
  of the file at a path, \<open>hst\<close> the path and position of an open handle. A failed write may have written
  anything to its own file.
\<close>

locale file_server =
  fixes op :: "string \<Rightarrow> ('r, nat) sr"
    and wr :: "nat \<Rightarrow> bytes \<Rightarrow> ('r, unit) sr"
    and obs :: "'r \<Rightarrow> string \<Rightarrow> bytes option"
    and hst :: "'r \<Rightarrow> nat \<Rightarrow> (string \<times> nat) option"
    and ok :: "'r \<Rightarrow> bool"
  assumes open_law: "ok r \<Longrightarrow> op p r = (r', x) \<Longrightarrow> ok r' \<and> (\<forall>q. q \<noteq> p \<longrightarrow> obs r' q = obs r q) \<and>
      (\<forall>h. x = Inr h \<longrightarrow> obs r' p = Some [] \<and> hst r' h = Some (p, 0))"
    and write_law: "ok r \<Longrightarrow> hst r h = Some (p, n) \<Longrightarrow> wr h d r = (r', y) \<Longrightarrow>
      ok r' \<and> (\<forall>q. q \<noteq> p \<longrightarrow> obs r' q = obs r q) \<and>
      (y = Inr () \<longrightarrow> hst r' h = Some (p, n + length d) \<and> (\<forall>c. obs r p = Some c \<longrightarrow> obs r' p = Some (splice c n d)))"
begin

text \<open>The state of a file written from its beginning: the handle stands at the end of what is there.\<close>

definition holds :: "'r \<Rightarrow> nat \<Rightarrow> string \<Rightarrow> bytes \<Rightarrow> bool" where
  "holds r h p c \<longleftrightarrow> ok r \<and> hst r h = Some (p, length c) \<and> obs r p = Some c"

lemma opened: "ok r \<Longrightarrow> op p r = (r', Inr h) \<Longrightarrow> holds r' h p []"
  using open_law by (fastforce simp: holds_def)

lemma writes_frame:
  "ok r \<Longrightarrow> hst r h = Some (p, n) \<Longrightarrow> sfold (\<lambda>_. wr h) () ds r = (r', x) \<Longrightarrow> \<forall>q. q \<noteq> p \<longrightarrow> obs r' q = obs r q"
proof (induction ds arbitrary: r n)
  case (Cons d ds)
  obtain r1 y where w: "wr h d r = (r1, y)" by fastforce
  note W = write_law [OF Cons.prems(1,2) w]
  show ?case
  proof (cases y)
    case (Inl e)
    with Cons.prems(3) w have "r' = r1" by (simp add: sbind_apply)
    with W show ?thesis by simp
  next
    case (Inr u)
    with Cons.prems(3) w have "sfold (\<lambda>_. wr h) () ds r1 = (r', x)" by (simp add: sbind_apply)
    moreover have "ok r1" "hst r1 h = Some (p, n + length d)" using W Inr by auto
    ultimately show ?thesis using Cons.IH W by fastforce
  qed
qed (simp add: sret_def)

lemma writes_hold:
  "holds r h p c \<Longrightarrow> sfold (\<lambda>_. wr h) () ds r = (r', Inr ()) \<Longrightarrow>
     holds r' h p (c @ concat ds) \<and> (\<forall>q. q \<noteq> p \<longrightarrow> obs r' q = obs r q)"
proof (induction ds arbitrary: r c)
  case (Cons d ds)
  obtain r1 x where w: "wr h d r = (r1, x)" by fastforce
  with Cons.prems(2) have x: "x = Inr ()" and rest: "sfold (\<lambda>_. wr h) () ds r1 = (r', Inr ())"
    by (cases x; simp add: sbind_apply)+
  have "holds r1 h p (c @ d) \<and> (\<forall>q. q \<noteq> p \<longrightarrow> obs r1 q = obs r q)"
    using write_law [OF _ _ w] Cons.prems(1) x by (auto simp: holds_def splice_end)
  with Cons.IH [OF _ rest, of "c @ d"] show ?case by simp
qed (simp add: sret_def)

lemma write_chunks_hold:
  "holds r h p c \<Longrightarrow> write_chunks n (wr h) data r = (r', Inr ()) \<Longrightarrow> 0 < n \<Longrightarrow>
     holds r' h p (c @ data) \<and> (\<forall>q. q \<noteq> p \<longrightarrow> obs r' q = obs r q)"
  using writes_hold [of r h p c "chunks n data" r'] by (simp add: write_chunks_def)

end

text \<open>The parts of an upload one after the other, as the worker sends them.\<close>

definition send_parts :: "(int \<Rightarrow> bytes \<Rightarrow> ('w, 'a) sr) \<Rightarrow> (int \<times> bytes) list \<Rightarrow> ('w, unit) sr" where
  "send_parts up parts = sfold (\<lambda>_ (n, d). sbind (up n d) (\<lambda>_. sret ())) () parts"

lemma send_parts_hold:
  assumes step: "\<And>n d c w w' y. Q w c \<Longrightarrow> up n d w = (w', Inr y) \<Longrightarrow> Q w' (c @ d)"
  shows "Q w c \<Longrightarrow> send_parts up parts w = (w', Inr ()) \<Longrightarrow> Q w' (c @ concat (map snd parts))"
proof (induction parts arbitrary: w c)
  case (Cons nd parts)
  obtain n d where nd: "nd = (n, d)" by fastforce
  obtain w1 x where u: "up n d w = (w1, x)" by fastforce
  with Cons.prems(2) nd obtain y where x: "x = Inr y" and rest: "send_parts up parts w1 = (w', Inr ())"
    by (cases x) (simp_all add: send_parts_def sbind_apply sret_def)
  have "Q w1 (c @ d)" using step Cons.prems(1) u x by blast
  from Cons.IH [OF this rest] nd show ?case by simp
qed (simp add: send_parts_def sret_def)

section \<open>The table of uploads\<close>

text \<open>An open file enters the table under the next id.\<close>

definition register_upload :: "string \<Rightarrow> string \<Rightarrow> nat \<Rightarrow> ('r fs_world, multipart_upload) sr" where
  "register_upload proto key h w =
     (let uid = proto @ nat_str (unat (fw_seq w)) in
      (w\<lparr>fw_seq := fw_seq w + 1, fw_uploads := AList.update uid h (fw_uploads w)\<rparr>,
       Inr \<lparr>upload_id = uid, mp_key = key\<rparr>))"

definition take_upload :: "string \<Rightarrow> 'r fs_world \<Rightarrow> 'r fs_world \<times> nat option" where
  "take_upload uid w =
     (w\<lparr>fw_uploads := AList.delete uid (fw_uploads w)\<rparr>, map_of (fw_uploads w) uid)"

definition put_back :: "string \<Rightarrow> nat \<Rightarrow> 'r fs_world \<Rightarrow> 'r fs_world" where
  "put_back uid h w = w\<lparr>fw_uploads := AList.update uid h (fw_uploads w)\<rparr>"

lemma uploads_update [simp]:
  "map_of (fw_uploads (put_back uid h w)) = (map_of (fw_uploads w))(uid \<mapsto> h)"
  "fw_remote (put_back uid h w) = fw_remote w" "fw_known (put_back uid h w) = fw_known w"
  by (simp_all add: put_back_def update_conv')

lemma register_upload_props:
  assumes "register_upload proto key h w = (w', x)"
  shows "\<exists>mp. x = Inr mp \<and> mp_key mp = key \<and> map_of (fw_uploads w') (upload_id mp) = Some h \<and>
    fw_remote w' = fw_remote w"
  using assms by (auto simp: register_upload_def Let_def update_conv')

section \<open>Trimming what the user typed\<close>

text \<open>\<open>str::trim\<close>: the characters of the Unicode property \<open>White_Space\<close>, in UTF-8.\<close>

definition white_space :: "string list" where
  "white_space = map (map char_of)
     ([[9], [10], [11], [12], [13], [32], [0xC2, 0x85], [0xC2, 0xA0], [0xE1, 0x9A, 0x80]] @
      map (\<lambda>n. [0xE2, 0x80, n]) ([0x80..<0x8B] @ [0xA8, 0xA9, 0xAF]) @
      [[0xE2, 0x81, 0x9F], [0xE3, 0x80, 0x80 :: nat]])"

lemma white_space_nonempty: "w \<in> set white_space \<Longrightarrow> w \<noteq> []"
  by (auto simp: white_space_def)

function trim_start :: "string \<Rightarrow> string" where
  "trim_start s =
     (case find (\<lambda>w. starts_with w s) white_space of
        None \<Rightarrow> s
      | Some w \<Rightarrow> trim_start (drop (length w) s))"
  by pat_completeness auto
termination
proof (relation "measure length", simp)
  fix s w
  assume "find (\<lambda>w. starts_with w s) white_space = Some w"
  then have "w \<in> set white_space" "starts_with w s" by (auto simp: find_Some_iff)
  then have "0 < length w" "length w \<le> length s"
    using white_space_nonempty by (auto simp: starts_with_iff)
  then have "length (drop (length w) s) < length s" unfolding length_drop by linarith
  then show "(drop (length w) s, s) \<in> measure length" unfolding in_measure .
qed

function trim_end :: "string \<Rightarrow> string" where
  "trim_end s =
     (case find (\<lambda>w. starts_with (rev w) (rev s)) white_space of
        None \<Rightarrow> s
      | Some w \<Rightarrow> trim_end (take (length s - length w) s))"
  by pat_completeness auto
termination
proof (relation "measure length", simp)
  fix s w
  assume "find (\<lambda>w. starts_with (rev w) (rev s)) white_space = Some w"
  then have "w \<in> set white_space" and p: "starts_with (rev w) (rev s)" by (auto simp: find_Some_iff)
  then have "0 < length w" using white_space_nonempty by auto
  moreover obtain t where "rev s = rev w @ t" using p by (auto simp: starts_with_iff)
  then have "length s = length w + length t" by (metis length_append length_rev)
  ultimately have "length (take (length s - length w) s) < length s" unfolding length_take by linarith
  then show "(take (length s - length w) s, s) \<in> measure length" unfolding in_measure .
qed

declare trim_start.simps [simp del] trim_end.simps [simp del]

definition trim :: "string \<Rightarrow> string" where
  "trim s = trim_end (trim_start s)"

lemma trim_nil: "trim [] = []"
proof -
  have "find (\<lambda>w. starts_with w []) white_space = None" "find (\<lambda>w. starts_with (rev w) (rev [])) white_space = None"
    using white_space_nonempty by (auto simp: find_None_iff starts_with_iff)
  then show ?thesis by (simp add: trim_def trim_start.simps [of "[]"] trim_end.simps [of "[]"])
qed

lemma white_space_bytes:
  "w \<in> set white_space \<Longrightarrow> (of_char (hd w) :: nat) \<notin> {33..126} \<and> (of_char (last w) :: nat) \<notin> {33..126}"
  by (auto simp: white_space_def)

lemma trim_plain:
  assumes "s \<noteq> []" "(of_char (hd s) :: nat) \<in> {33..126}" "(of_char (last s) :: nat) \<in> {33..126}"
  shows "trim s = s"
proof -
  have h: "\<not> starts_with w s" if "w \<in> set white_space" for w
    using white_space_bytes [OF that] white_space_nonempty [OF that] assms by (auto simp: starts_with_iff)
  have l: "\<not> starts_with (rev w) (rev s)" if "w \<in> set white_space" for w
  proof
    assume "starts_with (rev w) (rev s)"
    then obtain t where "rev s = rev w @ t" by (auto simp: starts_with_iff)
    then have "s = rev t @ w" by (metis rev_append rev_rev_ident)
    then show False using white_space_bytes [OF that] white_space_nonempty [OF that] assms(3) by simp
  qed
  have "find (\<lambda>w. starts_with w s) white_space = None" "find (\<lambda>w. starts_with (rev w) (rev s)) white_space = None"
    using h l by (auto simp: find_None_iff)
  then show ?thesis by (simp add: trim_def trim_start.simps [of s] trim_end.simps [of s])
qed

end
