(* ===== verification/Sftp.thy ===== *)
theory Sftp
  imports RemoteFs
begin

text \<open>
  The SFTP backend (\<^verbatim>\<open>src/src/storage/sftp.rs\<close>): connecting with trust on first use, the mapping of
  keys to paths, and every method of the backend trait.

  The SSH and SFTP libraries are a parameter: \<open>sftp_client\<close> holds the requests the code makes, over
  the type \<open>'r\<close> of remote states; an open file is a number. Requests whose error the code
  looks into answer with \<open>sftp_error\<close>. Dropping a file handle is not a request the code waits
  for and is left out. Walks take fuel, as a server may present an endless tree.
\<close>

section \<open>Client\<close>

datatype sftp_error = NoSuchFile | SftpFailure error

record sftp_attrs =
  sa_is_dir :: bool
  sa_size :: "u64 option"
  sa_mtime :: "u32 option"

record 'r sftp_client =
  sf_handshake :: "string \<Rightarrow> u16 \<Rightarrow> ('r, string option) sr"
  sf_auth_password :: "string \<Rightarrow> string \<Rightarrow> ('r, bool) sr"
  sf_load_secret_key :: "string \<Rightarrow> string option \<Rightarrow> ('r, bytes) sr"
  sf_best_rsa_hash :: "('r, string option) sr"
  sf_auth_publickey :: "string \<Rightarrow> bytes \<Rightarrow> string option \<Rightarrow> ('r, bool) sr"
  sf_open_session :: "('r, unit) sr"
  sf_request_subsystem :: "string \<Rightarrow> ('r, unit) sr"
  sf_start :: "('r, unit) sr"
  sf_canonicalize :: "string \<Rightarrow> ('r, string) sr"
  sf_metadata :: "string \<Rightarrow> ('r, sftp_attrs) sr"
  sf_read_dir :: "string \<Rightarrow> ('r, (string \<times> sftp_attrs) list) sr"
  sf_open_read :: "string \<Rightarrow> 'r \<Rightarrow> 'r \<times> (sftp_error + nat)"
  sf_fstat :: "nat \<Rightarrow> ('r, sftp_attrs) sr"
  sf_seek :: "nat \<Rightarrow> u64 \<Rightarrow> ('r, unit) sr"
  sf_reader :: "nat \<Rightarrow> 'r \<Rightarrow> reader"
  sf_open_write :: "string \<Rightarrow> ('r, nat) sr"
  sf_write_all :: "nat \<Rightarrow> bytes \<Rightarrow> ('r, unit) sr"
  sf_flush :: "nat \<Rightarrow> ('r, unit) sr"
  sf_shutdown :: "nat \<Rightarrow> ('r, unit) sr"
  sf_create_dir :: "string \<Rightarrow> ('r, unit) sr"
  sf_remove_file :: "string \<Rightarrow> 'r \<Rightarrow> 'r \<times> (sftp_error + unit)"
  sf_remove_dir :: "string \<Rightarrow> 'r \<Rightarrow> 'r \<times> (sftp_error + unit)"
  sf_set_permissions :: "string \<Rightarrow> nat \<Rightarrow> ('r, unit) sr"

section \<open>Connecting\<close>

definition GLOBAL_VAULT_DIR :: string where
  "GLOBAL_VAULT_DIR = ''/var/lib/rabbit-storage-explorer''"

definition SFTP_WRITE_CHUNK :: nat where
  "SFTP_WRITE_CHUNK = 256 * 1024"

text \<open>\<open>Path::join\<close>, as used by \<open>expand_tilde\<close>; \<open>home\<close> is the variable \<open>HOME\<close>.\<close>

definition path_join :: "string \<Rightarrow> string \<Rightarrow> string" where
  "path_join a b =
     (if starts_with [slash] b then b else if a = [] \<or> ends_with slash a then a @ b else a @ [slash] @ b)"

definition expand_tilde :: "string option \<Rightarrow> string \<Rightarrow> string" where
  "expand_tilde home path =
     (case (strip_prefix ''~/'' path, home) of
        (Some rest, Some h) \<Rightarrow> path_join h rest
      | _ \<Rightarrow> path)"

definition trim_root :: "string \<Rightarrow> string" where
  "trim_root p = (case trim_end_matches slash p of [] \<Rightarrow> [slash] | trimmed \<Rightarrow> trimmed)"

definition host_id :: "connection_profile \<Rightarrow> string" where
  "host_id p = cp_host p @ '':'' @ nat_str (unat (cp_port p))"

text \<open>The decision about the server's key: nothing is stored unless the host is new.\<close>

definition check_host :: "conf_json \<Rightarrow> string \<Rightarrow> string \<Rightarrow> ('r fs_world, unit) sr" where
  "check_host J hid fingerprint w =
     (case known_host J hid (fw_conf w) of
        Some known \<Rightarrow>
          if known \<noteq> fingerprint then (w, Inl (Msg (''SSH host key mismatch for '' @ hid))) else (w, Inr ())
      | None \<Rightarrow> (w\<lparr>fw_conf := remember_host J hid fingerprint (fw_conf w)\<rparr>, Inr ()))"

definition authenticate ::
  "'r sftp_client \<Rightarrow> string option \<Rightarrow> connection_profile \<Rightarrow> string \<Rightarrow> ('r, bool) sr" where
  "authenticate C home profile secret =
     (if trim (cp_key_path profile) = [] then
        fctx ''password authentication failed'' (sf_auth_password C (cp_username profile) secret)
      else
        sbind (fctx (''loading private key '' @ cp_key_path profile)
          (sf_load_secret_key C (expand_tilde home (trim (cp_key_path profile)))
            (if secret = [] then None else Some secret))) (\<lambda>key.
        sbind (sf_best_rsa_hash C) (\<lambda>hash_alg.
        fctx ''public key authentication failed'' (sf_auth_publickey C (cp_username profile) key hash_alg))))"

text \<open>The browse root and the path of the account's vault, once authenticated.\<close>

definition sftp_paths :: "'r sftp_client \<Rightarrow> connection_profile \<Rightarrow> ('r, string \<times> string) sr" where
  "sftp_paths C profile =
     (let root_input = (if trim (cp_root_path profile) = [] then ''.'' else trim (cp_root_path profile)) in
      sbind (fctx (''remote directory '' @ root_input @ '' not found'') (sf_canonicalize C root_input)) (\<lambda>root.
      sbind (tried (sf_canonicalize C ''.'')) (\<lambda>h.
      let home = (case h of Inr p \<Rightarrow> trim_root p | Inl _ \<Rightarrow> [slash]) in
      sret (trim_root root,
        (if home = [slash] then GLOBAL_VAULT_DIR else home) @ [slash] @ VAULT_KEY))))"

definition sftp_session ::
  "'r sftp_client \<Rightarrow> string option \<Rightarrow> connection_profile \<Rightarrow> string \<Rightarrow> ('r, string \<times> string) sr" where
  "sftp_session C home profile secret =
     sbind (authenticate C home profile secret) (\<lambda>authenticated.
     if \<not> authenticated then
       serr (Msg (''SSH authentication failed for '' @ cp_username profile @ ''@'' @ cp_host profile))
     else
       sbind (sf_open_session C) (\<lambda>_.
       sbind (fctx ''server has no SFTP subsystem'' (sf_request_subsystem C ''sftp'')) (\<lambda>_.
       sbind (fctx ''starting SFTP session'' (sf_start C)) (\<lambda>_.
       sftp_paths C profile))))"

text \<open>The constructor up to the values it stores; a new object starts with empty tables.\<close>

definition sftp_connect ::
  "'r sftp_client \<Rightarrow> conf_json \<Rightarrow> string option \<Rightarrow> connection_profile \<Rightarrow> string \<Rightarrow>
     ('r fs_world, string \<times> string) sr" where
  "sftp_connect C J home profile secret =
     sbind (fctx (''SSH connection to '' @ host_id profile @ '' failed'')
       (onr (sf_handshake C (cp_host profile) (cp_port profile)))) (\<lambda>observed.
     sbind (slift (ok_or (Msg ''server presented no host key'') observed)) (\<lambda>fingerprint.
     sbind (check_host J (host_id profile) fingerprint) (\<lambda>_.
     sbind (onr (sftp_session C home profile secret)) (\<lambda>paths w.
     (w\<lparr>fw_uploads := [], fw_seq := 0, fw_known := []\<rparr>, Inr paths)))))"

section \<open>Methods\<close>

definition sftp_full :: "string \<Rightarrow> string \<Rightarrow> string" where
  "sftp_full root key =
     (let k = trim_end_matches slash key in
      if k = [] then root else if root = [slash] then slash # k else root @ [slash] @ k)"

fun sftp_entries :: "string \<Rightarrow> (string \<times> sftp_attrs) list \<Rightarrow> raw_object list" where
  "sftp_entries prefix [] = []"
| "sftp_entries prefix ((name, meta) # es) =
     (if name = ''.'' \<or> name = ''..'' then sftp_entries prefix es
      else (if sa_is_dir meta
            then \<lparr>ro_key = prefix @ name @ [slash], ro_size = 0, ro_modified = map_option ucast (sa_mtime meta),
                  ro_is_prefix = True\<rparr>
            else \<lparr>ro_key = prefix @ name, ro_size = (case sa_size meta of Some n \<Rightarrow> n | None \<Rightarrow> 0),
                  ro_modified = map_option ucast (sa_mtime meta), ro_is_prefix = False\<rparr>) #
        sftp_entries prefix es)"

definition sftp_list_inner :: "'r sftp_client \<Rightarrow> string \<Rightarrow> string \<Rightarrow> ('r fs_world, raw_object list) sr" where
  "sftp_list_inner C root prefix =
     sbind (fctx ''listing remote directory'' (onr (sf_read_dir C (sftp_full root prefix)))) (\<lambda>es.
     sret (sftp_entries prefix es))"

definition tolerate_missing :: "('r \<Rightarrow> 'r \<times> (sftp_error + unit)) \<Rightarrow> ('r, unit) sr" where
  "tolerate_missing m r =
     (case m r of
        (r', Inr u) \<Rightarrow> (r', Inr ())
      | (r', Inl NoSuchFile) \<Rightarrow> (r', Inr ())
      | (r', Inl (SftpFailure e)) \<Rightarrow> (r', Inl e))"

fun rmdir_recursive :: "'r sftp_client \<Rightarrow> nat \<Rightarrow> string \<Rightarrow> ('r, unit) sr" where
  "rmdir_recursive C 0 path = serr Hang"
| "rmdir_recursive C (Suc fuel) path =
     sbind (sf_read_dir C path) (\<lambda>es.
     sbind (sfold (\<lambda>_ (name, meta).
         if name = ''.'' \<or> name = ''..'' then sret ()
         else if sa_is_dir meta then rmdir_recursive C fuel (path @ [slash] @ name)
         else tolerate_missing (sf_remove_file C (path @ [slash] @ name))) () es) (\<lambda>_.
     tolerate_missing (sf_remove_dir C path)))"

definition sftp_health_check :: "'r sftp_client \<Rightarrow> string \<Rightarrow> ('r fs_world, unit) sr" where
  "sftp_health_check C root =
     sbind (fctx ''connection check failed'' (onr (sf_metadata C root))) (\<lambda>_. sret ())"

definition sftp_list :: "'r sftp_client \<Rightarrow> string \<Rightarrow> string \<Rightarrow> ('r fs_world, raw_object list) sr" where
  "sftp_list C root prefix = with_timeout (sftp_list_inner C root prefix)"

definition sftp_list_recursive :: "'r sftp_client \<Rightarrow> nat \<Rightarrow> string \<Rightarrow> string \<Rightarrow> ('r fs_world, raw_object list) sr" where
  "sftp_list_recursive C fuel root prefix = walk_files (sftp_list C root) fuel [prefix] []"

text \<open>Opening a file and reading it to its end; \<open>None\<close> where there is no such file.\<close>

definition read_whole :: "'r sftp_client \<Rightarrow> string \<Rightarrow> string \<Rightarrow> string \<Rightarrow> ('r, bytes option) sr" where
  "read_whole C failed reading path r =
     (case sf_open_read C path r of
        (r', Inr h) \<Rightarrow> (r', rbind (hctx reading (case rd_content (sf_reader C h r') of
            (d, None) \<Rightarrow> Inr d | (d, Some e) \<Rightarrow> Inl e)) (\<lambda>d. Inr (Some d)))
      | (r', Inl NoSuchFile) \<Rightarrow> (r', Inr None)
      | (r', Inl (SftpFailure e)) \<Rightarrow> (r', hctx failed (Inl e)))"

definition sftp_get :: "'r sftp_client \<Rightarrow> string \<Rightarrow> string \<Rightarrow> ('r fs_world, bytes option) sr" where
  "sftp_get C root key =
     with_timeout (onr (read_whole C ''open failed'' ''reading remote file'' (sftp_full root key)))"

definition open_stream :: "'r sftp_client \<Rightarrow> string \<Rightarrow> string \<Rightarrow> ('r, u64 \<times> nat) sr" where
  "open_stream C path key r =
     (case sf_open_read C path r of
        (r', Inr h) \<Rightarrow>
          sbind (tried (sf_fstat C h)) (\<lambda>m. sret (case m of Inr a \<Rightarrow> (case sa_size a of Some n \<Rightarrow> n | None \<Rightarrow> 0)
            | Inl _ \<Rightarrow> 0, h)) r'
      | (r', Inl NoSuchFile) \<Rightarrow> (r', Inl (Ctx (''download failed: '' @ key) (Msg ''No such file'')))
      | (r', Inl (SftpFailure e)) \<Rightarrow> (r', hctx (''download failed: '' @ key) (Inl e)))"

definition sftp_get_stream :: "'r sftp_client \<Rightarrow> string \<Rightarrow> string \<Rightarrow> ('r fs_world, u64 \<times> reader) sr" where
  "sftp_get_stream C root key =
     with_timeout (sbind (onr (open_stream C (sftp_full root key) key)) (\<lambda>(len, h) w.
       (w, Inr (len, sf_reader C h (fw_remote w)))))"

definition sftp_get_range :: "'r sftp_client \<Rightarrow> string \<Rightarrow> string \<Rightarrow> u64 \<Rightarrow> ('r fs_world, u64 \<times> reader) sr" where
  "sftp_get_range C root key offset =
     with_timeout (sbind (onr (open_stream C (sftp_full root key) key)) (\<lambda>(len, h).
       sbind (if 0 < offset then fctx (''seek failed: '' @ key) (onr (sf_seek C h offset)) else sret ()) (\<lambda>_ w.
       (w, Inr (len, sf_reader C h (fw_remote w))))))"

definition sftp_put :: "'r sftp_client \<Rightarrow> string \<Rightarrow> string \<Rightarrow> bytes \<Rightarrow> ('r fs_world, unit) sr" where
  "sftp_put C root key data =
     with_timeout (onr (
       sbind (fctx (''upload failed: '' @ key) (sf_open_write C (sftp_full root key))) (\<lambda>h.
       sbind (sf_write_all C h data) (\<lambda>_. sf_shutdown C h))))"

definition sftp_put_throttled ::
  "'r sftp_client \<Rightarrow> string \<Rightarrow> string \<Rightarrow> bytes \<Rightarrow> u64 option \<Rightarrow> ('r fs_world, unit) sr" where
  "sftp_put_throttled C root key data limiter =
     with_timeout (onr (
       sbind (fctx (''upload failed: '' @ key) (sf_open_write C (sftp_full root key))) (\<lambda>h.
       sbind (write_chunks SFTP_WRITE_CHUNK (sf_write_all C h) data) (\<lambda>_. sf_shutdown C h))))"

definition sftp_make_dir :: "'r sftp_client \<Rightarrow> string \<Rightarrow> string \<Rightarrow> ('r, unit) sr" where
  "sftp_make_dir C root partial =
     sbind (tried (sf_create_dir C (sftp_full root partial))) (\<lambda>created.
     if is_ok created then sret ()
     else sbind (fctx (''cannot create remote directory '' @ partial) (sf_metadata C (sftp_full root partial))) (\<lambda>meta.
       if sa_is_dir meta then sret ()
       else serr (Msg (''remote path '' @ partial @ '' exists and is not a directory''))))"

definition sftp_prepare_parents :: "'r sftp_client \<Rightarrow> string \<Rightarrow> string \<Rightarrow> ('r fs_world, unit) sr" where
  "sftp_prepare_parents C root key = with_timeout (make_parents (sftp_make_dir C root) (parent_dirs key))"

definition sftp_create_multipart :: "'r sftp_client \<Rightarrow> string \<Rightarrow> string \<Rightarrow> ('r fs_world, multipart_upload) sr" where
  "sftp_create_multipart C root key =
     with_timeout (sbind (fctx (''upload failed: '' @ key) (onr (sf_open_write C (sftp_full root key))))
       (register_upload ''sftp-'' key))"

definition sftp_upload_part ::
  "'r sftp_client \<Rightarrow> multipart_upload \<Rightarrow> int \<Rightarrow> bytes \<Rightarrow> u64 option \<Rightarrow> ('r fs_world, string \<times> u64 list) sr" where
  "sftp_upload_part C mp n data limiter w =
     (case take_upload (upload_id mp) w of
        (w1, None) \<Rightarrow> (w1, Inl (Msg ''unknown upload id''))
      | (w1, Some h) \<Rightarrow>
          (case with_timeout (onr (write_chunks SFTP_WRITE_CHUNK (sf_write_all C h) data)) w1 of
             (w2, result) \<Rightarrow>
               (put_back (upload_id mp) h w2,
                rbind (with_ctx ''writing remote file'' result) (\<lambda>_.
                Inr ([], map (of_nat \<circ> length) (chunks SFTP_WRITE_CHUNK data))))))"

definition sftp_complete_multipart ::
  "'r sftp_client \<Rightarrow> multipart_upload \<Rightarrow> (int \<times> string) list \<Rightarrow> ('r fs_world, unit) sr" where
  "sftp_complete_multipart C mp etags w =
     (case take_upload (upload_id mp) w of
        (w1, None) \<Rightarrow> (w1, Inr ())
      | (w1, Some h) \<Rightarrow> with_timeout (onr (sbind (sf_flush C h) (\<lambda>_. sf_shutdown C h))) w1)"

definition sftp_abort_multipart :: "'r sftp_client \<Rightarrow> string \<Rightarrow> multipart_upload \<Rightarrow> ('r fs_world, unit) sr" where
  "sftp_abort_multipart C root mp w =
     (case take_upload (upload_id mp) w of
        (w1, None) \<Rightarrow> (w1, Inr ())
      | (w1, Some h) \<Rightarrow> onr (tolerate_missing (sf_remove_file C (sftp_full root (mp_key mp)))) w1)"

definition sftp_delete_one :: "'r sftp_client \<Rightarrow> nat \<Rightarrow> string \<Rightarrow> string \<Rightarrow> ('r, unit) sr" where
  "sftp_delete_one C fuel root key =
     (if ends_with slash key then
        sbind (tried (sf_metadata C (sftp_full root key))) (\<lambda>m.
        if is_ok m then rmdir_recursive C fuel (sftp_full root key) else sret ())
      else tolerate_missing (sf_remove_file C (sftp_full root key)))"

definition sftp_delete :: "'r sftp_client \<Rightarrow> nat \<Rightarrow> string \<Rightarrow> string list \<Rightarrow> ('r fs_world, unit) sr" where
  "sftp_delete C fuel root ks = onr (sfold (\<lambda>_. sftp_delete_one C fuel root) () ks)"

definition sftp_get_vault :: "'r sftp_client \<Rightarrow> string \<Rightarrow> ('r fs_world, bytes option) sr" where
  "sftp_get_vault C vault_path =
     with_timeout (onr (read_whole C (''opening vault '' @ vault_path @ '' failed'')
       (''reading vault file '' @ vault_path) vault_path))"

definition ensure_global_dir :: "'r sftp_client \<Rightarrow> ('r, unit) sr" where
  "ensure_global_dir C =
     sbind (tried (sf_create_dir C GLOBAL_VAULT_DIR)) (\<lambda>created.
     if is_ok created then
       sbind (tried (sf_set_permissions C GLOBAL_VAULT_DIR 1023)) (\<lambda>_. sret ())
     else
       sbind (tried (sf_metadata C GLOBAL_VAULT_DIR)) (\<lambda>m.
       if is_ok m then sret ()
       else serr (Msg ''this SSH account has no home directory, and the shared vault location does not exist'')))"

definition sftp_put_vault :: "'r sftp_client \<Rightarrow> string \<Rightarrow> bytes \<Rightarrow> ('r fs_world, unit) sr" where
  "sftp_put_vault C vault_path data =
     with_timeout (onr (
       sbind (if starts_with GLOBAL_VAULT_DIR vault_path then ensure_global_dir C else sret ()) (\<lambda>_.
       sbind (fctx (''creating vault file '' @ vault_path) (sf_open_write C vault_path)) (\<lambda>h.
       sbind (sf_write_all C h data) (\<lambda>_.
       sbind (sf_shutdown C h) (\<lambda>_.
       if starts_with GLOBAL_VAULT_DIR vault_path
       then sbind (tried (sf_set_permissions C vault_path 420)) (\<lambda>_. sret ())
       else sret ()))))))"

text \<open>The trait object; \<open>rename\<close> and \<open>read_header\<close> are the defaults of the trait.\<close>

definition sftp_methods :: "'r sftp_client \<Rightarrow> nat \<Rightarrow> string \<Rightarrow> string \<Rightarrow> 'r fs_world backend" where
  "sftp_methods C fuel root vault_path = \<lparr>
     be_health_check = sftp_health_check C root,
     be_list = sftp_list C root,
     be_list_recursive = sftp_list_recursive C fuel root,
     be_get = sftp_get C root,
     be_get_stream = sftp_get_stream C root,
     be_put = sftp_put C root,
     be_put_throttled = sftp_put_throttled C root,
     be_get_vault = sftp_get_vault C vault_path,
     be_put_vault = sftp_put_vault C vault_path,
     be_prepare_parents = sftp_prepare_parents C root,
     be_create_multipart = sftp_create_multipart C root,
     be_upload_part = sftp_upload_part C,
     be_complete_multipart = sftp_complete_multipart C,
     be_abort_multipart = sftp_abort_multipart C root,
     be_delete = sftp_delete C fuel root,
     be_rename = (\<lambda>from to. sret ()),
     be_get_range = sftp_get_range C root,
     be_read_header = (\<lambda>key len. sret []),
     be_tables = fs_tables\<rparr>"

definition sftp_backend :: "'r sftp_client \<Rightarrow> nat \<Rightarrow> string \<Rightarrow> string \<Rightarrow> 'r fs_world backend" where
  "sftp_backend C fuel root vault_path =
     (let B = sftp_methods C fuel root vault_path in
      B\<lparr>be_rename := default_rename B, be_read_header := default_read_header B\<rparr>)"

text \<open>The constructor as the session's dialler.\<close>

definition sftp_dial ::
  "'r sftp_client \<Rightarrow> conf_json \<Rightarrow> string option \<Rightarrow> nat \<Rightarrow> connection_profile \<Rightarrow> string \<Rightarrow>
     ('r fs_world, 'r fs_world backend) sr" where
  "sftp_dial C J home fuel profile secret =
     sbind (sftp_connect C J home profile secret) (\<lambda>(root, vault_path).
     sret (sftp_backend C fuel root vault_path))"

end
