(* ===== verification/Reference_Fs.thy ===== *)
theory Reference_Fs
  imports RemoteFs
begin

text \<open>
  A concrete file server in memory, used where a theorem about a file-system backend is to be
  instantiated: files and directories under absolute paths, and open handles with their position. The
  theories of the backends build a client of their library on top of it.
\<close>

record mem_fs =
  mf_files :: "(string \<times> bytes) list"
  mf_dirs :: "string list"
  mf_handles :: "(nat \<times> string \<times> nat) list"
  mf_key :: string

definition mf_obs :: "mem_fs \<Rightarrow> string \<Rightarrow> bytes option" where
  "mf_obs m = map_of (mf_files m)"

definition mf_hst :: "mem_fs \<Rightarrow> nat \<Rightarrow> (string \<times> nat) option" where
  "mf_hst m = map_of (mf_handles m)"

definition mf_isd :: "mem_fs \<Rightarrow> string \<Rightarrow> bool" where
  "mf_isd m p \<longleftrightarrow> p \<in> set (mf_dirs m)"

definition mf_open_write :: "string \<Rightarrow> (mem_fs, nat) sr" where
  "mf_open_write p m =
     (let h = length (mf_handles m) in
      (m\<lparr>mf_files := AList.update p [] (mf_files m), mf_handles := (h, p, 0) # mf_handles m\<rparr>, Inr h))"

definition mf_write :: "nat \<Rightarrow> bytes \<Rightarrow> (mem_fs, unit) sr" where
  "mf_write h d m =
     (case (map_of (mf_handles m) h) of
        None \<Rightarrow> (m, Inl (Msg ''bad handle''))
      | Some (p, n) \<Rightarrow>
          let c = (case map_of (mf_files m) p of Some c \<Rightarrow> c | None \<Rightarrow> []) in
          (m\<lparr>mf_files := AList.update p (splice c n d) (mf_files m),
             mf_handles := (h, p, n + length d) # mf_handles m\<rparr>, Inr ()))"

definition mf_mkdir :: "string \<Rightarrow> mem_fs \<Rightarrow> mem_fs \<times> bool" where
  "mf_mkdir p m = (if p \<in> set (mf_dirs m) then (m, False) else (m\<lparr>mf_dirs := p # mf_dirs m\<rparr>, True))"

definition mf_rmdir :: "string \<Rightarrow> mem_fs \<Rightarrow> mem_fs" where
  "mf_rmdir p m = m\<lparr>mf_dirs := removeAll p (mf_dirs m)\<rparr>"

definition mf_remove :: "string \<Rightarrow> mem_fs \<Rightarrow> mem_fs" where
  "mf_remove p m = m\<lparr>mf_files := AList.delete p (mf_files m)\<rparr>"

text \<open>The names directly under a directory.\<close>

definition mf_names :: "string \<Rightarrow> string list \<Rightarrow> string list" where
  "mf_names p paths = filter (\<lambda>n. n \<noteq> [] \<and> slash \<notin> set n) (List.map_filter (strip_prefix (p @ [slash])) paths)"

lemma mf_open_law:
  "mf_open_write p m = (m', x) \<Longrightarrow>
     (\<forall>q. q \<noteq> p \<longrightarrow> mf_obs m' q = mf_obs m q) \<and> (\<forall>h. x = Inr h \<longrightarrow> mf_obs m' p = Some [] \<and> mf_hst m' h = Some (p, 0))"
  by (auto simp: mf_open_write_def mf_obs_def mf_hst_def update_conv' Let_def)

lemma mf_write_law:
  "mf_write h d m = (m', x) \<Longrightarrow> mf_hst m h = Some (p, n) \<Longrightarrow>
     (\<forall>q. q \<noteq> p \<longrightarrow> mf_obs m' q = mf_obs m q) \<and>
     (x = Inr () \<longrightarrow> mf_hst m' h = Some (p, n + length d) \<and>
       (\<forall>c. mf_obs m p = Some c \<longrightarrow> mf_obs m' p = Some (splice c n d)))"
  by (auto simp: mf_write_def mf_obs_def mf_hst_def update_conv' Let_def)

text \<open>Writing through an open handle succeeds.\<close>

lemma mf_writes: "mf_hst m h \<noteq> None \<Longrightarrow> snd (sfold (\<lambda>_. mf_write h) () ds m) = Inr ()"
proof (induction ds arbitrary: m)
  case (Cons d ds)
  then obtain p n where h: "map_of (mf_handles m) h = Some (p, n)" by (auto simp: mf_hst_def)
  have "mf_hst (fst (mf_write h d m)) h \<noteq> None" "snd (mf_write h d m) = Inr ()" using h by (simp_all add: mf_write_def mf_hst_def)
  with Cons.IH [of "fst (mf_write h d m)"] show ?case by (cases "mf_write h d m") (simp add: sbind_apply)
qed (simp add: sret_def)

definition ref_fs :: "mem_fs fs_world" where
  "ref_fs = \<lparr>fw_remote = \<lparr>mf_files = [(''/r/a'', [1])], mf_dirs = [''/r'', ''/r/s''], mf_handles = [], mf_key = ''k''\<rparr>,
     fw_conf = empty_conf, fw_uploads = [], fw_seq = 0, fw_known = []\<rparr>"

lemma result_pair: "snd x = y \<Longrightarrow> x = (fst x, y)"
  by auto

end
