(* ===== verification/Sftp_Correct.thy ===== *)
theory Sftp_Correct
  imports Sftp Reference_Fs
begin

text \<open>
  What the SFTP backend guarantees when the server behaves like a file server: \<open>sftp_write_law\<close>,
  \<open>sftp_read_law\<close>, \<open>sftp_dir_law\<close> and \<open>sftp_tree_law\<close> state what the SFTP protocol documents, relative to
  observations of the remote state (file contents, positions of handles, directories). The locales of
  \<open>RemoteFs\<close> are interpreted here on the backend's own operations.
\<close>

section \<open>Host keys\<close>




text \<open>
  What the application does to its configuration between two connections: settings, connections and
  secrets are saved and removed, connections loaded, other hosts remembered, and the directory or the
  keychain may become unavailable and available again.
\<close>

inductive conf_step :: "conf_json \<Rightarrow> conf \<Rightarrow> conf \<Rightarrow> bool" for J where
  "conf_step J c (c\<lparr>cf_writable := b, cf_keychain_up := u\<rparr>)"
| "conf_step J c (Settings_save J s c)"
| "conf_step J c (fst (load_all J c))"
| "conf_step J c (upsert_profile J q c)"
| "conf_step J c (remove_profile J n c)"
| "conf_step J c (fst (store_secret n t c))"
| "known_host J h c = None \<Longrightarrow> conf_step J c (remember_host J h k c)"










text \<open>A connection to another server is such a step, whatever comes of it; so are the conditions below met by it.\<close>

lemma sftp_connect_conf:
  "(conf_step J)\<^sup>*\<^sup>* (fw_conf w) (fw_conf (fst (sftp_connect C J home p secret w)))"
proof -
  have check: "(conf_step J)\<^sup>*\<^sup>* (fw_conf v) (fw_conf (fst (check_host J hid fp v)))" for hid fp and v :: "'a fs_world"
    by (cases "known_host J hid (fw_conf v)") (auto simp: check_host_def intro: conf_step.intros(7))
  obtain r y where h: "sf_handshake C (cp_host p) (cp_port p) (fw_remote w) = (r, y)" by fastforce
  show ?thesis
  proof (cases "\<exists>fp. y = Inr (Some fp)")
    case True
    then obtain fp where y: "y = Inr (Some fp)" by blast
    let ?v = "w\<lparr>fw_remote := r\<rparr>"
    have "fw_conf (fst (sftp_connect C J home p secret w)) = fw_conf (fst (check_host J (host_id p) fp ?v))"
      by (simp add: sftp_connect_def sbind_apply fctx_apply onr_apply slift_def h y split: prod.split sum.split)
    with check [of ?v] show ?thesis by simp
  next
    case False
    then have "fw_conf (fst (sftp_connect C J home p secret w)) = fw_conf w"
      by (auto simp: sftp_connect_def sbind_apply fctx_apply onr_apply slift_def h ok_or_def split: prod.split sum.split option.split)
    then show ?thesis by simp
  qed
qed

text \<open>On a configuration that cannot be written no key is pinned: the next first use trusts again.\<close>

lemma unwritable_never_pins:
  assumes "\<not> cf_writable c"
  shows "known_host J hid (remember_host J h fp c) = known_host J hid c"
  using assms by (simp add: remember_host_def write_json_def split: option.split)


section \<open>Directories\<close>

definition sftp_mkdir_law :: "'r sftp_client \<Rightarrow> ('r \<Rightarrow> string \<Rightarrow> bool) \<Rightarrow> bool" where
  "sftp_mkdir_law C isd \<longleftrightarrow> (\<forall>p r r' x. sf_create_dir C p r = (r', x) \<longrightarrow>
     (\<forall>q. isd r q \<longrightarrow> isd r' q) \<and> (x = Inr () \<longrightarrow> isd r' p))"

definition sftp_stat_law :: "'r sftp_client \<Rightarrow> ('r \<Rightarrow> string \<Rightarrow> bool) \<Rightarrow> bool" where
  "sftp_stat_law C isd \<longleftrightarrow> (\<forall>p r r' x. sf_metadata C p r = (r', x) \<longrightarrow>
     isd r' = isd r \<and> (\<forall>a. x = Inr a \<longrightarrow> sa_is_dir a = isd r p))"

definition sftp_rmdir_law :: "'r sftp_client \<Rightarrow> ('r \<Rightarrow> string \<Rightarrow> bool) \<Rightarrow> bool" where
  "sftp_rmdir_law C isd \<longleftrightarrow> (\<forall>p r r' x. sf_remove_dir C p r = (r', x) \<longrightarrow>
     (\<forall>e. x \<noteq> Inl (SftpFailure e)) \<longrightarrow> \<not> isd r' p)"

definition sftp_dir_law :: "'r sftp_client \<Rightarrow> ('r \<Rightarrow> string \<Rightarrow> bool) \<Rightarrow> bool" where
  "sftp_dir_law C isd \<longleftrightarrow> sftp_mkdir_law C isd \<and> sftp_stat_law C isd \<and> sftp_rmdir_law C isd"

lemma sftp_dir_lawD:
  assumes "sftp_dir_law C isd"
  shows "sf_create_dir C p r = (r', x) \<Longrightarrow> (\<forall>q. isd r q \<longrightarrow> isd r' q) \<and> (x = Inr () \<longrightarrow> isd r' p)"
    and "sf_metadata C p r = (r', y) \<Longrightarrow> isd r' = isd r \<and> (\<forall>a. y = Inr a \<longrightarrow> sa_is_dir a = isd r p)"
    and "sf_remove_dir C p r = (r', z) \<Longrightarrow> (\<forall>e. z \<noteq> Inl (SftpFailure e)) \<Longrightarrow> \<not> isd r' p"
proof -
  note L = assms [unfolded sftp_dir_law_def]
  show "sf_create_dir C p r = (r', x) \<Longrightarrow> (\<forall>q. isd r q \<longrightarrow> isd r' q) \<and> (x = Inr () \<longrightarrow> isd r' p)"
    by (rule conjunct1 [OF L, unfolded sftp_mkdir_law_def, rule_format])
  show "sf_metadata C p r = (r', y) \<Longrightarrow> isd r' = isd r \<and> (\<forall>a. y = Inr a \<longrightarrow> sa_is_dir a = isd r p)"
    by (rule conjunct1 [OF conjunct2 [OF L], unfolded sftp_stat_law_def, rule_format])
  show "sf_remove_dir C p r = (r', z) \<Longrightarrow> (\<forall>e. z \<noteq> Inl (SftpFailure e)) \<Longrightarrow> \<not> isd r' p"
    by (rule conjunct2 [OF conjunct2 [OF L], unfolded sftp_rmdir_law_def, rule_format]) auto
qed

interpretation sftp_dirs: dir_maker "sftp_make_dir C root" "\<lambda>r p. isd r (sftp_full root p)" "\<lambda>_. sftp_dir_law C isd"
  for C :: "'r sftp_client" and root isd
proof
  fix r p r' and x :: "unit result"
  assume law: "sftp_dir_law C isd" and m: "sftp_make_dir C root p r = (r', x)"
  obtain r1 y where c: "sf_create_dir C (sftp_full root p) r = (r1, y)" by fastforce
  obtain r2 z where s: "sf_metadata C (sftp_full root p) r1 = (r2, z)" by fastforce
  note L = sftp_dir_lawD(1) [OF law c] sftp_dir_lawD(2) [OF law s]
  show "sftp_dir_law C isd \<and> (\<forall>q. isd r (sftp_full root q) \<longrightarrow> isd r' (sftp_full root q)) \<and>
      (x = Inr () \<longrightarrow> isd r' (sftp_full root p))"
    using law m c s L by (cases y; cases z) (auto simp: sftp_make_dir_def sbind_apply tried_apply fctx_apply sret_def serr_def hctx_def
        split: if_splits)
qed

lemma make_parents_known: "set ps \<subseteq> set (fw_known w) \<Longrightarrow> make_parents mk ps w = (w, Inr ())"
  by (induction ps) auto

lemma make_parents_all_known:
  "make_parents mk ps w = (w', Inr ()) \<Longrightarrow> set ps \<subseteq> set (fw_known w') \<and> set (fw_known w) \<subseteq> set (fw_known w')"
proof (induction ps arbitrary: w)
  case (Cons p ps)
  show ?case
  proof (cases "p \<in> set (fw_known w)")
    case False
    obtain w1 x where m: "onr (mk p) w = (w1, x)" by fastforce
    with Cons.prems False obtain u where "x = Inr u"
      "make_parents mk ps (w1\<lparr>fw_known := p # fw_known w1\<rparr>) = (w', Inr ())" by (cases x) auto
    moreover have "fw_known w1 = fw_known w" using m by (auto simp: onr_apply)
    ultimately show ?thesis using Cons.IH [of "w1\<lparr>fw_known := p # fw_known w1\<rparr>"] by auto
  qed (use Cons in auto)
qed simp

text \<open>
  Before a file is uploaded all its parent directories exist: \<open>prepare_parents\<close> succeeds only with every
  proper parent of the key a directory on the server, never removes one, and its memory of created
  directories names only existing ones if it did before.
\<close>

theorem sftp_parents_exist:
  assumes "sftp_dir_law C isd" "\<forall>p \<in> set (fw_known w). isd (fw_remote w) (sftp_full root p)"
    and "sftp_prepare_parents C root key w = (w', Inr ())"
  shows "(\<forall>p \<in> set (parent_dirs key). isd (fw_remote w') (sftp_full root p)) \<and>
    (\<forall>p \<in> set (fw_known w'). isd (fw_remote w') (sftp_full root p))"
proof -
  have "sftp_dirs.known_ok isd root C w"
    unfolding sftp_dirs.known_ok_def using assms(1,2) by simp
  from sftp_dirs.make_parents_made [OF this, of "parent_dirs key" w' "Inr ()"] show ?thesis
    using assms(3) unfolding sftp_dirs.known_ok_def by (simp add: sftp_prepare_parents_def)
qed

lemma rmdir_removes:
  assumes "sftp_dir_law C isd" "rmdir_recursive C fuel p r = (r', Inr ())"
  shows "\<not> isd r' p"
proof (cases fuel)
  case (Suc n)
  with assms(2) obtain r1 where "tolerate_missing (sf_remove_dir C p) r1 = (r', Inr ())"
    by (auto simp: sbind_apply split: prod.splits sum.splits)
  then obtain x where "sf_remove_dir C p r1 = (r', x)" "\<forall>e. x \<noteq> Inl (SftpFailure e)"
    by (auto simp: tolerate_missing_def split: prod.splits sum.splits sftp_error.splits)
  then show ?thesis by (rule sftp_dir_lawD(3) [OF assms(1)])
qed (use assms in \<open>simp add: serr_def\<close>)

text \<open>
  C31. The memory of created directories outlives them: after \<open>prepare_parents\<close> has made a folder and
  \<open>delete\<close> has removed it again, \<open>prepare_parents\<close> for a file in it reports success without asking the
  server, although the folder does not exist.
\<close>

theorem deleted_dir_stays_known:
  assumes "sftp_dir_law C isd" "d @ [slash] @ f = key" "d \<in> set (parent_dirs key)"
    and "sftp_prepare_parents C root key w = (w1, Inr ())"
    and "sf_metadata C (sftp_full root (d @ [slash])) (fw_remote w1) = (r, Inr a)"
    and "sftp_delete C fuel root [d @ [slash]] w1 = (w2, Inr ())"
  shows "\<not> isd (fw_remote w2) (sftp_full root d) \<and> sftp_prepare_parents C root key w2 = (w2, Inr ())"
proof
  have full: "sftp_full root (d @ [slash]) = sftp_full root d" by (simp add: sftp_full_def slash_simps)
  have "sftp_delete_one C fuel root (d @ [slash]) (fw_remote w1) = (fw_remote w2, Inr ())"
    using assms(6) by (simp add: sftp_delete_def onr_eq sfold_one del: sfold.simps)
  then have "rmdir_recursive C fuel (sftp_full root d) r = (fw_remote w2, Inr ())"
    using assms(5) by (simp add: sftp_delete_one_def sbind_apply tried_apply full)
  then show "\<not> isd (fw_remote w2) (sftp_full root d)" by (rule rmdir_removes [OF assms(1)])
  have "set (parent_dirs key) \<subseteq> set (fw_known w1)"
    using assms(4) make_parents_all_known by (fastforce simp: sftp_prepare_parents_def)
  moreover have "fw_known w2 = fw_known w1" using assms(6) by (auto simp: sftp_delete_def onr_apply)
  ultimately show "sftp_prepare_parents C root key w2 = (w2, Inr ())"
    by (simp add: sftp_prepare_parents_def make_parents_known)
qed

section \<open>Files\<close>

definition sftp_open_law ::
  "'r sftp_client \<Rightarrow> ('r \<Rightarrow> string \<Rightarrow> bytes option) \<Rightarrow> ('r \<Rightarrow> nat \<Rightarrow> (string \<times> nat) option) \<Rightarrow> bool" where
  "sftp_open_law C obs hst \<longleftrightarrow> (\<forall>p r r' x. sf_open_write C p r = (r', x) \<longrightarrow>
     (\<forall>q. q \<noteq> p \<longrightarrow> obs r' q = obs r q) \<and> (\<forall>h. x = Inr h \<longrightarrow> obs r' p = Some [] \<and> hst r' h = Some (p, 0)))"

definition sftp_write_law ::
  "'r sftp_client \<Rightarrow> ('r \<Rightarrow> string \<Rightarrow> bytes option) \<Rightarrow> ('r \<Rightarrow> nat \<Rightarrow> (string \<times> nat) option) \<Rightarrow> bool" where
  "sftp_write_law C obs hst \<longleftrightarrow> (\<forall>h d p n r r' x. sf_write_all C h d r = (r', x) \<longrightarrow> hst r h = Some (p, n) \<longrightarrow>
     (\<forall>q. q \<noteq> p \<longrightarrow> obs r' q = obs r q) \<and>
     (x = Inr () \<longrightarrow> hst r' h = Some (p, n + length d) \<and> (\<forall>c. obs r p = Some c \<longrightarrow> obs r' p = Some (splice c n d))))"

definition sftp_close_law :: "'r sftp_client \<Rightarrow> ('r \<Rightarrow> string \<Rightarrow> bytes option) \<Rightarrow> bool" where
  "sftp_close_law C obs \<longleftrightarrow> (\<forall>h r. obs (fst (sf_flush C h r)) = obs r \<and> obs (fst (sf_shutdown C h r)) = obs r)"

definition sftp_read_law :: "'r sftp_client \<Rightarrow> ('r \<Rightarrow> string \<Rightarrow> bytes option) \<Rightarrow> bool" where
  "sftp_read_law C obs \<longleftrightarrow> (\<forall>p r r' x. sf_open_read C p r = (r', x) \<longrightarrow>
     obs r' = obs r \<and> (x = Inl NoSuchFile \<longrightarrow> obs r p = None) \<and>
     (\<forall>h d. x = Inr h \<longrightarrow> rd_content (sf_reader C h r') = (d, None) \<longrightarrow> obs r p = Some d))"

definition sftp_file_law ::
  "'r sftp_client \<Rightarrow> ('r \<Rightarrow> string \<Rightarrow> bytes option) \<Rightarrow> ('r \<Rightarrow> nat \<Rightarrow> (string \<times> nat) option) \<Rightarrow> bool" where
  "sftp_file_law C obs hst \<longleftrightarrow> sftp_open_law C obs hst \<and> sftp_write_law C obs hst \<and> sftp_close_law C obs \<and> sftp_read_law C obs"

interpretation sftp_files: file_server "sf_open_write C" "sf_write_all C" obs hst "\<lambda>_. sftp_file_law C obs hst"
  for C :: "'r sftp_client" and obs hst
proof
  fix r p r' x
  assume l: "sftp_file_law C obs hst" and o: "sf_open_write C p r = (r', x)"
  show "sftp_file_law C obs hst \<and> (\<forall>q. q \<noteq> p \<longrightarrow> obs r' q = obs r q) \<and>
      (\<forall>h. x = Inr h \<longrightarrow> obs r' p = Some [] \<and> hst r' h = Some (p, 0))"
    using l conjunct1 [OF l [unfolded sftp_file_law_def], unfolded sftp_open_law_def, rule_format, OF o] by blast
next
  fix r h p n d r' y
  assume l: "sftp_file_law C obs hst" and hs: "hst r h = Some (p, n)" and w: "sf_write_all C h d r = (r', y)"
  note W = conjunct1 [OF conjunct2 [OF l [unfolded sftp_file_law_def]], unfolded sftp_write_law_def, rule_format, OF w hs]
  show "sftp_file_law C obs hst \<and> (\<forall>q. q \<noteq> p \<longrightarrow> obs r' q = obs r q) \<and>
      (y = Inr () \<longrightarrow> hst r' h = Some (p, n + length d) \<and> (\<forall>c. obs r p = Some c \<longrightarrow> obs r' p = Some (splice c n d)))"
    using l W by blast
qed

lemma sftp_holdsD: "sftp_files.holds obs hst C r h p c \<Longrightarrow> obs r p = Some c"
  unfolding sftp_files.holds_def by blast

lemma sftp_closed_obs:
  assumes "sftp_file_law C obs hst"
  shows "sf_flush C h r = (r', x) \<Longrightarrow> obs r' = obs r" "sf_shutdown C h r = (r', x) \<Longrightarrow> obs r' = obs r"
  using assms unfolding sftp_file_law_def sftp_close_law_def by (metis fst_conv)+

lemma sftp_get_reads:
  assumes "sftp_file_law C obs hst" "sftp_get C root key w = (w', Inr d)"
  shows "d = obs (fw_remote w) (sftp_full root key)" "obs (fw_remote w') = obs (fw_remote w)"
proof -
  let ?p = "sftp_full root key"
  obtain r x where o: "sf_open_read C ?p (fw_remote w) = (r, x)" by fastforce
  note R = conjunct2 [OF conjunct2 [OF conjunct2 [OF assms(1) [unfolded sftp_file_law_def]]],
    unfolded sftp_read_law_def, rule_format, OF o]
  have e: "read_whole C ''open failed'' ''reading remote file'' ?p (fw_remote w) = (fw_remote w', Inr d)"
    using assms(2) by (simp add: sftp_get_def onr_eq)
  show "d = obs (fw_remote w) ?p" "obs (fw_remote w') = obs (fw_remote w)"
    using e o R by (auto simp: read_whole_def rbind_eq_Inr hctx_def split: sum.splits prod.splits option.splits sftp_error.splits if_splits)
qed

lemma sftp_upload_part_holds:
  assumes "sftp_files.holds obs hst C (fw_remote w) h p c" "map_of (fw_uploads w) (upload_id mp) = Some h"
    and "sftp_upload_part C mp n d lim w = (w', Inr y)"
  shows "sftp_files.holds obs hst C (fw_remote w') h p (c @ d) \<and> map_of (fw_uploads w') (upload_id mp) = Some h \<and>
    (\<forall>q. q \<noteq> p \<longrightarrow> obs (fw_remote w') q = obs (fw_remote w) q)"
proof -
  let ?w = "fst (take_upload (upload_id mp) w)"
  obtain w2 x where o: "with_timeout (onr (write_chunks SFTP_WRITE_CHUNK (sf_write_all C h) d)) ?w = (w2, x)" by fastforce
  have x: "x = Inr ()" and w': "w' = put_back (upload_id mp) h w2"
    using assms(2,3) o by (auto simp: sftp_upload_part_def take_upload_def rbind_eq_Inr)
  have "write_chunks SFTP_WRITE_CHUNK (sf_write_all C h) d (fw_remote w) = (fw_remote w2, Inr ())"
    using o x by (simp add: onr_eq take_upload_def)
  from sftp_files.write_chunks_hold [OF assms(1) this] w' show ?thesis by (simp add: SFTP_WRITE_CHUNK_def)
qed

lemma sftp_multipart_stores:
  assumes "sftp_file_law C obs hst" "sftp_create_multipart C root key w = (w1, Inr mp)"
    and "send_parts (\<lambda>n d. sftp_upload_part C mp n d lim) parts w1 = (w2, Inr ())"
    and "sftp_complete_multipart C mp tags w2 = (w3, Inr ())"
  shows "obs (fw_remote w3) = (obs (fw_remote w))(sftp_full root key \<mapsto> concat (map snd parts)) \<and>
    map_of (fw_uploads w3) (upload_id mp) = None"
proof -
  let ?p = "sftp_full root key"
  obtain h w0 where o: "sf_open_write C ?p (fw_remote w) = (fw_remote w0, Inr h)"
    and reg: "register_upload ''sftp-'' key h w0 = (w1, Inr mp)"
    using assms(2) by (cases "onr (sf_open_write C ?p) w")
      (auto simp: sftp_create_multipart_def sbind_apply fctx_apply onr_eq split: prod.splits sum.splits)
  define Q where "Q w' c \<longleftrightarrow> sftp_files.holds obs hst C (fw_remote w') h ?p c \<and>
    map_of (fw_uploads w') (upload_id mp) = Some h \<and> (\<forall>q. q \<noteq> ?p \<longrightarrow> obs (fw_remote w') q = obs (fw_remote w) q)" for w' :: "'a fs_world" and c
  have "Q w1 []"
    using register_upload_props [OF reg] sftp_files.opened [OF assms(1) o] sftp_files.open_law [OF assms(1) o]
    by (auto simp: Q_def)
  moreover have "Q w' (c @ d)" if "Q w c" "sftp_upload_part C mp n d lim w = (w', Inr y)" for w w' c n d y
    using that sftp_upload_part_holds [of obs hst C w h ?p c mp n d lim w' y] by (auto simp: Q_def)
  ultimately have q: "Q w2 (concat (map snd parts))"
    using send_parts_hold [of Q "\<lambda>n d. sftp_upload_part C mp n d lim" w1 "[]" parts w2] assms(3) by auto
  then have up: "map_of (fw_uploads w2) (upload_id mp) = Some h" by (simp add: Q_def)
  have "obs (fw_remote w3) = obs (fw_remote w2) \<and> fw_uploads w3 = AList.delete (upload_id mp) (fw_uploads w2)"
    using assms(4) up sftp_closed_obs [OF assms(1)]
    by (cases w3) (fastforce simp: sftp_complete_multipart_def take_upload_def onr_eq sbind_apply split: prod.splits sum.splits)
  then show ?thesis
    using q by (auto simp: Q_def delete_conv' fun_eq_iff dest: sftp_holdsD)
qed

text \<open>
  C14. A multipart upload over SFTP stores the parts in order: after \<open>create_multipart\<close>, any number of
  successful \<open>upload_part\<close>s and \<open>complete_multipart\<close>, reading the key gives the concatenation of the
  parts, every other file is as before and no upload is left open under the id.
\<close>

theorem sftp_multipart_roundtrip:
  assumes "sftp_file_law C obs hst" "sftp_create_multipart C root key w = (w1, Inr mp)"
    and "send_parts (\<lambda>n d. sftp_upload_part C mp n d lim) parts w1 = (w2, Inr ())"
    and "sftp_complete_multipart C mp tags w2 = (w3, Inr ())" "sftp_get C root key w3 = (w4, Inr got)"
  shows "got = Some (concat (map snd parts)) \<and>
    (\<forall>q. q \<noteq> sftp_full root key \<longrightarrow> obs (fw_remote w4) q = obs (fw_remote w) q) \<and>
    map_of (fw_uploads w3) (upload_id mp) = None"
  using sftp_multipart_stores [OF assms(1-4)] sftp_get_reads [OF assms(1,5)] by simp

section \<open>Listings\<close>

text \<open>
  \<open>es\<close> gives the entries of the directories under their prefixes while the server is in one of the
  states \<open>S\<close>: each of them can be read, and every subdirectory named in a listing is one of them.
\<close>

definition sftp_tree_law ::
  "'r sftp_client \<Rightarrow> string \<Rightarrow> (string \<Rightarrow> (string \<times> sftp_attrs) list option) \<Rightarrow> 'r set \<Rightarrow> bool" where
  "sftp_tree_law C root es S \<longleftrightarrow>
     (\<forall>p e r. es p = Some e \<longrightarrow> r \<in> S \<longrightarrow> (\<exists>r' \<in> S. sf_read_dir C (sftp_full root p) r = (r', Inr e))) \<and>
     (\<forall>p e ob. es p = Some e \<longrightarrow> ob \<in> set (sftp_entries p e) \<longrightarrow> ro_is_prefix ob \<longrightarrow>
        es (ro_key ob) \<noteq> None)"

definition sftp_ls :: "(string \<Rightarrow> (string \<times> sftp_attrs) list option) \<Rightarrow> string \<Rightarrow> raw_object list" where
  "sftp_ls es p = sftp_entries p (case es p of Some e \<Rightarrow> e | None \<Rightarrow> [])"

interpretation sftp_walk: fs_lister "sftp_list C root" "sftp_ls es" "{p. es p \<noteq> None}"
    "\<lambda>w. sftp_tree_law C root es S \<and> fw_remote w \<in> S"
  for C :: "'r sftp_client" and root es S
proof
  fix w :: "'r fs_world" and p
  assume ok: "sftp_tree_law C root es S \<and> fw_remote w \<in> S" and "p \<in> {p. es p \<noteq> None}"
  then obtain e where e: "es p = Some e" by auto
  obtain r where r: "r \<in> S" "sf_read_dir C (sftp_full root p) (fw_remote w) = (r, Inr e)"
    using conjunct1 [OF ok, unfolded sftp_tree_law_def] e ok by blast
  then show "\<exists>w'. sftp_list C root p w = (w', Inr (sftp_ls es p)) \<and> sftp_tree_law C root es S \<and> fw_remote w' \<in> S"
    using ok e by (intro exI [of _ "w\<lparr>fw_remote := r\<rparr>"])
      (simp add: sftp_list_def sftp_list_inner_def sbind_apply fctx_apply onr_apply sret_def sftp_ls_def)
next
  fix w :: "'r fs_world" and p ob
  assume ok: "sftp_tree_law C root es S \<and> fw_remote w \<in> S" and p: "p \<in> {p. es p \<noteq> None}"
    and ob: "ob \<in> set (sftp_ls es p)" "ro_is_prefix ob"
  then obtain e where "es p = Some e" by auto
  then show "ro_key ob \<in> {p. es p \<noteq> None}"
    using conjunct2 [OF conjunct1 [OF ok, unfolded sftp_tree_law_def]] ob by (auto simp: sftp_ls_def)
qed

text \<open>
  A recursive listing over SFTP ends and finds every file once: on a finite tree of \<open>n\<close> directories
  \<open>n\<close> requests are enough, and the result has exactly the files of the tree (not the directories), with
  keys relative to the root.
\<close>

theorem sftp_list_recursive_complete:
  assumes "sftp_tree_law C root es S" "fw_remote w \<in> S" "es prefix \<noteq> None"
    and "tree_files (sftp_ls es) prefix (fs, n)" "n \<le> fuel"
  shows "\<exists>w' out. sftp_list_recursive C fuel root prefix w = (w', Inr out) \<and> fw_remote w' \<in> S \<and> mset out = fs"
  using sftp_walk.walk_complete [where w = w and C = C and S = S, OF assms(4) _ assms(5)] assms(1-3)
  by (auto simp: sftp_list_recursive_def)

section \<open>The vault of an account\<close>

definition sftp_meta_law :: "'r sftp_client \<Rightarrow> ('r \<Rightarrow> string \<Rightarrow> bytes option) \<Rightarrow> bool" where
  "sftp_meta_law C obs \<longleftrightarrow> (\<forall>p m r. obs (fst (sf_set_permissions C p m r)) = obs r)"

lemma sftp_get_vault_reads:
  assumes "sftp_file_law C obs hst" "sftp_get_vault C path w = (w', Inr d)"
  shows "d = obs (fw_remote w) path"
proof -
  obtain r x where o: "sf_open_read C path (fw_remote w) = (r, x)" by fastforce
  note R = conjunct2 [OF conjunct2 [OF conjunct2 [OF assms(1) [unfolded sftp_file_law_def]]],
    unfolded sftp_read_law_def, rule_format, OF o]
  show ?thesis
    using assms(2) o R by (auto simp: sftp_get_vault_def onr_eq read_whole_def rbind_eq_Inr hctx_def
        split: sum.splits prod.splits option.splits sftp_error.splits if_splits)
qed

lemma open_write_close:
  assumes "sftp_file_law C obs hst"
    and "sbind (fctx m (sf_open_write C p)) (\<lambda>h. sbind (sf_write_all C h d) (\<lambda>_. sbind (sf_shutdown C h) k)) r = (r', Inr x)"
  obtains r1 where "obs r1 p = Some d" "\<And>q. q \<noteq> p \<Longrightarrow> obs r1 q = obs r q" "k () r1 = (r', Inr x)"
proof -
  from assms(2) obtain h r0 r2 r3 where o: "sf_open_write C p r = (r0, Inr h)" and w: "sf_write_all C h d r0 = (r2, Inr ())"
    and s: "sf_shutdown C h r2 = (r3, Inr ())" and k: "k () r3 = (r', Inr x)"
    by (cases "sf_open_write C p r") (auto simp: sbind_apply fctx_apply split: prod.splits sum.splits)
  have "sfold (\<lambda>_. sf_write_all C h) () [d] r0 = (r2, Inr ())" using w by (simp add: sfold_one del: sfold.simps)
  from sftp_files.writes_hold [OF sftp_files.opened [OF assms(1) o] this]
  have "obs r2 p = Some d" "\<forall>q. q \<noteq> p \<longrightarrow> obs r2 q = obs r0 q" using sftp_holdsD by fastforce+
  then show thesis
    using that [of r3] sftp_closed_obs(2) [OF assms(1) s] sftp_files.open_law [OF assms(1) o] k by auto
qed

lemma sftp_put_vault_stores:
  assumes "sftp_file_law C obs hst" "sftp_meta_law C obs" "sftp_put_vault C path d w = (w', Inr ())"
  shows "obs (fw_remote w') path = Some d"
proof -
  let ?k = "\<lambda>_. if starts_with GLOBAL_VAULT_DIR path
    then sbind (tried (sf_set_permissions C path 420)) (\<lambda>_. sret ()) else sret ()"
  from assms(3) obtain r where
    "sbind (fctx (''creating vault file '' @ path) (sf_open_write C path)) (\<lambda>h. sbind (sf_write_all C h d)
       (\<lambda>_. sbind (sf_shutdown C h) ?k)) r = (fw_remote w', Inr ())"
    by (auto simp: sftp_put_vault_def onr_eq sbind_apply [of "if _ then _ else _"] split: prod.splits sum.splits)
  then obtain r1 where "obs r1 path = Some d" "?k () r1 = (fw_remote w', Inr ())"
    by (rule open_write_close [OF assms(1)])
  moreover have "obs (fst (sf_set_permissions C path 420 r1)) = obs r1"
    using assms(2) by (simp add: sftp_meta_law_def)
  ultimately show ?thesis
    by (auto simp: sbind_apply tried_apply sret_def split: if_splits)
qed

theorem sftp_vault_roundtrip:
  assumes "sftp_file_law C obs hst" "sftp_meta_law C obs"
    and "sftp_put_vault C path d w = (w1, Inr ())" "sftp_get_vault C path w1 = (w2, Inr x)"
  shows "x = Some d"
  using sftp_put_vault_stores [OF assms(1-3)] sftp_get_vault_reads [OF assms(1,4)] by simp

lemma sftp_put_stores:
  assumes "sftp_file_law C obs hst" "sftp_put C root key d w = (w', Inr ())"
  shows "obs (fw_remote w') = (obs (fw_remote w))(sftp_full root key \<mapsto> d)"
proof -
  from assms(2) have "sbind (fctx (''upload failed: '' @ key) (sf_open_write C (sftp_full root key)))
      (\<lambda>h. sbind (sf_write_all C h d) (\<lambda>_. sbind (sf_shutdown C h) (\<lambda>_. sret ()))) (fw_remote w) = (fw_remote w', Inr ())"
    by (simp add: sftp_put_def onr_eq sbind_sret_right)
  then obtain r1 where "obs r1 (sftp_full root key) = Some d" "\<And>q. q \<noteq> sftp_full root key \<Longrightarrow> obs r1 q = obs (fw_remote w) q"
    "sret () r1 = (fw_remote w', Inr ())" by (rule open_write_close [OF assms(1)]) blast
  then show ?thesis by (auto simp: sret_def fun_eq_iff)
qed

text \<open>
  The vault belongs to the account, not to the browse root: on a server that resolves \<open>"."\<close> the same way
  for both connections, two profiles with different roots find the vault at the same path.
\<close>

lemma sftp_vault_path_independent_of_root:
  assumes "\<And>p r. fst (sf_canonicalize C p r) = r" "sftp_paths C p1 r = (r1, Inr (root1, v1))"
    and "sftp_paths C p2 r = (r2, Inr (root2, v2))"
  shows "v1 = v2"
  using assms by (auto simp: sftp_paths_def Let_def sbind_apply fctx_apply tried_apply sret_def
      split: prod.splits sum.splits if_splits)

text \<open>
  The contract of a backend: the object of a key is the file at its path below the root. A write that fails may
  have truncated its own file, and touches no other.
\<close>

definition sftp_objects :: "('r \<Rightarrow> string \<Rightarrow> bytes option) \<Rightarrow> string \<Rightarrow> 'r fs_world \<Rightarrow> string \<Rightarrow> bytes option" where
  "sftp_objects obs root w key = obs (fw_remote w) (sftp_full root key)"

lemma sftp_full_object:
  "object_key k \<Longrightarrow> sftp_full root k = (if root = [slash] then slash # k else root @ [slash] @ k)"
  by (auto simp: sftp_full_def object_key_def ends_with_def trim_end_no_match Let_def)

lemma sftp_full_inj: "object_key k \<Longrightarrow> object_key k' \<Longrightarrow> sftp_full root k = sftp_full root k' \<Longrightarrow> k = k'"
  by (simp add: sftp_full_object split: if_splits)

lemma sftp_get_result:
  assumes "sftp_file_law C obs hst" "sftp_get C root key w = (w', r)"
  shows "obs (fw_remote w') = obs (fw_remote w) \<and> (\<forall>x. r = Inr x \<longrightarrow> x = obs (fw_remote w) (sftp_full root key))"
proof -
  obtain r1 x where o: "sf_open_read C (sftp_full root key) (fw_remote w) = (r1, x)" by fastforce
  have "obs r1 = obs (fw_remote w)" using assms(1) o by (auto simp: sftp_file_law_def sftp_read_law_def)
  moreover have "fw_remote w' = r1"
    using arg_cong [OF assms(2), of fst] o
    by (auto simp: sftp_get_def onr_apply read_whole_def split: sum.splits sftp_error.splits)
  ultimately show ?thesis using sftp_get_reads(1) [OF assms(1)] assms(2) by auto
qed

lemma sftp_put_frame:
  assumes "sftp_file_law C obs hst" "sftp_put C root key d w = (w', r)" "q \<noteq> sftp_full root key"
  shows "obs (fw_remote w') q = obs (fw_remote w) q"
proof -
  let ?p = "sftp_full root key"
  obtain r1 x where o: "sf_open_write C ?p (fw_remote w) = (r1, x)" by fastforce
  note O = sftp_files.open_law [OF assms(1) o]
  show ?thesis
  proof (cases x)
    case (Inl e)
    then have "fw_remote w' = r1" using arg_cong [OF assms(2), of fst] o
      by (auto simp: sftp_put_def onr_apply sbind_apply fctx_apply hctx_def split: sum.splits if_splits)
    then show ?thesis using O assms(3) by blast
  next
    case (Inr h)
    obtain r2 y where wr: "sf_write_all C h d r1 = (r2, y)" by fastforce
    have "hst r1 h = Some (?p, 0)" using O Inr by blast
    note W = sftp_files.write_law [OF assms(1) this wr]
    have "fw_remote w' = r2 \<or> fw_remote w' = fst (sf_shutdown C h r2)"
      using arg_cong [OF assms(2), of fst] o Inr wr
      by (auto simp: sftp_put_def onr_apply sbind_apply fctx_apply split: sum.splits)
    moreover have "obs (fst (sf_shutdown C h r2)) = obs r2" by (rule sftp_closed_obs(2) [OF assms(1) prod.collapse [symmetric]])
    ultimately show ?thesis using O W assms(3) by auto
  qed
qed

interpretation sftp_store: object_store "sftp_backend C fuel root vault" "sftp_objects obs root" "\<lambda>_. sftp_file_law C obs hst"
  for C :: "'r sftp_client" and fuel root vault obs hst
proof
  fix w k w' r
  assume l: "sftp_file_law C obs hst" and g: "be_get (sftp_backend C fuel root vault) k w = (w', r)"
  from g have "sftp_get C root k w = (w', r)" by (simp add: sftp_backend_def sftp_methods_def Let_def)
  from sftp_get_result [OF l this] l
  show "sftp_file_law C obs hst \<and> sftp_objects obs root w' = sftp_objects obs root w \<and>
      (\<forall>x. r = Inr x \<longrightarrow> x = sftp_objects obs root w k)"
    by (auto simp: sftp_objects_def fun_eq_iff)
next
  fix w k d w' u
  assume l: "sftp_file_law C obs hst" and k: "object_key k" and p: "be_put (sftp_backend C fuel root vault) k d w = (w', u)"
  from p have p: "sftp_put C root k d w = (w', u)" by (simp add: sftp_backend_def sftp_methods_def Let_def)
  show "sftp_file_law C obs hst \<and> (\<forall>k'. object_key k' \<longrightarrow> k' \<noteq> k \<longrightarrow> sftp_objects obs root w' k' = sftp_objects obs root w k') \<and>
      (u = Inr () \<longrightarrow> sftp_objects obs root w' k = Some d)"
    using l p sftp_put_frame [OF l p] sftp_put_stores [OF l, of root k d w w'] sftp_full_inj [OF _ k]
    by (auto simp: sftp_objects_def)
next
  fix w t
  assume "sftp_file_law C obs hst"
  then show "sftp_file_law C obs hst \<and> sftp_objects obs root (be_tables (sftp_backend C fuel root vault) t w) = sftp_objects obs root w"
    by (simp add: sftp_backend_def sftp_methods_def Let_def sftp_objects_def fun_eq_iff)
qed

section \<open>A concrete server\<close>

text \<open>An SSH server in memory that presents its key and accepts every password.\<close>

definition mem_attrs :: "bool \<Rightarrow> u64 option \<Rightarrow> sftp_attrs" where
  "mem_attrs d n = \<lparr>sa_is_dir = d, sa_size = n, sa_mtime = None\<rparr>"

definition mem_stat :: "string \<Rightarrow> (mem_fs, sftp_attrs) sr" where
  "mem_stat p m =
     (m, if mf_isd m p then Inr (mem_attrs True None)
         else case mf_obs m p of Some d \<Rightarrow> Inr (mem_attrs False (Some (of_nat (length d))))
              | None \<Rightarrow> Inl (Msg ''No such file''))"

definition mem_entries :: "mem_fs \<Rightarrow> string \<Rightarrow> (string \<times> sftp_attrs) list" where
  "mem_entries m p =
     map (\<lambda>n. (n, mem_attrs True None)) (mf_names p (mf_dirs m)) @
     map (\<lambda>n. (n, mem_attrs False (Some 0))) (mf_names p (map fst (mf_files m)))"

definition mem_sftp :: "mem_fs sftp_client" where
  "mem_sftp = \<lparr>
     sf_handshake = (\<lambda>host port m. (m, Inr (Some (mf_key m)))),
     sf_auth_password = (\<lambda>u s. sret True),
     sf_load_secret_key = (\<lambda>p s. sret []),
     sf_best_rsa_hash = sret None,
     sf_auth_publickey = (\<lambda>u k h. sret True),
     sf_open_session = sret (),
     sf_request_subsystem = (\<lambda>s. sret ()),
     sf_start = sret (),
     sf_canonicalize = (\<lambda>p. sret (if p = ''.'' then ''/h'' else p)),
     sf_metadata = mem_stat,
     sf_read_dir = (\<lambda>p m. (m, if mf_isd m p then Inr (mem_entries m p) else Inl (Msg ''No such file''))),
     sf_open_read = (\<lambda>p m. case mf_obs m p of
        None \<Rightarrow> (m, Inl NoSuchFile)
      | Some d \<Rightarrow> (m\<lparr>mf_handles := (length (mf_handles m), p, 0) # mf_handles m\<rparr>, Inr (length (mf_handles m)))),
     sf_fstat = (\<lambda>h. sret (mem_attrs False None)),
     sf_seek = (\<lambda>h n m. case mf_hst m h of None \<Rightarrow> (m, Inl (Msg ''bad handle''))
      | Some (p, k) \<Rightarrow> (m\<lparr>mf_handles := (h, p, unat n) # mf_handles m\<rparr>, Inr ())),
     sf_reader = (\<lambda>h m. case mf_hst m h of Some (p, n) \<Rightarrow>
        (case mf_obs m p of Some d \<Rightarrow> [Inr (drop n d)] | None \<Rightarrow> [Inl (Msg ''gone'')])
      | None \<Rightarrow> [Inl (Msg ''bad handle'')]),
     sf_open_write = mf_open_write,
     sf_write_all = mf_write,
     sf_flush = (\<lambda>h. sret ()),
     sf_shutdown = (\<lambda>h. sret ()),
     sf_create_dir = (\<lambda>p m. case mf_mkdir p m of (m', made) \<Rightarrow> (m', if made then Inr () else Inl (Msg ''Failure''))),
     sf_remove_file = (\<lambda>p m. if mf_obs m p = None then (m, Inl NoSuchFile) else (mf_remove p m, Inr ())),
     sf_remove_dir = (\<lambda>p m. if mf_isd m p then (mf_rmdir p m, Inr ()) else (m, Inl NoSuchFile)),
     sf_set_permissions = (\<lambda>p n. sret ())\<rparr>"

lemma mem_sftp_dir_law: "sftp_dir_law mem_sftp mf_isd"
  by (auto simp: sftp_dir_law_def sftp_mkdir_law_def sftp_stat_law_def sftp_rmdir_law_def mem_sftp_def
      mf_mkdir_def mf_rmdir_def mem_stat_def mem_attrs_def mf_isd_def split: option.splits if_splits)

lemma mem_sftp_file_law: "sftp_file_law mem_sftp mf_obs mf_hst"
  unfolding sftp_file_law_def
proof (intro conjI)
  show "sftp_open_law mem_sftp mf_obs mf_hst"
    using mf_open_law by (auto simp: sftp_open_law_def mem_sftp_def)
  show "sftp_write_law mem_sftp mf_obs mf_hst"
    unfolding sftp_write_law_def by (intro allI impI) (rule mf_write_law, simp_all add: mem_sftp_def)
  show "sftp_close_law mem_sftp mf_obs" by (simp add: sftp_close_law_def mem_sftp_def sret_def)
  show "sftp_read_law mem_sftp mf_obs"
    by (auto simp: sftp_read_law_def mem_sftp_def mf_obs_def mf_hst_def split: option.splits)
qed





section \<open>The theorems at work on it\<close>





theorem sftp_parents_exist_witness:
  "(\<forall>p \<in> set (parent_dirs ''n/f''). mf_isd (fw_remote (fst (sftp_prepare_parents mem_sftp ''/r'' ''n/f'' ref_fs))) (sftp_full ''/r'' p)) \<and>
   (\<forall>p \<in> set (fw_known (fst (sftp_prepare_parents mem_sftp ''/r'' ''n/f'' ref_fs))).
     mf_isd (fw_remote (fst (sftp_prepare_parents mem_sftp ''/r'' ''n/f'' ref_fs))) (sftp_full ''/r'' p))"
proof (rule sftp_parents_exist [OF mem_sftp_dir_law _ result_pair])
  show "\<forall>p \<in> set (fw_known ref_fs). mf_isd (fw_remote ref_fs) (sftp_full ''/r'' p)" by (simp add: ref_fs_def)
  show "snd (sftp_prepare_parents mem_sftp ''/r'' ''n/f'' ref_fs) = Inr ()" by code_simp
qed

definition ref_made :: "mem_fs fs_world" where
  "ref_made = fst (sftp_prepare_parents mem_sftp ''/r'' ''n/f'' ref_fs)"

definition ref_unmade :: "mem_fs fs_world" where
  "ref_unmade = fst (sftp_delete mem_sftp 5 ''/r'' [''n/''] ref_made)"

lemma ref_folder: "''n'' @ [slash] = ''n/''"
  by code_simp

theorem deleted_dir_stays_known_witness:
  "\<not> mf_isd (fw_remote ref_unmade) (sftp_full ''/r'' ''n'') \<and>
   sftp_prepare_parents mem_sftp ''/r'' ''n/f'' ref_unmade = (ref_unmade, Inr ())"
proof (rule deleted_dir_stays_known [OF mem_sftp_dir_law, where f = "''f''" and w = ref_fs and fuel = 5])
  show "''n'' @ [slash] @ ''f'' = ''n/f''" "''n'' \<in> set (parent_dirs ''n/f'')" by code_simp+
  show "sftp_prepare_parents mem_sftp ''/r'' ''n/f'' ref_fs = (ref_made, Inr ())"
    unfolding ref_made_def by (rule result_pair) code_simp
  show "sf_metadata mem_sftp (sftp_full ''/r'' (''n'' @ [slash])) (fw_remote ref_made) = (fw_remote ref_made, Inr (mem_attrs True None))"
    by code_simp
  show "sftp_delete mem_sftp 5 ''/r'' [''n'' @ [slash]] ref_made = (ref_unmade, Inr ())"
    unfolding ref_unmade_def by (simp only: ref_folder) (rule result_pair, code_simp)
qed

theorem sftp_multipart_roundtrip_witness:
  "\<exists>w1 mp w2 w3 w4 got. sftp_create_multipart mem_sftp ''/r'' ''b'' ref_fs = (w1, Inr mp) \<and>
    send_parts (\<lambda>n d. sftp_upload_part mem_sftp mp n d None) [(1, [7, 8]), (2, [9])] w1 = (w2, Inr ()) \<and>
    sftp_complete_multipart mem_sftp mp [] w2 = (w3, Inr ()) \<and> sftp_get mem_sftp ''/r'' ''b'' w3 = (w4, Inr got) \<and>
    got = Some [7, 8, 9] \<and> map_of (fw_uploads w3) (upload_id mp) = None"
proof -
  let ?w1 = "fst (sftp_create_multipart mem_sftp ''/r'' ''b'' ref_fs)" and ?mp = "\<lparr>upload_id = ''sftp-0'', mp_key = ''b''\<rparr>"
  let ?w2 = "fst (send_parts (\<lambda>n d. sftp_upload_part mem_sftp ?mp n d None) [(1, [7, 8]), (2, [9])] ?w1)"
  let ?w3 = "fst (sftp_complete_multipart mem_sftp ?mp [] ?w2)"
  let ?w4 = "fst (sftp_get mem_sftp ''/r'' ''b'' ?w3)"
  have c: "chunks SFTP_WRITE_CHUNK [7, 8] = [[7, 8 :: u8]]" "chunks SFTP_WRITE_CHUNK [9] = [[9 :: u8]]"
    by (simp_all add: chunks_small SFTP_WRITE_CHUNK_def)
  note parts = send_parts_def sfold.simps prod.case sftp_upload_part_def write_chunks_def c
  have 1: "sftp_create_multipart mem_sftp ''/r'' ''b'' ref_fs = (?w1, Inr ?mp)" by (rule result_pair) code_simp
  have 2: "send_parts (\<lambda>n d. sftp_upload_part mem_sftp ?mp n d None) [(1, [7, 8]), (2, [9])] ?w1 = (?w2, Inr ())"
    by (rule result_pair, unfold parts) code_simp
  have 3: "sftp_complete_multipart mem_sftp ?mp [] ?w2 = (?w3, Inr ())" by (rule result_pair, unfold parts) code_simp
  have 4: "sftp_get mem_sftp ''/r'' ''b'' ?w3 = (?w4, Inr (Some [7, 8, 9]))" by (rule result_pair, unfold parts) code_simp
  from sftp_multipart_roundtrip [OF mem_sftp_file_law 1 2 3 4] 1 2 3 4 show ?thesis by blast
qed

definition ref_es :: "string \<Rightarrow> (string \<times> sftp_attrs) list option" where
  "ref_es = [[] \<mapsto> [(''s'', mem_attrs True None), (''a'', mem_attrs False (Some 0))], ''s/'' \<mapsto> []]"

lemma ref_tree_law: "sftp_tree_law mem_sftp ''/r'' ref_es {fw_remote ref_fs}"
  unfolding sftp_tree_law_def
proof (intro conjI allI impI)
  fix p e r
  assume "ref_es p = Some e" and r: "r \<in> {fw_remote ref_fs}"
  then consider "p = []" "e = [(''s'', mem_attrs True None), (''a'', mem_attrs False (Some 0))]" | "p = ''s/''" "e = []"
    by (auto simp: ref_es_def split: if_splits)
  then have "sf_read_dir mem_sftp (sftp_full ''/r'' p) (fw_remote ref_fs) = (fw_remote ref_fs, Inr e)"
    by cases (simp only:, code_simp)+
  then show "\<exists>r' \<in> {fw_remote ref_fs}. sf_read_dir mem_sftp (sftp_full ''/r'' p) r = (r', Inr e)" using r by simp
next
  fix p e ob
  assume "ref_es p = Some e" "ob \<in> set (sftp_entries p e)" "ro_is_prefix ob"
  then show "ref_es (ro_key ob) \<noteq> None" by (auto simp: ref_es_def mem_attrs_def split: if_splits)
qed

theorem sftp_list_recursive_complete_witness:
  "\<exists>w' out. sftp_list_recursive mem_sftp 2 ''/r'' [] ref_fs = (w', Inr out) \<and> fw_remote w' \<in> {fw_remote ref_fs} \<and>
    mset out = {#\<lparr>ro_key = ''a'', ro_size = 0, ro_modified = None, ro_is_prefix = False\<rparr>#}"
proof (rule sftp_list_recursive_complete [OF ref_tree_law])
  have "tree_files (sftp_ls ref_es) ''s/'' ({#}, 1)"
    using tree_node [of "sftp_ls ref_es" "''s/''" "[]"] by (simp add: sftp_ls_def ref_es_def)
  then show "tree_files (sftp_ls ref_es) [] ({#\<lparr>ro_key = ''a'', ro_size = 0, ro_modified = None, ro_is_prefix = False\<rparr>#}, 2)"
    using tree_node [of "sftp_ls ref_es" "[]" "[({#}, 1)]"] by (simp add: sftp_ls_def ref_es_def mem_attrs_def numeral_2_eq_2)
qed (simp_all add: ref_es_def)

theorem sftp_vault_roundtrip_witness:
  "\<exists>w1 w2. sftp_put_vault mem_sftp ''/h/v'' [5] ref_fs = (w1, Inr ()) \<and> sftp_get_vault mem_sftp ''/h/v'' w1 = (w2, Inr (Some [5]))"
proof -
  let ?w1 = "fst (sftp_put_vault mem_sftp ''/h/v'' [5] ref_fs)"
  have 1: "sftp_put_vault mem_sftp ''/h/v'' [5] ref_fs = (?w1, Inr ())" by (rule result_pair) code_simp
  obtain w2 x where 2: "sftp_get_vault mem_sftp ''/h/v'' ?w1 = (w2, Inr x)"
  proof -
    have "is_ok (snd (sftp_get_vault mem_sftp ''/h/v'' ?w1))" by code_simp
    then show thesis using that by (cases "sftp_get_vault mem_sftp ''/h/v'' ?w1") (auto simp: is_ok_def split: sum.splits)
  qed
  have "sftp_meta_law mem_sftp mf_obs" by (simp add: sftp_meta_law_def mem_sftp_def sret_def)
  from sftp_vault_roundtrip [OF mem_sftp_file_law this 1 2] 1 2 show ?thesis by blast
qed

end
