(* ===== verification/Smb.thy ===== *)
theory Smb
  imports RemoteFs
begin

text \<open>
  The SMB backend (\<^verbatim>\<open>src/src/storage/smb.rs\<close>): connecting to a share, the mapping of keys to paths, and
  every method of the backend trait.

  The SMB library is a parameter: \<open>smb_client\<close> holds the requests the code makes, over the type \<open>'r\<close>
  of remote states; readers and writers are numbers. The mutex around the client only
  orders the requests. The task behind a stream is run to its end when the stream is opened:
  the stream is the list of the messages it sends (\<open>poll_read_refines\<close>).
\<close>

section \<open>Client\<close>

datatype smb_error = SmbNotFound | SmbExists | SmbOther error

record smb_entry =
  se_name :: string
  se_is_directory :: bool
  se_size :: u64
  se_modified :: u64

record 'r smb_client =
  sb_connect :: "string \<Rightarrow> string \<Rightarrow> string \<Rightarrow> string \<Rightarrow> ('r, unit) sr"
  sb_connect_share :: "string \<Rightarrow> ('r, unit) sr"
  sb_fs_info :: "('r, unit) sr"
  sb_stat :: "string \<Rightarrow> ('r, bool) sr"
  sb_list_directory :: "string \<Rightarrow> ('r, smb_entry list) sr"
  sb_open_reader :: "string \<Rightarrow> 'r \<Rightarrow> 'r \<times> (smb_error + (nat \<times> u64))"
  sb_read_at :: "nat \<Rightarrow> u64 \<Rightarrow> u64 \<Rightarrow> ('r, bytes) sr"
  sb_close_reader :: "nat \<Rightarrow> ('r, unit) sr"
  sb_create_writer :: "string \<Rightarrow> ('r, nat) sr"
  sb_write_chunk :: "nat \<Rightarrow> bytes \<Rightarrow> ('r, unit) sr"
  sb_finish :: "nat \<Rightarrow> ('r, unit) sr"
  sb_create_directory :: "string \<Rightarrow> 'r \<Rightarrow> 'r \<times> (smb_error + unit)"
  sb_delete_file :: "string \<Rightarrow> 'r \<Rightarrow> 'r \<times> (smb_error + unit)"
  sb_delete_directory :: "string \<Rightarrow> 'r \<Rightarrow> 'r \<times> (smb_error + unit)"

definition STREAM_CHUNK :: nat where
  "STREAM_CHUNK = 256 * 1024"

definition WRITE_CHUNK :: nat where
  "WRITE_CHUNK = 256 * 1024"

section \<open>Connecting\<close>

definition smb_connect :: "'r smb_client \<Rightarrow> connection_profile \<Rightarrow> string \<Rightarrow> ('r fs_world, string) sr" where
  "smb_connect C profile password =
     (if trim (cp_share profile) = [] then serr (Msg ''an SMB share name is required'')
      else
        sbind (timeout_as ''SMB connection timed out'' (fctx (''connecting to '' @ trim (cp_host profile) @ '' failed'') (onr
          (sb_connect C (trim (cp_host profile) @ '':'' @ nat_str (unat (cp_port profile)))
            (trim (cp_username profile)) password (trim (cp_domain profile)))))) (\<lambda>_.
        sbind (fctx (''connecting to share '' @ trim (cp_share profile) @ '' failed'')
          (onr (sb_connect_share C (trim (cp_share profile))))) (\<lambda>_.
        let base = trim_matches slash (trim (cp_root_path profile)) in
        sbind (if base \<noteq> [] then
            sbind (fctx (''remote directory '' @ base @ '' not accessible'') (onr (sb_stat C base))) (\<lambda>is_directory.
            if is_directory then sret () else serr (Msg (''remote path '' @ base @ '' is not a directory'')))
          else sret ()) (\<lambda>_ w.
        (w\<lparr>fw_uploads := [], fw_seq := 0, fw_known := []\<rparr>, Inr base)))))"

section \<open>Methods\<close>

definition smb_full :: "string \<Rightarrow> string \<Rightarrow> string" where
  "smb_full base key =
     (let k = trim_end_matches slash key in
      if base = [] then k else if k = [] then base else base @ [slash] @ k)"

text \<open>Windows file times as seconds of the Unix epoch; the \<open>i64\<close> is kept as its 64 bits.\<close>

definition smb_epoch :: "u64 \<Rightarrow> u64 option" where
  "smb_epoch t = (if t = 0 then None else Some (t div 10000000 - 11644473600))"

fun smb_entries :: "string \<Rightarrow> smb_entry list \<Rightarrow> raw_object list" where
  "smb_entries prefix [] = []"
| "smb_entries prefix (e # es) =
     (if se_name e = ''.'' \<or> se_name e = ''..'' then smb_entries prefix es
      else (if se_is_directory e
            then \<lparr>ro_key = prefix @ se_name e @ [slash], ro_size = 0, ro_modified = smb_epoch (se_modified e), ro_is_prefix = True\<rparr>
            else \<lparr>ro_key = prefix @ se_name e, ro_size = se_size e, ro_modified = smb_epoch (se_modified e), ro_is_prefix = False\<rparr>)
        # smb_entries prefix es)"

definition smb_health_check :: "'r smb_client \<Rightarrow> ('r fs_world, unit) sr" where
  "smb_health_check C = fctx ''connection check failed'' (onr (sb_fs_info C))"

definition smb_list :: "'r smb_client \<Rightarrow> string \<Rightarrow> string \<Rightarrow> ('r fs_world, raw_object list) sr" where
  "smb_list C base prefix =
     sbind (fctx ''listing remote directory failed'' (onr (sb_list_directory C (smb_full base prefix)))) (\<lambda>es.
     sret (smb_entries prefix es))"

definition smb_list_recursive :: "'r smb_client \<Rightarrow> nat \<Rightarrow> string \<Rightarrow> string \<Rightarrow> ('r fs_world, raw_object list) sr" where
  "smb_list_recursive C fuel base prefix = walk_files (smb_list C base) fuel [prefix] []"

text \<open>The loop of \<open>get\<close>.\<close>

function smb_read_loop :: "'r smb_client \<Rightarrow> nat \<Rightarrow> nat \<Rightarrow> nat \<Rightarrow> bytes \<Rightarrow> ('r, bytes) sr" where
  "smb_read_loop C h sz offset out r =
     (if offset < sz then
        case sb_read_at C h (of_nat offset) (of_nat (min STREAM_CHUNK (sz - offset))) r of
          (r', Inl e) \<Rightarrow> (r', hctx ''SMB read failed'' (Inl e))
        | (r', Inr chunk) \<Rightarrow>
            if chunk = [] then (r', Inr out)
            else smb_read_loop C h sz (offset + length chunk) (out @ chunk) r'
      else (r, Inr out))"
  by pat_completeness auto
termination
  by (relation "measure (\<lambda>(C, h, sz, offset, out, r). sz - offset)") (auto intro!: diff_less_mono2)

text \<open>The task of \<open>get_stream\<close> and \<open>get_range\<close>: the messages it sends.\<close>

function smb_stream_loop :: "'r smb_client \<Rightarrow> nat \<Rightarrow> nat \<Rightarrow> nat \<Rightarrow> 'r \<Rightarrow> 'r \<times> reader" where
  "smb_stream_loop C h len offset r =
     (if offset < len then
        case sb_read_at C h (of_nat offset) (of_nat (min STREAM_CHUNK (len - offset))) r of
          (r', Inl e) \<Rightarrow> (r', [Inl e])
        | (r', Inr chunk) \<Rightarrow>
            if chunk = [] then (r', [])
            else (case smb_stream_loop C h len (offset + length chunk) r' of (r'', q) \<Rightarrow> (r'', Inr chunk # q))
      else (r, []))"
  by pat_completeness auto
termination
  by (relation "measure (\<lambda>(C, h, len, offset, r). len - offset)") (auto intro!: diff_less_mono2)

declare smb_read_loop.simps [simp del] smb_stream_loop.simps [simp del]

definition smb_get :: "'r smb_client \<Rightarrow> string \<Rightarrow> string \<Rightarrow> ('r fs_world, bytes option) sr" where
  "smb_get C base key = onr (\<lambda>r.
     case sb_open_reader C (smb_full base key) r of
       (r', Inr (h, sz)) \<Rightarrow>
         sbind (smb_read_loop C h (unat sz) 0 []) (\<lambda>out.
         sbind (tried (sb_close_reader C h)) (\<lambda>_. sret (Some out))) r'
     | (r', Inl SmbNotFound) \<Rightarrow> (r', Inr None)
     | (r', Inl SmbExists) \<Rightarrow> (r', Inl (Msg ''SMB open failed''))
     | (r', Inl (SmbOther e)) \<Rightarrow> (r', hctx ''SMB open failed'' (Inl e)))"

definition smb_err :: "string \<Rightarrow> smb_error \<Rightarrow> error" where
  "smb_err m x = (case x of
     SmbNotFound \<Rightarrow> Ctx m (Msg ''not found'') | SmbExists \<Rightarrow> Ctx m (Msg ''already exists'')
   | SmbOther e \<Rightarrow> if e = Hang then Hang else Ctx m e)"

definition smb_open_stream :: "'r smb_client \<Rightarrow> string \<Rightarrow> string \<Rightarrow> (u64 \<Rightarrow> u64) \<Rightarrow> ('r, u64 \<times> reader) sr" where
  "smb_open_stream C base key start r =
     (case sb_open_reader C (smb_full base key) r of
        (r', Inr (h, len)) \<Rightarrow>
          (case smb_stream_loop C h (unat len) (unat (start len)) r' of
             (r'', q) \<Rightarrow> (fst (sb_close_reader C h r''), Inr (len, q)))
      | (r', Inl e) \<Rightarrow> (r', Inl (smb_err (''download failed: '' @ key) e)))"

definition smb_get_stream :: "'r smb_client \<Rightarrow> string \<Rightarrow> string \<Rightarrow> ('r fs_world, u64 \<times> reader) sr" where
  "smb_get_stream C base key = onr (smb_open_stream C base key (\<lambda>len. 0))"

definition smb_get_range :: "'r smb_client \<Rightarrow> string \<Rightarrow> string \<Rightarrow> u64 \<Rightarrow> ('r fs_world, u64 \<times> reader) sr" where
  "smb_get_range C base key offset = onr (smb_open_stream C base key (\<lambda>len. min offset len))"

definition smb_put :: "'r smb_client \<Rightarrow> string \<Rightarrow> string \<Rightarrow> bytes \<Rightarrow> ('r fs_world, unit) sr" where
  "smb_put C base key data = onr (
     sbind (fctx (''upload failed: '' @ key) (sb_create_writer C (smb_full base key))) (\<lambda>h.
     sbind (fctx ''SMB write failed'' (write_chunks WRITE_CHUNK (sb_write_chunk C h) data)) (\<lambda>_.
     fctx ''SMB close failed'' (sb_finish C h))))"

text \<open>The limiter delays the chunks and has no other effect.\<close>

definition smb_put_throttled ::
  "'r smb_client \<Rightarrow> string \<Rightarrow> string \<Rightarrow> bytes \<Rightarrow> u64 option \<Rightarrow> ('r fs_world, unit) sr" where
  "smb_put_throttled C base key data limiter = onr (
     sbind (fctx (''upload failed: '' @ key) (sb_create_writer C (smb_full base key))) (\<lambda>h.
     sbind (fctx ''SMB write failed'' (write_chunks WRITE_CHUNK (sb_write_chunk C h) data)) (\<lambda>_.
     fctx ''SMB close failed'' (sb_finish C h))))"

definition smb_make_dir :: "'r smb_client \<Rightarrow> string \<Rightarrow> string \<Rightarrow> ('r, unit) sr" where
  "smb_make_dir C base partial r =
     (case sb_create_directory C (smb_full base partial) r of
        (r', Inr u) \<Rightarrow> (r', Inr ())
      | (r', Inl SmbExists) \<Rightarrow>
          sbind (fctx (''cannot create remote directory '' @ partial) (sb_stat C (smb_full base partial))) (\<lambda>is_directory.
          if is_directory then sret ()
          else serr (Msg (''remote path '' @ partial @ '' exists and is not a directory''))) r'
      | (r', Inl e) \<Rightarrow> (r', Inl (smb_err (''cannot create remote directory '' @ partial) e)))"

definition smb_prepare_parents :: "'r smb_client \<Rightarrow> string \<Rightarrow> string \<Rightarrow> ('r fs_world, unit) sr" where
  "smb_prepare_parents C base key = make_parents (smb_make_dir C base) (parent_dirs key)"

definition smb_create_multipart :: "'r smb_client \<Rightarrow> string \<Rightarrow> string \<Rightarrow> ('r fs_world, multipart_upload) sr" where
  "smb_create_multipart C base key =
     sbind (fctx (''upload failed: '' @ key) (onr (sb_create_writer C (smb_full base key))))
       (register_upload ''smb-'' key)"

text \<open>A failed write does not put the writer back.\<close>

definition smb_upload_part ::
  "'r smb_client \<Rightarrow> multipart_upload \<Rightarrow> int \<Rightarrow> bytes \<Rightarrow> u64 option \<Rightarrow> ('r fs_world, string \<times> u64 list) sr" where
  "smb_upload_part C mp n data limiter w =
     (case take_upload (upload_id mp) w of
        (w1, None) \<Rightarrow> (w1, Inl (Msg ''unknown upload id''))
      | (w1, Some h) \<Rightarrow>
          (case fctx ''SMB write failed'' (onr (write_chunks WRITE_CHUNK (sb_write_chunk C h) data)) w1 of
             (w2, Inr u) \<Rightarrow> (put_back (upload_id mp) h w2, Inr ([], map (of_nat \<circ> length) (chunks WRITE_CHUNK data)))
           | (w2, Inl e) \<Rightarrow> (w2, Inl e)))"

definition smb_complete_multipart ::
  "'r smb_client \<Rightarrow> multipart_upload \<Rightarrow> (int \<times> string) list \<Rightarrow> ('r fs_world, unit) sr" where
  "smb_complete_multipart C mp etags w =
     (case take_upload (upload_id mp) w of
        (w1, None) \<Rightarrow> (w1, Inr ())
      | (w1, Some h) \<Rightarrow> fctx ''SMB close failed'' (onr (sb_finish C h)) w1)"

text \<open>Deleting, where a missing entry is no error.\<close>

definition smb_gone :: "string \<Rightarrow> ('r \<Rightarrow> 'r \<times> (smb_error + unit)) \<Rightarrow> ('r, unit) sr" where
  "smb_gone m f r =
     (case f r of
        (r', Inr u) \<Rightarrow> (r', Inr ())
      | (r', Inl SmbNotFound) \<Rightarrow> (r', Inr ())
      | (r', Inl e) \<Rightarrow> (r', Inl (smb_err m e)))"

definition smb_abort_multipart :: "'r smb_client \<Rightarrow> string \<Rightarrow> multipart_upload \<Rightarrow> ('r fs_world, unit) sr" where
  "smb_abort_multipart C base mp w =
     (case take_upload (upload_id mp) w of
        (w1, None) \<Rightarrow> (w1, Inr ())
      | (w1, Some h) \<Rightarrow> onr (smb_gone ''SMB delete failed'' (sb_delete_file C (smb_full base (mp_key mp)))) w1)"

text \<open>The walk of \<open>delete\<close>: files go at once, the directories are returned in the order visited.\<close>

definition smb_sweep_one ::
  "'r smb_client \<Rightarrow> string \<Rightarrow> string list \<Rightarrow> raw_object \<Rightarrow> ('r fs_world, string list) sr" where
  "smb_sweep_one C base dirs ob =
     (if ro_is_prefix ob then sret (ro_key ob # dirs)
      else sbind (onr (smb_gone ''SMB delete failed'' (sb_delete_file C (smb_full base (ro_key ob))))) (\<lambda>_. sret dirs))"

fun smb_clear :: "'r smb_client \<Rightarrow> string \<Rightarrow> nat \<Rightarrow> string list \<Rightarrow> string list \<Rightarrow> ('r fs_world, string list) sr" where
  "smb_clear C base fuel [] order = sret order"
| "smb_clear C base 0 (d # dirs) order = serr Hang"
| "smb_clear C base (Suc fuel) (d # dirs) order =
     sbind (smb_list C base d) (\<lambda>objs.
     sbind (sfold (smb_sweep_one C base) dirs objs) (\<lambda>dirs'.
     smb_clear C base fuel dirs' (order @ [d])))"

definition forget_known :: "string \<Rightarrow> ('r fs_world, unit) sr" where
  "forget_known p w = (w\<lparr>fw_known := removeAll p (fw_known w)\<rparr>, Inr ())"

definition smb_rmdir_one :: "'r smb_client \<Rightarrow> string \<Rightarrow> string \<Rightarrow> ('r fs_world, unit) sr" where
  "smb_rmdir_one C base d =
     sbind (onr (smb_gone ''SMB rmdir failed'' (sb_delete_directory C (smb_full base d)))) (\<lambda>_.
     forget_known (trim_matches slash d))"

definition smb_rmdirs :: "'r smb_client \<Rightarrow> string \<Rightarrow> string list \<Rightarrow> ('r fs_world, unit) sr" where
  "smb_rmdirs C base order = sfold (\<lambda>_. smb_rmdir_one C base) () (rev order)"

definition smb_delete_one :: "'r smb_client \<Rightarrow> nat \<Rightarrow> string \<Rightarrow> string \<Rightarrow> ('r fs_world, unit) sr" where
  "smb_delete_one C fuel base key =
     (if ends_with slash key then sbind (smb_clear C base fuel [key] []) (smb_rmdirs C base)
      else onr (smb_gone ''SMB delete failed'' (sb_delete_file C (smb_full base key))))"

definition smb_delete :: "'r smb_client \<Rightarrow> nat \<Rightarrow> string \<Rightarrow> string list \<Rightarrow> ('r fs_world, unit) sr" where
  "smb_delete C fuel base ks = sfold (\<lambda>_. smb_delete_one C fuel base) () ks"

text \<open>The trait object; the vault, \<open>rename\<close> and \<open>read_header\<close> are the defaults of the trait.\<close>

definition smb_methods :: "'r smb_client \<Rightarrow> nat \<Rightarrow> string \<Rightarrow> 'r fs_world backend" where
  "smb_methods C fuel base = \<lparr>
     be_health_check = smb_health_check C,
     be_list = smb_list C base,
     be_list_recursive = smb_list_recursive C fuel base,
     be_get = smb_get C base,
     be_get_stream = smb_get_stream C base,
     be_put = smb_put C base,
     be_put_throttled = smb_put_throttled C base,
     be_get_vault = smb_get C base VAULT_KEY,
     be_put_vault = smb_put C base VAULT_KEY,
     be_prepare_parents = smb_prepare_parents C base,
     be_create_multipart = smb_create_multipart C base,
     be_upload_part = smb_upload_part C,
     be_complete_multipart = smb_complete_multipart C,
     be_abort_multipart = smb_abort_multipart C base,
     be_delete = smb_delete C fuel base,
     be_rename = (\<lambda>from to. sret ()),
     be_get_range = smb_get_range C base,
     be_read_header = (\<lambda>key len. sret []),
     be_tables = fs_tables\<rparr>"

definition smb_backend :: "'r smb_client \<Rightarrow> nat \<Rightarrow> string \<Rightarrow> 'r fs_world backend" where
  "smb_backend C fuel base =
     (let B = smb_methods C fuel base in
      B\<lparr>be_rename := default_rename B, be_read_header := default_read_header B\<rparr>)"

definition smb_dial ::
  "'r smb_client \<Rightarrow> nat \<Rightarrow> connection_profile \<Rightarrow> string \<Rightarrow> ('r fs_world, 'r fs_world backend) sr" where
  "smb_dial C fuel profile password =
     sbind (smb_connect C profile password) (\<lambda>base. sret (smb_backend C fuel base))"

end
