(* ===== verification/Smb_Correct.thy ===== *)
theory Smb_Correct
  imports Smb Reference_Fs
begin

text \<open>
  What the SMB backend guarantees when the server behaves like a file server. The laws state what the
  SMB library documents, relative to observations of the remote state: \<open>obs\<close> the content of files,
  \<open>hst\<close> the position of writers, \<open>isd\<close> the directories, \<open>view\<close> what an open reader sees. The
  locales of \<open>RemoteFs\<close> are interpreted here on the backend's own operations.
\<close>

section \<open>Directories\<close>

definition smb_mkdir_law :: "'r smb_client \<Rightarrow> ('r \<Rightarrow> string \<Rightarrow> bool) \<Rightarrow> bool" where
  "smb_mkdir_law C isd \<longleftrightarrow> (\<forall>p r r' x. sb_create_directory C p r = (r', x) \<longrightarrow>
     (\<forall>q. isd r q \<longrightarrow> isd r' q) \<and> (x = Inr () \<longrightarrow> isd r' p))"

definition smb_stat_law :: "'r smb_client \<Rightarrow> ('r \<Rightarrow> string \<Rightarrow> bool) \<Rightarrow> bool" where
  "smb_stat_law C isd \<longleftrightarrow> (\<forall>p r r' x. sb_stat C p r = (r', x) \<longrightarrow>
     isd r' = isd r \<and> (\<forall>b. x = Inr b \<longrightarrow> b = isd r p))"

text \<open>Removing a directory; distinct path strings name distinct directories, as on a share that tells case apart.\<close>

definition smb_rmdir_law :: "'r smb_client \<Rightarrow> ('r \<Rightarrow> string \<Rightarrow> bool) \<Rightarrow> bool" where
  "smb_rmdir_law C isd \<longleftrightarrow> (\<forall>p r r' x. sb_delete_directory C p r = (r', x) \<longrightarrow>
     (\<forall>q. q \<noteq> p \<longrightarrow> isd r' q = isd r q) \<and> (x = Inr () \<or> x = Inl SmbNotFound \<longrightarrow> \<not> isd r' p))"

definition smb_still_law :: "'r smb_client \<Rightarrow> ('r \<Rightarrow> string \<Rightarrow> bool) \<Rightarrow> bool" where
  "smb_still_law C isd \<longleftrightarrow> (\<forall>p r. isd (fst (sb_delete_file C p r)) = isd r \<and> isd (fst (sb_list_directory C p r)) = isd r)"

definition smb_dir_law :: "'r smb_client \<Rightarrow> ('r \<Rightarrow> string \<Rightarrow> bool) \<Rightarrow> bool" where
  "smb_dir_law C isd \<longleftrightarrow> smb_mkdir_law C isd \<and> smb_stat_law C isd \<and> smb_rmdir_law C isd \<and> smb_still_law C isd"

lemma smb_dir_lawD:
  assumes "smb_dir_law C isd"
  shows "sb_create_directory C p r = (r', x) \<Longrightarrow> (\<forall>q. isd r q \<longrightarrow> isd r' q) \<and> (x = Inr () \<longrightarrow> isd r' p)"
    and "sb_stat C p r = (r', y) \<Longrightarrow> isd r' = isd r \<and> (\<forall>b. y = Inr b \<longrightarrow> b = isd r p)"
    and "sb_delete_directory C p r = (r', z) \<Longrightarrow>
      (\<forall>q. q \<noteq> p \<longrightarrow> isd r' q = isd r q) \<and> (z = Inr () \<or> z = Inl SmbNotFound \<longrightarrow> \<not> isd r' p)"
    and "isd (fst (sb_delete_file C p r)) = isd r" "isd (fst (sb_list_directory C p r)) = isd r"
proof -
  note L = assms [unfolded smb_dir_law_def]
  show "sb_create_directory C p r = (r', x) \<Longrightarrow> (\<forall>q. isd r q \<longrightarrow> isd r' q) \<and> (x = Inr () \<longrightarrow> isd r' p)"
    by (rule conjunct1 [OF L, unfolded smb_mkdir_law_def, rule_format])
  show "sb_stat C p r = (r', y) \<Longrightarrow> isd r' = isd r \<and> (\<forall>b. y = Inr b \<longrightarrow> b = isd r p)"
    by (rule conjunct1 [OF conjunct2 [OF L], unfolded smb_stat_law_def, rule_format])
  show "sb_delete_directory C p r = (r', z) \<Longrightarrow>
      (\<forall>q. q \<noteq> p \<longrightarrow> isd r' q = isd r q) \<and> (z = Inr () \<or> z = Inl SmbNotFound \<longrightarrow> \<not> isd r' p)"
    by (rule conjunct1 [OF conjunct2 [OF conjunct2 [OF L]], unfolded smb_rmdir_law_def, rule_format])
  show "isd (fst (sb_delete_file C p r)) = isd r" "isd (fst (sb_list_directory C p r)) = isd r"
    using conjunct2 [OF conjunct2 [OF conjunct2 [OF L]]] by (simp_all add: smb_still_law_def)
qed

interpretation smb_dirs: dir_maker "smb_make_dir C base" "\<lambda>r p. isd r (smb_full base p)" "\<lambda>_. smb_dir_law C isd"
  for C :: "'r smb_client" and base isd
proof
  fix r p r' and x :: "unit result"
  assume law: "smb_dir_law C isd" and m: "smb_make_dir C base p r = (r', x)"
  obtain r1 y where c: "sb_create_directory C (smb_full base p) r = (r1, y)" by fastforce
  obtain r2 z where s: "sb_stat C (smb_full base p) r1 = (r2, z)" by fastforce
  note L = smb_dir_lawD(1) [OF law c] smb_dir_lawD(2) [OF law s]
  show "smb_dir_law C isd \<and> (\<forall>q. isd r (smb_full base q) \<longrightarrow> isd r' (smb_full base q)) \<and>
      (x = Inr () \<longrightarrow> isd r' (smb_full base p))"
  proof (cases y)
    case (Inl e)
    with law m c s L show ?thesis
      by (cases e; cases z) (auto simp: smb_make_dir_def sbind_apply fctx_apply sret_def serr_def hctx_def split: if_splits)
  next
    case (Inr u)
    with law m c L show ?thesis by (auto simp: smb_make_dir_def)
  qed
qed

section \<open>The memory of created directories survives deletions\<close>

text \<open>A relative path as the program writes directories into its memory.\<close>

definition clean :: "string \<Rightarrow> bool" where
  "clean p \<longleftrightarrow> p \<noteq> [] \<and> hd p \<noteq> slash \<and> last p \<noteq> slash"

lemma trim_end_clean: "clean p \<Longrightarrow> trim_end_matches slash p = p"
  by (cases p rule: rev_cases) (auto simp: clean_def trim_end_matches_def)

lemma trim_end_clean_dir: "clean p \<Longrightarrow> trim_end_matches slash (p @ [slash]) = p"
  by (simp add: slash_simps trim_end_clean)

lemma trim_clean_dir: "clean p \<Longrightarrow> trim_matches slash (p @ [slash]) = p"
proof -
  assume p: "clean p"
  then have "dropWhile (\<lambda>c. c = slash) p = p" by (cases p) (auto simp: clean_def)
  with trim_end_clean_dir [OF p] trim_end_clean [OF p] show ?thesis
    using p by (cases p) (auto simp: trim_matches_def clean_def)
qed

lemma smb_full_inj:
  assumes "clean p" "clean q" "smb_full base p = smb_full base q"
  shows "p = q"
  using assms by (auto simp: smb_full_def trim_end_clean Let_def clean_def split: if_splits)

lemma smb_full_dir: "clean p \<Longrightarrow> smb_full base (p @ [slash]) = smb_full base p"
  by (simp add: smb_full_def trim_end_clean trim_end_clean_dir)

text \<open>What is remembered is clean and there.\<close>

definition smb_known_ok :: "('r \<Rightarrow> string \<Rightarrow> bool) \<Rightarrow> string \<Rightarrow> 'r fs_world \<Rightarrow> bool" where
  "smb_known_ok isd base w \<longleftrightarrow> (\<forall>p \<in> set (fw_known w). clean p \<and> isd (fw_remote w) (smb_full base p))"

definition dir_keys :: "string set" where
  "dir_keys = {p @ [slash] | p. clean p}"

definition smb_names_law :: "'r smb_client \<Rightarrow> bool" where
  "smb_names_law C \<longleftrightarrow> (\<forall>p r r' es. sb_list_directory C p r = (r', Inr es) \<longrightarrow>
     (\<forall>e \<in> set es. se_name e \<noteq> [] \<and> slash \<notin> set (se_name e)))"

lemma smb_entries_dirs:
  assumes "d \<in> dir_keys" "\<forall>e \<in> set es. se_name e \<noteq> [] \<and> slash \<notin> set (se_name e)"
  shows "ob \<in> set (smb_entries d es) \<Longrightarrow> ro_is_prefix ob \<Longrightarrow> ro_key ob \<in> dir_keys"
  using assms(2)
proof (induction es)
  case (Cons e es)
  obtain p where p: "d = p @ [slash]" "clean p" using assms(1) by (auto simp: dir_keys_def)
  have "last (se_name e) \<noteq> slash" using Cons.prems(3) last_in_set [of "se_name e"] by force
  then have "clean (p @ [slash] @ se_name e)" using p Cons.prems(3) by (cases p) (auto simp: clean_def)
  then have "d @ se_name e @ [slash] \<in> dir_keys" using p by (auto simp: dir_keys_def)
  then show ?case using Cons by (auto split: if_splits)
qed simp

lemma smb_gone_still:
  "smb_dir_law C isd \<Longrightarrow> isd (fst (smb_gone m (sb_delete_file C p) r)) = isd r"
  using smb_dir_lawD(4) [of C isd p r] by (auto simp: smb_gone_def split: prod.splits sum.splits smb_error.splits)

lemma smb_list_result:
  "sb_list_directory C (smb_full base d) (fw_remote w) = (r, Inr es) \<Longrightarrow>
     smb_list C base d w = (w\<lparr>fw_remote := r\<rparr>, Inr (smb_entries d es))"
  "sb_list_directory C (smb_full base d) (fw_remote w) = (r, Inl e) \<Longrightarrow> \<exists>e'. smb_list C base d w = (w\<lparr>fw_remote := r\<rparr>, Inl e')"
  by (auto simp: smb_list_def sbind_apply fctx_apply onr_apply sret_def hctx_def)

lemma smb_sweep_one_result:
  assumes "smb_dir_law C isd" "smb_sweep_one C base dirs ob w = (w', Inr dirs')"
  shows "dirs' = (if ro_is_prefix ob then ro_key ob # dirs else dirs) \<and> fw_known w' = fw_known w \<and>
    isd (fw_remote w') = isd (fw_remote w)"
  using assms smb_gone_still [OF assms(1), of "''SMB delete failed''" "smb_full base (ro_key ob)" "fw_remote w"]
  by (auto simp: smb_sweep_one_def sbind_apply onr_apply sret_def split: if_splits sum.splits)

lemma smb_sweep:
  assumes "smb_dir_law C isd"
  shows "sfold (smb_sweep_one C base) dirs objs w = (w', Inr dirs') \<Longrightarrow>
     set dirs' = set dirs \<union> ro_key ` set (filter ro_is_prefix objs) \<and>
     fw_known w' = fw_known w \<and> isd (fw_remote w') = isd (fw_remote w)"
proof (induction objs arbitrary: dirs w)
  case (Cons ob objs)
  obtain w1 x where o: "smb_sweep_one C base dirs ob w = (w1, x)" by fastforce
  with Cons.prems obtain ds where x: "x = Inr ds" and rest: "sfold (smb_sweep_one C base) ds objs w1 = (w', Inr dirs')"
    by (cases x) (auto simp: sbind_apply)
  from Cons.IH [OF rest] smb_sweep_one_result [OF assms o [unfolded x]] show ?case by auto
qed (simp add: sret_def)

lemma smb_clear_dirs:
  assumes "smb_dir_law C isd" "smb_names_law C"
  shows "smb_clear C base fuel dirs order w = (w', Inr out) \<Longrightarrow> set dirs \<subseteq> dir_keys \<Longrightarrow> set order \<subseteq> dir_keys \<Longrightarrow>
     set out \<subseteq> dir_keys \<and> set order \<union> set dirs \<subseteq> set out \<and> fw_known w' = fw_known w \<and>
     isd (fw_remote w') = isd (fw_remote w)"
proof (induction fuel arbitrary: dirs order w)
  case 0
  then show ?case by (cases dirs) (auto simp: sret_def serr_def)
next
  case (Suc fuel)
  show ?case
  proof (cases dirs)
    case Nil
    with Suc.prems show ?thesis by (auto simp: sret_def)
  next
    case (Cons d ds)
    obtain r x where l: "sb_list_directory C (smb_full base d) (fw_remote w) = (r, x)" by fastforce
    let ?w = "w\<lparr>fw_remote := r\<rparr>"
    from Suc.prems(1) Cons l obtain es where x: "x = Inr es"
      using smb_list_result(2) [of C base d w r] by (cases x) (fastforce simp: sbind_apply)+
    obtain w1 y where f: "sfold (smb_sweep_one C base) ds (smb_entries d es) ?w = (w1, y)" by fastforce
    with Suc.prems(1) Cons smb_list_result(1) [OF l [unfolded x]] obtain ds' where y: "y = Inr ds'"
      and rest: "smb_clear C base fuel ds' (order @ [d]) w1 = (w', Inr out)"
      by (cases y) (auto simp: sbind_apply)
    note F = smb_sweep [OF assms(1) f [unfolded y]]
    have d: "d \<in> dir_keys" "set ds \<subseteq> dir_keys" using Suc.prems(2) Cons by auto
    have "\<forall>e \<in> set es. se_name e \<noteq> [] \<and> slash \<notin> set (se_name e)"
      using assms(2) [unfolded smb_names_law_def] l x by blast
    from smb_entries_dirs [OF d(1) this] have "set ds' \<subseteq> dir_keys" using F d by auto
    from Suc.IH [OF rest this] d Suc.prems(3)
    have "set out \<subseteq> dir_keys \<and> set (order @ [d]) \<union> set ds' \<subseteq> set out \<and> fw_known w' = fw_known w1 \<and>
      isd (fw_remote w') = isd (fw_remote w1)" by auto
    moreover have "isd r = isd (fw_remote w)" using smb_dir_lawD(5) [OF assms(1)] l by (metis fst_conv)
    ultimately show ?thesis using F Cons by auto
  qed
qed

lemma smb_rmdir_one_result:
  assumes law: "smb_dir_law C isd" and d: "d \<in> dir_keys" and ok: "smb_known_ok isd base w"
    and r: "smb_rmdir_one C base d w = (w', x)" "x = Inr ()"
  shows "smb_known_ok isd base w' \<and> (\<forall>q. isd (fw_remote w') q \<longrightarrow> isd (fw_remote w) q) \<and> \<not> isd (fw_remote w') (smb_full base d)"
proof -
  obtain p where p: "d = p @ [slash]" "clean p" using d by (auto simp: dir_keys_def)
  obtain r1 y where g: "sb_delete_directory C (smb_full base d) (fw_remote w) = (r1, y)" by fastforce
  note L = smb_dir_lawD(3) [OF law g]
  have y: "y = Inr () \<or> y = Inl SmbNotFound"
    and w': "w' = w\<lparr>fw_remote := r1, fw_known := removeAll p (fw_known w)\<rparr>"
    using r g p by (auto simp: smb_rmdir_one_def sbind_apply onr_apply smb_gone_def forget_known_def trim_clean_dir
        split: sum.splits smb_error.splits)
  have "smb_full base q \<noteq> smb_full base d" if "q \<in> set (fw_known w')" for q
    using that ok p w' smb_full_inj [of q p base] smb_full_dir [of p base] by (auto simp: smb_known_ok_def)
  then show ?thesis using ok L y w' unfolding smb_known_ok_def by (auto, metis+)
qed

lemma smb_rmdirs_known:
  assumes law: "smb_dir_law C isd"
  shows "sfold (\<lambda>_. smb_rmdir_one C base) () ds w = (w', Inr ()) \<Longrightarrow> set ds \<subseteq> dir_keys \<Longrightarrow> smb_known_ok isd base w \<Longrightarrow>
     smb_known_ok isd base w' \<and> (\<forall>q. isd (fw_remote w') q \<longrightarrow> isd (fw_remote w) q) \<and>
     (\<forall>d \<in> set ds. \<not> isd (fw_remote w') (smb_full base d))"
proof (induction ds arbitrary: w)
  case (Cons d ds)
  obtain w1 x where o: "smb_rmdir_one C base d w = (w1, x)" by fastforce
  with Cons.prems(1) have x: "x = Inr ()" and rest: "sfold (\<lambda>_. smb_rmdir_one C base) () ds w1 = (w', Inr ())"
    by (cases x; simp add: sbind_apply)+
  have "d \<in> dir_keys" using Cons.prems(2) by simp
  note R = smb_rmdir_one_result [OF law this Cons.prems(3) o x]
  from Cons.IH [OF rest] Cons.prems(2) R show ?case by auto
qed (simp add: sret_def)

lemma smb_delete_known:
  assumes law: "smb_dir_law C isd" "smb_names_law C"
  shows "smb_delete C fuel base ks w = (w', Inr ()) \<Longrightarrow> \<forall>k \<in> set ks. ends_with slash k \<longrightarrow> k \<in> dir_keys \<Longrightarrow>
     smb_known_ok isd base w \<Longrightarrow> smb_known_ok isd base w' \<and> (\<forall>q. isd (fw_remote w') q \<longrightarrow> isd (fw_remote w) q) \<and>
     (\<forall>k \<in> set ks. ends_with slash k \<longrightarrow> \<not> isd (fw_remote w') (smb_full base k))"
proof (induction ks arbitrary: w)
  case (Cons k ks)
  obtain w1 x where d: "smb_delete_one C fuel base k w = (w1, x)" by fastforce
  with Cons.prems(1) have x: "x = Inr ()" and rest: "smb_delete C fuel base ks w1 = (w', Inr ())"
    by (cases x; simp add: smb_delete_def sbind_apply)+
  have one: "smb_known_ok isd base w1 \<and> (\<forall>q. isd (fw_remote w1) q \<longrightarrow> isd (fw_remote w) q) \<and>
    (ends_with slash k \<longrightarrow> \<not> isd (fw_remote w1) (smb_full base k))"
  proof (cases "ends_with slash k")
    case True
    then have k: "set [k] \<subseteq> dir_keys" using Cons.prems(2) by simp
    from True d x obtain w0 out where c: "smb_clear C base fuel [k] [] w = (w0, Inr out)"
      and r: "smb_rmdirs C base out w0 = (w1, Inr ())"
      by (auto simp: smb_delete_one_def sbind_apply split: prod.splits sum.splits)
    note C = smb_clear_dirs [OF law c k, simplified]
    have "smb_known_ok isd base w0" using C Cons.prems(3) by (simp add: smb_known_ok_def)
    with smb_rmdirs_known [OF law(1) r [unfolded smb_rmdirs_def]] C show ?thesis by auto
  next
    case False
    have "isd (fw_remote w1) = isd (fw_remote w)" "fw_known w1 = fw_known w"
      using d False smb_gone_still [OF law(1), of "''SMB delete failed''" "smb_full base k" "fw_remote w"]
      by (auto simp: smb_delete_one_def onr_apply)
    then show ?thesis using False Cons.prems(3) by (simp add: smb_known_ok_def)
  qed
  from Cons.IH [OF rest] Cons.prems(2) one show ?case by auto
qed (simp add: smb_delete_def sret_def)

text \<open>
  C15. A folder deleted over SMB can be uploaded into again, on a share where differently written paths name
  different directories (on one that ignores case, a directory created under another spelling than
  the one deleted stays in the memory): \<open>delete\<close> removes the folder and forgets, with it
  and every subfolder, that it had been created, so the memory of created directories keeps naming
  only existing ones, and a later \<open>prepare_parents\<close> that succeeds leaves every parent of its key in
  existence, whatever was deleted before.
\<close>

theorem smb_folder_recreated:
  assumes "smb_dir_law C isd" "smb_names_law C" "clean d" "smb_known_ok isd base w"
    and "smb_delete C fuel base [d @ [slash]] w = (w1, Inr ())"
    and "smb_prepare_parents C base key w1 = (w2, Inr ())"
  shows "\<not> isd (fw_remote w1) (smb_full base d) \<and> smb_known_ok isd base w1 \<and>
    (\<forall>p \<in> set (parent_dirs key). isd (fw_remote w2) (smb_full base p))"
proof -
  have "\<forall>k \<in> set [d @ [slash]]. ends_with slash k \<longrightarrow> k \<in> dir_keys" using assms(3) by (auto simp: dir_keys_def)
  note D = smb_delete_known [OF assms(1,2,5) this assms(4)]
  then have "smb_dirs.known_ok isd base C w1"
    unfolding smb_dirs.known_ok_def using assms(1) by (simp add: smb_known_ok_def)
  from smb_dirs.make_parents_made [OF this, of "parent_dirs key" w2 "Inr ()"] show ?thesis
    using assms(6) D smb_full_dir [OF assms(3)] by (auto simp: smb_prepare_parents_def)
qed

section \<open>Reading\<close>

text \<open>\<open>view\<close> is the content an open reader sees.\<close>

definition smb_open_read_law ::
  "'r smb_client \<Rightarrow> ('r \<Rightarrow> string \<Rightarrow> bytes option) \<Rightarrow> ('r \<Rightarrow> nat \<Rightarrow> bytes option) \<Rightarrow> bool" where
  "smb_open_read_law C obs view \<longleftrightarrow> (\<forall>p r r' x. sb_open_reader C p r = (r', x) \<longrightarrow>
     obs r' = obs r \<and> (x = Inl SmbNotFound \<longrightarrow> obs r p = None) \<and>
     (\<forall>h n. x = Inr (h, n) \<longrightarrow> (\<exists>c. obs r p = Some c \<and> view r' h = Some c \<and> length c = unat n)))"

definition smb_read_at_law :: "'r smb_client \<Rightarrow> ('r \<Rightarrow> nat \<Rightarrow> bytes option) \<Rightarrow> bool" where
  "smb_read_at_law C view \<longleftrightarrow> (\<forall>h off want r r' x c. sb_read_at C h off want r = (r', x) \<longrightarrow> view r h = Some c \<longrightarrow>
     view r' h = Some c \<and> (\<forall>d. x = Inr d \<longrightarrow> d = take (length d) (drop (unat off) c) \<and> length d \<le> unat want \<and>
       (unat off < length c \<longrightarrow> 0 < want \<longrightarrow> d \<noteq> [])))"

definition smb_read_law ::
  "'r smb_client \<Rightarrow> ('r \<Rightarrow> string \<Rightarrow> bytes option) \<Rightarrow> ('r \<Rightarrow> nat \<Rightarrow> bytes option) \<Rightarrow> bool" where
  "smb_read_law C obs view \<longleftrightarrow> smb_open_read_law C obs view \<and> smb_read_at_law C view"

lemma smb_read_lawD:
  assumes "smb_read_law C obs view"
  shows "sb_open_reader C p r = (r', x) \<Longrightarrow> obs r' = obs r \<and> (x = Inl SmbNotFound \<longrightarrow> obs r p = None) \<and>
      (\<forall>h n. x = Inr (h, n) \<longrightarrow> (\<exists>c. obs r p = Some c \<and> view r' h = Some c \<and> length c = unat n))"
    and "sb_read_at C h off want r = (r', y) \<Longrightarrow> view r h = Some c \<Longrightarrow>
      view r' h = Some c \<and> (\<forall>d. y = Inr d \<longrightarrow> d = take (length d) (drop (unat off) c) \<and> length d \<le> unat want \<and>
        (unat off < length c \<longrightarrow> 0 < want \<longrightarrow> d \<noteq> []))"
proof -
  note L = assms [unfolded smb_read_law_def]
  show "sb_open_reader C p r = (r', x) \<Longrightarrow> obs r' = obs r \<and> (x = Inl SmbNotFound \<longrightarrow> obs r p = None) \<and>
      (\<forall>h n. x = Inr (h, n) \<longrightarrow> (\<exists>c. obs r p = Some c \<and> view r' h = Some c \<and> length c = unat n))"
    by (rule conjunct1 [OF L, unfolded smb_open_read_law_def, rule_format])
  show "sb_read_at C h off want r = (r', y) \<Longrightarrow> view r h = Some c \<Longrightarrow>
      view r' h = Some c \<and> (\<forall>d. y = Inr d \<longrightarrow> d = take (length d) (drop (unat off) c) \<and> length d \<le> unat want \<and>
        (unat off < length c \<longrightarrow> 0 < want \<longrightarrow> d \<noteq> []))"
    by (rule conjunct2 [OF L, unfolded smb_read_at_law_def, rule_format])
qed

text \<open>One read inside the file is a non-empty piece at the offset asked for.\<close>

lemma smb_read_step:
  assumes "smb_read_law C obs view" "view r h = Some c" "length c < 2 ^ 64" "off < length c"
    and "sb_read_at C h (of_nat off) (of_nat (min STREAM_CHUNK (length c - off))) r = (r', Inr d)"
  shows "view r' h = Some c" "d \<noteq> []" "d @ drop (off + length d) c = drop off c"
proof -
  have u: "unat (of_nat off :: u64) = off" using assms(3,4) by (simp add: u64_of_nat)
  have "min STREAM_CHUNK (length c - off) < 2 ^ 64" "0 < min STREAM_CHUNK (length c - off)"
    using assms(3,4) by (simp_all add: STREAM_CHUNK_def)
  then have "0 < (of_nat (min STREAM_CHUNK (length c - off)) :: u64)"
    by (simp add: word_less_nat_alt u64_of_nat)
  with smb_read_lawD(2) [OF assms(1,5,2)] u assms(4)
  have "view r' h = Some c" "d \<noteq> []" and d: "d = take (length d) (drop off c)" by auto
  then show "view r' h = Some c" "d \<noteq> []" by simp_all
  have "drop (off + length d) c = drop (length d) (drop off c)" by (simp add: add.commute)
  with d show "d @ drop (off + length d) c = drop off c" by (metis append_take_drop_id)
qed

lemma smb_read_loop_whole:
  assumes law: "smb_read_law C obs view" "length c < 2 ^ 64"
  shows "view r h = Some c \<Longrightarrow> smb_read_loop C h (length c) off out r = (r', Inr d) \<Longrightarrow> d = out @ drop off c"
proof (induction "length c - off" arbitrary: off out r rule: less_induct)
  case less
  show ?case
  proof (cases "off < length c")
    case True
    obtain r1 x where a: "sb_read_at C h (of_nat off) (of_nat (min STREAM_CHUNK (length c - off))) r = (r1, x)" by fastforce
    with less.prems(2) True obtain b where x: "x = Inr b"
      by (cases x) (auto simp: smb_read_loop.simps [of C h] hctx_def split: if_splits)
    note S = smb_read_step [OF law(1) less.prems(1) law(2) True a [unfolded x]]
    have "smb_read_loop C h (length c) (off + length b) (out @ b) r1 = (r', Inr d)"
      using less.prems(2) True a x S(2) by (simp add: smb_read_loop.simps [of C h "length c" off])
    from less.hyps [OF _ S(1) this] S(2,3) True show ?thesis by (cases b) auto
  next
    case False
    with less.prems(2) show ?thesis by (simp add: smb_read_loop.simps)
  qed
qed

lemma smb_stream_loop_whole:
  assumes law: "smb_read_law C obs view" "length c < 2 ^ 64"
  shows "view r h = Some c \<Longrightarrow> smb_stream_loop C h (length c) off r = (r', q) \<Longrightarrow> rd_content q = (d, None) \<Longrightarrow> d = drop off c"
proof (induction "length c - off" arbitrary: off r r' q d rule: less_induct)
  case less
  show ?case
  proof (cases "off < length c")
    case True
    obtain r1 x where a: "sb_read_at C h (of_nat off) (of_nat (min STREAM_CHUNK (length c - off))) r = (r1, x)" by fastforce
    with less.prems(2,3) True obtain b where x: "x = Inr b"
      by (cases x) (auto simp: smb_stream_loop.simps [of C h])
    note S = smb_read_step [OF law(1) less.prems(1) law(2) True a [unfolded x]]
    obtain r2 q2 where l: "smb_stream_loop C h (length c) (off + length b) r1 = (r2, q2)" by fastforce
    with less.prems(2) True a x S(2) have q: "q = Inr b # q2" by (simp add: smb_stream_loop.simps [of C h "length c" off])
    with less.prems(3) obtain d2 where "rd_content q2 = (d2, None)" "d = b @ d2" by (auto split: prod.splits)
    with less.hyps [OF _ S(1) l] S(2,3) True show ?thesis by (cases b) auto
  next
    case False
    with less.prems(2,3) show ?thesis by (simp add: smb_stream_loop.simps)
  qed
qed

text \<open>
  A download over SMB that reaches the end of its stream has read the file: whatever the sizes in which
  the server answers, a ranged stream that ends without an error carries exactly the content from the
  offset on, and the length announced with it is the length of the file.
\<close>

theorem smb_range_whole:
  assumes "smb_read_law C obs view" "smb_get_range C base key offset w = (w', Inr (len, q))" "rd_content q = (d, None)"
  shows "\<exists>c. obs (fw_remote w) (smb_full base key) = Some c \<and> length c = unat len \<and> d = drop (unat offset) c"
proof -
  obtain r x where o: "sb_open_reader C (smb_full base key) (fw_remote w) = (r, x)" by fastforce
  with assms(2) obtain h where x: "x = Inr (h, len)"
    by (cases x) (auto simp: smb_get_range_def onr_eq smb_open_stream_def split: prod.splits)
  from smb_read_lawD(1) [OF assms(1) o] x obtain c where c: "obs (fw_remote w) (smb_full base key) = Some c"
    "view r h = Some c" "length c = unat len" by blast
  obtain r2 where l: "smb_stream_loop C h (length c) (unat (min offset len)) r = (r2, q)"
    using assms(2) o x c(3) by (auto simp: smb_get_range_def onr_eq smb_open_stream_def split: prod.splits)
  have "length c < 2 ^ 64" using c(3) unat_bound [of len] by simp
  from smb_stream_loop_whole [OF assms(1) this c(2) l assms(3)]
  have "d = drop (min (unat offset) (unat len)) c" by (simp add: min_def word_le_nat_alt)
  then show ?thesis using c by (cases "unat offset \<le> unat len") (auto simp: min_def)
qed

lemma smb_get_whole:
  assumes "smb_read_law C obs view" "smb_get C base key w = (w', Inr d)"
  shows "d = obs (fw_remote w) (smb_full base key)"
proof -
  obtain r x where o: "sb_open_reader C (smb_full base key) (fw_remote w) = (r, x)" by fastforce
  note L = smb_read_lawD(1) [OF assms(1) o]
  show ?thesis
  proof (cases x)
    case (Inl e)
    with assms(2) o L show ?thesis by (cases e) (auto simp: smb_get_def onr_eq hctx_def split: if_splits)
  next
    case (Inr y)
    obtain h n where y: "y = (h, n)" by fastforce
    with L Inr obtain c where c: "obs (fw_remote w) (smb_full base key) = Some c" "view r h = Some c" "length c = unat n"
      by blast
    obtain r1 z where l: "smb_read_loop C h (unat n) 0 [] r = (r1, z)" by fastforce
    with assms(2) o Inr y obtain out where z: "z = Inr out" "d = Some out"
      by (cases z) (auto simp: smb_get_def onr_eq sbind_apply tried_apply sret_def split: if_splits)
    have "length c < 2 ^ 64" using c(3) unat_bound [of n] by simp
    from smb_read_loop_whole [OF assms(1) this c(2), of 0 "[]" r1 out] l z c show ?thesis by simp
  qed
qed

section \<open>Writing\<close>

definition smb_create_law ::
  "'r smb_client \<Rightarrow> ('r \<Rightarrow> string \<Rightarrow> bytes option) \<Rightarrow> ('r \<Rightarrow> nat \<Rightarrow> (string \<times> nat) option) \<Rightarrow> bool" where
  "smb_create_law C obs hst \<longleftrightarrow> (\<forall>p r r' x. sb_create_writer C p r = (r', x) \<longrightarrow>
     (\<forall>q. q \<noteq> p \<longrightarrow> obs r' q = obs r q) \<and> (\<forall>h. x = Inr h \<longrightarrow> obs r' p = Some [] \<and> hst r' h = Some (p, 0)))"

definition smb_append_law ::
  "'r smb_client \<Rightarrow> ('r \<Rightarrow> string \<Rightarrow> bytes option) \<Rightarrow> ('r \<Rightarrow> nat \<Rightarrow> (string \<times> nat) option) \<Rightarrow> bool" where
  "smb_append_law C obs hst \<longleftrightarrow> (\<forall>h d p n r r' x. sb_write_chunk C h d r = (r', x) \<longrightarrow> hst r h = Some (p, n) \<longrightarrow>
     (\<forall>q. q \<noteq> p \<longrightarrow> obs r' q = obs r q) \<and>
     (x = Inr () \<longrightarrow> hst r' h = Some (p, n + length d) \<and> (\<forall>c. obs r p = Some c \<longrightarrow> obs r' p = Some (splice c n d))))"

definition smb_write_law ::
  "'r smb_client \<Rightarrow> ('r \<Rightarrow> string \<Rightarrow> bytes option) \<Rightarrow> ('r \<Rightarrow> nat \<Rightarrow> (string \<times> nat) option) \<Rightarrow> bool" where
  "smb_write_law C obs hst \<longleftrightarrow> smb_create_law C obs hst \<and> smb_append_law C obs hst \<and>
     (\<forall>h r. obs (fst (sb_finish C h r)) = obs r)"

interpretation smb_files: file_server "sb_create_writer C" "sb_write_chunk C" obs hst "\<lambda>_. smb_write_law C obs hst"
  for C :: "'r smb_client" and obs hst
proof
  fix r p r' x
  assume l: "smb_write_law C obs hst" and o: "sb_create_writer C p r = (r', x)"
  show "smb_write_law C obs hst \<and> (\<forall>q. q \<noteq> p \<longrightarrow> obs r' q = obs r q) \<and>
      (\<forall>h. x = Inr h \<longrightarrow> obs r' p = Some [] \<and> hst r' h = Some (p, 0))"
    using l conjunct1 [OF l [unfolded smb_write_law_def], unfolded smb_create_law_def, rule_format, OF o] by blast
next
  fix r h p n d r' y
  assume l: "smb_write_law C obs hst" and hs: "hst r h = Some (p, n)" and w: "sb_write_chunk C h d r = (r', y)"
  note W = conjunct1 [OF conjunct2 [OF l [unfolded smb_write_law_def]], unfolded smb_append_law_def, rule_format, OF w hs]
  show "smb_write_law C obs hst \<and> (\<forall>q. q \<noteq> p \<longrightarrow> obs r' q = obs r q) \<and>
      (y = Inr () \<longrightarrow> hst r' h = Some (p, n + length d) \<and> (\<forall>c. obs r p = Some c \<longrightarrow> obs r' p = Some (splice c n d)))"
    using l W by blast
qed

lemma smb_upload_part_holds:
  assumes "smb_files.holds obs hst C (fw_remote w) h p c" "map_of (fw_uploads w) (upload_id mp) = Some h"
    and "smb_upload_part C mp n d lim w = (w', Inr y)"
  shows "smb_files.holds obs hst C (fw_remote w') h p (c @ d) \<and> map_of (fw_uploads w') (upload_id mp) = Some h \<and>
    (\<forall>q. q \<noteq> p \<longrightarrow> obs (fw_remote w') q = obs (fw_remote w) q)"
proof -
  obtain r x where o: "write_chunks WRITE_CHUNK (sb_write_chunk C h) d (fw_remote w) = (r, x)" by fastforce
  have "x = Inr ()" "fw_remote w' = r" "map_of (fw_uploads w') (upload_id mp) = Some h"
    using assms(2,3) o
    by (auto simp: smb_upload_part_def take_upload_def fctx_apply onr_apply split: sum.splits)
  with smb_files.write_chunks_hold [OF assms(1), of WRITE_CHUNK d r] o show ?thesis by (simp add: WRITE_CHUNK_def)
qed

text \<open>
  A multipart upload over SMB stores the parts in order, leaves every other file as it was, and
  closes the upload.
\<close>

theorem smb_multipart_stores:
  assumes "smb_write_law C obs hst" "smb_create_multipart C base key w = (w1, Inr mp)"
    and "send_parts (\<lambda>n d. smb_upload_part C mp n d lim) parts w1 = (w2, Inr ())"
    and "smb_complete_multipart C mp tags w2 = (w3, Inr ())"
  shows "obs (fw_remote w3) = (obs (fw_remote w))(smb_full base key \<mapsto> concat (map snd parts)) \<and>
    map_of (fw_uploads w3) (upload_id mp) = None"
proof -
  let ?p = "smb_full base key"
  obtain h w0 where o: "sb_create_writer C ?p (fw_remote w) = (fw_remote w0, Inr h)"
    and reg: "register_upload ''smb-'' key h w0 = (w1, Inr mp)"
    using assms(2) by (cases "onr (sb_create_writer C ?p) w")
      (auto simp: smb_create_multipart_def sbind_apply fctx_apply onr_eq split: prod.splits sum.splits)
  define Q where "Q w' c \<longleftrightarrow> smb_files.holds obs hst C (fw_remote w') h ?p c \<and>
    map_of (fw_uploads w') (upload_id mp) = Some h \<and> (\<forall>q. q \<noteq> ?p \<longrightarrow> obs (fw_remote w') q = obs (fw_remote w) q)"
    for w' :: "'a fs_world" and c
  have "Q w1 []"
    using register_upload_props [OF reg] smb_files.opened [OF assms(1) o] smb_files.open_law [OF assms(1) o]
    by (auto simp: Q_def)
  moreover have "Q w' (c @ d)" if "Q w c" "smb_upload_part C mp n d lim w = (w', Inr y)" for w w' c n d y
    using that smb_upload_part_holds [of obs hst C w h ?p c mp n d lim w' y] by (auto simp: Q_def)
  ultimately have q: "Q w2 (concat (map snd parts))"
    using send_parts_hold [of Q "\<lambda>n d. smb_upload_part C mp n d lim" w1 "[]" parts w2] assms(3) by auto
  then have up: "map_of (fw_uploads w2) (upload_id mp) = Some h" by (simp add: Q_def)
  have "\<forall>h r. obs (fst (sb_finish C h r)) = obs r" using assms(1) by (simp add: smb_write_law_def)
  then have "obs (fw_remote w3) = obs (fw_remote w2) \<and> fw_uploads w3 = AList.delete (upload_id mp) (fw_uploads w2)"
    using assms(4) up by (auto simp: smb_complete_multipart_def take_upload_def fctx_apply onr_apply)
  moreover have "obs (fw_remote w2) ?p = Some (concat (map snd parts))"
    using q unfolding Q_def smb_files.holds_def by blast
  ultimately show ?thesis using q by (auto simp: Q_def delete_conv' fun_eq_iff)
qed

text \<open>
  A failed part leaves the partial file behind: once a write of \<open>upload_part\<close> has failed, the id of the
  upload is forgotten, so \<open>abort_multipart\<close> reports success without deleting anything.
\<close>

theorem smb_failed_part_leaks:
  assumes "smb_upload_part C mp n d lim w = (w', Inl e)"
  shows "smb_abort_multipart C base mp w' = (w', Inr ())"
proof -
  have "AList.delete (upload_id mp) (fw_uploads w') = fw_uploads w' \<and> map_of (fw_uploads w') (upload_id mp) = None"
    using assms by (auto simp: smb_upload_part_def take_upload_def fctx_apply onr_apply delete_conv' delete_idem
        split: option.splits sum.splits)
  then show ?thesis by (simp add: smb_abort_multipart_def take_upload_def)
qed

section \<open>Listings\<close>

definition smb_tree_law :: "'r smb_client \<Rightarrow> string \<Rightarrow> (string \<Rightarrow> smb_entry list option) \<Rightarrow> 'r set \<Rightarrow> bool" where
  "smb_tree_law C base es S \<longleftrightarrow>
     (\<forall>p e r. es p = Some e \<longrightarrow> r \<in> S \<longrightarrow> (\<exists>r' \<in> S. sb_list_directory C (smb_full base p) r = (r', Inr e))) \<and>
     (\<forall>p e ob. es p = Some e \<longrightarrow> ob \<in> set (smb_entries p e) \<longrightarrow> ro_is_prefix ob \<longrightarrow> es (ro_key ob) \<noteq> None)"

definition smb_ls :: "(string \<Rightarrow> smb_entry list option) \<Rightarrow> string \<Rightarrow> raw_object list" where
  "smb_ls es p = smb_entries p (case es p of Some e \<Rightarrow> e | None \<Rightarrow> [])"

interpretation smb_walk: fs_lister "smb_list C base" "smb_ls es" "{p. es p \<noteq> None}"
    "\<lambda>w. smb_tree_law C base es S \<and> fw_remote w \<in> S"
  for C :: "'r smb_client" and base es S
proof
  fix w :: "'r fs_world" and p
  assume ok: "smb_tree_law C base es S \<and> fw_remote w \<in> S" and "p \<in> {p. es p \<noteq> None}"
  then obtain e where e: "es p = Some e" by auto
  obtain r where r: "r \<in> S" "sb_list_directory C (smb_full base p) (fw_remote w) = (r, Inr e)"
    using conjunct1 [OF ok, unfolded smb_tree_law_def] e ok by blast
  then show "\<exists>w'. smb_list C base p w = (w', Inr (smb_ls es p)) \<and> smb_tree_law C base es S \<and> fw_remote w' \<in> S"
    using ok e smb_list_result(1) [OF r(2)] by (simp add: smb_ls_def)
next
  fix w :: "'r fs_world" and p ob
  assume ok: "smb_tree_law C base es S \<and> fw_remote w \<in> S" and p: "p \<in> {p. es p \<noteq> None}"
    and ob: "ob \<in> set (smb_ls es p)" "ro_is_prefix ob"
  then obtain e where "es p = Some e" by auto
  then show "ro_key ob \<in> {p. es p \<noteq> None}"
    using conjunct2 [OF conjunct1 [OF ok, unfolded smb_tree_law_def]] ob by (auto simp: smb_ls_def)
qed

theorem smb_list_recursive_complete:
  assumes "smb_tree_law C base es S" "fw_remote w \<in> S" "es prefix \<noteq> None"
    and "tree_files (smb_ls es) prefix (fs, n)" "n \<le> fuel"
  shows "\<exists>w' out. smb_list_recursive C fuel base prefix w = (w', Inr out) \<and> fw_remote w' \<in> S \<and> mset out = fs"
  using smb_walk.walk_complete [where w = w and C = C and S = S, OF assms(4) _ assms(5)] assms(1-3)
  by (auto simp: smb_list_recursive_def)

section \<open>The contract of a backend\<close>

text \<open>Reading and closing leave the files as they are.\<close>

definition smb_quiet_law :: "'r smb_client \<Rightarrow> ('r \<Rightarrow> string \<Rightarrow> bytes option) \<Rightarrow> bool" where
  "smb_quiet_law C obs \<longleftrightarrow> (\<forall>h off n r. obs (fst (sb_read_at C h off n r)) = obs r) \<and>
     (\<forall>h r. obs (fst (sb_close_reader C h r)) = obs r)"

definition smb_objects :: "('r \<Rightarrow> string \<Rightarrow> bytes option) \<Rightarrow> string \<Rightarrow> 'r fs_world \<Rightarrow> string \<Rightarrow> bytes option" where
  "smb_objects obs base w key = obs (fw_remote w) (smb_full base key)"

lemma smb_full_object_inj: "object_key k \<Longrightarrow> object_key k' \<Longrightarrow> smb_full base k = smb_full base k' \<Longrightarrow> k = k'"
  by (auto simp: smb_full_def object_key_def ends_with_def trim_end_no_match Let_def split: if_splits)

lemma smb_read_loop_quiet:
  assumes "smb_quiet_law C obs"
  shows "smb_read_loop C h sz off out r = (r', x) \<Longrightarrow> obs r' = obs r"
proof (induction "sz - off" arbitrary: off out r rule: less_induct)
  case less
  show ?case
  proof (cases "off < sz")
    case True
    obtain r1 y where a: "sb_read_at C h (of_nat off) (of_nat (min STREAM_CHUNK (sz - off))) r = (r1, y)" by fastforce
    have q: "obs r1 = obs r" using assms a unfolding smb_quiet_law_def by (metis fst_conv)
    show ?thesis
    proof (cases "\<exists>b. y = Inr b \<and> b \<noteq> []")
      case False
      with less.prems True a have "r' = r1" by (cases y) (auto simp: smb_read_loop.simps [of C h sz off])
      with q show ?thesis by simp
    next
      case more: True
      then obtain b where b: "y = Inr b" "b \<noteq> []" by blast
      with less.prems True a have "smb_read_loop C h sz (off + length b) (out @ b) r1 = (r', x)"
        by (simp add: smb_read_loop.simps [of C h sz off])
      moreover have "sz - (off + length b) < sz - off" using True b(2) by (cases b) auto
      ultimately show ?thesis using less.hyps [of "off + length b" "out @ b" r1] q by simp
    qed
  qed (use less.prems in \<open>simp add: smb_read_loop.simps [of C h sz off]\<close>)
qed

lemma smb_get_result:
  assumes "smb_read_law C obs view" "smb_quiet_law C obs" "smb_get C base key w = (w', r)"
  shows "obs (fw_remote w') = obs (fw_remote w) \<and> (\<forall>x. r = Inr x \<longrightarrow> x = obs (fw_remote w) (smb_full base key))"
proof -
  obtain r1 y where o: "sb_open_reader C (smb_full base key) (fw_remote w) = (r1, y)" by fastforce
  have q1: "obs r1 = obs (fw_remote w)" using smb_read_lawD(1) [OF assms(1) o] by blast
  have "obs (fw_remote w') = obs (fw_remote w)"
  proof (cases y)
    case (Inl e)
    with arg_cong [OF assms(3), of fst] o q1 show ?thesis by (cases e) (auto simp: smb_get_def onr_apply)
  next
    case (Inr z)
    obtain h n where z: "z = (h, n)" by fastforce
    obtain r2 v where l: "smb_read_loop C h (unat n) 0 [] r1 = (r2, v)" by fastforce
    have "fw_remote w' = r2 \<or> fw_remote w' = fst (sb_close_reader C h r2)"
      using arg_cong [OF assms(3), of fst] o Inr z l
      by (cases v) (auto simp: smb_get_def onr_apply sbind_apply tried_apply sret_def split: sum.splits if_splits prod.splits)
    then show ?thesis using assms(2) smb_read_loop_quiet [OF assms(2) l] q1 by (auto simp: smb_quiet_law_def)
  qed
  with smb_get_whole [OF assms(1)] assms(3) show ?thesis by auto
qed

lemma smb_put_result:
  assumes "smb_write_law C obs hst" "smb_put C base key d w = (w', u)"
  shows "(\<forall>q. q \<noteq> smb_full base key \<longrightarrow> obs (fw_remote w') q = obs (fw_remote w) q) \<and>
    (u = Inr () \<longrightarrow> obs (fw_remote w') (smb_full base key) = Some d)"
proof -
  let ?p = "smb_full base key"
  obtain r1 x where o: "sb_create_writer C ?p (fw_remote w) = (r1, x)" by fastforce
  note O = smb_files.open_law [OF assms(1) o]
  show ?thesis
  proof (cases x)
    case (Inl e)
    then have "fw_remote w' = r1" "u \<noteq> Inr ()" using assms(2) o
      by (auto simp: smb_put_def onr_apply sbind_apply fctx_apply hctx_def split: if_splits)
    then show ?thesis using O by simp
  next
    case (Inr h)
    obtain r2 y where wr: "write_chunks WRITE_CHUNK (sb_write_chunk C h) d r1 = (r2, y)" by fastforce
    have c: "obs (fst (sb_finish C h r)) = obs r" for r using assms(1) by (simp add: smb_write_law_def)
    have hs: "hst r1 h = Some (?p, 0)" "obs r1 ?p = Some []" using O Inr by blast+
    have fr: "\<forall>q. q \<noteq> ?p \<longrightarrow> obs r2 q = obs r1 q"
      by (rule smb_files.writes_frame [OF assms(1) hs(1) wr [unfolded write_chunks_def]])
    have w': "fw_remote w' = r2 \<and> u \<noteq> Inr () \<or> y = Inr () \<and> fw_remote w' = fst (sb_finish C h r2)"
      using assms(2) o Inr wr
      by (cases y) (auto simp: smb_put_def onr_apply sbind_apply fctx_apply hctx_def split: if_splits)
    have "y = Inr () \<Longrightarrow> obs r2 ?p = Some d"
      using smb_files.write_chunks_hold [OF smb_files.opened [OF assms(1), of ?p "fw_remote w" r1 h], of WRITE_CHUNK d r2]
        o Inr wr by (simp add: WRITE_CHUNK_def smb_files.holds_def)
    with w' fr O c show ?thesis by auto
  qed
qed

definition smb_file_law ::
  "'r smb_client \<Rightarrow> ('r \<Rightarrow> string \<Rightarrow> bytes option) \<Rightarrow> ('r \<Rightarrow> nat \<Rightarrow> (string \<times> nat) option) \<Rightarrow>
     ('r \<Rightarrow> nat \<Rightarrow> bytes option) \<Rightarrow> bool" where
  "smb_file_law C obs hst view \<longleftrightarrow> smb_write_law C obs hst \<and> smb_read_law C obs view \<and> smb_quiet_law C obs"

interpretation smb_store: object_store "smb_backend C fuel base" "smb_objects obs base" "\<lambda>_. smb_file_law C obs hst view"
  for C :: "'r smb_client" and fuel base obs hst view
proof
  fix w k w' r
  assume l: "smb_file_law C obs hst view" and g: "be_get (smb_backend C fuel base) k w = (w', r)"
  from g have "smb_get C base k w = (w', r)" by (simp add: smb_backend_def smb_methods_def Let_def)
  from smb_get_result [OF _ _ this, of obs view] l
  show "smb_file_law C obs hst view \<and> smb_objects obs base w' = smb_objects obs base w \<and>
      (\<forall>x. r = Inr x \<longrightarrow> x = smb_objects obs base w k)"
    by (auto simp: smb_objects_def smb_file_law_def fun_eq_iff)
next
  fix w k d w' u
  assume l: "smb_file_law C obs hst view" and k: "object_key k" and p: "be_put (smb_backend C fuel base) k d w = (w', u)"
  from p have "smb_put C base k d w = (w', u)" by (simp add: smb_backend_def smb_methods_def Let_def)
  from smb_put_result [OF _ this, of obs hst] l smb_full_object_inj [OF _ k, of _ base]
  show "smb_file_law C obs hst view \<and> (\<forall>k'. object_key k' \<longrightarrow> k' \<noteq> k \<longrightarrow> smb_objects obs base w' k' = smb_objects obs base w k') \<and>
      (u = Inr () \<longrightarrow> smb_objects obs base w' k = Some d)"
    by (auto simp: smb_objects_def smb_file_law_def)
next
  fix w t
  assume "smb_file_law C obs hst view"
  then show "smb_file_law C obs hst view \<and> smb_objects obs base (be_tables (smb_backend C fuel base) t w) = smb_objects obs base w"
    by (simp add: smb_backend_def smb_methods_def Let_def smb_objects_def fun_eq_iff)
qed

section \<open>A concrete server\<close>

definition mem_smb_entry :: "bool \<Rightarrow> string \<Rightarrow> smb_entry" where
  "mem_smb_entry d n = \<lparr>se_name = n, se_is_directory = d, se_size = 0, se_modified = 0\<rparr>"

definition mem_view :: "mem_fs \<Rightarrow> nat \<Rightarrow> bytes option" where
  "mem_view m h = (case mf_hst m h of Some (p, n) \<Rightarrow> mf_obs m p | None \<Rightarrow> None)"

definition mem_smb :: "mem_fs smb_client" where
  "mem_smb = \<lparr>
     sb_connect = (\<lambda>a u p d. sret ()),
     sb_connect_share = (\<lambda>s. sret ()),
     sb_fs_info = sret (),
     sb_stat = (\<lambda>p m. (m, if mf_isd m p then Inr True else if mf_obs m p \<noteq> None then Inr False else Inl (Msg ''not found''))),
     sb_list_directory = (\<lambda>p m. (m, if mf_isd m p
        then Inr (map (mem_smb_entry True) (mf_names p (mf_dirs m)) @ map (mem_smb_entry False) (mf_names p (map fst (mf_files m))))
        else Inl (Msg ''not found''))),
     sb_open_reader = (\<lambda>p m. case mf_obs m p of
        None \<Rightarrow> (m, Inl SmbNotFound)
      | Some d \<Rightarrow> if length d < 2 ^ 64
          then (m\<lparr>mf_handles := (length (mf_handles m), p, 0) # mf_handles m\<rparr>, Inr (length (mf_handles m), of_nat (length d)))
          else (m, Inl (SmbOther (Msg ''file too large'')))),
     sb_read_at = (\<lambda>h off want m. case mem_view m h of
        None \<Rightarrow> (m, Inl (Msg ''bad handle''))
      | Some d \<Rightarrow> (m, Inr (take (unat want) (drop (unat off) d)))),
     sb_close_reader = (\<lambda>h. sret ()),
     sb_create_writer = mf_open_write,
     sb_write_chunk = mf_write,
     sb_finish = (\<lambda>h. sret ()),
     sb_create_directory = (\<lambda>p m. case mf_mkdir p m of (m', made) \<Rightarrow> (m', if made then Inr () else Inl SmbExists)),
     sb_delete_file = (\<lambda>p m. if mf_obs m p = None then (m, Inl SmbNotFound) else (mf_remove p m, Inr ())),
     sb_delete_directory = (\<lambda>p m. if mf_isd m p then (mf_rmdir p m, Inr ()) else (m, Inl SmbNotFound))\<rparr>"

lemma mem_smb_dir_law: "smb_dir_law mem_smb mf_isd"
  by (auto simp: smb_dir_law_def smb_mkdir_law_def smb_stat_law_def smb_rmdir_law_def smb_still_law_def mem_smb_def
      mf_mkdir_def mf_rmdir_def mf_remove_def mf_isd_def split: if_splits)

lemma mem_smb_names_law: "smb_names_law mem_smb"
  by (auto simp: smb_names_law_def mem_smb_def mf_names_def mem_smb_entry_def split: if_splits)

lemma mem_smb_write_law: "smb_write_law mem_smb mf_obs mf_hst"
  unfolding smb_write_law_def
proof (intro conjI)
  show "smb_create_law mem_smb mf_obs mf_hst" using mf_open_law by (auto simp: smb_create_law_def mem_smb_def)
  show "smb_append_law mem_smb mf_obs mf_hst"
    unfolding smb_append_law_def by (intro allI impI) (rule mf_write_law, simp_all add: mem_smb_def)
qed (simp add: mem_smb_def sret_def)

lemma mem_smb_read_law: "smb_read_law mem_smb mf_obs mem_view"
  unfolding smb_read_law_def
proof
  show "smb_open_read_law mem_smb mf_obs mem_view"
    by (auto simp: smb_open_read_law_def mem_smb_def mem_view_def mf_obs_def mf_hst_def u64_of_nat split: option.splits if_splits)
  show "smb_read_at_law mem_smb mem_view"
    by (auto simp: smb_read_at_law_def mem_smb_def word_less_nat_alt min_def split: option.splits)
qed

section \<open>The theorems at work on it\<close>

definition ref_smb_made :: "mem_fs fs_world" where
  "ref_smb_made = fst (smb_prepare_parents mem_smb ''/r'' ''n/f'' ref_fs)"

definition ref_smb_unmade :: "mem_fs fs_world" where
  "ref_smb_unmade = fst (smb_delete mem_smb 5 ''/r'' [''n/''] ref_smb_made)"

theorem smb_folder_recreated_witness:
  "\<not> mf_isd (fw_remote ref_smb_unmade) (smb_full ''/r'' ''n'') \<and> smb_known_ok mf_isd ''/r'' ref_smb_unmade \<and>
   mf_isd (fw_remote (fst (smb_prepare_parents mem_smb ''/r'' ''n/f'' ref_smb_unmade))) (smb_full ''/r'' ''n'')"
proof -
  have f: "''n'' @ [slash] = ''n/''" and c: "clean ''n''" and p: "''n'' \<in> set (parent_dirs ''n/f'')" by code_simp+
  have "fw_known ref_smb_made = [''n'']" "mf_isd (fw_remote ref_smb_made) (smb_full ''/r'' ''n'')" by code_simp+
  with c have k: "smb_known_ok mf_isd ''/r'' ref_smb_made" by (simp add: smb_known_ok_def)
  have d: "smb_delete mem_smb 5 ''/r'' [''n'' @ [slash]] ref_smb_made = (ref_smb_unmade, Inr ())"
    unfolding ref_smb_unmade_def f by (rule result_pair) code_simp
  have "smb_prepare_parents mem_smb ''/r'' ''n/f'' ref_smb_unmade =
      (fst (smb_prepare_parents mem_smb ''/r'' ''n/f'' ref_smb_unmade), Inr ())"
    by (rule result_pair) code_simp
  from smb_folder_recreated [OF mem_smb_dir_law mem_smb_names_law c k d this] p show ?thesis by blast
qed

text \<open>A server whose connection for the upload is gone: the handle is unknown to it.\<close>

theorem smb_failed_part_leaks_witness:
  "smb_abort_multipart mem_smb ''/r'' \<lparr>upload_id = ''smb-0'', mp_key = ''a''\<rparr> (ref_fs\<lparr>fw_uploads := []\<rparr>) =
     (ref_fs\<lparr>fw_uploads := []\<rparr>, Inr ()) \<and> mf_obs (fw_remote (ref_fs\<lparr>fw_uploads := []\<rparr>)) ''/r/a'' = Some [1]"
proof
  have c: "chunks WRITE_CHUNK [5] = [[5 :: u8]]" by (simp add: chunks_small WRITE_CHUNK_def)
  have "smb_upload_part mem_smb \<lparr>upload_id = ''smb-0'', mp_key = ''a''\<rparr> 1 [5] None (ref_fs\<lparr>fw_uploads := [(''smb-0'', 7)]\<rparr>) =
      (ref_fs\<lparr>fw_uploads := []\<rparr>, Inl (Ctx ''SMB write failed'' (Msg ''bad handle'')))"
    by (simp add: smb_upload_part_def take_upload_def write_chunks_def c sbind_apply fctx_apply onr_apply mem_smb_def
        mf_write_def ref_fs_def hctx_def)
  then show "smb_abort_multipart mem_smb ''/r'' \<lparr>upload_id = ''smb-0'', mp_key = ''a''\<rparr> (ref_fs\<lparr>fw_uploads := []\<rparr>) =
      (ref_fs\<lparr>fw_uploads := []\<rparr>, Inr ())" by (rule smb_failed_part_leaks)
  show "mf_obs (fw_remote (ref_fs\<lparr>fw_uploads := []\<rparr>)) ''/r/a'' = Some [1]" by code_simp
qed

theorem smb_range_whole_witness:
  "\<exists>w' q c. smb_get_range mem_smb ''/r'' ''a'' 0 ref_fs = (w', Inr (1, q)) \<and> rd_content q = ([1], None) \<and>
    mf_obs (fw_remote ref_fs) (smb_full ''/r'' ''a'') = Some c \<and> length c = unat (1 :: u64) \<and> [1] = drop (unat (0 :: u64)) c"
proof -
  have r: "smb_get_range mem_smb ''/r'' ''a'' 0 ref_fs =
      (ref_fs\<lparr>fw_remote := (fw_remote ref_fs)\<lparr>mf_handles := [(0, ''/r/a'', 0)]\<rparr>\<rparr>, Inr (1, [Inr [1]]))"
  proof -
    have p: "smb_full ''/r'' ''a'' = ''/r/a''" by code_simp
    show ?thesis
      by (simp add: smb_get_range_def onr_apply smb_open_stream_def p mem_smb_def ref_fs_def mf_obs_def mem_view_def mf_hst_def
          smb_stream_loop.simps STREAM_CHUNK_def sret_def)
  qed
  moreover have "rd_content [Inr [1]] = ([1 :: u8], None)" by simp
  ultimately show ?thesis using smb_range_whole [OF mem_smb_read_law] by blast
qed

theorem smb_multipart_stores_witness:
  "\<exists>w1 mp (w3 :: mem_fs fs_world). smb_create_multipart mem_smb ''/r'' ''b'' ref_fs = (w1, Inr mp) \<and>
    mf_obs (fw_remote w3) = (mf_obs (fw_remote ref_fs))(smb_full ''/r'' ''b'' \<mapsto> concat (map snd [(1, [7, 8]), (2 :: int, [9])])) \<and>
    map_of (fw_uploads w3) (upload_id mp) = None"
proof -
  let ?w1 = "fst (smb_create_multipart mem_smb ''/r'' ''b'' ref_fs)" and ?mp = "\<lparr>upload_id = ''smb-0'', mp_key = ''b''\<rparr>"
  let ?w2 = "fst (send_parts (\<lambda>n d. smb_upload_part mem_smb ?mp n d None) [(1, [7, 8]), (2, [9])] ?w1)"
  let ?w3 = "fst (smb_complete_multipart mem_smb ?mp [] ?w2)"
  have c: "chunks WRITE_CHUNK [7, 8] = [[7, 8 :: u8]]" "chunks WRITE_CHUNK [9] = [[9 :: u8]]"
    by (simp_all add: chunks_small WRITE_CHUNK_def)
  note parts = send_parts_def sfold.simps prod.case smb_upload_part_def write_chunks_def c
  have 1: "smb_create_multipart mem_smb ''/r'' ''b'' ref_fs = (?w1, Inr ?mp)" by (rule result_pair) code_simp
  have 2: "send_parts (\<lambda>n d. smb_upload_part mem_smb ?mp n d None) [(1, [7, 8]), (2, [9])] ?w1 = (?w2, Inr ())"
    by (rule result_pair, unfold parts) code_simp
  have 3: "smb_complete_multipart mem_smb ?mp [] ?w2 = (?w3, Inr ())" by (rule result_pair, unfold parts) code_simp
  show ?thesis
    using conjI [OF 1 smb_multipart_stores [OF mem_smb_write_law 1 2 3]] by (intro exI [of _ ?w1] exI [of _ ?mp] exI [of _ ?w3])
qed

end
