(* ===== verification/Nfs.thy ===== *)
theory Nfs
  imports RemoteFs
begin

text \<open>
  The NFS backend (\<^verbatim>\<open>src/src/storage/nfs.rs\<close>): mounting, resolving keys to file handles through the cache
  of directories, and every method of the backend trait.

  The RPC library is a parameter: \<open>nfs_client\<close> holds the procedures the code calls, over the type
  \<open>'r\<close> of remote states. A call fails as a whole (the outer result) or answers with a status. A file
  handle is a number. Loops whose end the server decides (reading to \<open>eof\<close>, paging through a
  directory, walks) take fuel. The task behind a stream is run to its end when the stream is opened:
  the stream is the list of the messages it sends (\<open>poll_read_refines\<close>).
\<close>

section \<open>Client\<close>

datatype nfs_stat = NOENT | EXIST | Stat u32

record nfs_attrs =
  na_is_dir :: bool
  na_size :: u64
  na_mtime :: u32

record nfs_dirent =
  de_name :: bytes
  de_cookie :: u64
  de_attrs :: "nfs_attrs option"

record nfs_page =
  np_verf :: u64
  np_entries :: "nfs_dirent list"
  np_eof :: bool

record nfs_chunk =
  nc_count :: u32
  nc_data :: bytes
  nc_eof :: bool

type_synonym ('r, 'a) rpc = "('r, nfs_stat + 'a) sr"

record 'r nfs_client =
  nf_mount :: "string \<Rightarrow> string \<Rightarrow> u16 option \<Rightarrow> bool \<Rightarrow> u32 \<Rightarrow> u32 \<Rightarrow> ('r, nat) sr"
  nf_getattr :: "nat \<Rightarrow> ('r, unit) rpc"
  nf_lookup :: "nat \<Rightarrow> string \<Rightarrow> ('r, nat \<times> nfs_attrs option) rpc"
  nf_set_size :: "nat \<Rightarrow> u64 \<Rightarrow> ('r, unit) rpc"
  nf_create :: "nat \<Rightarrow> string \<Rightarrow> ('r, unit) rpc"
  nf_mkdir :: "nat \<Rightarrow> string \<Rightarrow> ('r, unit) rpc"
  nf_read :: "nat \<Rightarrow> u64 \<Rightarrow> u32 \<Rightarrow> ('r, nfs_chunk) rpc"
  nf_write :: "nat \<Rightarrow> u64 \<Rightarrow> bytes \<Rightarrow> ('r, u32) rpc"
  nf_commit :: "nat \<Rightarrow> ('r, unit) rpc"
  nf_remove :: "nat \<Rightarrow> string \<Rightarrow> ('r, unit) rpc"
  nf_rmdir :: "nat \<Rightarrow> string \<Rightarrow> ('r, unit) rpc"
  nf_readdirplus :: "nat \<Rightarrow> u64 \<Rightarrow> u64 \<Rightarrow> ('r, nfs_page) rpc"

text \<open>The server's side with the backend's own tables.\<close>

record 'r nfs_world =
  nw_remote :: 'r
  nw_cache :: "(string \<times> nat) list"
  nw_uploads :: "(string \<times> nat \<times> u64 \<times> string) list"
  nw_seq :: u64

text \<open>A world with the tables of the object that \<open>t\<close> was left by.\<close>

definition nfs_tables :: "'r nfs_world \<Rightarrow> 'r nfs_world \<Rightarrow> 'r nfs_world" where
  "nfs_tables t w = w\<lparr>nw_cache := nw_cache t, nw_uploads := nw_uploads t, nw_seq := nw_seq t\<rparr>"

definition onn :: "('r, 'a) sr \<Rightarrow> ('r nfs_world, 'a) sr" where
  "onn f w = (case f (nw_remote w) of (r, x) \<Rightarrow> (w\<lparr>nw_remote := r\<rparr>, x))"

definition READ_CHUNK :: u32 where
  "READ_CHUNK = 256 * 1024"

definition NFS_WRITE_CHUNK :: nat where
  "NFS_WRITE_CHUNK = 256 * 1024"

text \<open>A call whose error statuses all end the operation.\<close>

definition checked :: "string \<Rightarrow> string \<Rightarrow> ('r, 'a) rpc \<Rightarrow> ('r, 'a) sr" where
  "checked failed err m =
     sbind (fctx failed m) (\<lambda>res. case res of Inr x \<Rightarrow> sret x | Inl stat \<Rightarrow> serr (Msg err))"

section \<open>Names\<close>

text \<open>\<open>String::from_utf8_lossy\<close>: every maximal ill-formed piece becomes one replacement character.\<close>

definition utf8_width :: "u8 \<Rightarrow> nat" where
  "utf8_width a = (if 0xC2 \<le> a \<and> a \<le> 0xDF then 2 else if 0xE0 \<le> a \<and> a \<le> 0xEF then 3
     else if 0xF0 \<le> a \<and> a \<le> 0xF4 then 4 else 0)"

definition utf8_second :: "u8 \<Rightarrow> u8 \<Rightarrow> bool" where
  "utf8_second a b =
     (if a = 0xE0 then 0xA0 \<le> b \<and> b \<le> 0xBF else if a = 0xED then 0x80 \<le> b \<and> b \<le> 0x9F
      else if a = 0xF0 then 0x90 \<le> b \<and> b \<le> 0xBF else if a = 0xF4 then 0x80 \<le> b \<and> b \<le> 0x8F else cont_byte b)"

fun cont_run :: "nat \<Rightarrow> bytes \<Rightarrow> nat" where
  "cont_run 0 bs = 0"
| "cont_run (Suc n) [] = 0"
| "cont_run (Suc n) (b # bs) = (if cont_byte b then Suc (cont_run n bs) else 0)"

fun utf8_char :: "bytes \<Rightarrow> nat \<times> bool" where
  "utf8_char [] = (0, True)"
| "utf8_char (a # r) =
     (if a \<le> 0x7F then (1, True)
      else if utf8_width a = 0 then (1, False)
      else case r of
        [] \<Rightarrow> (1, False)
      | b # r' \<Rightarrow>
          if \<not> utf8_second a b then (1, False)
          else let k = cont_run (utf8_width a - 2) r' in (2 + k, k = utf8_width a - 2))"

lemma utf8_char_progress: "bs \<noteq> [] \<Longrightarrow> 0 < fst (utf8_char bs)"
proof (cases bs)
  case (Cons a r)
  then show ?thesis
    by (cases "a \<le> 0x7F"; cases "utf8_width a = 0"; cases r) (simp_all add: Let_def)
qed simp

function utf8_lossy :: "bytes \<Rightarrow> string" where
  "utf8_lossy bs =
     (if bs = [] then []
      else case utf8_char bs of (n, ok) \<Rightarrow>
        map (\<lambda>b. char_of (unat b)) (if ok then take n bs else [0xEF, 0xBF, 0xBD]) @ utf8_lossy (drop n bs))"
  by pat_completeness auto
termination
proof (relation "measure length", goal_cases)
  case (2 bs n ok)
  then have "0 < n" using utf8_char_progress [of bs] by (metis fst_conv)
  with 2 show ?case by simp
qed simp

declare utf8_lossy.simps [simp del]

section \<open>Resolving keys\<close>

definition nfs_connect :: "'r nfs_client \<Rightarrow> connection_profile \<Rightarrow> ('r nfs_world, nat) sr" where
  "nfs_connect C profile =
     (let export = trim (cp_root_path profile) in
      if export = [] then serr (Msg ''an NFS export path is required'')
      else
        sbind (timeout_as ''NFS mount timed out'' (fctx (''mounting '' @ cp_host profile @ '':'' @ export @ '' failed'')
          (onn (nf_mount C (cp_host profile) export (if cp_port profile \<noteq> 0 then Some (cp_port profile) else None)
            (cp_nfs_privileged_port profile) (cp_nfs_uid profile) (cp_nfs_gid profile))))) (\<lambda>root w.
        (w\<lparr>nw_cache := [], nw_uploads := [], nw_seq := 0\<rparr>, Inr root)))"

definition nfs_lookup :: "'r nfs_client \<Rightarrow> nat \<Rightarrow> string \<Rightarrow> ('r, (nat \<times> nfs_attrs option) option) sr" where
  "nfs_lookup C dir name =
     sbind (fctx ''NFS lookup failed'' (nf_lookup C dir name)) (\<lambda>res.
     case res of
       Inr found \<Rightarrow> sret (Some found)
     | Inl NOENT \<Rightarrow> sret None
     | Inl stat \<Rightarrow> serr (Msg ''NFS lookup error''))"

definition cache_put :: "string \<Rightarrow> nat \<Rightarrow> 'r nfs_world \<Rightarrow> 'r nfs_world" where
  "cache_put p fh w = w\<lparr>nw_cache := AList.update p fh (nw_cache w)\<rparr>"

fun nfs_walk :: "'r nfs_client \<Rightarrow> nat \<Rightarrow> string \<Rightarrow> string list \<Rightarrow> ('r nfs_world, nat) sr" where
  "nfs_walk C fh walked [] = sret fh"
| "nfs_walk C fh walked (seg # segs) =
     (let walked' = (if walked = [] then walked else walked @ [slash]) @ seg in
      sbind (onn (nfs_lookup C fh seg)) (\<lambda>found.
      case found of
        None \<Rightarrow> serr (Msg (''remote directory '' @ walked' @ '' not found''))
      | Some (fh', a) \<Rightarrow> (\<lambda>w. nfs_walk C fh' walked' segs (cache_put walked' fh' w))))"

definition resolve_dir :: "'r nfs_client \<Rightarrow> nat \<Rightarrow> string \<Rightarrow> ('r nfs_world, nat) sr" where
  "resolve_dir C root path w =
     (let p = trim_matches slash path in
      if p = [] then (w, Inr root)
      else case map_of (nw_cache w) p of
        Some fh \<Rightarrow> (w, Inr fh)
      | None \<Rightarrow> nfs_walk C root [] (split_on slash p) w)"

definition resolve_parent :: "'r nfs_client \<Rightarrow> nat \<Rightarrow> string \<Rightarrow> ('r nfs_world, nat \<times> string) sr" where
  "resolve_parent C root key =
     (let k = trim_end_matches slash key in
      case rsplit_once slash k of
        Some (dir, name) \<Rightarrow> sbind (resolve_dir C root dir) (\<lambda>fh. sret (fh, name))
      | None \<Rightarrow> sret (root, k))"

definition file_handle :: "'r nfs_client \<Rightarrow> nat \<Rightarrow> string \<Rightarrow> ('r nfs_world, (nat \<times> u64) option) sr" where
  "file_handle C root key =
     sbind (resolve_parent C root key) (\<lambda>(dir, name).
     sbind (onn (nfs_lookup C dir name)) (\<lambda>found.
     sret (map_option (\<lambda>(fh, attrs). (fh, case attrs of Some a \<Rightarrow> na_size a | None \<Rightarrow> 0)) found)))"

definition create_truncated :: "'r nfs_client \<Rightarrow> nat \<Rightarrow> string \<Rightarrow> ('r nfs_world, nat) sr" where
  "create_truncated C root key =
     sbind (resolve_parent C root key) (\<lambda>(dir, name). onn (
     sbind (nfs_lookup C dir name) (\<lambda>found.
     case found of
       Some (fh, a) \<Rightarrow>
         sbind (checked ''NFS truncate failed'' ''NFS truncate error'' (nf_set_size C fh 0)) (\<lambda>_. sret fh)
     | None \<Rightarrow>
         sbind (checked ''NFS create failed'' ''NFS create error'' (nf_create C dir name)) (\<lambda>_.
         sbind (nfs_lookup C dir name) (\<lambda>found.
         case found of
           Some (fh, a) \<Rightarrow> sret fh
         | None \<Rightarrow> serr (Msg ''NFS create succeeded but file not found''))))))"

section \<open>Reading and writing\<close>

text \<open>The inner loop of \<open>write_at\<close>: the server may accept less than it was sent.\<close>

function nfs_write_part ::
  "'r nfs_client \<Rightarrow> nat \<Rightarrow> u64 \<Rightarrow> bytes \<Rightarrow> u64 list \<Rightarrow> ('r, u64 \<times> u64 list) sr" where
  "nfs_write_part C fh offset part cbs r =
     (if part = [] then (r, Inr (offset, cbs))
      else case checked ''NFS write failed'' ''NFS write error'' (nf_write C fh offset part) r of
        (r', Inl e) \<Rightarrow> (r', Inl e)
      | (r', Inr cnt) \<Rightarrow>
          if cnt = 0 then (r', Inl (Msg ''NFS server accepted zero bytes''))
          else nfs_write_part C fh (offset + ucast cnt) (drop (unat cnt) part) (cbs @ [ucast cnt]) r')"
  by pat_completeness auto
termination
proof (relation "measure (\<lambda>(C, fh, offset, part, cbs, r). length part)", goal_cases)
  case (2 C fh offset part cbs r r' y cnt)
  then have "0 < unat cnt" by (simp add: unat_gt_0)
  with 2 show ?case by simp
qed simp

declare nfs_write_part.simps [simp del]

definition write_at :: "'r nfs_client \<Rightarrow> nat \<Rightarrow> u64 \<Rightarrow> bytes \<Rightarrow> ('r, u64 \<times> u64 list) sr" where
  "write_at C fh offset data =
     sfold (\<lambda>(off, cbs) chunk. nfs_write_part C fh off chunk cbs) (offset, []) (chunks NFS_WRITE_CHUNK data)"

definition nfs_commit :: "'r nfs_client \<Rightarrow> nat \<Rightarrow> ('r, unit) sr" where
  "nfs_commit C fh = checked ''NFS commit failed'' ''NFS commit error'' (nf_commit C fh)"

fun nfs_read_loop :: "'r nfs_client \<Rightarrow> nat \<Rightarrow> nat \<Rightarrow> u64 \<Rightarrow> bytes \<Rightarrow> ('r, bytes) sr" where
  "nfs_read_loop C 0 fh offset out r = (r, Inl Hang)"
| "nfs_read_loop C (Suc fuel) fh offset out r =
     (case checked ''NFS read failed'' ''NFS read error'' (nf_read C fh offset READ_CHUNK) r of
        (r', Inl e) \<Rightarrow> (r', Inl e)
      | (r', Inr ok) \<Rightarrow>
          if nc_eof ok then (r', Inr (out @ nc_data ok))
          else nfs_read_loop C fuel fh (offset + ucast (nc_count ok)) (out @ nc_data ok) r')"

definition nfs_get :: "'r nfs_client \<Rightarrow> nat \<Rightarrow> nat \<Rightarrow> string \<Rightarrow> ('r nfs_world, bytes option) sr" where
  "nfs_get C fuel root key =
     sbind (file_handle C root key) (\<lambda>found.
     case found of
       None \<Rightarrow> sret None
     | Some (fh, sz) \<Rightarrow> sbind (onn (nfs_read_loop C fuel fh 0 [])) (\<lambda>out. sret (Some out)))"

fun nfs_stream_loop :: "'r nfs_client \<Rightarrow> nat \<Rightarrow> nat \<Rightarrow> u64 \<Rightarrow> 'r \<Rightarrow> 'r \<times> reader" where
  "nfs_stream_loop C 0 fh offset r = (r, [Inl Hang])"
| "nfs_stream_loop C (Suc fuel) fh offset r =
     (case checked ''NFS read failed'' ''NFS read error'' (nf_read C fh offset READ_CHUNK) r of
        (r', Inl e) \<Rightarrow> (r', [Inl e])
      | (r', Inr ok) \<Rightarrow>
          if nc_eof ok then (r', [Inr (nc_data ok)])
          else (case nfs_stream_loop C fuel fh (offset + ucast (nc_count ok)) r' of
            (r'', q) \<Rightarrow> (r'', Inr (nc_data ok) # q)))"

definition nfs_open_stream ::
  "'r nfs_client \<Rightarrow> nat \<Rightarrow> nat \<Rightarrow> string \<Rightarrow> (u64 \<Rightarrow> u64) \<Rightarrow> ('r nfs_world, u64 \<times> reader) sr" where
  "nfs_open_stream C fuel root key start =
     sbind (file_handle C root key) (\<lambda>found.
     case found of
       None \<Rightarrow> serr (Msg (''download failed: '' @ key @ '' not found''))
     | Some (fh, sz) \<Rightarrow> onn (\<lambda>r. case nfs_stream_loop C fuel fh (start sz) r of (r', q) \<Rightarrow> (r', Inr (sz, q))))"

definition nfs_get_stream :: "'r nfs_client \<Rightarrow> nat \<Rightarrow> nat \<Rightarrow> string \<Rightarrow> ('r nfs_world, u64 \<times> reader) sr" where
  "nfs_get_stream C fuel root key = nfs_open_stream C fuel root key (\<lambda>sz. 0)"

definition nfs_get_range :: "'r nfs_client \<Rightarrow> nat \<Rightarrow> nat \<Rightarrow> string \<Rightarrow> u64 \<Rightarrow> ('r nfs_world, u64 \<times> reader) sr" where
  "nfs_get_range C fuel root key offset = nfs_open_stream C fuel root key (\<lambda>sz. min offset sz)"

text \<open>The loop of \<open>read_header\<close>: \<open>len\<close> bytes at most, fewer at the end of the file.\<close>

function nfs_header_loop :: "'r nfs_client \<Rightarrow> nat \<Rightarrow> nat \<Rightarrow> u64 \<Rightarrow> bytes \<Rightarrow> ('r, bytes) sr" where
  "nfs_header_loop C fh len offset out r =
     (if len \<le> length out then (r, Inr (take len out))
      else case checked ''NFS read failed'' ''NFS read error'' (nf_read C fh offset (of_nat (len - length out))) r of
        (r', Inl e) \<Rightarrow> (r', Inl e)
      | (r', Inr ok) \<Rightarrow>
          if nc_data ok = [] then (r', Inr (take len out))
          else if nc_eof ok then (r', Inr (take len (out @ nc_data ok)))
          else nfs_header_loop C fh len (offset + of_nat (length (nc_data ok))) (out @ nc_data ok) r')"
  by pat_completeness auto
termination
  by (relation "measure (\<lambda>(C, fh, len, offset, out, r). len - length out)") (auto intro!: diff_less_mono2)

declare nfs_header_loop.simps [simp del]

definition nfs_read_header :: "'r nfs_client \<Rightarrow> nat \<Rightarrow> string \<Rightarrow> nat \<Rightarrow> ('r nfs_world, bytes) sr" where
  "nfs_read_header C root key len =
     sbind (file_handle C root key) (\<lambda>found.
     case found of
       None \<Rightarrow> serr (Msg (''reading header: '' @ key @ '' not found''))
     | Some (fh, sz) \<Rightarrow> onn (nfs_header_loop C fh len 0 []))"

definition nfs_put :: "'r nfs_client \<Rightarrow> nat \<Rightarrow> string \<Rightarrow> bytes \<Rightarrow> ('r nfs_world, unit) sr" where
  "nfs_put C root key data =
     sbind (create_truncated C root key) (\<lambda>fh.
     onn (sbind (write_at C fh 0 data) (\<lambda>_. nfs_commit C fh)))"

text \<open>The limiter delays the chunks and has no other effect.\<close>

definition nfs_put_throttled :: "'r nfs_client \<Rightarrow> nat \<Rightarrow> string \<Rightarrow> bytes \<Rightarrow> u64 option \<Rightarrow> ('r nfs_world, unit) sr" where
  "nfs_put_throttled C root key data limiter =
     sbind (create_truncated C root key) (\<lambda>fh.
     onn (sbind (write_at C fh 0 data) (\<lambda>_. nfs_commit C fh)))"

section \<open>Uploads in parts\<close>

definition nfs_create_multipart :: "'r nfs_client \<Rightarrow> nat \<Rightarrow> string \<Rightarrow> ('r nfs_world, multipart_upload) sr" where
  "nfs_create_multipart C root key =
     sbind (create_truncated C root key) (\<lambda>fh w.
     let uid = ''nfs-'' @ nat_str (unat (nw_seq w)) in
     (w\<lparr>nw_seq := nw_seq w + 1, nw_uploads := AList.update uid (fh, 0, key) (nw_uploads w)\<rparr>,
      Inr \<lparr>upload_id = uid, mp_key = key\<rparr>))"

definition nfs_upload_part ::
  "'r nfs_client \<Rightarrow> multipart_upload \<Rightarrow> int \<Rightarrow> bytes \<Rightarrow> u64 option \<Rightarrow> ('r nfs_world, string \<times> u64 list) sr" where
  "nfs_upload_part C mp n data limiter w =
     (let w1 = w\<lparr>nw_uploads := AList.delete (upload_id mp) (nw_uploads w)\<rparr> in
      case map_of (nw_uploads w) (upload_id mp) of
        None \<Rightarrow> (w1, Inl (Msg ''unknown upload id''))
      | Some (fh, offset, key) \<Rightarrow>
          (case onn (write_at C fh offset data) w1 of
             (w2, Inr (new_offset, cbs)) \<Rightarrow>
               (w2\<lparr>nw_uploads := AList.update (upload_id mp) (fh, new_offset, key) (nw_uploads w2)\<rparr>, Inr ([], cbs))
           | (w2, Inl e) \<Rightarrow> (w2, Inl e)))"

definition nfs_complete_multipart ::
  "'r nfs_client \<Rightarrow> multipart_upload \<Rightarrow> (int \<times> string) list \<Rightarrow> ('r nfs_world, unit) sr" where
  "nfs_complete_multipart C mp etags w =
     (let w1 = w\<lparr>nw_uploads := AList.delete (upload_id mp) (nw_uploads w)\<rparr> in
      case map_of (nw_uploads w) (upload_id mp) of
        None \<Rightarrow> (w1, Inr ())
      | Some (fh, offset, key) \<Rightarrow> onn (nfs_commit C fh) w1)"

section \<open>Directories\<close>

definition nfs_remove_entry :: "'r nfs_client \<Rightarrow> nat \<Rightarrow> string \<Rightarrow> bool \<Rightarrow> ('r, unit) sr" where
  "nfs_remove_entry C dir name is_dir =
     sbind (if is_dir then fctx ''NFS rmdir failed'' (nf_rmdir C dir name)
            else fctx ''NFS remove failed'' (nf_remove C dir name)) (\<lambda>res.
     case res of
       Inr u \<Rightarrow> sret ()
     | Inl stat \<Rightarrow> if stat = NOENT then sret () else serr (Msg ''NFS delete error''))"

definition nfs_abort_multipart :: "'r nfs_client \<Rightarrow> nat \<Rightarrow> multipart_upload \<Rightarrow> ('r nfs_world, unit) sr" where
  "nfs_abort_multipart C root mp w =
     (let w1 = w\<lparr>nw_uploads := AList.delete (upload_id mp) (nw_uploads w)\<rparr> in
      if map_of (nw_uploads w) (upload_id mp) = None then (w1, Inr ())
      else sbind (resolve_parent C root (mp_key mp)) (\<lambda>(dir, name).
        sbind (tried (onn (nfs_remove_entry C dir name False))) (\<lambda>_. sret ())) w1)"

fun nfs_entries :: "string \<Rightarrow> nfs_dirent list \<Rightarrow> raw_object list" where
  "nfs_entries prefix [] = []"
| "nfs_entries prefix (e # es) =
     (let name = utf8_lossy (de_name e); modified = map_option (\<lambda>a. ucast (na_mtime a)) (de_attrs e) in
      if name = ''.'' \<or> name = ''..'' then nfs_entries prefix es
      else (if (case de_attrs e of Some a \<Rightarrow> na_is_dir a | None \<Rightarrow> False)
            then \<lparr>ro_key = prefix @ name @ [slash], ro_size = 0, ro_modified = modified, ro_is_prefix = True\<rparr>
            else \<lparr>ro_key = prefix @ name, ro_size = (case de_attrs e of Some a \<Rightarrow> na_size a | None \<Rightarrow> 0),
                  ro_modified = modified, ro_is_prefix = False\<rparr>) # nfs_entries prefix es)"

text \<open>The paging loop of \<open>list_dir\<close>.\<close>

fun nfs_pages ::
  "'r nfs_client \<Rightarrow> nat \<Rightarrow> nat \<Rightarrow> string \<Rightarrow> u64 \<Rightarrow> u64 \<Rightarrow> raw_object list \<Rightarrow> ('r, raw_object list) sr" where
  "nfs_pages C 0 dir prefix cookie verf out r = (r, Inl Hang)"
| "nfs_pages C (Suc fuel) dir prefix cookie verf out r =
     (case checked ''listing remote directory failed'' ''NFS readdir error'' (nf_readdirplus C dir cookie verf) r of
        (r', Inl e) \<Rightarrow> (r', Inl e)
      | (r', Inr page) \<Rightarrow>
          if np_entries page = [] then (r', Inr out)
          else
            let out' = out @ nfs_entries prefix (np_entries page) in
            if np_eof page then (r', Inr out')
            else nfs_pages C fuel dir prefix (de_cookie (last (np_entries page))) (np_verf page) out' r')"

definition nfs_list_dir :: "'r nfs_client \<Rightarrow> nat \<Rightarrow> nat \<Rightarrow> string \<Rightarrow> ('r nfs_world, raw_object list) sr" where
  "nfs_list_dir C fuel root prefix =
     sbind (resolve_dir C root prefix) (\<lambda>dir. onn (nfs_pages C fuel dir prefix 0 0 []))"

definition nfs_health_check :: "'r nfs_client \<Rightarrow> nat \<Rightarrow> ('r nfs_world, unit) sr" where
  "nfs_health_check C root = onn (checked ''connection check failed'' ''NFS getattr error'' (nf_getattr C root))"

definition nfs_list_recursive :: "'r nfs_client \<Rightarrow> nat \<Rightarrow> nat \<Rightarrow> string \<Rightarrow> ('r nfs_world, raw_object list) sr" where
  "nfs_list_recursive C fuel root prefix = walk_files (nfs_list_dir C fuel root) fuel [prefix] []"

text \<open>Finding or making one parent directory in its parent \<open>fh\<close>.\<close>

definition nfs_make_dir :: "'r nfs_client \<Rightarrow> nat \<Rightarrow> string \<Rightarrow> string \<Rightarrow> ('r, nat) sr" where
  "nfs_make_dir C fh seg walked =
     sbind (nfs_lookup C fh seg) (\<lambda>found.
     case found of
       Some (existing, a) \<Rightarrow> sret existing
     | None \<Rightarrow>
         sbind (fctx ''NFS mkdir failed'' (nf_mkdir C fh seg)) (\<lambda>res.
         case res of
           Inl (Stat n) \<Rightarrow> serr (Msg ''NFS mkdir error'')
         | Inl NOENT \<Rightarrow> serr (Msg ''NFS mkdir error'')
         | _ \<Rightarrow> sbind (nfs_lookup C fh seg) (\<lambda>found.
             case found of
               Some (new_fh, a) \<Rightarrow> sret new_fh
             | None \<Rightarrow> serr (Msg (''cannot create remote directory '' @ walked)))))"

fun nfs_parents :: "'r nfs_client \<Rightarrow> nat \<Rightarrow> string \<Rightarrow> string list \<Rightarrow> ('r nfs_world, unit) sr" where
  "nfs_parents C fh walked [] w = (w, Inr ())"
| "nfs_parents C fh walked (seg # segs) w =
     (let walked' = (if walked = [] then walked else walked @ [slash]) @ seg in
      case map_of (nw_cache w) walked' of
        Some cached \<Rightarrow> nfs_parents C cached walked' segs w
      | None \<Rightarrow>
          (case onn (nfs_make_dir C fh seg walked') w of
             (w', Inl e) \<Rightarrow> (w', Inl e)
           | (w', Inr fh') \<Rightarrow> nfs_parents C fh' walked' segs (cache_put walked' fh' w')))"

definition nfs_prepare_parents :: "'r nfs_client \<Rightarrow> nat \<Rightarrow> string \<Rightarrow> ('r nfs_world, unit) sr" where
  "nfs_prepare_parents C root key =
     (let segments = split_on slash (trim_end_matches slash key) in
      if length segments \<le> 1 then sret () else nfs_parents C root [] (butlast segments))"

section \<open>Deletion\<close>

definition nfs_remove_key :: "'r nfs_client \<Rightarrow> nat \<Rightarrow> bool \<Rightarrow> string \<Rightarrow> ('r nfs_world, unit) sr" where
  "nfs_remove_key C root is_dir key =
     sbind (resolve_parent C root key) (\<lambda>(dir, name). onn (nfs_remove_entry C dir name is_dir))"

definition nfs_sweep_one :: "'r nfs_client \<Rightarrow> nat \<Rightarrow> string list \<Rightarrow> raw_object \<Rightarrow> ('r nfs_world, string list) sr" where
  "nfs_sweep_one C root dirs ob =
     (if ro_is_prefix ob then sret (ro_key ob # dirs)
      else sbind (nfs_remove_key C root False (ro_key ob)) (\<lambda>_. sret dirs))"

fun nfs_clear :: "'r nfs_client \<Rightarrow> nat \<Rightarrow> nat \<Rightarrow> nat \<Rightarrow> string list \<Rightarrow> string list \<Rightarrow> ('r nfs_world, string list) sr" where
  "nfs_clear C pages root fuel [] order = sret order"
| "nfs_clear C pages root 0 (d # dirs) order = serr Hang"
| "nfs_clear C pages root (Suc fuel) (d # dirs) order =
     sbind (nfs_list_dir C pages root d) (\<lambda>objs.
     sbind (sfold (nfs_sweep_one C root) dirs objs) (\<lambda>dirs'.
     nfs_clear C pages root fuel dirs' (order @ [d])))"

definition nfs_rmdir_one :: "'r nfs_client \<Rightarrow> nat \<Rightarrow> string \<Rightarrow> ('r nfs_world, unit) sr" where
  "nfs_rmdir_one C root d =
     sbind (nfs_remove_key C root True d) (\<lambda>_ w.
     (w\<lparr>nw_cache := AList.delete (trim_matches slash d) (nw_cache w)\<rparr>, Inr ()))"

definition nfs_delete_one :: "'r nfs_client \<Rightarrow> nat \<Rightarrow> nat \<Rightarrow> string \<Rightarrow> ('r nfs_world, unit) sr" where
  "nfs_delete_one C fuel root key =
     (if ends_with slash key then
        sbind (nfs_clear C fuel root fuel [key] []) (\<lambda>order.
        sfold (\<lambda>_. nfs_rmdir_one C root) () (rev order))
      else nfs_remove_key C root False key)"

definition nfs_delete :: "'r nfs_client \<Rightarrow> nat \<Rightarrow> nat \<Rightarrow> string list \<Rightarrow> ('r nfs_world, unit) sr" where
  "nfs_delete C fuel root ks = sfold (\<lambda>_. nfs_delete_one C fuel root) () ks"

text \<open>The trait object; the vault and \<open>rename\<close> are the defaults of the trait.\<close>

definition nfs_methods :: "'r nfs_client \<Rightarrow> nat \<Rightarrow> nat \<Rightarrow> 'r nfs_world backend" where
  "nfs_methods C fuel root = \<lparr>
     be_health_check = nfs_health_check C root,
     be_list = nfs_list_dir C fuel root,
     be_list_recursive = nfs_list_recursive C fuel root,
     be_get = nfs_get C fuel root,
     be_get_stream = nfs_get_stream C fuel root,
     be_put = nfs_put C root,
     be_put_throttled = nfs_put_throttled C root,
     be_get_vault = nfs_get C fuel root VAULT_KEY,
     be_put_vault = nfs_put C root VAULT_KEY,
     be_prepare_parents = nfs_prepare_parents C root,
     be_create_multipart = nfs_create_multipart C root,
     be_upload_part = nfs_upload_part C,
     be_complete_multipart = nfs_complete_multipart C,
     be_abort_multipart = nfs_abort_multipart C root,
     be_delete = nfs_delete C fuel root,
     be_rename = (\<lambda>from to. sret ()),
     be_get_range = nfs_get_range C fuel root,
     be_read_header = nfs_read_header C root,
     be_tables = nfs_tables\<rparr>"

definition nfs_backend :: "'r nfs_client \<Rightarrow> nat \<Rightarrow> nat \<Rightarrow> 'r nfs_world backend" where
  "nfs_backend C fuel root =
     (let B = nfs_methods C fuel root in B\<lparr>be_rename := default_rename B\<rparr>)"

definition nfs_dial :: "'r nfs_client \<Rightarrow> nat \<Rightarrow> connection_profile \<Rightarrow> ('r nfs_world, 'r nfs_world backend) sr" where
  "nfs_dial C fuel profile = sbind (nfs_connect C profile) (\<lambda>root. sret (nfs_backend C fuel root))"

end
