(* ===== verification/Nfs_Correct.thy ===== *)
theory Nfs_Correct
  imports Nfs Reference_Fs
begin

text \<open>
  What the NFS backend guarantees when the server keeps to the protocol (RFC 1813). The laws are stated for
  the RPC client, relative to observations of the remote state: \<open>obs\<close> is the content of the file a
  handle stands for. A set \<open>S\<close> of remote states in which the server answers replaces the hypothesis
  that no connection fails, where a theorem says that an operation returns.
\<close>

section \<open>Writing\<close>

lemma onn_eq: "onn f w = (w', x) \<longleftrightarrow> f (nw_remote w) = (nw_remote w', x) \<and> w' = w\<lparr>nw_remote := nw_remote w'\<rparr>"
  by (cases w; cases w'; auto simp: onn_def split: prod.splits)

lemma onn_apply: "onn f w = (w\<lparr>nw_remote := fst (f (nw_remote w))\<rparr>, snd (f (nw_remote w)))"
  by (simp add: onn_def split: prod.splits)

lemma checked_Inr: "checked m e f r = (r', Inr x) \<longleftrightarrow> f r = (r', Inr (Inr x))"
  by (cases "f r") (auto simp: checked_def sbind_apply fctx_apply sret_def serr_def hctx_def split: sum.splits)

text \<open>A write accepts a prefix of the data and puts it at its offset.\<close>

definition nfs_write_law :: "'r nfs_client \<Rightarrow> ('r \<Rightarrow> nat \<Rightarrow> bytes option) \<Rightarrow> bool" where
  "nfs_write_law C obs \<longleftrightarrow> (\<forall>fh off d r r' x. nf_write C fh off d r = (r', x) \<longrightarrow>
     (\<forall>g. g \<noteq> fh \<longrightarrow> obs r' g = obs r g) \<and>
     (\<forall>n c. x = Inr (Inr n) \<longrightarrow> obs r fh = Some c \<longrightarrow>
        unat n \<le> length d \<and> obs r' fh = Some (splice c (unat off) (take (unat n) d))))"

lemma nfs_write_part_exact:
  assumes law: "nfs_write_law C obs"
  shows "obs r fh = Some c \<Longrightarrow> unat offset \<le> length c \<Longrightarrow> unat offset + length part < 2 ^ 64 \<Longrightarrow>
     nfs_write_part C fh offset part cbs r = (r', Inr (off', cbs')) \<Longrightarrow>
     obs r' fh = Some (splice c (unat offset) part) \<and> unat off' = unat offset + length part \<and>
     sum_list (map unat cbs') = sum_list (map unat cbs) + length part \<and> (\<forall>g. g \<noteq> fh \<longrightarrow> obs r' g = obs r g)"
proof (induction "length part" arbitrary: offset part cbs r c rule: less_induct)
  case less
  show ?case
  proof (cases "part = []")
    case True
    with less.prems show ?thesis by (simp add: nfs_write_part.simps splice_def)
  next
    case False
    obtain r1 x where w: "nf_write C fh offset part r = (r1, x)" by fastforce
    let ?chk = "checked ''NFS write failed'' ''NFS write error'' (nf_write C fh offset part)"
    have u: "nfs_write_part C fh offset part cbs r = (case ?chk r of (r', Inl e) \<Rightarrow> (r', Inl e)
      | (r', Inr cnt) \<Rightarrow> if cnt = 0 then (r', Inl (Msg ''NFS server accepted zero bytes''))
          else nfs_write_part C fh (offset + ucast cnt) (drop (unat cnt) part) (cbs @ [ucast cnt]) r')"
      using False by (subst nfs_write_part.simps) simp
    obtain r2 y where ck: "?chk r = (r2, y)" by fastforce
    with u less.prems(4) obtain n where y: "y = Inr n" and n0: "n \<noteq> 0" and
      rec: "nfs_write_part C fh (offset + ucast n) (drop (unat n) part) (cbs @ [ucast n]) r2 = (r', Inr (off', cbs'))"
      by (cases y) (auto split: if_splits)
    have "nf_write C fh offset part r = (r2, Inr (Inr n))" using ck y by (simp add: checked_Inr)
    note W = law [unfolded nfs_write_law_def, rule_format, OF this]
    have n: "unat n \<le> length part" and o2: "obs r2 fh = Some (splice c (unat offset) (take (unat n) part))"
      and oth: "\<forall>g. g \<noteq> fh \<longrightarrow> obs r2 g = obs r g"
      using W less.prems(1) by auto
    have uc: "unat (ucast n :: u64) = unat n" by (simp add: unsigned_ucast_eq take_bit_nat_eq_self_iff) (use unat_bound [of n] in simp)
    have uo: "unat (offset + ucast n) = unat offset + unat n"
      using n less.prems(3) uc by (subst unat_add_exact) auto
    have len: "unat offset + unat n \<le> length (splice c (unat offset) (take (unat n) part))"
      using n by (simp add: length_splice)
    have "0 < unat n" using n0 by (simp add: unat_gt_0)
    then have "length (drop (unat n) part) < length part" using False by simp
    from less.hyps [OF this o2 _ _ rec] uo len n less.prems(3)
    have R: "obs r' fh = Some (splice (splice c (unat offset) (take (unat n) part)) (unat offset + unat n) (drop (unat n) part))"
      "unat off' = unat offset + unat n + length (drop (unat n) part)"
      "sum_list (map unat cbs') = sum_list (map unat cbs) + unat n + length (drop (unat n) part)"
      "\<forall>g. g \<noteq> fh \<longrightarrow> obs r' g = obs r2 g"
      using uc by auto
    have "splice (splice c (unat offset) (take (unat n) part)) (unat offset + unat n) (drop (unat n) part) =
      splice c (unat offset) part"
      using splice_splice [OF less.prems(2), of "take (unat n) part" "drop (unat n) part"] n by simp
    with R oth n show ?thesis by simp
  qed
qed

text \<open>
  C6. Short writes lose nothing: however little the server accepts of each request, a \<open>write_at\<close> that
  succeeds has put exactly its buffer at its offset, in one piece and nowhere else, returns the offset
  behind it, and has reported as progress exactly the number of bytes of the buffer.
\<close>

theorem nfs_write_at_exact:
  assumes "nfs_write_law C obs" "obs r fh = Some c" "unat offset \<le> length c" "unat offset + length data < 2 ^ 64"
    and "write_at C fh offset data r = (r', Inr (off', cbs))"
  shows "obs r' fh = Some (splice c (unat offset) data) \<and> unat off' = unat offset + length data \<and>
    sum_list (map unat cbs) = length data \<and> (\<forall>g. g \<noteq> fh \<longrightarrow> obs r' g = obs r g)"
proof -
  have "obs r' fh = Some (splice c (unat offset) (concat ds)) \<and> unat off' = unat offset + length (concat ds) \<and>
      sum_list (map unat cbs) = sum_list (map unat cbs0) + length (concat ds) \<and> (\<forall>g. g \<noteq> fh \<longrightarrow> obs r' g = obs r g)"
    if "sfold (\<lambda>(off, cbs) chunk. nfs_write_part C fh off chunk cbs) (offset, cbs0) ds r = (r', Inr (off', cbs))"
      "obs r fh = Some c" "unat offset \<le> length c" "unat offset + length (concat ds) < 2 ^ 64" for ds r c offset cbs0
    using that
  proof (induction ds arbitrary: r c offset cbs0)
    case (Cons d ds)
    obtain r1 x where p: "nfs_write_part C fh offset d cbs0 r = (r1, x)" by fastforce
    with Cons.prems(1) obtain o1 cbs1 where x: "x = Inr (o1, cbs1)" and
      rest: "sfold (\<lambda>(off, cbs) chunk. nfs_write_part C fh off chunk cbs) (o1, cbs1) ds r1 = (r', Inr (off', cbs))"
      by (cases x) (auto simp: sbind_apply)
    have "unat offset + length d < 2 ^ 64" using Cons.prems(4) by simp
    note P = nfs_write_part_exact [OF assms(1) Cons.prems(2,3) this p [unfolded x]]
    have "unat o1 \<le> length (splice c (unat offset) d)" "unat o1 + length (concat ds) < 2 ^ 64"
      using P Cons.prems(4) by (simp_all add: length_splice)
    from Cons.IH [OF rest _ this] P splice_splice [OF Cons.prems(3), of d "concat ds"] show ?case by auto
  qed (simp add: sret_def splice_def)
  from this [of offset "[]" "chunks NFS_WRITE_CHUNK data" r c] assms(2-5) show ?thesis
    by (simp add: write_at_def NFS_WRITE_CHUNK_def)
qed

lemma nfs_upload_part_holds:
  assumes law: "nfs_write_law C obs" and up: "map_of (nw_uploads w) (upload_id mp) = Some (fh, of_nat (length c), key)"
    and c: "obs (nw_remote w) fh = Some c" "length c + length d < 2 ^ 64"
    and part: "nfs_upload_part C mp n d lim w = (w', Inr y)"
  shows "map_of (nw_uploads w') (upload_id mp) = Some (fh, of_nat (length (c @ d)), key) \<and>
    obs (nw_remote w') fh = Some (c @ d) \<and> (\<forall>g. g \<noteq> fh \<longrightarrow> obs (nw_remote w') g = obs (nw_remote w) g)"
proof -
  obtain r x where wr: "write_at C fh (of_nat (length c)) d (nw_remote w) = (r, x)" by fastforce
  with part up obtain off cbs where x: "x = Inr (off, cbs)"
    and w': "w' = w\<lparr>nw_remote := r, nw_uploads := AList.update (upload_id mp) (fh, off, key)
      (AList.delete (upload_id mp) (nw_uploads w))\<rparr>"
    by (cases x) (auto simp: nfs_upload_part_def onn_apply Let_def)
  have u: "unat (of_nat (length c) :: u64) = length c" using c(2) by (simp add: u64_of_nat)
  have W: "obs r fh = Some (splice c (length c) d)" "unat off = length c + length d"
    "\<forall>g. g \<noteq> fh \<longrightarrow> obs r g = obs (nw_remote w) g"
    using nfs_write_at_exact [OF law c(1) _ _ wr [unfolded x]] u c(2) by auto
  have "off = of_nat (length (c @ d))"
    unfolding word_unat_eq_iff length_append u64_of_nat [OF c(2)] by (rule W(2))
  with W w' show ?thesis by (simp add: splice_end update_conv')
qed

definition nfs_commit_law :: "'r nfs_client \<Rightarrow> ('r \<Rightarrow> nat \<Rightarrow> bytes option) \<Rightarrow> bool" where
  "nfs_commit_law C obs \<longleftrightarrow> (\<forall>fh r. obs (fst (nf_commit C fh r)) = obs r)"

text \<open>
  A multipart upload over NFS appends its parts: from the empty file \<open>create_multipart\<close> leaves, successful
  \<open>upload_part\<close>s of at most \<open>2 ^ 64\<close> bytes in all give the file their concatenation, and
  \<open>complete_multipart\<close> keeps it and closes the upload.
\<close>

theorem nfs_multipart_stores:
  assumes "nfs_write_law C obs" "nfs_commit_law C obs"
    and "map_of (nw_uploads w) (upload_id mp) = Some (fh, 0, key)" "obs (nw_remote w) fh = Some []"
    and "length (concat (map snd parts)) < 2 ^ 64"
    and "send_parts (\<lambda>n d. nfs_upload_part C mp n d lim) parts w = (w1, Inr ())"
    and "nfs_complete_multipart C mp tags w1 = (w2, Inr ())"
  shows "obs (nw_remote w2) fh = Some (concat (map snd parts)) \<and>
    (\<forall>g. g \<noteq> fh \<longrightarrow> obs (nw_remote w2) g = obs (nw_remote w) g) \<and> map_of (nw_uploads w2) (upload_id mp) = None"
proof -
  define Q where "Q w' c \<longleftrightarrow> map_of (nw_uploads w') (upload_id mp) = Some (fh, of_nat (length c), key) \<and>
    obs (nw_remote w') fh = Some c \<and> (\<forall>g. g \<noteq> fh \<longrightarrow> obs (nw_remote w') g = obs (nw_remote w) g)"
    for w' :: "'a nfs_world" and c
  have loop: "Q w1 (c @ concat (map snd ps))"
    if "send_parts (\<lambda>n d. nfs_upload_part C mp n d lim) ps w' = (w1, Inr ())" "Q w' c"
      "length c + length (concat (map snd ps)) < 2 ^ 64" for ps w' c
    using that
  proof (induction ps arbitrary: w' c)
    case (Cons nd ps)
    obtain n d where nd: "nd = (n, d)" by fastforce
    obtain v x where u: "nfs_upload_part C mp n d lim w' = (v, x)" by fastforce
    with Cons.prems(1) nd obtain y where x: "x = Inr y" and
      rest: "send_parts (\<lambda>n d. nfs_upload_part C mp n d lim) ps v = (w1, Inr ())"
      by (cases x) (simp_all add: send_parts_def sbind_apply sret_def)
    have "length c + length d < 2 ^ 64" using Cons.prems(3) nd by simp
    then have "Q v (c @ d)"
      using assms(1) nfs_upload_part_holds [of C obs w' mp fh c key d n lim v y] u x Cons.prems(2) by (auto simp: Q_def)
    from Cons.IH [OF rest this] Cons.prems(3) nd show ?case by simp
  qed (simp add: send_parts_def sret_def)
  have q: "Q w1 (concat (map snd parts))" using loop [OF assms(6), of "[]"] assms(3-5) by (simp add: Q_def)
  have "obs (nw_remote w2) = obs (nw_remote w1) \<and> nw_uploads w2 = AList.delete (upload_id mp) (nw_uploads w1)"
  proof -
    have "nw_remote w2 = fst (nf_commit C fh (nw_remote w1)) \<and> nw_uploads w2 = AList.delete (upload_id mp) (nw_uploads w1)"
      using assms(7) q by (cases w1; cases w2; auto simp: Q_def nfs_complete_multipart_def Let_def nfs_commit_def onn_eq checked_Inr)
    then show ?thesis using assms(2) by (simp add: nfs_commit_law_def)
  qed
  with q show ?thesis by (simp add: Q_def delete_conv')
qed

text \<open>
  A part that fails loses the upload's id, as over SMB: \<open>abort_multipart\<close> then succeeds without a request.
\<close>

lemma nfs_failed_part_leaks:
  assumes "nfs_upload_part C mp n d lim w = (w', Inl e)"
  shows "nfs_abort_multipart C root mp w' = (w', Inr ())"
proof -
  have "AList.delete (upload_id mp) (nw_uploads w') = nw_uploads w' \<and> map_of (nw_uploads w') (upload_id mp) = None"
    using assms by (auto simp: nfs_upload_part_def Let_def onn_apply delete_conv' delete_idem split: option.splits sum.splits prod.splits)
  then show ?thesis by (simp add: nfs_abort_multipart_def)
qed

section \<open>Reading\<close>

text \<open>
  The server answers reads of the file \<open>fh\<close> of content \<open>c\<close> while it is in a state of \<open>S\<close>: a piece of the content
  at the offset, non-empty inside the file, with \<open>eof\<close> only and surely at the end.
\<close>

definition nfs_read_law :: "'r nfs_client \<Rightarrow> nat \<Rightarrow> bytes \<Rightarrow> 'r set \<Rightarrow> bool" where
  "nfs_read_law C fh c S \<longleftrightarrow> (\<forall>off n r. r \<in> S \<longrightarrow> (\<exists>r' \<in> S. \<exists>ch. nf_read C fh off n r = (r', Inr (Inr ch)) \<and>
     nc_data ch = take (length (nc_data ch)) (drop (unat off) c) \<and> unat (nc_count ch) = length (nc_data ch) \<and>
     (unat off < length c \<longrightarrow> 0 < n \<longrightarrow> nc_data ch \<noteq> []) \<and> (length c \<le> unat off \<longrightarrow> nc_eof ch) \<and>
     (nc_eof ch \<longrightarrow> length c \<le> unat off + length (nc_data ch))))"

lemma nfs_read_step:
  assumes "nfs_read_law C fh c S" "r \<in> S" "length c < 2 ^ 64" "unat off \<le> length c"
  obtains r' ch where "r' \<in> S" "nf_read C fh off READ_CHUNK r = (r', Inr (Inr ch))"
    "nc_data ch @ drop (unat off + length (nc_data ch)) c = drop (unat off) c"
    "nc_eof ch \<Longrightarrow> nc_data ch = drop (unat off) c"
    "\<not> nc_eof ch \<Longrightarrow> unat (off + ucast (nc_count ch)) = unat off + length (nc_data ch) \<and>
       unat off + length (nc_data ch) \<le> length c \<and> nc_data ch \<noteq> []"
proof -
  obtain r' ch where ch: "r' \<in> S" "nf_read C fh off READ_CHUNK r = (r', Inr (Inr ch))"
    "nc_data ch = take (length (nc_data ch)) (drop (unat off) c)" "unat (nc_count ch) = length (nc_data ch)"
    "unat off < length c \<longrightarrow> 0 < READ_CHUNK \<longrightarrow> nc_data ch \<noteq> []" "length c \<le> unat off \<longrightarrow> nc_eof ch"
    "nc_eof ch \<longrightarrow> length c \<le> unat off + length (nc_data ch)"
    using assms(1,2) unfolding nfs_read_law_def by blast
  have "drop (unat off + length (nc_data ch)) c = drop (length (nc_data ch)) (drop (unat off) c)" by (simp add: add.commute)
  with ch(3) have a: "nc_data ch @ drop (unat off + length (nc_data ch)) c = drop (unat off) c"
    by (metis append_take_drop_id)
  have l: "length (nc_data ch) \<le> length c - unat off" using arg_cong [OF ch(3), of length] by simp
  show thesis
  proof (rule that [OF ch(1,2) a])
    show "nc_eof ch \<Longrightarrow> nc_data ch = drop (unat off) c" using ch(7) a by simp
    assume e: "\<not> nc_eof ch"
    have uc: "unat (ucast (nc_count ch) :: u64) = length (nc_data ch)"
      using ch(4) unat_bound [of "nc_count ch"] by (simp add: unsigned_ucast_eq take_bit_nat_eq_self_iff)
    have "unat (off + ucast (nc_count ch)) = unat off + length (nc_data ch)"
      using uc l assms(3,4) by (subst unat_add_exact) auto
    moreover have "0 < READ_CHUNK" by (simp add: READ_CHUNK_def)
    ultimately show "unat (off + ucast (nc_count ch)) = unat off + length (nc_data ch) \<and>
       unat off + length (nc_data ch) \<le> length c \<and> nc_data ch \<noteq> []"
      using e ch(5,6) l assms(4) by auto
  qed
qed

lemma nfs_stream_loop_whole:
  assumes law: "nfs_read_law C fh c S" "length c < 2 ^ 64"
  shows "r \<in> S \<Longrightarrow> unat off \<le> length c \<Longrightarrow> length c - unat off < fuel \<Longrightarrow>
     \<exists>r' \<in> S. \<exists>q. nfs_stream_loop C fuel fh off r = (r', q) \<and> rd_content q = (drop (unat off) c, None)"
proof (induction fuel arbitrary: off r)
  case (Suc fuel)
  obtain r1 ch where R: "r1 \<in> S" "nf_read C fh off READ_CHUNK r = (r1, Inr (Inr ch))"
    "nc_data ch @ drop (unat off + length (nc_data ch)) c = drop (unat off) c"
    "nc_eof ch \<Longrightarrow> nc_data ch = drop (unat off) c"
    "\<not> nc_eof ch \<Longrightarrow> unat (off + ucast (nc_count ch)) = unat off + length (nc_data ch) \<and>
       unat off + length (nc_data ch) \<le> length c \<and> nc_data ch \<noteq> []"
    using nfs_read_step [OF law(1) Suc.prems(1) law(2) Suc.prems(2)] by blast
  have ck: "checked ''NFS read failed'' ''NFS read error'' (nf_read C fh off READ_CHUNK) r = (r1, Inr ch)" using R(2) by (simp add: checked_Inr)
  show ?case
  proof (cases "nc_eof ch")
    case True
    with R ck show ?thesis by simp
  next
    case False
    note F = R(5) [OF False]
    have "length c - unat (off + ucast (nc_count ch)) < fuel" using F Suc.prems(2,3) by (cases "nc_data ch") auto
    then obtain r2 q where q: "r2 \<in> S" "nfs_stream_loop C fuel fh (off + ucast (nc_count ch)) r1 = (r2, q)"
      "rd_content q = (drop (unat off + length (nc_data ch)) c, None)"
      using Suc.IH [OF R(1), of "off + ucast (nc_count ch)"] F by auto
    with False ck R(3) show ?thesis by simp
  qed
qed simp

lemma nfs_read_loop_whole:
  assumes law: "nfs_read_law C fh c S" "length c < 2 ^ 64"
  shows "r \<in> S \<Longrightarrow> unat off \<le> length c \<Longrightarrow> length c - unat off < fuel \<Longrightarrow>
     \<exists>r' \<in> S. nfs_read_loop C fuel fh off out r = (r', Inr (out @ drop (unat off) c))"
proof (induction fuel arbitrary: off r out)
  case (Suc fuel)
  obtain r1 ch where R: "r1 \<in> S" "nf_read C fh off READ_CHUNK r = (r1, Inr (Inr ch))"
    "nc_data ch @ drop (unat off + length (nc_data ch)) c = drop (unat off) c"
    "nc_eof ch \<Longrightarrow> nc_data ch = drop (unat off) c"
    "\<not> nc_eof ch \<Longrightarrow> unat (off + ucast (nc_count ch)) = unat off + length (nc_data ch) \<and>
       unat off + length (nc_data ch) \<le> length c \<and> nc_data ch \<noteq> []"
    using nfs_read_step [OF law(1) Suc.prems(1) law(2) Suc.prems(2)] by blast
  have ck: "checked ''NFS read failed'' ''NFS read error'' (nf_read C fh off READ_CHUNK) r = (r1, Inr ch)" using R(2) by (simp add: checked_Inr)
  show ?case
  proof (cases "nc_eof ch")
    case True
    with R ck show ?thesis by simp
  next
    case False
    note F = R(5) [OF False]
    have "length c - unat (off + ucast (nc_count ch)) < fuel" using F Suc.prems(2,3) by (cases "nc_data ch") auto
    then obtain r2 where q: "r2 \<in> S" "nfs_read_loop C fuel fh (off + ucast (nc_count ch)) (out @ nc_data ch) r1 =
        (r2, Inr ((out @ nc_data ch) @ drop (unat off + length (nc_data ch)) c))"
      using Suc.IH [OF R(1), of "off + ucast (nc_count ch)" "out @ nc_data ch"] F by auto
    moreover have "(out @ nc_data ch) @ drop (unat off + length (nc_data ch)) c = out @ drop (unat off) c" using R(3) by simp
    ultimately show ?thesis using False ck by (intro bexI [OF _ q(1)]) simp
  qed
qed simp

text \<open>
  C16. Reading over NFS returns the file, and returns: on a server that answers, at most one request per byte
  and one more are needed whatever the sizes of the answers; \<open>get\<close> gives the whole content, and a
  ranged stream what lies behind the smaller of the offset and the size announced with it.
\<close>

theorem nfs_reads_whole:
  assumes "file_handle C root key w = (w1, Inr (Some (fh, sz)))" "nw_remote w1 \<in> S" "nfs_read_law C fh c S"
    and "length c < 2 ^ 64" "unat sz \<le> length c" "length c < fuel"
  shows "(\<exists>w'. nfs_get C fuel root key w = (w', Inr (Some c))) \<and>
    (\<exists>w' q. nfs_get_range C fuel root key offset w = (w', Inr (sz, q)) \<and>
       rd_content q = (drop (min (unat offset) (unat sz)) c, None))"
proof
  obtain r where "nfs_read_loop C fuel fh 0 [] (nw_remote w1) = (r, Inr c)"
    using nfs_read_loop_whole [OF assms(3,4,2), of 0 fuel "[]"] assms(6) by auto
  then show "\<exists>w'. nfs_get C fuel root key w = (w', Inr (Some c))"
    using assms(1) by (simp add: nfs_get_def sbind_apply onn_apply sret_def)
  have m: "unat (min offset sz) = min (unat offset) (unat sz)" by (simp add: min_def word_le_nat_alt)
  then have "unat (min offset sz) \<le> length c" "length c - unat (min offset sz) < fuel" using assms(5,6) by auto
  from nfs_stream_loop_whole [OF assms(3,4,2) this] obtain r q where
    "nfs_stream_loop C fuel fh (min offset sz) (nw_remote w1) = (r, q)" "rd_content q = (drop (unat (min offset sz)) c, None)"
    by blast
  then show "\<exists>w' q. nfs_get_range C fuel root key offset w = (w', Inr (sz, q)) \<and>
       rd_content q = (drop (min (unat offset) (unat sz)) c, None)"
    using assms(1) m by (simp add: nfs_get_range_def nfs_open_stream_def sbind_apply onn_apply)
qed

text \<open>
  A resumed download restarts at the beginning when the server's LOOKUP carries no attributes: the size
  is then taken to be 0, the offset is cut down to it, and the stream is the one of the whole file.
\<close>

theorem nfs_resume_without_attributes:
  assumes "resolve_parent C root key w = (w1, Inr (dir, name))"
    and "nf_lookup C dir name (nw_remote w1) = (r, Inr (Inr (fh, None)))"
  shows "nfs_get_range C fuel root key offset w = nfs_get_stream C fuel root key w"
proof -
  have "file_handle C root key w = (w1\<lparr>nw_remote := r\<rparr>, Inr (Some (fh, 0)))"
    using assms by (simp add: file_handle_def sbind_apply onn_apply nfs_lookup_def fctx_apply sret_def)
  moreover have "min offset 0 = (0 :: u64)" by (simp add: min_def)
  ultimately show ?thesis
    by (simp add: nfs_get_range_def nfs_get_stream_def nfs_open_stream_def sbind_apply)
qed

section \<open>Listing\<close>







text \<open>A missing parent directory is an error of \<open>get\<close>, not a missing file.\<close>

lemma nfs_get_missing_parent:
  assumes "nw_cache w = []" "nf_lookup C root ''d'' (nw_remote w) = (r, Inr (Inl NOENT))"
  shows "nfs_get C fuel root ''d/f'' w = (w\<lparr>nw_remote := r\<rparr>, Inl (Msg ''remote directory d not found''))"
proof -
  have "trim_end_matches slash ''d/f'' = ''d/f''" "rsplit_once slash ''d/f'' = Some (''d'', ''f'')"
    "trim_matches slash ''d'' = ''d''" "split_on slash ''d'' = [''d'']" by code_simp+
  with assms show ?thesis
    by (simp add: nfs_get_def file_handle_def resolve_parent_def resolve_dir_def Let_def sbind_apply onn_apply
        nfs_lookup_def fctx_apply sret_def serr_def)
qed

section \<open>A concrete server\<close>

text \<open>
  A server that takes and gives at most two bytes at a time and one entry per page, with the cookie verifier 7,
  and that refuses a cookie (NFS3ERR_BAD_COOKIE) that comes with another one; \<open>nm_attrs\<close> tells
  whether its LOOKUP carries attributes. Its root directory has the handle 0.
\<close>

record nfs_mem =
  nm_names :: "((nat \<times> string) \<times> nat) list"
  nm_data :: "(nat \<times> bytes) list"
  nm_attrs :: bool

definition nm_obs :: "nfs_mem \<Rightarrow> nat \<Rightarrow> bytes option" where
  "nm_obs m = map_of (nm_data m)"

definition nm_file_attrs :: "nfs_mem \<Rightarrow> nat \<Rightarrow> nfs_attrs option" where
  "nm_file_attrs m fh =
     (if nm_attrs m then Some \<lparr>na_is_dir = nm_obs m fh = None,
        na_size = (case nm_obs m fh of Some c \<Rightarrow> of_nat (length c) | None \<Rightarrow> 0), na_mtime = 0\<rparr> else None)"

definition nm_dirents :: "nfs_dirent list" where
  "nm_dirents = [\<lparr>de_name = [46], de_cookie = 1, de_attrs = None\<rparr>, \<lparr>de_name = [97], de_cookie = 2, de_attrs = None\<rparr>]"

definition nm_read :: "nat \<Rightarrow> u64 \<Rightarrow> u32 \<Rightarrow> (nfs_mem, nfs_chunk) rpc" where
  "nm_read fh off n m =
     (m, Inr (case nm_obs m fh of
        None \<Rightarrow> Inl (Stat 70)
      | Some c \<Rightarrow>
          let d = take (min 2 (unat n)) (drop (unat off) c) in
          Inr \<lparr>nc_count = of_nat (length d), nc_data = d, nc_eof = length c \<le> unat off + length d\<rparr>))"

definition nm_write :: "nat \<Rightarrow> u64 \<Rightarrow> bytes \<Rightarrow> (nfs_mem, u32) rpc" where
  "nm_write fh off d m =
     (case nm_obs m fh of
        None \<Rightarrow> (m, Inr (Inl (Stat 70)))
      | Some c \<Rightarrow> (m\<lparr>nm_data := AList.update fh (splice c (unat off) (take 2 d)) (nm_data m)\<rparr>,
          Inr (Inr (of_nat (min 2 (length d))))))"

definition mem_nfs :: "nfs_mem nfs_client" where
  "mem_nfs = \<lparr>
     nf_mount = (\<lambda>h e p priv u g. sret 0),
     nf_getattr = (\<lambda>fh. sret (Inr ())),
     nf_lookup = (\<lambda>dir name m. (m, Inr (case map_of (nm_names m) (dir, name) of
        None \<Rightarrow> Inl NOENT | Some fh \<Rightarrow> Inr (fh, nm_file_attrs m fh)))),
     nf_set_size = (\<lambda>fh n m. (m\<lparr>nm_data := AList.update fh [] (nm_data m)\<rparr>, Inr (Inr ()))),
     nf_create = (\<lambda>dir name m. (m\<lparr>nm_names := ((dir, name), Suc (length (nm_names m))) # nm_names m,
        nm_data := AList.update (Suc (length (nm_names m))) [] (nm_data m)\<rparr>, Inr (Inr ()))),
     nf_mkdir = (\<lambda>dir name m. (m\<lparr>nm_names := ((dir, name), Suc (length (nm_names m))) # nm_names m\<rparr>, Inr (Inr ()))),
     nf_read = nm_read,
     nf_write = nm_write,
     nf_commit = (\<lambda>fh. sret (Inr ())),
     nf_remove = (\<lambda>dir name m. (m\<lparr>nm_names := AList.delete (dir, name) (nm_names m)\<rparr>, Inr (Inr ()))),
     nf_rmdir = (\<lambda>dir name m. (m\<lparr>nm_names := AList.delete (dir, name) (nm_names m)\<rparr>, Inr (Inr ()))),
     nf_readdirplus = (\<lambda>dir cookie verf m. (m, Inr (
        if verf \<noteq> (if cookie = 0 then 0 else 7) then Inl (Stat 10003) else Inr \<lparr>np_verf = 7, np_entries = take 1 (drop (unat cookie) nm_dirents),
        np_eof = length nm_dirents \<le> unat cookie + 1\<rparr>)))\<rparr>"

lemma mem_nfs_write_law: "nfs_write_law mem_nfs nm_obs"
proof -
  have u: "unat (of_nat (min 2 n) :: u32) = min 2 n" for n :: nat by (rule unat_of_nat_u32) simp
  have t: "take (min 2 (length d)) d = take 2 d" for d :: bytes by (simp add: min_def)
  show ?thesis
    by (auto simp: nfs_write_law_def mem_nfs_def nm_write_def nm_obs_def update_conv' u t split: option.splits)
qed

lemma mem_nfs_commit_law: "nfs_commit_law mem_nfs nm_obs"
  by (simp add: nfs_commit_law_def mem_nfs_def sret_def)

lemma mem_nfs_read_law: "nm_obs m fh = Some c \<Longrightarrow> nfs_read_law mem_nfs fh c {m}"
proof -
  assume c: "nm_obs m fh = Some c"
  have u: "unat (of_nat (min n 2) :: u32) = min n 2" "unat (of_nat (min n (min 2 k)) :: u32) = min n (min 2 k)" for n k :: nat
    by (rule unat_of_nat_u32, simp)+
  show ?thesis
    unfolding nfs_read_law_def mem_nfs_def using c
    by (auto simp: nm_read_def Let_def u min_def word_less_nat_alt)
qed


definition ref_nfs :: "nfs_mem nfs_world" where
  "ref_nfs = \<lparr>nw_remote = \<lparr>nm_names = [((0, ''a''), 5)], nm_data = [(5, [1, 2, 3])], nm_attrs = True\<rparr>,
     nw_cache = [], nw_uploads = [], nw_seq = 0\<rparr>"

section \<open>The theorems at work on it\<close>

theorem nfs_write_at_exact_witness:
  "\<exists>r'. write_at mem_nfs 5 1 [7, 8, 9] (nw_remote ref_nfs) = (r', Inr (4, [2, 1])) \<and>
    nm_obs r' 5 = Some (splice [1, 2, 3] (unat (1 :: u64)) [7, 8, 9])"
proof -
  have c: "chunks NFS_WRITE_CHUNK [7, 8, 9] = [[7, 8, 9 :: u8]]" by (simp add: chunks_small NFS_WRITE_CHUNK_def)
  let ?r = "fst (write_at mem_nfs 5 1 [7, 8, 9] (nw_remote ref_nfs))"
  have w: "write_at mem_nfs 5 1 [7, 8, 9] (nw_remote ref_nfs) = (?r, Inr (4, [2, 1]))"
    by (rule result_pair, unfold write_at_def c) code_simp
  have "nm_obs (nw_remote ref_nfs) 5 = Some [1, 2, 3]" by code_simp
  from nfs_write_at_exact [OF mem_nfs_write_law this _ _ w] w show ?thesis by auto
qed

theorem nfs_reads_whole_witness:
  "(\<exists>w'. nfs_get mem_nfs 4 0 ''a'' ref_nfs = (w', Inr (Some [1, 2, 3]))) \<and>
    (\<exists>w' q. nfs_get_range mem_nfs 4 0 ''a'' 1 ref_nfs = (w', Inr (3, q)) \<and>
       rd_content q = (drop (min (unat (1 :: u64)) (unat (3 :: u64))) [1, 2, 3], None))"
proof (rule nfs_reads_whole)
  show "file_handle mem_nfs 0 ''a'' ref_nfs = (ref_nfs, Inr (Some (5, 3)))" by code_simp
  show "nw_remote ref_nfs \<in> {nw_remote ref_nfs}" by simp
  have "nm_obs (nw_remote ref_nfs) 5 = Some [1, 2, 3]" by code_simp
  then show "nfs_read_law mem_nfs 5 [1, 2, 3] {nw_remote ref_nfs}" by (rule mem_nfs_read_law)
qed simp_all


definition ref_nfs_bare :: "nfs_mem nfs_world" where
  "ref_nfs_bare = ref_nfs\<lparr>nw_remote := (nw_remote ref_nfs)\<lparr>nm_attrs := False\<rparr>\<rparr>"

theorem nfs_resume_without_attributes_witness:
  "nfs_get_range mem_nfs 4 0 ''a'' 2 ref_nfs_bare = nfs_get_stream mem_nfs 4 0 ''a'' ref_nfs_bare"
proof (rule nfs_resume_without_attributes)
  show "resolve_parent mem_nfs 0 ''a'' ref_nfs_bare = (ref_nfs_bare, Inr (0, ''a''))" by code_simp
  show "nf_lookup mem_nfs 0 ''a'' (nw_remote ref_nfs_bare) = (nw_remote ref_nfs_bare, Inr (Inr (5, None)))" by code_simp
qed

theorem nfs_multipart_stores_witness:
  "\<exists>w1 (w2 :: nfs_mem nfs_world). send_parts (\<lambda>n d. nfs_upload_part mem_nfs \<lparr>upload_id = ''nfs-0'', mp_key = ''b''\<rparr> n d None) [(1, [7, 8, 9]), (2, [4])]
      (ref_nfs\<lparr>nw_uploads := [(''nfs-0'', 6, 0, ''b'')], nw_remote := (nw_remote ref_nfs)\<lparr>nm_data := [(6, [])]\<rparr>\<rparr>) = (w1, Inr ()) \<and>
    nm_obs (nw_remote w2) 6 = Some (concat (map snd [(1 :: int, [7, 8, 9]), (2, [4])])) \<and> map_of (nw_uploads w2) ''nfs-0'' = None"
proof -
  let ?mp = "\<lparr>upload_id = ''nfs-0'', mp_key = ''b''\<rparr>" and ?ps = "[(1, [7, 8, 9]), (2, [4])]"
  let ?w = "ref_nfs\<lparr>nw_uploads := [(''nfs-0'', 6, 0, ''b'')], nw_remote := (nw_remote ref_nfs)\<lparr>nm_data := [(6, [])]\<rparr>\<rparr>"
  let ?w1 = "fst (send_parts (\<lambda>n d. nfs_upload_part mem_nfs ?mp n d None) ?ps ?w)"
  let ?w2 = "fst (nfs_complete_multipart mem_nfs ?mp [] ?w1)"
  have c: "chunks NFS_WRITE_CHUNK [7, 8, 9] = [[7, 8, 9 :: u8]]" "chunks NFS_WRITE_CHUNK [4] = [[4 :: u8]]"
    by (simp_all add: chunks_small NFS_WRITE_CHUNK_def)
  note parts = send_parts_def sfold.simps prod.case nfs_upload_part_def write_at_def c
  have 1: "send_parts (\<lambda>n d. nfs_upload_part mem_nfs ?mp n d None) ?ps ?w = (?w1, Inr ())"
    by (rule result_pair, unfold parts) code_simp
  have 2: "nfs_complete_multipart mem_nfs ?mp [] ?w1 = (?w2, Inr ())" by (rule result_pair, unfold parts) code_simp
  have "map_of (nw_uploads ?w) (upload_id ?mp) = Some (6, 0, ''b'')" "nm_obs (nw_remote ?w) 6 = Some []"
    "length (concat (map snd ?ps)) < 2 ^ 64" by (simp_all add: nm_obs_def)
  from nfs_multipart_stores [OF mem_nfs_write_law mem_nfs_commit_law this 1 2] 1
  show ?thesis by (intro exI [of _ ?w1] exI [of _ ?w2]) simp
qed

end
