(* ===== verification/Transfers.thy ===== *)
theory Transfers
  imports Retry
begin

text \<open>
  What was uploaded can be downloaded (\<^verbatim>\<open>src/src/worker.rs\<close>: \<open>upload_one\<close>, \<open>download_one\<close> and the
  task around it, over the methods of a backend). The locale \<open>transfer_store\<close> states what the
  transfers need of a backend: a body put or assembled from parts is the object, and every stream of an
  object is one of its bytes that only ends early with an error.
\<close>

text \<open>The local file holds \<open>data\<close>, however it is read.\<close>

definition file_holds :: "local_file \<Rightarrow> bytes \<Rightarrow> bool" where
  "file_holds f data \<longleftrightarrow> lf_metadata f = Inr (of_nat (length data)) \<and> lf_read f = Inr data \<and>
     (\<exists>r. lf_open f = Inr (length data, r) \<and> rd_content r = (data, None))"

section \<open>The contract\<close>

locale transfer_store =
  fixes B :: "'w backend"
    and abs :: "'w \<Rightarrow> string \<rightharpoonup> bytes"
    and law :: bool
  assumes put_throttled_law: "law \<Longrightarrow> object_key k \<Longrightarrow> be_put_throttled B k d limiter w = (w', Inr ()) \<Longrightarrow> abs w' k = Some d"
    and parts_law: "law \<Longrightarrow> object_key k \<Longrightarrow> be_create_multipart B k w = (w1, Inr mp) \<Longrightarrow> mpp_mp P = mp \<Longrightarrow>
      upload_all B P [] 1 parts w1 = (w2, Inr tags) \<Longrightarrow> be_complete_multipart B mp tags w2 = (w3, Inr ()) \<Longrightarrow>
      abs w3 k = Some (concat parts)"
    and serve_law: "law \<Longrightarrow> object_key k \<Longrightarrow> serves (\<lambda>w. abs w k = Some blob) B k blob"
    and honest_law: "law \<Longrightarrow> object_key k \<Longrightarrow> ends_honestly (\<lambda>w. abs w k = Some blob) B k blob"
begin

lemma small_stored:
  assumes law "object_key key" "aead_correct L" "length prefix = PREFIX_LEN"
    and "upload_small L B keys prefix limiter (Inr data) key w = (w', Inr ())"
  shows "\<exists>blob. abs w' key = Some blob \<and> stored_as L keys prefix data blob"
proof (cases keys)
  case None
  with assms(5) have "be_put_throttled B key data limiter w = (w', Inr ())"
    by (simp add: upload_small_def sr_simps)
  from put_throttled_law [OF assms(1,2) this] None show ?thesis by (simp add: stored_as_def)
next
  case (Some k)
  with assms(5) obtain blob where e: "encrypt_bytes L k prefix data = Inr blob"
    by (cases "encrypt_bytes L k prefix data") (auto simp: upload_small_def sr_simps)
  with assms(5) Some have "be_put_throttled B key blob limiter w = (w', Inr ())"
    by (simp add: upload_small_def sr_simps)
  from put_throttled_law [OF assms(1,2) this] Some e assms(3,4) show ?thesis by (simp add: stored_as_def)
qed

lemma multipart_stored:
  assumes law "object_key key" "aead_correct L" "aead_total L" "length prefix = PREFIX_LEN" "length data \<le> 2 ^ 51"
    and "case keys of None \<Rightarrow> True | Some k \<Rightarrow> keys_wf k" "rd_content r = (data, None)"
    and up: "upload_multipart L B keys prefix st limiter (Inr (length data, r)) cancelled key w = (w', Inr ())"
  shows "\<exists>blob. abs w' key = Some blob \<and> stored_as L keys prefix data blob"
proof -
  obtain w1 mp P parts w2 tags where m: "be_create_multipart B key w = (w1, Inr mp)" "mpp_mp P = mp"
    "upload_all B P [] 1 parts w1 = (w2, Inr tags)" "be_complete_multipart B mp tags w2 = (w', Inr ())"
    and "case keys of None \<Rightarrow> concat parts = data | Some k \<Rightarrow> encrypt_bytes L k prefix data = Inr (concat parts)"
    by (rule multipart_sent [OF assms(3-8) up])
  with parts_law [OF assms(1,2) m] assms(3,5) show ?thesis by (cases keys) (auto simp: stored_as_def)
qed

lemma attempt_stored:
  assumes law "object_key key" "aead_correct (ev_lib E)" "aead_total (ev_lib E)" "\<And>i. length (ev_rnd E i) = PREFIX_LEN"
    and "length data \<le> 2 ^ 51" "case keys of None \<Rightarrow> True | Some k \<Rightarrow> keys_wf k" "file_holds f data" "ev_backend E = B"
    and "upload_attempt E keys st limiter f plain_len key cancelled s = (s', Inr ())"
  shows "\<exists>blob. abs (cx_world s') key = Some blob \<and> stored_as (ev_lib E) keys (ev_rnd E (cx_rng s)) data blob"
proof -
  let ?rnd = "ev_rnd E (cx_rng s)"
  obtain r where f: "lf_read f = Inr data" "lf_open f = Inr (length data, r)" "rd_content r = (data, None)"
    using assms(8) by (auto simp: file_holds_def)
  let ?g = "if plain_len \<le> multipart_threshold_mib st * 1024 * 1024
      then upload_small (ev_lib E) B keys ?rnd limiter (lf_read f) key
      else upload_multipart (ev_lib E) B keys ?rnd st limiter (lf_open f) cancelled key"
  obtain w u where p: "be_prepare_parents B key (cx_world s) = (w, u)" by fastforce
  obtain w2 v where g: "?g w = (w2, v)" by fastforce
  have "?g w = (cx_world s', Inr ())"
    using assms(10) unfolding upload_attempt_def Let_def assms(9) sbind_apply onw_apply
    by (cases u; cases v) (simp_all add: p g del: if_split, auto simp: prod_eq_iff)
  then show ?thesis
    using small_stored [OF assms(1,2,3) assms(5)] multipart_stored [OF assms(1-4) assms(5) assms(6,7) f(3)] f
    by (auto split: if_splits)
qed

lemma upload_one_stored:
  assumes law "object_key key" "aead_correct (ev_lib E)" "aead_total (ev_lib E)" "\<And>i. length (ev_rnd E i) = PREFIX_LEN"
    and "length data \<le> 2 ^ 51" "case keys of None \<Rightarrow> True | Some k \<Rightarrow> keys_wf k" "file_holds f data" "ev_backend E = B"
    and "upload_key (ev_lib E) keys dest rel = Inr key"
    and "upload_one E keys st limiter delay F f dest rel s = (s', Inr ())"
  shows "\<exists>blob prefix. abs (cx_world s') key = Some blob \<and> stored_as (ev_lib E) keys prefix data blob"
proof -
  let ?R = "\<lparr>rt_op = (\<lambda>i. guarded st (map_option (\<lambda>(g, b). (on_world g, b)) (fl_dropped F i))
                 (upload_attempt E keys st limiter f (of_nat (length data)) key (fl_inside F i))),
      rt_cancelled_head = fl_head F, rt_cancelled = fl_decide F,
      rt_wait_until_healthy = (\<lambda>i. on_world (fl_heal F i)), rt_force_reconnect = (\<lambda>i. on_world (fl_reconnect F i))\<rparr>"
  from assms(8,10,11) obtain lg where "upload_loop ?R (unat (retries st)) delay s = (s', Inr (), lg)"
    by (auto simp: upload_one_def file_holds_def Let_def split: prod.splits)
  then have "\<exists>i s0. True \<and> rt_op ?R i s0 = (s', Inr ())"
    using retry_loop_inv [of "\<lambda>_. True" s ?R] unfolding upload_loop_def by fastforce
  then obtain i s0 where "upload_attempt E keys st limiter f (of_nat (length data)) key (fl_inside F i) s0 = (s', Inr ())"
    by (auto simp: guarded_def split: if_splits option.splits)
  from attempt_stored [OF assms(1-9) this] show ?thesis by blast
qed

lemma uploaded_downloads:
  assumes law "object_key key" "aead_correct (ev_lib E)" "aead_total (ev_lib E)" "\<And>i. length (ev_rnd E i) = PREFIX_LEN"
    and "length data \<le> 2 ^ 51" "case keys of None \<Rightarrow> True | Some k \<Rightarrow> keys_wf k" "file_holds f data" "ev_backend E = B"
    and "upload_key (ev_lib E) keys dest rel = Inr key"
    and "upload_one E keys st limiter delay F f dest rel s = (s', Inr ())"
    and "abs (dl_world t) key = abs (cx_world s') key" "\<And>i w. abs (df_heal G i w) key = abs w key \<and> abs (df_reconnect G i w) key = abs w key"
    and "target @ sanitize_rel name \<noteq> []" "part_ok data (dl_disk t (part_path (target @ sanitize_rel name)))"
    and "download_task (ev_lib E) B keys st2 G key name (of_nat (length data)) target t = (t', res)"
  shows "task_post (target @ sanitize_rel name) data (df_remove G) (dl_disk t) (dl_disk t') res"
proof -
  from upload_one_stored [OF assms(1-11)] obtain blob prefix where
    b: "abs (cx_world s') key = Some blob" "stored_as (ev_lib E) keys prefix data blob" by blast
  let ?ok = "\<lambda>w. abs w key = Some blob"
  have "dl_setup (ev_lib E) ?ok B keys prefix data key blob"
    using b(2) assms(6) serve_law [OF assms(1,2)] honest_law [OF assms(1,2)] by (simp add: dl_setup_def)
  from download_task_disk [OF this _ assms(14,15) _ assms(16)] assms(12,13) b(1) show ?thesis by auto
qed

end

section \<open>On S3\<close>

text \<open>
  What the service documents: an answer to \<open>GetObject\<close> delivers bytes of the requested range, and a
  connection closed before the announced length is an error of the body; \<open>CompleteMultipartUpload\<close>
  assembles the parts it lists, which are what was uploaded last under their numbers. \<open>pobs\<close> observes
  the parts of an upload.
\<close>

definition ranged :: "s3_range option \<Rightarrow> bytes \<Rightarrow> bytes" where
  "ranged rg d = (case rg of None \<Rightarrow> d | Some (RangeFrom a) \<Rightarrow> drop (unat a) d | Some (RangeTo b) \<Rightarrow> take (Suc (unat b)) d)"

definition s3_stream_law :: "'w s3_client \<Rightarrow> ('w \<Rightarrow> string \<rightharpoonup> bytes) \<Rightarrow> bool" where
  "s3_stream_law C obs \<longleftrightarrow> (\<forall>k rg w w' x. c_get_object C k rg w = (w', x) \<longrightarrow> obs w' = obs w \<and>
     (\<forall>len body d. x = Inr (len, body) \<longrightarrow> obs w k = Some d \<longrightarrow>
        (\<exists>rest. ranged rg d = fst (rd_content body) @ rest \<and> (snd (rd_content body) = None \<longrightarrow> rest = []))))"

definition s3_part_law :: "'w s3_client \<Rightarrow> ('w \<Rightarrow> string \<rightharpoonup> bytes) \<Rightarrow> ('w \<Rightarrow> string \<times> string \<Rightarrow> int \<rightharpoonup> bytes) \<Rightarrow> bool" where
  "s3_part_law C obs pobs \<longleftrightarrow>
     (\<forall>k uid n d w w' t. c_upload_part C k uid n d w = (w', Inr t) \<longrightarrow> pobs w' (k, uid) = (pobs w (k, uid))(n \<mapsto> d)) \<and>
     (\<forall>k uid tags w w'. c_complete_multipart C k uid tags w = (w', Inr ()) \<longrightarrow>
        sorted_wrt (<) (map fst tags) \<longrightarrow> set (map fst tags) \<subseteq> dom (pobs w (k, uid)) \<longrightarrow>
        obs w' k = Some (concat (map (\<lambda>t. the (pobs w (k, uid) (fst t))) tags)))"

definition s3_transfer_law :: "'w s3_client \<Rightarrow> ('w \<Rightarrow> string \<rightharpoonup> bytes) \<Rightarrow> ('w \<Rightarrow> string \<times> string \<Rightarrow> int \<rightharpoonup> bytes) \<Rightarrow> bool" where
  "s3_transfer_law C obs pobs \<longleftrightarrow> s3_put_law C obs \<and> s3_stream_law C obs \<and> s3_part_law C obs pobs"

lemma concat_throttled [simp]: "concat (throttled_bytestream data limiter) = data"
  by (simp add: throttled_bytestream_def PacedBody_frames_def PACE_CHUNK_def)

text \<open>The parts of one upload, numbered upwards.\<close>

lemma s3_upload_all_parts:
  assumes "s3_part_law C obs pobs"
  shows "upload_all (s3_backend C fuel bucket) P tags n parts w = (w', Inr tags') \<Longrightarrow> sorted_wrt (<) (map fst tags) \<Longrightarrow>
    (\<forall>t \<in> set tags. fst t < n) \<Longrightarrow> set (map fst tags) \<subseteq> dom (pobs w (mp_key (mpp_mp P), upload_id (mpp_mp P))) \<Longrightarrow>
    sorted_wrt (<) (map fst tags') \<and> set (map fst tags') \<subseteq> dom (pobs w' (mp_key (mpp_mp P), upload_id (mpp_mp P))) \<and>
    concat (map (\<lambda>t. the (pobs w' (mp_key (mpp_mp P), upload_id (mpp_mp P)) (fst t))) tags') =
      concat (map (\<lambda>t. the (pobs w (mp_key (mpp_mp P), upload_id (mpp_mp P)) (fst t))) tags) @ concat parts"
proof (induction parts arbitrary: tags n w)
  case (Cons p ps)
  let ?u = "(mp_key (mpp_mp P), upload_id (mpp_mp P))"
  obtain w1 x where c: "c_upload_part C (mp_key (mpp_mp P)) (upload_id (mpp_mp P)) n p w = (w1, x)" by fastforce
  with Cons.prems(1) obtain t where x: "x = Inr t"
    by (cases x) (auto simp: s3_backend_def s3_upload_part_def sr_simps)
  then obtain tag where rest: "upload_all (s3_backend C fuel bucket) P (tags @ [(n, tag)]) (n + 1) ps w1 = (w', Inr tags')"
    using Cons.prems(1) c by (auto simp: s3_backend_def s3_upload_part_def sr_simps split: if_splits)
  have u: "pobs w1 ?u = (pobs w ?u)(n \<mapsto> p)"
    using assms c x unfolding s3_part_law_def by blast
  have old: "map (\<lambda>t. the (pobs w1 ?u (fst t))) tags = map (\<lambda>t. the (pobs w ?u (fst t))) tags"
    using Cons.prems(3) by (auto simp: u)
  have "sorted_wrt (<) (map fst (tags @ [(n, tag)]))" "\<forall>t \<in> set (tags @ [(n, tag)]). fst t < n + 1"
    "set (map fst (tags @ [(n, tag)])) \<subseteq> dom (pobs w1 ?u)"
    using Cons.prems(2-4) by (auto simp: sorted_wrt_append u)
  moreover have "concat (map (\<lambda>t. the (pobs w1 ?u (fst t))) (tags @ [(n, tag)])) =
      concat (map (\<lambda>t. the (pobs w ?u (fst t))) tags) @ p"
    unfolding map_append concat_append old by (simp add: u)
  ultimately show ?case using Cons.IH [OF rest] by simp
qed simp

lemma s3_serves:
  assumes "s3_stream_law C obs"
  shows "serves (\<lambda>w. obs w k = Some blob) (s3_backend C fuel bucket) k blob"
    and "ends_honestly (\<lambda>w. obs w k = Some blob) (s3_backend C fuel bucket) k blob"
proof -
  note L = assms [unfolded s3_stream_law_def, rule_format]
  have g: "obs w' k = Some blob \<and> (\<forall>len r. x = Inr (len, r) \<longrightarrow> stream_of blob 0 r \<and> (snd (rd_content r) = None \<longrightarrow> full_stream blob 0 r))"
    if "obs w k = Some blob" "s3_get_stream C k w = (w', x)" for w w' x
    using that L [of k None w] by (auto simp: s3_get_stream_def stream_of_def full_stream_def ranged_def prod_eq_iff
        split: prod.splits sum.splits)
  have r: "obs w' k = Some blob \<and> (\<forall>len r. x = Inr (len, r) \<longrightarrow> stream_of blob (unat off) r \<and>
      (snd (rd_content r) = None \<longrightarrow> full_stream blob (unat off) r))"
    if "obs w k = Some blob" "s3_get_range C k off w = (w', x)" for w w' off x
    using that L [of k "Some (RangeFrom off)" w] g [of w w' x]
    by (auto simp: s3_get_range_def stream_of_def full_stream_def ranged_def prod_eq_iff split: prod.splits sum.splits if_splits)
  have h: "obs w' k = Some blob \<and> (\<forall>b. x = Inr b \<longrightarrow> b = take HEADER_LEN blob)"
    if "obs w k = Some blob" "s3_read_header C k HEADER_LEN w = (w', x)" for w w' x
    using that L [of k "Some (RangeTo (saturating_sub (of_nat HEADER_LEN) 1))" w]
    by (auto simp: s3_read_header_def collect_body_def ranged_def HEADER_LEN_def PREFIX_LEN_def MAGIC_def saturating_sub_def
        split: prod.splits sum.splits option.splits)
  have R: "be_get_stream (s3_backend C fuel bucket) = s3_get_stream C" "be_get_range (s3_backend C fuel bucket) = s3_get_range C"
    "be_read_header (s3_backend C fuel bucket) = s3_read_header C" by (simp_all add: s3_backend_def)
  show "serves (\<lambda>w. obs w k = Some blob) (s3_backend C fuel bucket) k blob"
    unfolding serves_def R using g r h by blast
  show "ends_honestly (\<lambda>w. obs w k = Some blob) (s3_backend C fuel bucket) k blob"
    unfolding ends_honestly_def R using g r by blast
qed

interpretation s3_transfers: transfer_store "s3_backend C fuel bucket" obs "s3_transfer_law C obs pobs"
  for C :: "'w s3_client" and fuel bucket obs pobs
proof
  fix k d limiter w w'
  assume "s3_transfer_law C obs pobs" "be_put_throttled (s3_backend C fuel bucket) k d limiter w = (w', Inr ())"
  then show "obs w' k = Some d"
    by (auto simp: s3_transfer_law_def s3_put_law_def s3_backend_def s3_put_throttled_def sctx_apply prod_eq_iff split: sum.splits)
next
  fix k w w1 mp P parts w2 tags w3
  assume l: "s3_transfer_law C obs pobs" and c: "be_create_multipart (s3_backend C fuel bucket) k w = (w1, Inr mp)"
    and P: "mpp_mp P = mp" and u: "upload_all (s3_backend C fuel bucket) P [] 1 parts w1 = (w2, Inr tags)"
    and f: "be_complete_multipart (s3_backend C fuel bucket) mp tags w2 = (w3, Inr ())"
  have k: "mp_key mp = k"
    using c by (auto simp: s3_backend_def s3_create_multipart_def sr_simps split: prod.splits sum.splits option.splits)
  have pl: "s3_part_law C obs pobs" using l by (simp add: s3_transfer_law_def)
  from s3_upload_all_parts [OF pl u] have "sorted_wrt (<) (map fst tags)" "set (map fst tags) \<subseteq> dom (pobs w2 (k, upload_id mp))"
    "concat (map (\<lambda>t. the (pobs w2 (k, upload_id mp) (fst t))) tags) = concat parts" by (simp_all add: P k)
  moreover have "c_complete_multipart C k (upload_id mp) tags w2 = (w3, Inr ())"
    using f k by (auto simp: s3_backend_def s3_complete_multipart_def sctx_apply prod_eq_iff split: sum.splits)
  ultimately show "obs w3 k = Some (concat parts)" using pl unfolding s3_part_law_def by metis
next
  fix k blob
  assume "s3_transfer_law C obs pobs"
  then show "serves (\<lambda>w. obs w k = Some blob) (s3_backend C fuel bucket) k blob"
    "ends_honestly (\<lambda>w. obs w k = Some blob) (s3_backend C fuel bucket) k blob"
    using s3_serves by (auto simp: s3_transfer_law_def)
qed

text \<open>
  C1. What was uploaded can be downloaded: when the upload of a local file to S3, in one request or in parts,
  with or without encryption and over any number of attempts that failed, were dropped by the watchdog
  or led to a reconnection, reports success, then a later download of its key, while nobody has
  written that object, ends either with exactly the file's bytes at the target or with an error and the target
  as it was, whatever the network and the disk do in between; no other local file changes, and no part file is
  left unless its removal fails after an error. The part file of the target must at the start be absent or hold
  a prefix of the file: the code resumes from whatever it finds (\<open>stale_part_installed\<close>). The file has at
  most \<open>2 ^ 51\<close> bytes and does not change while it is read.
\<close>

theorem uploaded_file_downloads:
  assumes "s3_transfer_law C obs pobs" "ev_backend E = s3_backend C fuel bucket"
    and "aead_correct (ev_lib E)" "aead_total (ev_lib E)" "\<And>i. length (ev_rnd E i) = PREFIX_LEN"
    and "length data \<le> 2 ^ 51" "case keys of None \<Rightarrow> True | Some k \<Rightarrow> keys_wf k" "file_holds f data"
    and "upload_key (ev_lib E) keys dest rel = Inr key" "object_key key"
    and "upload_one E keys st limiter delay F f dest rel s = (s', Inr ())"
    and "obs (dl_world t) key = obs (cx_world s') key" "\<And>i w. obs (df_heal G i w) key = obs w key \<and> obs (df_reconnect G i w) key = obs w key"
    and "target @ sanitize_rel name \<noteq> []" "part_ok data (dl_disk t (part_path (target @ sanitize_rel name)))"
    and "download_task (ev_lib E) (ev_backend E) keys st' G key name (of_nat (length data)) target t = (t', res)"
  shows "(\<forall>p. p \<noteq> target @ sanitize_rel name \<longrightarrow> p \<noteq> part_path (target @ sanitize_rel name) \<longrightarrow> dl_disk t' p = dl_disk t p) \<and>
    dl_disk t' (target @ sanitize_rel name) = (if is_ok res then Some data else dl_disk t (target @ sanitize_rel name)) \<and>
    (is_ok res \<or> df_remove G \<longrightarrow> dl_disk t' (part_path (target @ sanitize_rel name)) = None)"
  using s3_transfers.uploaded_downloads [OF assms(1,10,3-8,2,9,11-15) assms(16) [unfolded assms(2)]] by (simp add: task_post_def)

section \<open>At work\<close>

lemma mem_transfer_law: "s3_transfer_law mem_client mem_obs (\<lambda>w _. map_of (mem_parts w))"
  unfolding s3_transfer_law_def
proof (intro conjI)
  show "s3_stream_law mem_client mem_obs"
    by (auto simp: s3_stream_law_def mem_client_def mem_get_def ranged_def split: option.splits s3_range.splits)
  have "concat (map (\<lambda>(n, t). case map_of ps n of Some d \<Rightarrow> d | None \<Rightarrow> []) tags) = concat (map (\<lambda>t. the (map_of ps (fst t))) tags)"
    if "fst ` set tags \<subseteq> dom (map_of ps)" for ps :: "(int \<times> bytes) list" and tags :: "(int \<times> string) list"
    using that by (induction tags) auto
  then show "s3_part_law mem_client mem_obs (\<lambda>w _. map_of (mem_parts w))"
    by (auto simp: s3_part_law_def mem_client_def mem_upload_part_def mem_complete_def update_conv')
qed (rule mem_put_law)

definition transfer_env :: "mem env" where
  "transfer_env = \<lparr>ev_lib = ref_lib, ev_json = ref_json, ev_backend = s3_backend mem_client 1 ''b'', ev_rnd = \<lambda>_. ref_prefix\<rparr>"

definition transfer_ctx :: "mem ctx" where
  "transfer_ctx = \<lparr>cx_store = ManifestStore_new 10000, cx_world = \<lparr>mem_objs = [], mem_parts = []\<rparr>, cx_now = 0, cx_rng = 0\<rparr>"

definition quiet_faults :: "mem faults" where
  "quiet_faults = \<lparr>fl_head = (\<lambda>_. False), fl_inside = (\<lambda>_ _. False), fl_dropped = (\<lambda>i. if i = 0 then Some (id, 45) else None),
     fl_decide = (\<lambda>_. False), fl_heal = (\<lambda>_. id), fl_reconnect = (\<lambda>_. id)\<rparr>"

definition small_file :: local_file where
  "small_file = \<lparr>lf_metadata = Inr 3, lf_read = Inr [1, 2, 3], lf_open = Inr (3, [Inr [1], Inr [2, 3]])\<rparr>"

theorem uploaded_file_downloads_witness:
  "\<exists>key s' t' res. upload_key ref_lib (Some ref_keys) [] ''f'' = Inr key \<and>
     upload_one transfer_env (Some ref_keys) Settings_default None 0 quiet_faults small_file [] ''f'' transfer_ctx = (s', Inr ()) \<and>
     download_task ref_lib (s3_backend mem_client 1 ''b'') (Some ref_keys) Settings_default sample_faults key ''f'' 3 []
       \<lparr>dl_world = cx_world s', dl_disk = Map.empty\<rparr> = (t', res) \<and>
     dl_disk t' [''f''] = (if is_ok res then Some [1, 2, 3] else None)"
proof -
  obtain h where h: "on_disk_segment ref_lib ref_keys ''f'' = Inr h" using ref_segment [of "''f''"] by auto
  then have k: "upload_key (ev_lib transfer_env) (Some ref_keys) [] ''f'' = Inr h"
    by (simp add: upload_key_def transfer_env_def on_disk_path_def)
  have o: "object_key h"
    using on_disk_segment_shape(2) [OF _ h] on_disk_segment_no_slash [OF h] ref_lib_laws
    by (auto simp: object_key_def ends_with_def dest: last_in_set)
  obtain blob where b: "encrypt_bytes ref_lib ref_keys ref_prefix [1, 2, 3] = Inr blob"
    using encrypt_bytes_total [OF ref_aead_correct ref_aead_total ref_keys_wf length_ref_prefix, of "[1, 2, 3]"] by auto
  have S: "unat (retries Settings_default) = 500000" "stall_timeout_secs Settings_default \<noteq> 0" by (simp_all add: Settings_default_def)
  have a: "\<exists>w. upload_attempt transfer_env (Some ref_keys) Settings_default None small_file 3 h c s = (w, Inr ())" for c s
    using b by (simp add: upload_attempt_def Let_def transfer_env_def sbind_apply onw_apply s3_backend_def sret_def upload_small_def
        slift_def s3_put_throttled_def sctx_apply mem_client_def small_file_def Settings_default_def)
  have f3: "lf_metadata small_file = Inr 3" by (simp add: small_file_def)
  obtain s' where u: "upload_one transfer_env (Some ref_keys) Settings_default None 0 quiet_faults small_file [] ''f'' transfer_ctx = (s', Inr ())"
    using a [of "\<lambda>_. False" transfer_ctx] k S f3
    by (auto simp: upload_one_def Let_def upload_loop_def quiet_faults_def guarded_def recover_def
        retry_loop.simps [of _ _ _ 0] retry_loop.simps [of _ _ _ "Suc 0"] on_world_def)
  let ?t = "\<lparr>dl_world = cx_world s', dl_disk = Map.empty\<rparr>"
  obtain t' res where d: "download_task (ev_lib transfer_env) (ev_backend transfer_env) (Some ref_keys) Settings_default sample_faults h ''f''
      (of_nat (length [1 :: u8, 2, 3])) [] ?t = (t', res)" by fastforce
  have "dl_disk t' ([] @ sanitize_rel ''f'') = (if is_ok res then Some [1, 2, 3] else dl_disk ?t ([] @ sanitize_rel ''f''))"
    by (rule uploaded_file_downloads [OF mem_transfer_law _ _ _ _ _ _ _ k o u _ _ _ _ d, THEN conjunct2, THEN conjunct1])
      (auto simp: transfer_env_def ref_lib_laws file_holds_def small_file_def sample_faults_def sample_out part_ok_def)
  with k u d show ?thesis by (auto simp: transfer_env_def sample_out)
qed

end
