(* ===== verification/Transfers_Fs.thy ===== *)
theory Transfers_Fs
  imports Transfers Sftp_Correct Smb_Correct
begin

text \<open>
  The contract of the transfers (\<open>transfer_store\<close>) for SMB and SFTP: a body written in pieces, or part by
  part into the file a multipart upload has opened, is the object, and the streams of
  \<^verbatim>\<open>src/src/storage/smb.rs\<close> and \<^verbatim>\<open>src/src/storage/sftp.rs\<close> deliver bytes of the file from the
  offset on. So what was uploaded over either of them can be downloaded.
\<close>

section \<open>Common parts\<close>

text \<open>The parts of an upload, one after the other.\<close>

lemma upload_all_parts:
  "upload_all B P tags n parts w = (w', Inr tags') \<Longrightarrow>
     \<exists>nps. map snd nps = parts \<and> send_parts (\<lambda>n d. be_upload_part B (mpp_mp P) n d (mpp_limiter P)) nps w = (w', Inr ())"
proof (induction parts arbitrary: tags n w)
  case (Cons p ps)
  obtain w1 x where u: "be_upload_part B (mpp_mp P) n p (mpp_limiter P) w = (w1, x)" by fastforce
  with Cons.prems obtain tag rep where x: "x = Inr (tag, rep)" by (cases x) auto
  with Cons.prems u have "upload_all B P (tags @ [(n, tag)]) (n + 1) ps w1 = (w', Inr tags')" by simp
  from Cons.IH [OF this] obtain nps where
    "map snd nps = ps" "send_parts (\<lambda>n d. be_upload_part B (mpp_mp P) n d (mpp_limiter P)) nps w1 = (w', Inr ())" by blast
  with u x show ?case
    by (intro exI [of _ "(n, p) # nps"]) (simp add: send_parts_def sbind_apply sret_def)
qed (simp add: send_parts_def sret_def)

lemma stream_read_content:
  "read_exact n r = Inr (r', b) \<Longrightarrow> b = take n (fst (rd_content r)) \<and> length b = n"
proof (induction n arbitrary: r b rule: less_induct)
  case (less n)
  show ?case
  proof (cases "n = 0")
    case True
    then show ?thesis using less.prems by (simp add: read_exact.simps)
  next
    case False
    obtain r1 x where rd: "rd_read n r = (r1, x)" by fastforce
    obtain d e where d: "rd_content r = (d, e)" by fastforce
    from False less.prems rd obtain c where x: "x = Inr c" "c \<noteq> []"
      by (cases x) (auto simp: read_exact.simps [of n r] split: if_splits)
    with False less.prems rd obtain bs where rest: "read_exact (n - length c) r1 = Inr (r', bs)" and b: "b = c @ bs"
      by (auto simp: read_exact.simps [of n r] split: sum.splits)
    have "0 < n" using False by simp
    from rd_read_content [OF rd this d] x have c: "length c \<le> n" "rd_content r1 = (drop (length c) d, e)" "take (length c) d = c" "length c \<le> length d"
      by auto
    have "n - length c < n" using False x(2) by (cases c) auto
    from less.IH [OF this rest] c have bs: "bs = take (n - length c) (drop (length c) d)" "length bs = n - length c" by auto
    have "take n d = c @ take (n - length c) (drop (length c) d)"
      using c by (metis le_add_diff_inverse take_add)
    with bs b c(1) d show ?thesis by simp
  qed
qed

lemma default_header:
  assumes "\<And>w w' x. ok w \<Longrightarrow> be_get_range B k 0 w = (w', x) \<Longrightarrow> ok w' \<and> (\<forall>len r. x = Inr (len, r) \<longrightarrow> stream_of blob 0 r)"
    and "ok w" "default_read_header B k n w = (w', y)"
  shows "ok w' \<and> (\<forall>h. y = Inr h \<longrightarrow> h = take n blob)"
proof -
  obtain w1 x where g: "be_get_range B k 0 w = (w1, x)" by fastforce
  note G = assms(1) [OF assms(2) g]
  have "w' = w1" using assms(3) g
    by (auto simp: default_read_header_def sr_simps split: sum.splits prod.splits)
  moreover have "h = take n blob" if y: "y = Inr h" for h
  proof -
    obtain len r r' where "x = Inr (len, r)" and e: "read_exact n r = Inr (r', h)"
      using assms(3) g y by (auto simp: default_read_header_def sr_simps split: sum.splits prod.splits)
    with G obtain rest where "blob = fst (rd_content r) @ rest" by (auto simp: stream_of_def)
    moreover have "h = take n (fst (rd_content r))" "n \<le> length (fst (rd_content r))"
      using stream_read_content [OF e] by (auto simp: min_def split: if_splits)
    ultimately show ?thesis by simp
  qed
  ultimately show ?thesis using G by blast
qed

text \<open>Content from an offset on that only ends early with an error.\<close>

definition honest_from :: "bytes \<Rightarrow> nat \<Rightarrow> reader \<Rightarrow> bool" where
  "honest_from c off q \<longleftrightarrow> (\<exists>rest. drop off c = fst (rd_content q) @ rest \<and> (snd (rd_content q) = None \<longrightarrow> rest = []))"

lemma honest_fromD:
  assumes "honest_from c off q"
  shows "stream_of c off q" "snd (rd_content q) = None \<Longrightarrow> full_stream c off q"
  using assms by (auto simp: honest_from_def stream_of_def full_stream_def prod_eq_iff)

lemma serves_by_streams:
  assumes s: "\<And>w w' x. obs w = Some blob \<Longrightarrow> be_get_stream B k w = (w', x) \<Longrightarrow>
      obs w' = Some blob \<and> (\<forall>len q. x = Inr (len, q) \<longrightarrow> honest_from blob 0 q)"
    and r: "\<And>w w' off x. obs w = Some blob \<Longrightarrow> be_get_range B k off w = (w', x) \<Longrightarrow>
      obs w' = Some blob \<and> (\<forall>len q. x = Inr (len, q) \<longrightarrow> honest_from blob (unat off) q)"
    and h: "be_read_header B = default_read_header B'" "be_get_range B' = be_get_range B"
  shows "serves (\<lambda>w. obs w = Some blob) B k blob" "ends_honestly (\<lambda>w. obs w = Some blob) B k blob"
proof -
  have R: "obs w' = Some blob \<and> (\<forall>b. x = Inr b \<longrightarrow> b = take HEADER_LEN blob)"
    if "obs w = Some blob" "be_read_header B k HEADER_LEN w = (w', x)" for w w' x
  proof (rule default_header [of "\<lambda>w. obs w = Some blob"])
    fix v v' z
    assume "obs v = Some blob" "be_get_range B' k 0 v = (v', z)"
    with r [of v 0 v' z] show "obs v' = Some blob \<and> (\<forall>len q. z = Inr (len, q) \<longrightarrow> stream_of blob 0 q)"
      using honest_fromD(1) by (simp add: h(2))
  qed (use that h(1) in simp_all)
  have s1: "obs w' = Some blob \<and> (\<forall>len q. x = Inr (len, q) \<longrightarrow> stream_of blob 0 q \<and> (snd (rd_content q) = None \<longrightarrow> full_stream blob 0 q))"
    if "obs w = Some blob" "be_get_stream B k w = (w', x)" for w w' x
    using s [OF that] honest_fromD by blast
  have r1: "obs w' = Some blob \<and> (\<forall>len q. x = Inr (len, q) \<longrightarrow>
      stream_of blob (unat off) q \<and> (snd (rd_content q) = None \<longrightarrow> full_stream blob (unat off) q))"
    if "obs w = Some blob" "be_get_range B k off w = (w', x)" for w w' off x
    using r [OF that] honest_fromD by blast
  show "serves (\<lambda>w. obs w = Some blob) B k blob"
    unfolding serves_def using s1 r1 R by blast
  show "ends_honestly (\<lambda>w. obs w = Some blob) B k blob"
    unfolding ends_honestly_def using s1 r1 by blast
qed

lemma honest_from_Cons:
  assumes "honest_from c (off + length b) q" "b @ drop (off + length b) c = drop off c"
  shows "honest_from c off (Inr b # q)"
proof -
  obtain d e where q: "rd_content q = (d, e)" by fastforce
  with assms(1) obtain rest where "drop (off + length b) c = d @ rest" "e = None \<longrightarrow> rest = []" by (auto simp: honest_from_def)
  with assms(2) q show ?thesis unfolding honest_from_def by (intro exI [of _ rest]) simp
qed

section \<open>SMB\<close>

lemma smb_quiet_lawD:
  assumes "smb_quiet_law C obs"
  shows "sb_read_at C h off n r = (r', x) \<Longrightarrow> obs r' = obs r" "sb_close_reader C h r = (r', y) \<Longrightarrow> obs r' = obs r"
  using assms unfolding smb_quiet_law_def by (metis fst_conv)+

lemma smb_stream_loop_honest:
  assumes law: "smb_read_law C obs view" "smb_quiet_law C obs" "length c < 2 ^ 64"
  shows "view r h = Some c \<Longrightarrow> smb_stream_loop C h (length c) off r = (r', q) \<Longrightarrow> obs r' = obs r \<and> honest_from c off q"
proof (induction "length c - off" arbitrary: off r r' q rule: less_induct)
  case less
  show ?case
  proof (cases "off < length c")
    case True
    obtain r1 x where a: "sb_read_at C h (of_nat off) (of_nat (min STREAM_CHUNK (length c - off))) r = (r1, x)" by fastforce
    have o: "obs r1 = obs r" by (rule smb_quiet_lawD(1) [OF law(2) a])
    show ?thesis
    proof (cases x)
      case (Inl e)
      with less.prems(2) True a o show ?thesis
        by (auto simp: smb_stream_loop.simps [of C h "length c" off] honest_from_def)
    next
      case (Inr b)
      note S = smb_read_step [OF law(1) less.prems(1) law(3) True a [unfolded Inr]]
      obtain r2 q2 where l: "smb_stream_loop C h (length c) (off + length b) r1 = (r2, q2)" by fastforce
      with less.prems(2) True a Inr S(2) have q: "q = Inr b # q2" "r' = r2"
        by (simp_all add: smb_stream_loop.simps [of C h "length c" off])
      have "length c - (off + length b) < length c - off" using True S(2) by (cases b) auto
      from less.hyps [OF this S(1) l] show ?thesis using o q honest_from_Cons [OF _ S(3)] by simp
    qed
  next
    case False
    with less.prems(2) show ?thesis by (simp add: smb_stream_loop.simps honest_from_def)
  qed
qed

lemma smb_open_stream_honest:
  assumes "smb_read_law C obs view" "smb_quiet_law C obs" "smb_open_stream C base key start r = (r', x)"
  shows "obs r' = obs r \<and> (\<forall>len q. x = Inr (len, q) \<longrightarrow> (\<exists>c. obs r (smb_full base key) = Some c \<and> length c = unat len \<and> honest_from c (unat (start len)) q))"
proof -
  obtain r1 y where o: "sb_open_reader C (smb_full base key) r = (r1, y)" by fastforce
  note O = smb_read_lawD(1) [OF assms(1) o]
  show ?thesis
  proof (cases y)
    case (Inl e)
    with assms(3) o O show ?thesis by (auto simp: smb_open_stream_def)
  next
    case (Inr z)
    obtain h n where z: "z = (h, n)" by fastforce
    with O Inr obtain c where c: "obs r (smb_full base key) = Some c" "view r1 h = Some c" "length c = unat n" by blast
    obtain r2 q where l: "smb_stream_loop C h (length c) (unat (start n)) r1 = (r2, q)" by fastforce
    have "length c < 2 ^ 64" using c(3) unat_bound [of n] by simp
    from smb_stream_loop_honest [OF assms(1,2) this c(2) l] have "obs r2 = obs r1" "honest_from c (unat (start n)) q" by simp_all
    moreover have "r' = fst (sb_close_reader C h r2)" "x = Inr (n, q)"
      using assms(3) o Inr z l c(3) by (simp_all add: smb_open_stream_def)
    moreover have "obs (fst (sb_close_reader C h r2)) = obs r2" using assms(2) by (simp add: smb_quiet_law_def)
    ultimately show ?thesis using O c by auto
  qed
qed

lemma smb_serves:
  assumes "smb_file_law C obs hst view"
  shows "serves (\<lambda>w. smb_objects obs base w k = Some blob) (smb_backend C fuel base) k blob"
    and "ends_honestly (\<lambda>w. smb_objects obs base w k = Some blob) (smb_backend C fuel base) k blob"
proof -
  have L: "smb_read_law C obs view" "smb_quiet_law C obs" using assms by (simp_all add: smb_file_law_def)
  have s: "smb_objects obs base w' k = Some blob \<and> (\<forall>len q. x = Inr (len, q) \<longrightarrow> honest_from blob 0 q)"
    if "smb_objects obs base w k = Some blob" "be_get_stream (smb_backend C fuel base) k w = (w', x)" for w w' x
  proof -
    from that(2) have "smb_open_stream C base k (\<lambda>len. 0) (fw_remote w) = (fw_remote w', x)"
      by (simp add: smb_backend_def smb_methods_def Let_def smb_get_stream_def onr_eq)
    from smb_open_stream_honest [OF L this] that(1) show ?thesis by (auto simp: smb_objects_def)
  qed
  have r: "smb_objects obs base w' k = Some blob \<and> (\<forall>len q. x = Inr (len, q) \<longrightarrow> honest_from blob (unat off) q)"
    if "smb_objects obs base w k = Some blob" "be_get_range (smb_backend C fuel base) k off w = (w', x)" for w w' off x
  proof -
    from that(2) have "smb_open_stream C base k (\<lambda>len. min off len) (fw_remote w) = (fw_remote w', x)"
      by (simp add: smb_backend_def smb_methods_def Let_def smb_get_range_def onr_eq)
    from smb_open_stream_honest [OF L this] that(1)
    have "obs (fw_remote w') = obs (fw_remote w)" "\<And>len q. x = Inr (len, q) \<Longrightarrow> length blob = unat len \<and> honest_from blob (unat (min off len)) q"
      by (auto simp: smb_objects_def)
    moreover have "honest_from blob (unat off) q" if "length blob = unat len" "honest_from blob (unat (min off len)) q" for len :: u64 and q
      using that by (cases "off \<le> len") (auto simp: honest_from_def min_def word_le_nat_alt)
    ultimately show ?thesis using that(1) by (auto simp: smb_objects_def)
  qed
  have h: "be_read_header (smb_backend C fuel base) = default_read_header (smb_methods C fuel base)"
    "be_get_range (smb_methods C fuel base) = be_get_range (smb_backend C fuel base)"
    by (simp_all add: smb_backend_def Let_def)
  show "serves (\<lambda>w. smb_objects obs base w k = Some blob) (smb_backend C fuel base) k blob"
    by (rule serves_by_streams(1) [OF _ _ h]) (use s r in blast)+
  show "ends_honestly (\<lambda>w. smb_objects obs base w k = Some blob) (smb_backend C fuel base) k blob"
    by (rule serves_by_streams(2) [OF _ _ h]) (use s r in blast)+
qed

interpretation smb_transfers: transfer_store "smb_backend C fuel base" "smb_objects obs base" "smb_file_law C obs hst view"
  for C :: "'r smb_client" and fuel base obs hst view
proof
  fix k d limiter w w'
  assume l: "smb_file_law C obs hst view" and p: "be_put_throttled (smb_backend C fuel base) k d limiter w = (w', Inr ())"
  from p have "smb_put C base k d w = (w', Inr ())"
    by (simp add: smb_backend_def smb_methods_def Let_def smb_put_throttled_def smb_put_def)
  from smb_put_result [OF _ this, of obs hst] l show "smb_objects obs base w' k = Some d" by (simp add: smb_file_law_def smb_objects_def)
next
  fix k w w1 mp P parts w2 tags w3
  assume l: "smb_file_law C obs hst view" and c: "be_create_multipart (smb_backend C fuel base) k w = (w1, Inr mp)"
    and P: "mpp_mp P = mp" and u: "upload_all (smb_backend C fuel base) P [] 1 parts w1 = (w2, Inr tags)"
    and f: "be_complete_multipart (smb_backend C fuel base) mp tags w2 = (w3, Inr ())"
  from upload_all_parts [OF u] obtain nps where n: "map snd nps = parts"
    "send_parts (\<lambda>n d. smb_upload_part C mp n d (mpp_limiter P)) nps w1 = (w2, Inr ())"
    by (auto simp: P smb_backend_def smb_methods_def Let_def)
  have "smb_write_law C obs hst" "smb_create_multipart C base k w = (w1, Inr mp)" "smb_complete_multipart C mp tags w2 = (w3, Inr ())"
    using l c f by (simp_all add: smb_file_law_def smb_backend_def smb_methods_def Let_def)
  from smb_multipart_stores [OF this(1,2) n(2) this(3)] n(1) show "smb_objects obs base w3 k = Some (concat parts)"
    by (simp add: smb_objects_def)
next
  fix k blob
  assume "smb_file_law C obs hst view"
  then show "serves (\<lambda>w. smb_objects obs base w k = Some blob) (smb_backend C fuel base) k blob"
    "ends_honestly (\<lambda>w. smb_objects obs base w k = Some blob) (smb_backend C fuel base) k blob"
    by (rule smb_serves)+
qed

section \<open>SFTP\<close>

text \<open>\<open>rst\<close> is the content and the position of an open handle.\<close>

definition sftp_stream_law ::
  "'r sftp_client \<Rightarrow> ('r \<Rightarrow> string \<Rightarrow> bytes option) \<Rightarrow> ('r \<Rightarrow> nat \<Rightarrow> (bytes \<times> nat) option) \<Rightarrow> bool" where
  "sftp_stream_law C obs rst \<longleftrightarrow>
     (\<forall>p r r' h. sf_open_read C p r = (r', Inr h) \<longrightarrow> (\<exists>c. obs r p = Some c \<and> rst r' h = Some (c, 0))) \<and>
     (\<forall>h k r r' x. sf_seek C h k r = (r', x) \<longrightarrow> obs r' = obs r \<and>
        (\<forall>c n. x = Inr () \<longrightarrow> rst r h = Some (c, n) \<longrightarrow> rst r' h = Some (c, unat k))) \<and>
     (\<forall>h r. obs (fst (sf_fstat C h r)) = obs r \<and> rst (fst (sf_fstat C h r)) = rst r) \<and>
     (\<forall>h r c n. rst r h = Some (c, n) \<longrightarrow> honest_from c n (sf_reader C h r))"

lemma sftp_open_stream_result:
  assumes "sftp_file_law C obs hst" "sftp_stream_law C obs rst" "open_stream C p key r = (r', x)"
  shows "obs r' = obs r \<and> (\<forall>len h. x = Inr (len, h) \<longrightarrow> (\<exists>c. obs r p = Some c \<and> rst r' h = Some (c, 0)))"
proof -
  obtain r1 y where o: "sf_open_read C p r = (r1, y)" by fastforce
  have "obs r1 = obs r" using assms(1) o by (auto simp: sftp_file_law_def sftp_read_law_def)
  moreover have "obs (fst (sf_fstat C h r1)) = obs r1" "rst (fst (sf_fstat C h r1)) = rst r1" for h
    using assms(2) by (simp_all add: sftp_stream_law_def)
  moreover have "\<exists>c. obs r p = Some c \<and> rst r1 h = Some (c, 0)" if "y = Inr h" for h
    using assms(2) o that unfolding sftp_stream_law_def by blast
  ultimately show ?thesis using assms(3) o
    by (auto simp: open_stream_def sbind_apply tried_apply sret_def hctx_def split: sum.splits sftp_error.splits if_splits)
qed

lemma sftp_serves:
  assumes "sftp_file_law C obs hst" "sftp_stream_law C obs rst"
  shows "serves (\<lambda>w. sftp_objects obs base w k = Some blob) (sftp_backend C fuel base vault) k blob"
    and "ends_honestly (\<lambda>w. sftp_objects obs base w k = Some blob) (sftp_backend C fuel base vault) k blob"
proof -
  have rd: "rst r h = Some (c, n) \<Longrightarrow> honest_from c n (sf_reader C h r)" for r h c n
    using assms(2) by (simp add: sftp_stream_law_def)
  have s: "sftp_objects obs base w' k = Some blob \<and> (\<forall>len q. x = Inr (len, q) \<longrightarrow> honest_from blob 0 q)"
    if ok: "sftp_objects obs base w k = Some blob" and g: "be_get_stream (sftp_backend C fuel base vault) k w = (w', x)" for w w' x
  proof -
    obtain r y where o: "open_stream C (sftp_full base k) k (fw_remote w) = (r, y)" by fastforce
    note O = sftp_open_stream_result [OF assms o]
    from g o have "fw_remote w' = r" "\<And>len q. x = Inr (len, q) \<Longrightarrow> \<exists>h. y = Inr (len, h) \<and> q = sf_reader C h r"
      by (auto simp: sftp_backend_def sftp_methods_def Let_def sftp_get_stream_def with_timeout_def timeout_as_def sbind_apply onr_apply
          split: sum.splits prod.splits if_splits)
    with O ok rd show ?thesis by (fastforce simp: sftp_objects_def)
  qed
  have r: "sftp_objects obs base w' k = Some blob \<and> (\<forall>len q. x = Inr (len, q) \<longrightarrow> honest_from blob (unat off) q)"
    if ok: "sftp_objects obs base w k = Some blob" and g: "be_get_range (sftp_backend C fuel base vault) k off w = (w', x)" for w w' off x
  proof -
    obtain r y where o: "open_stream C (sftp_full base k) k (fw_remote w) = (r, y)" by fastforce
    note O = sftp_open_stream_result [OF assms o]
    show ?thesis
    proof (cases y)
      case (Inl e)
      with g o O ok show ?thesis
        by (auto simp: sftp_backend_def sftp_methods_def Let_def sftp_get_range_def with_timeout_def timeout_as_def sbind_apply onr_apply
            sftp_objects_def split: sum.splits prod.splits if_splits)
    next
      case (Inr z)
      obtain len h where z: "z = (len, h)" by fastforce
      from O Inr z ok have h: "rst r h = Some (blob, 0)" "obs r = obs (fw_remote w)" by (auto simp: sftp_objects_def)
      obtain r2 u where sk: "sf_seek C h off r = (r2, u)" by fastforce
      have S: "obs r2 = obs r" "u = Inr () \<Longrightarrow> rst r2 h = Some (blob, unat off)"
        using assms(2) sk h(1) unfolding sftp_stream_law_def by blast+
      have "fw_remote w' = (if 0 < off then r2 else r)"
        "\<And>l q. x = Inr (l, q) \<Longrightarrow> q = sf_reader C h (fw_remote w') \<and> (0 < off \<longrightarrow> u = Inr ())"
        using g o Inr z sk
        by (auto simp: sftp_backend_def sftp_methods_def Let_def sftp_get_range_def with_timeout_def timeout_as_def sbind_apply onr_apply
            fctx_apply hctx_def sret_def split: sum.splits prod.splits if_splits)
      moreover have "off = 0" if "\<not> 0 < off" using that by (simp add: word_neq_0_conv [symmetric])
      ultimately show ?thesis using ok h S rd by (cases "0 < off") (fastforce simp: sftp_objects_def)+
    qed
  qed
  have h: "be_read_header (sftp_backend C fuel base vault) = default_read_header (sftp_methods C fuel base vault)"
    "be_get_range (sftp_methods C fuel base vault) = be_get_range (sftp_backend C fuel base vault)"
    by (simp_all add: sftp_backend_def Let_def)
  show "serves (\<lambda>w. sftp_objects obs base w k = Some blob) (sftp_backend C fuel base vault) k blob"
    by (rule serves_by_streams(1) [OF _ _ h]) (use s r in blast)+
  show "ends_honestly (\<lambda>w. sftp_objects obs base w k = Some blob) (sftp_backend C fuel base vault) k blob"
    by (rule serves_by_streams(2) [OF _ _ h]) (use s r in blast)+
qed

lemma sftp_put_throttled_stores:
  assumes "sftp_file_law C obs hst" "sftp_put_throttled C base key d limiter w = (w', Inr ())"
  shows "obs (fw_remote w') (sftp_full base key) = Some d"
proof -
  from assms(2) obtain h r0 r2 where o: "sf_open_write C (sftp_full base key) (fw_remote w) = (r0, Inr h)"
    and wr: "write_chunks SFTP_WRITE_CHUNK (sf_write_all C h) d r0 = (r2, Inr ())" and s: "sf_shutdown C h r2 = (fw_remote w', Inr ())"
    by (cases "sf_open_write C (sftp_full base key) (fw_remote w)")
      (auto simp: sftp_put_throttled_def onr_eq sbind_apply fctx_apply split: prod.splits sum.splits)
  from sftp_files.write_chunks_hold [OF sftp_files.opened [OF assms(1) o] wr] have "obs r2 (sftp_full base key) = Some d"
    using sftp_holdsD by (fastforce simp: SFTP_WRITE_CHUNK_def)
  with sftp_closed_obs(2) [OF assms(1) s] show ?thesis by simp
qed

interpretation sftp_transfers: transfer_store "sftp_backend C fuel base vault" "sftp_objects obs base"
    "sftp_file_law C obs hst \<and> sftp_stream_law C obs rst"
  for C :: "'r sftp_client" and fuel base vault obs hst rst
proof
  fix k d limiter w w'
  assume l: "sftp_file_law C obs hst \<and> sftp_stream_law C obs rst"
    and p: "be_put_throttled (sftp_backend C fuel base vault) k d limiter w = (w', Inr ())"
  from p have "sftp_put_throttled C base k d limiter w = (w', Inr ())"
    by (simp add: sftp_backend_def sftp_methods_def Let_def)
  from sftp_put_throttled_stores [OF _ this, of obs hst] l show "sftp_objects obs base w' k = Some d" by (simp add: sftp_objects_def)
next
  fix k w w1 mp P parts w2 tags w3
  assume l: "sftp_file_law C obs hst \<and> sftp_stream_law C obs rst"
    and c: "be_create_multipart (sftp_backend C fuel base vault) k w = (w1, Inr mp)"
    and P: "mpp_mp P = mp" and u: "upload_all (sftp_backend C fuel base vault) P [] 1 parts w1 = (w2, Inr tags)"
    and f: "be_complete_multipart (sftp_backend C fuel base vault) mp tags w2 = (w3, Inr ())"
  from upload_all_parts [OF u] obtain nps where n: "map snd nps = parts"
    "send_parts (\<lambda>n d. sftp_upload_part C mp n d (mpp_limiter P)) nps w1 = (w2, Inr ())"
    by (auto simp: P sftp_backend_def sftp_methods_def Let_def)
  have "sftp_file_law C obs hst" "sftp_create_multipart C base k w = (w1, Inr mp)" "sftp_complete_multipart C mp tags w2 = (w3, Inr ())"
    using l c f by (simp_all add: sftp_backend_def sftp_methods_def Let_def)
  from sftp_multipart_stores [OF this(1,2) n(2) this(3)] n(1) show "sftp_objects obs base w3 k = Some (concat parts)"
    by (simp add: sftp_objects_def)
next
  fix k blob
  assume l: "sftp_file_law C obs hst \<and> sftp_stream_law C obs rst"
  show "serves (\<lambda>w. sftp_objects obs base w k = Some blob) (sftp_backend C fuel base vault) k blob"
    "ends_honestly (\<lambda>w. sftp_objects obs base w k = Some blob) (sftp_backend C fuel base vault) k blob"
    using sftp_serves l by blast+
qed

section \<open>Round trips\<close>

text \<open>
  The round trip of a file over SMB: after an upload that reported success, in one request or in parts and over
  any number of failed attempts, a download of the same key leaves the file's bytes at the target, or an error
  and the target as it was, provided the part file of the target is at the start absent or a prefix of the file
  and the remote file is not written meanwhile.
\<close>

theorem uploaded_file_downloads_smb:
  assumes "smb_file_law C obs hst view" "ev_backend E = smb_backend C fuel base"
    and "aead_correct (ev_lib E)" "aead_total (ev_lib E)" "\<And>i. length (ev_rnd E i) = PREFIX_LEN"
    and "length data \<le> 2 ^ 51" "case keys of None \<Rightarrow> True | Some k \<Rightarrow> keys_wf k" "file_holds f data"
    and "upload_key (ev_lib E) keys dest rel = Inr key" "object_key key"
    and "upload_one E keys st limiter delay F f dest rel s = (s', Inr ())"
    and "smb_objects obs base (dl_world t) key = smb_objects obs base (cx_world s') key"
    and "\<And>i w. smb_objects obs base (df_heal G i w) key = smb_objects obs base w key \<and>
      smb_objects obs base (df_reconnect G i w) key = smb_objects obs base w key"
    and "target @ sanitize_rel name \<noteq> []" "part_ok data (dl_disk t (part_path (target @ sanitize_rel name)))"
    and "download_task (ev_lib E) (ev_backend E) keys st' G key name (of_nat (length data)) target t = (t', res)"
  shows "(\<forall>p. p \<noteq> target @ sanitize_rel name \<longrightarrow> p \<noteq> part_path (target @ sanitize_rel name) \<longrightarrow> dl_disk t' p = dl_disk t p) \<and>
    dl_disk t' (target @ sanitize_rel name) = (if is_ok res then Some data else dl_disk t (target @ sanitize_rel name)) \<and>
    (is_ok res \<or> df_remove G \<longrightarrow> dl_disk t' (part_path (target @ sanitize_rel name)) = None)"
  using smb_transfers.uploaded_downloads [OF assms(1,10,3-8,2,9,11-15) assms(16) [unfolded assms(2)]] by (simp add: task_post_def)

text \<open>
  C13. The round trip of a file over SFTP: when an upload, in one request or in parts, with or without encryption and
  over any number of attempts that failed or led to a reconnection, reports success, then a later download of its
  key, resumed as often as it takes, ends either with exactly the file's bytes at the target or with an error and
  the target as it was; no other local file changes, and no part file is left unless its removal fails after an
  error. As with S3, the part file of the target must at the start be absent or hold a prefix of the file, which
  has at most \<open>2 ^ 51\<close> bytes, and nobody else writes the remote file or the local one meanwhile.
\<close>

theorem uploaded_file_downloads_sftp:
  assumes "sftp_file_law C obs hst" "sftp_stream_law C obs rst" "ev_backend E = sftp_backend C fuel base vault"
    and "aead_correct (ev_lib E)" "aead_total (ev_lib E)" "\<And>i. length (ev_rnd E i) = PREFIX_LEN"
    and "length data \<le> 2 ^ 51" "case keys of None \<Rightarrow> True | Some k \<Rightarrow> keys_wf k" "file_holds f data"
    and "upload_key (ev_lib E) keys dest rel = Inr key" "object_key key"
    and "upload_one E keys st limiter delay F f dest rel s = (s', Inr ())"
    and "sftp_objects obs base (dl_world t) key = sftp_objects obs base (cx_world s') key"
    and "\<And>i w. sftp_objects obs base (df_heal G i w) key = sftp_objects obs base w key \<and>
      sftp_objects obs base (df_reconnect G i w) key = sftp_objects obs base w key"
    and "target @ sanitize_rel name \<noteq> []" "part_ok data (dl_disk t (part_path (target @ sanitize_rel name)))"
    and "download_task (ev_lib E) (ev_backend E) keys st' G key name (of_nat (length data)) target t = (t', res)"
  shows "(\<forall>p. p \<noteq> target @ sanitize_rel name \<longrightarrow> p \<noteq> part_path (target @ sanitize_rel name) \<longrightarrow> dl_disk t' p = dl_disk t p) \<and>
    dl_disk t' (target @ sanitize_rel name) = (if is_ok res then Some data else dl_disk t (target @ sanitize_rel name)) \<and>
    (is_ok res \<or> df_remove G \<longrightarrow> dl_disk t' (part_path (target @ sanitize_rel name)) = None)"
  using sftp_transfers.uploaded_downloads [OF conjI [OF assms(1,2)] assms(11,4-9,3,10,12-16) assms(17) [unfolded assms(3)]] by (simp add: task_post_def)

definition mem_rst :: "mem_fs \<Rightarrow> nat \<Rightarrow> (bytes \<times> nat) option" where
  "mem_rst m h = (case mf_hst m h of None \<Rightarrow> None | Some (p, n) \<Rightarrow> map_option (\<lambda>d. (d, n)) (mf_obs m p))"

lemma mem_sftp_stream_law: "sftp_stream_law mem_sftp mf_obs mem_rst"
  by (auto simp: sftp_stream_law_def mem_sftp_def mem_rst_def mf_hst_def mf_obs_def sret_def honest_from_def split: option.splits)

definition sftp_env :: "mem_fs fs_world env" where
  "sftp_env = \<lparr>ev_lib = ref_lib, ev_json = ref_json, ev_backend = sftp_backend mem_sftp 5 ''/r'' ''/h/v'', ev_rnd = \<lambda>_. ref_prefix\<rparr>"

definition sftp_ctx :: "mem_fs fs_world ctx" where
  "sftp_ctx = \<lparr>cx_store = ManifestStore_new 10000, cx_world = ref_fs, cx_now = 0, cx_rng = 0\<rparr>"

definition calm :: "'w faults" where
  "calm = \<lparr>fl_head = (\<lambda>_. False), fl_inside = (\<lambda>_ _. False), fl_dropped = Map.empty, fl_decide = (\<lambda>_. False), fl_heal = (\<lambda>_. id), fl_reconnect = (\<lambda>_. id)\<rparr>"

definition dl_calm :: "'w dl_faults" where
  "dl_calm = \<lparr>df_io = (\<lambda>_. disk_ok), df_inside = (\<lambda>_ _. False), df_dropped = Map.empty, df_decide = (\<lambda>_. False),
     df_heal = (\<lambda>_. id), df_reconnect = (\<lambda>_. id), df_remove = True\<rparr>"

lemma mem_sftp_put: "\<exists>w'. sftp_put_throttled mem_sftp base key d limiter w = (w', Inr ())"
proof -
  obtain m1 h where o: "mf_open_write (sftp_full base key) (fw_remote w) = (m1, Inr h)" by (simp add: mf_open_write_def Let_def)
  then have "mf_hst m1 h \<noteq> None" using mf_open_law [OF o] by simp
  from mf_writes [OF this] have "snd (write_chunks SFTP_WRITE_CHUNK (mf_write h) d m1) = Inr ()" by (simp add: write_chunks_def)
  with o show ?thesis
    by (cases "write_chunks SFTP_WRITE_CHUNK (mf_write h) d m1")
      (simp add: sftp_put_throttled_def with_timeout_def timeout_as_def onr_apply sbind_apply fctx_apply mem_sftp_def sret_def)
qed

lemma sftp_env_fields:
  "be_prepare_parents (ev_backend sftp_env) = sftp_prepare_parents mem_sftp ''/r''"
  "be_put_throttled (ev_backend sftp_env) = sftp_put_throttled mem_sftp ''/r''"
  "ev_lib sftp_env = ref_lib" "ev_rnd sftp_env i = ref_prefix"
  by (simp_all add: sftp_env_def sftp_backend_def sftp_methods_def Let_def)

theorem uploaded_file_downloads_sftp_witness:
  "\<exists>key s' t' res. upload_key ref_lib (Some ref_keys) [] ''f'' = Inr key \<and>
     upload_one sftp_env (Some ref_keys) Settings_default None 0 calm small_file [] ''f'' sftp_ctx = (s', Inr ()) \<and>
     download_task ref_lib (ev_backend sftp_env) (Some ref_keys) Settings_default dl_calm key ''f'' 3 []
       \<lparr>dl_world = cx_world s', dl_disk = Map.empty\<rparr> = (t', res) \<and>
     dl_disk t' [''f''] = (if is_ok res then Some [1, 2, 3] else None)"
proof -
  obtain h where h: "on_disk_segment ref_lib ref_keys ''f'' = Inr h" using ref_segment [of "''f''"] by auto
  then have k: "upload_key (ev_lib sftp_env) (Some ref_keys) [] ''f'' = Inr h"
    by (simp add: upload_key_def sftp_env_def on_disk_path_def)
  have ns: "slash \<notin> set h" "h \<noteq> []"
    using on_disk_segment_shape(2) [OF _ h] on_disk_segment_no_slash [OF h] ref_lib_laws by auto
  then have o: "object_key h" by (auto simp: object_key_def ends_with_def dest: last_in_set)
  have "last h \<noteq> slash" using ns last_in_set by metis
  then have pd: "parent_dirs h = []" using ns by (simp add: parent_dirs_def trim_end_no_match split_on_no_sep)
  obtain blob where b: "encrypt_bytes ref_lib ref_keys ref_prefix [1, 2, 3] = Inr blob"
    using encrypt_bytes_total [OF ref_aead_correct ref_aead_total ref_keys_wf length_ref_prefix, of "[1, 2, 3]"] by auto
  have S: "unat (retries Settings_default) = 500000" "lf_metadata small_file = Inr 3" by (simp_all add: Settings_default_def small_file_def)
  have at: "\<exists>w. upload_attempt sftp_env (Some ref_keys) Settings_default None small_file 3 h c s = (w, Inr ())" for c s
  proof -
    obtain w where w: "sftp_put_throttled mem_sftp ''/r'' h blob None (cx_world s) = (w, Inr ())"
      using mem_sftp_put by blast
    have "sftp_prepare_parents mem_sftp ''/r'' h v = (v, Inr ())" for v
      by (simp add: sftp_prepare_parents_def pd make_parents_known with_timeout_def timeout_as_def)
    then show ?thesis
      using b w by (simp add: upload_attempt_def Let_def sbind_apply onw_apply upload_small_def sret_def slift_def S small_file_def
          sftp_env_fields Settings_default_def)
  qed
  obtain s' where u: "upload_one sftp_env (Some ref_keys) Settings_default None 0 calm small_file [] ''f'' sftp_ctx = (s', Inr ())"
    using at [of "\<lambda>_. False" sftp_ctx] k S
    by (auto simp: upload_one_def Let_def upload_loop_def calm_def guarded_def retry_loop.simps [of _ _ _ 0])
  let ?t = "\<lparr>dl_world = cx_world s', dl_disk = Map.empty\<rparr>"
  obtain t' res where d: "download_task (ev_lib sftp_env) (ev_backend sftp_env) (Some ref_keys) Settings_default dl_calm h ''f''
      (of_nat (length [1 :: u8, 2, 3])) [] ?t = (t', res)" by fastforce
  have "dl_disk t' ([] @ sanitize_rel ''f'') = (if is_ok res then Some [1, 2, 3] else dl_disk ?t ([] @ sanitize_rel ''f''))"
    by (rule uploaded_file_downloads_sftp [OF mem_sftp_file_law mem_sftp_stream_law _ _ _ _ _ _ _ k o u _ _ _ _ d,
          THEN conjunct2, THEN conjunct1])
      (auto simp: sftp_env_def ref_lib_laws file_holds_def small_file_def dl_calm_def sample_out part_ok_def)
  with k u d show ?thesis by (auto simp: sftp_env_def sample_out)
qed

end
