(* ===== verification/Lifecycle.thy ===== *)
theory Lifecycle
  imports Dispatch Smb_Correct
begin

text \<open>
  The life of a directory's content across sessions, over the interfaces of the parts it passes through: the
  dispatcher flushes it at the disconnection, the backend keeps it, and the next connection derives the
  keys from the vault and loads it. The lemmas are proved for every backend whose vault is an ordinary
  object and used for SMB, whose connection is the model of \<open>src/storage/smb.rs\<close>.
\<close>

section \<open>For every backend\<close>

lemma vault_not_manifest: "VAULT_KEY \<noteq> manifest_object_key dir"
proof
  assume "VAULT_KEY = manifest_object_key dir"
  then have "last VAULT_KEY = last (manifest_object_key dir)" by simp
  then show False by (simp add: manifest_object_key_def MANIFEST_KEY_def VAULT_KEY_def split: if_splits)
qed

context object_store
begin

lemmas saved_at_disconnect = disconnect_saves

lemma flush_keeps_vault:
  assumes "ev_backend E = B" "ok (cx_world s)" "store_ok J (cx_store s)" "flush E keys reason s = (s', Inr n)"
  shows "ok (cx_world s') \<and> abs (cx_world s') VAULT_KEY = abs (cx_world s) VAULT_KEY"
proof -
  let ?cs = "flush_candidates (ev_json E) (cx_now s) (cx_store s)"
  let ?ch = "FlushPlan_select reason (unat (interval (cx_store s))) ?cs"
  obtain rng ws where sn: "snapshot_loop E keys ?ch (cx_store s) (cx_rng s) ?cs = (rng, ws)" by fastforce
  have dist: "distinct (map fst ws)"
    using snapshot_loop_distinct [OF flush_candidates_distinct, of "cx_store s" E keys ?ch "cx_store s" "cx_rng s" "ev_json E" "cx_now s"]
      assms(3) sn by (simp add: store_ok_def)
  have "flush_writes E 0 ws (s\<lparr>cx_rng := rng\<rparr>) = (s', Inr n)"
    using assms(4) sn by (simp add: flush_def flush_snapshot_def Let_def)
  moreover have "VAULT_KEY \<notin> manifest_object_key ` fst ` set ws" using vault_not_manifest by blast
  ultimately show ?thesis using flush_writes_persist [OF assms(1) _ dist, of "s\<lparr>cx_rng := rng\<rparr>" 0 s' n] assms(2) object_key_vault
    by simp
qed

lemma load_stored:
  assumes "ev_backend E = B" "ok (cx_world c)" "ms_get (cx_store c) dir = None"
    and "abs (cx_world c) (manifest_object_key dir) = Some blob" "Manifest_decrypt (ev_lib E) (ev_json E) k blob = Inr m"
    and "load E k dir c = (c', Inr m')"
  shows "m' = m"
proof -
  obtain w r where g: "be_get B (manifest_object_key dir) (cx_world c) = (w, r)" by fastforce
  from get_law [OF assms(2) object_key_manifest g] have "\<And>x. r = Inr x \<Longrightarrow> x = Some blob" using assms(4) by simp
  then show ?thesis using assms(1,3,5,6) g
    by (auto simp: load_def sbind_apply onw_apply slift_def load_insert_def split: sum.splits prod.splits)
qed

end

context vault_store
begin

lemma content_returns:
  fixes st :: "'w app" and i :: nat
  defines "s \<equiv> ap_sessions st ! i"
  assumes lib: "aead_correct (pf_lib P)" "base64_correct (pf_lib P)" "vault_json_correct (pf_vault_json P)" "length prefix = PREFIX_LEN"
    and first: "ok w0" "session_keys P salt prefix B (Some pw) w0 = (w1, Inr k)"
    and session: "ap_timer st = Some i" "se_keys s = Some k" "se_backend s = B" "ok (ap_world st)"
      "abs (ap_world st) VAULT_KEY = abs w1 VAULT_KEY"
    and dirty: "env_ok (session_env P s) k" "store_ok (pf_json P) (se_store s)" "ms_get (se_store s) dir = Some d"
      "ds_dirty d" "storable (pf_json P) (ds_manifest d)" "fp_ok (pf_json P) (ds_manifest d) \<noteq> ds_written_fingerprint d"
    and fl: "flush (session_env P s) k Forced (session_ctx s st) = (c', Inr n)"
    and again: "ok w2" "abs w2 = abs (ap_world (run_task P H (TFinalFlush i) (handle_command P Disconnect st)))"
      "session_keys P salt' prefix' B (Some pw) w2 = (w3, Inr k')"
    and read: "ev_backend E = B" "ev_lib E = pf_lib P" "ev_json E = pf_json P" "cx_world c = w3" "ms_get (cx_store c) dir = None"
      "load E k' dir c = (c2, Inr m)"
  shows "TFinalFlush i \<in> set (ap_tasks (handle_command P Disconnect st)) \<and> k' = k \<and> m = ds_manifest d"
proof -
  let ?st = "run_task P H (TFinalFlush i) (handle_command P Disconnect st)"
  have "ap_world ?st = cx_world c'"
    using session(1,2) fl unfolding s_def
    by (simp add: flush_session_def run_op_def Let_def put_ctx_def stop_timer_def push_task_def session_ctx_def session_world_def)
  moreover have "ok (session_world s st) \<and> abs (session_world s st) = abs (ap_world st)"
    using tables_law [OF session(4)] session(3) by (simp add: session_world_def)
  ultimately have v: "abs w2 VAULT_KEY = abs w1 VAULT_KEY"
    using flush_keeps_vault [OF _ _ _ fl, of "pf_json P"] session dirty(2) again(2) by (simp add: session_env_def session_ctx_def)
  from session_keys_vault [OF first lib] obtain vb vault where
    vb: "abs w1 VAULT_KEY = Some vb" "vault_from_slice (pf_vault_json P) vb = Some vault" "open_vault (pf_lib P) vault pw = Inr k" "pw \<noteq> []"
    by blast
  obtain w4 x where g: "be_get_vault B w2 = (w4, x)" by fastforce
  obtain y where x: "x = Inr y" using again(3) g vb(4) by (cases x; cases pw) (auto simp: session_keys_def sbind_apply)
  from session_keys_open [OF again(1) vb(4) _ vb(2), of w4 y salt' prefix'] v vb(1) g x again(3) vb(3)
  have k: "w3 = w4" "k' = k" by auto
  from session_keys_keeps_vault [OF again(1) _ again(3), of vb] v vb(1) have "abs w3 = abs w2" by simp
  moreover have "ok w3" using get_law [OF again(1) object_key_vault, of w4 x] g k by (simp add: get_vault_law)
  moreover from disconnect_saves [OF session(1), folded s_def, OF session(2,3,4) dirty fl]
  obtain blob where "abs w2 (manifest_object_key dir) = Some blob" "Manifest_decrypt (pf_lib P) (pf_json P) k blob = Inr (ds_manifest d)"
    and "TFinalFlush i \<in> set (ap_tasks (handle_command P Disconnect st))"
    using again(2) by auto
  ultimately show ?thesis using load_stored [OF read(1) _ read(5), of blob k' "ds_manifest d" c2 m] read k by simp
qed

end

section \<open>Over SMB\<close>

text \<open>Connecting changes no file.\<close>

definition smb_dial_law :: "'r smb_client \<Rightarrow> ('r \<Rightarrow> string \<Rightarrow> bytes option) \<Rightarrow> bool" where
  "smb_dial_law C obs \<longleftrightarrow> (\<forall>a u p d r. obs (fst (sb_connect C a u p d r)) = obs r) \<and>
     (\<forall>s r. obs (fst (sb_connect_share C s r)) = obs r) \<and> (\<forall>p r. obs (fst (sb_stat C p r)) = obs r)"

lemma smb_connect_keeps_files:
  assumes "smb_dial_law C obs" "smb_connect C profile password w = (w', r)"
  shows "obs (fw_remote w') = obs (fw_remote w)"
proof -
  note L = assms(1) [unfolded smb_dial_law_def]
  have [simp]: "obs (fst (sb_connect C a u p d r)) = obs r" "obs (fst (sb_connect_share C s r)) = obs r"
    "obs (fst (sb_stat C p r)) = obs r" for a u p d s r using L by blast+
  show ?thesis using arg_cong [OF assms(2), of fst]
    by (auto simp: smb_connect_def sbind_apply fctx_apply onr_apply timeout_as_def serr_def sret_def Let_def
        split: sum.splits prod.splits if_splits)
qed

interpretation smb_vault: vault_store "smb_backend C fuel base" "smb_objects obs base" "\<lambda>_. smb_file_law C obs hst view"
  for C :: "'r smb_client" and fuel base obs hst view
  by unfold_locales (simp_all add: smb_backend_def smb_methods_def Let_def)

lemma smb_connect_base: "smb_connect C profile secret w = (w', Inr base) \<Longrightarrow> base = trim_matches slash (trim (cp_root_path profile))"
  by (auto simp: smb_connect_def sbind_apply fctx_apply onr_apply timeout_as_def serr_def sret_def Let_def
      split: sum.splits prod.splits if_splits)

lemma smb_session:
  assumes "co_smb (pf_connectors P) = smb_dial C fuel" "cp_kind profile = Smb" "cp_e2ee profile"
    and "connect P now salt prefix profile secret (Some pw) iv db ub w = (w', Inr s)"
  obtains wb k where "smb_connect C profile secret w = (wb, Inr (trim_matches slash (trim (cp_root_path profile))))"
    and "se_backend s = smb_backend C fuel (trim_matches slash (trim (cp_root_path profile)))"
    and "se_store s = ManifestStore_new 10000" "se_keys s = Some k" "se_object s = w'"
    and "session_keys P salt prefix (smb_backend C fuel (trim_matches slash (trim (cp_root_path profile)))) (Some pw) wb = (w', Inr k)"
proof -
  obtain wb x where d: "smb_connect C profile secret w = (wb, x)" by fastforce
  with assms obtain base where x: "x = Inr base"
    by (cases x) (auto simp: connect_def connect_backend_def Let_def smb_dial_def sbind_apply)
  note b = smb_connect_base [OF d [unfolded x]]
  show thesis
    by (rule that [of wb "the (se_keys s)"])
      (use assms d x b in \<open>auto simp: connect_def connect_backend_def Let_def smb_dial_def sbind_apply sret_def split: prod.splits sum.splits\<close>)
qed

text \<open>
  C8. What the user changes in a directory is there when they connect again: on an SMB share that tells case
  apart, a session that
  is disconnected with changes not yet written leaves a final flush; once that has run and its writes
  were accepted, a new connection with the same profile and password derives the same keys, whatever its
  randomness, and loading the directory gives exactly the content it had when the session was left.
\<close>

theorem changes_survive_reconnect:
  fixes st :: "'r fs_world app" and i :: nat and P :: "'r fs_world platform" and H :: "'r fs_world host"
  defines "s \<equiv> ap_sessions st ! i" and "st' \<equiv> run_task P H (TFinalFlush i) (handle_command P Disconnect st)"
  assumes smb: "smb_file_law C obs hst view" "smb_dial_law C obs" "co_smb (pf_connectors P) = smb_dial C fuel"
    and lib: "aead_correct (pf_lib P)" "base64_correct (pf_lib P)" "vault_json_correct (pf_vault_json P)" "length prefix = PREFIX_LEN"
    and profile: "cp_kind profile = Smb" "cp_e2ee profile"
    and first: "connect P now salt prefix profile secret (Some pw) iv db ub w0 = (w1, Inr s1)"
    and session: "ap_timer st = Some i" "se_keys s = Some k" "se_keys s1 = Some k" "se_backend s = se_backend s1"
      "smb_objects obs (trim_matches slash (trim (cp_root_path profile))) (ap_world st) VAULT_KEY =
       smb_objects obs (trim_matches slash (trim (cp_root_path profile))) w1 VAULT_KEY"
    and dirty: "env_ok (session_env P s) k" "store_ok (pf_json P) (se_store s)" "ms_get (se_store s) dir = Some d"
      "ds_dirty d" "storable (pf_json P) (ds_manifest d)" "fp_ok (pf_json P) (ds_manifest d) \<noteq> ds_written_fingerprint d"
    and fl: "flush (session_env P s) k Forced (session_ctx s st) = (c', Inr n)"
    and again: "connect P now' salt' prefix' profile secret' (Some pw) iv' db' ub' (ap_world st') = (w2, Inr s2)" "se_keys s2 = Some k2"
    and read: "ap_world st2 = w2" "load (session_env P s2) k2 dir (session_ctx s2 st2) = (c2, Inr m)"
  shows "TFinalFlush i \<in> set (ap_tasks (handle_command P Disconnect st)) \<and> k2 = k \<and> m = ds_manifest d"
proof -
  let ?base = "trim_matches slash (trim (cp_root_path profile))"
  from smb_session [OF smb(3) profile first] obtain wa where
    a: "se_backend s1 = smb_backend C fuel ?base" "session_keys P salt prefix (smb_backend C fuel ?base) (Some pw) wa = (w1, Inr k)"
    using session(3) by (metis option.inject)
  from smb_session [OF smb(3) profile again(1)] obtain wb where
    b: "smb_connect C profile secret' (ap_world st') = (wb, Inr ?base)" "se_backend s2 = smb_backend C fuel ?base"
      "se_store s2 = ManifestStore_new 10000" "se_object s2 = w2" "session_keys P salt' prefix' (smb_backend C fuel ?base) (Some pw) wb = (w2, Inr k2)"
    using again(2) by (metis option.inject)
  have "smb_objects obs ?base wb = smb_objects obs ?base (ap_world st')"
    using smb_connect_keeps_files [OF smb(2) b(1)] by (simp add: smb_objects_def fun_eq_iff)
  from smb_vault.content_returns [where st = st and i = i and P = P and H = H and E = "session_env P s2" and c = "session_ctx s2 st2", folded s_def st'_def,
      OF lib smb(1) a(2) session(1,2) session(4) [unfolded a(1)] smb(1) session(5) dirty fl smb(1) this b(5) _ _ _ _ _ read(2)]
  moreover have "session_world s2 st2 = w2"
    using b(2,4) read(1) by (simp add: session_world_def smb_backend_def smb_methods_def Let_def)
  ultimately show ?thesis using b(2,3) by (simp add: session_env_def session_ctx_def ManifestStore_new_def ms_get_def)
qed

section \<open>On a concrete server\<close>

lemma mem_smb_reads:
  "mem_view m h = Some d \<Longrightarrow> length d < 2 ^ 64 \<Longrightarrow> off \<le> length d \<Longrightarrow>
    smb_read_loop mem_smb h (length d) off out m = (m, Inr (out @ drop off d))"
proof (induction "length d - off" arbitrary: off out rule: less_induct)
  case less
  show ?case
  proof (cases "off < length d")
    case True
    let ?n = "min STREAM_CHUNK (length d - off)"
    have n: "0 < ?n" "?n \<le> length d - off" using True by (simp_all add: STREAM_CHUNK_def)
    have u: "unat (of_nat off :: u64) = off" "unat (of_nat ?n :: u64) = ?n" using True n(2) less.prems by (simp_all add: u64_of_nat)
    have a: "sb_read_at mem_smb h (of_nat off) (of_nat ?n) m = (m, Inr (take ?n (drop off d)))"
      using less.prems by (simp add: mem_smb_def u)
    have l: "length (take ?n (drop off d)) = ?n" "take ?n (drop off d) \<noteq> []" using n by auto
    have "smb_read_loop mem_smb h (length d) (off + ?n) (out @ take ?n (drop off d)) m = (m, Inr ((out @ take ?n (drop off d)) @ drop (off + ?n) d))"
      by (rule less.hyps) (use True n less.prems in auto)
    moreover have "take ?n (drop off d) @ drop (off + ?n) d = drop off d"
      by (metis add.commute append_take_drop_id drop_drop)
    ultimately show ?thesis unfolding smb_read_loop.simps [of mem_smb h "length d" off] using True a l by simp
  qed (use less.prems in \<open>simp add: smb_read_loop.simps\<close>)
qed

lemma mem_smb_get_some:
  assumes "mf_obs (fw_remote w) (smb_full base key) = Some d" "length d < 2 ^ 64"
  shows "\<exists>w'. smb_get mem_smb base key w = (w', Inr (Some d))"
proof -
  let ?m = "fw_remote w" and ?h = "length (mf_handles (fw_remote w))" and ?p = "smb_full base key"
  let ?m1 = "?m\<lparr>mf_handles := (?h, ?p, 0) # mf_handles ?m\<rparr>"
  have o: "sb_open_reader mem_smb ?p ?m = (?m1, Inr (?h, of_nat (length d)))" using assms by (simp add: mem_smb_def)
  have "mem_view ?m1 ?h = Some d" using assms(1) by (simp add: mem_view_def mf_hst_def mf_obs_def)
  from mem_smb_reads [OF this assms(2), of 0 "[]"] have "smb_read_loop mem_smb ?h (unat (of_nat (length d) :: u64)) 0 [] ?m1 = (?m1, Inr d)"
    using assms(2) by (simp add: u64_of_nat)
  moreover have "sb_close_reader mem_smb ?h ?m1 = (?m1, Inr ())" by (simp add: mem_smb_def sret_def)
  ultimately show ?thesis using o by (simp add: smb_get_def onr_apply sbind_apply tried_apply sret_def)
qed

lemma mem_smb_get_none: "mf_obs (fw_remote w) (smb_full base key) = None \<Longrightarrow> smb_get mem_smb base key w = (w, Inr None)"
  by (simp add: smb_get_def onr_apply mem_smb_def)

lemma mem_smb_put: "\<exists>w'. smb_put mem_smb base key d w = (w', Inr ())"
proof -
  obtain m1 h where o: "mf_open_write (smb_full base key) (fw_remote w) = (m1, Inr h)" by (simp add: mf_open_write_def Let_def)
  then have "mf_hst m1 h \<noteq> None" using mf_open_law [OF o] by simp
  from mf_writes [OF this] have "snd (write_chunks WRITE_CHUNK (mf_write h) d m1) = Inr ()" by (simp add: write_chunks_def)
  with o show ?thesis
    by (cases "write_chunks WRITE_CHUNK (mf_write h) d m1") (simp add: smb_put_def onr_apply sbind_apply fctx_apply mem_smb_def sret_def)
qed


definition smb_platform :: "mem_fs fs_world platform" where
  "smb_platform = \<lparr>pf_lib = ref_lib, pf_json = ref_json, pf_vault_json = pf_vault_json sample_platform,
     pf_connectors = \<lparr>co_s3 = \<lambda>_ _ _ _. undefined, co_sftp = \<lambda>_ _. serr (Msg ''no route''),
       co_nfs = \<lambda>_. serr (Msg ''no route''), co_smb = smb_dial mem_smb 5\<rparr>,
     pf_lower = id, pf_prefix = \<lambda>_. ref_prefix, pf_salt = \<lambda>_. replicate 16 1, pf_fuel = 1\<rparr>"

definition ref_share :: connection_profile where
  "ref_share = ConnectionProfile_default\<lparr>cp_kind := Smb, cp_share := ''d'', cp_e2ee := True\<rparr>"

lemma ref_share_facts: "cp_kind ref_share = Smb" "cp_e2ee ref_share" "trim (cp_share ref_share) = ''d''" "trim (cp_root_path ref_share) = []"
proof -
  show "trim (cp_root_path ref_share) = []" by (simp add: ref_share_def ConnectionProfile_default_def trim_nil)
  show "trim (cp_share ref_share) = ''d''" by (simp add: ref_share_def trim_plain)
qed (simp_all add: ref_share_def)

lemma no_base: "trim_matches slash [] = []"
  by code_simp

lemma mem_smb_calls: "sb_connect mem_smb a u p d r = (r, Inr ())" "sb_connect_share mem_smb s r = (r, Inr ())"
  by (simp_all add: mem_smb_def sret_def)

lemma mem_smb_connects: "smb_connect mem_smb ref_share secret w = (w\<lparr>fw_uploads := [], fw_seq := 0, fw_known := []\<rparr>, Inr [])"
  by (simp add: smb_connect_def ref_share_facts(3,4) sbind_apply fctx_apply onr_apply timeout_as_def sret_def Let_def
      mem_smb_calls no_base)

lemma smb_platform_facts: "co_smb (pf_connectors smb_platform) = smb_dial mem_smb 5" "pf_lib smb_platform = ref_lib"
  "pf_json smb_platform = ref_json" "pf_vault_json smb_platform = pf_vault_json sample_platform" "pf_prefix smb_platform i = ref_prefix"
  by (simp_all add: smb_platform_def)

lemma smb_platform_connect:
  "connect smb_platform now salt prefix ref_share secret (Some pw) iv db ub w =
     (case session_keys smb_platform salt prefix (smb_backend mem_smb 5 []) (Some pw) (w\<lparr>fw_uploads := [], fw_seq := 0, fw_known := []\<rparr>) of
        (w', Inr k) \<Rightarrow> (w', Inr \<lparr>se_keys = Some k, se_store = ManifestStore_new 10000, se_profile = ref_share, se_secret = secret,
           se_backend = smb_backend mem_smb 5 [], se_generation = 0, se_reconnect_interval_ms = iv,
           se_download_limiter = RateLimiter_new now db, se_upload_limiter = RateLimiter_new now ub, se_object = w'\<rparr>)
      | (w', Inl e) \<Rightarrow> (w', Inl e))"
  by (simp add: connect_def connect_backend_def Let_def ref_share_facts(1,2) smb_platform_facts(1) smb_dial_def sbind_apply
      mem_smb_connects sret_def split: prod.splits sum.splits)


lemma encrypted_short:
  assumes "length prefix = PREFIX_LEN" "length data \<le> 100" "encrypt_bytes ref_lib k prefix data = Inr blob"
  shows "length blob < 1000"
proof -
  have "length data \<le> 2 ^ 51" using assms(2) by simp
  from encrypted_file_facts [OF ref_aead_correct assms(1) this assms(3)] have "length blob = cipher_size (length data)" by metis
  moreover have "n_chunks (length data) \<le> 1" using assms(2) by (simp add: n_chunks_def ceil_div_def CHUNK_def)
  ultimately show ?thesis using assms(2) by (simp add: cipher_size_def HEADER_LEN_def TAG_def)
qed

abbreviation edited :: dir_state where
  "edited \<equiv> \<lparr>ds_manifest = sample_manifest, ds_written_fingerprint = Some 1, ds_last_change = 0, ds_dirty = True\<rparr>"

lemma edited_facts: "fp_ok ref_json sample_manifest \<noteq> Some 1" "storable ref_json sample_manifest"
  by (simp_all add: storable_def ref_json_sample sample_extra_ok fp_ok_def fingerprint_def fnv1a_def fnv_step_def)

lemma smb_flush_stores:
  assumes "keys_wf k" "ev_backend E = smb_backend mem_smb fuel []" "ev_lib E = ref_lib" "ev_json E = ref_json" "\<And>i. ev_rnd E i = ref_prefix"
    and "cx_store c = ms_put [] edited (ManifestStore_new 10000)"
  shows "\<exists>c' n blob. flush E k Forced c = (c', Inr n) \<and> mf_obs (fw_remote (cx_world c')) MANIFEST_KEY = Some blob \<and> length blob < 2 ^ 64"
proof -
  obtain blob where b: "encrypt_bytes ref_lib k ref_prefix [2, 2] = Inr blob"
    using encrypt_bytes_total [OF ref_aead_correct ref_aead_total assms(1) length_ref_prefix, of "[2, 2]"] by auto
  obtain fp where fp: "fp_ok ref_json sample_manifest = Some fp" by (simp add: fp_ok_def fingerprint_def ref_json_sample)
  have "ms_inner (cx_store c) = [([], edited)]" "interval (cx_store c) = 10000" "ms_get (cx_store c) [] = Some edited"
    by (simp_all add: assms(6) ms_put_def ms_get_def ManifestStore_new_def interval_def)
  then have sn: "flush_snapshot E k Forced c = (c\<lparr>cx_rng := Suc (cx_rng c)\<rparr>, [([], blob, fp)])"
    using fp edited_facts(1) b
    by (simp add: flush_snapshot_def Let_def flush_candidates_def List.map_filter_simps assms FlushPlan_select_def
        Manifest_encrypt_def ref_json_sample)
  obtain w' where p: "smb_put mem_smb [] MANIFEST_KEY blob (cx_world c) = (w', Inr ())" using mem_smb_put by blast
  have "smb_full [] MANIFEST_KEY = MANIFEST_KEY" by code_simp
  then have "mf_obs (fw_remote w') MANIFEST_KEY = Some blob" using smb_put_result [OF mem_smb_write_law p] by simp
  moreover have "length blob < 2 ^ 64" using encrypted_short [OF length_ref_prefix _ b] by simp
  moreover have "\<exists>c'. flush E k Forced c = (c', Inr 1) \<and> cx_world c' = w'"
    using p by (simp add: flush_def sn sbind_apply onw_apply sret_def assms(2) smb_backend_def smb_methods_def Let_def
        manifest_object_key_def)
  ultimately show ?thesis by blast
qed

text \<open>The first connection to a share without a vault.\<close>

lemma first_smb_connection:
  "\<exists>w1 s1 k vb. connect smb_platform 0 (replicate 16 1) ref_prefix ref_share ''s'' (Some ''pw'') 0 0 0 ref_fs = (w1, Inr s1) \<and>
     se_keys s1 = Some k \<and> se_backend s1 = smb_backend mem_smb 5 [] \<and> keys_wf k \<and>
     mf_obs (fw_remote w1) VAULT_KEY = Some vb \<and> length vb < 2 ^ 64"
proof -
  let ?w = "ref_fs\<lparr>fw_uploads := [], fw_seq := 0, fw_known := []\<rparr>" and ?B = "smb_backend mem_smb 5 []"
  obtain k c where c: "encrypt_bytes ref_lib k ref_prefix CANARY = Inr c" and wf: "keys_wf k"
    and v: "create_vault ref_lib ''pw'' (replicate 16 1) ref_prefix =
      Inr (\<lparr>vf_version = 1, vf_salt = hex_upper (replicate 16 1), vf_canary = hex_upper c\<rparr>, k)"
    using create_vault_total [OF ref_aead_total ref_kdf_total, of "replicate 16 1" ref_prefix "''pw''"] length_ref_prefix by auto
  have bar: "CHR ''|'' \<notin> set (hex_upper (replicate 16 1))"
  proof -
    have "CHR ''|'' \<noteq> char_of (48 :: nat)" "CHR ''|'' \<noteq> char_of (49 :: nat)" by code_simp+
    then show ?thesis by (auto simp: hex_upper_def hex_digit_def)
  qed
  let ?d = "as_bytes (hex_upper (replicate 16 1) @ CHR ''|'' # hex_upper c)"
  have j: "vault_to_vec (pf_vault_json smb_platform) \<lparr>vf_version = 1, vf_salt = hex_upper (replicate 16 1), vf_canary = hex_upper c\<rparr> = Some ?d"
    using bar by (simp add: smb_platform_def sample_platform_def)
  have full: "smb_full [] VAULT_KEY = VAULT_KEY" by code_simp
  have "mf_obs (fw_remote ?w) (smb_full [] VAULT_KEY) = None" unfolding full by (simp add: ref_fs_def mf_obs_def VAULT_KEY_def)
  then have g: "be_get_vault ?B ?w = (?w, Inr None)"
    using mem_smb_get_none by (simp add: smb_backend_def smb_methods_def Let_def)
  obtain w1 where p: "smb_put mem_smb [] VAULT_KEY ?d ?w = (w1, Inr ())" using mem_smb_put by blast
  then have pv: "be_put_vault ?B ?d ?w = (w1, Inr ())" by (simp add: smb_backend_def smb_methods_def Let_def)
  have "session_keys smb_platform (replicate 16 1) ref_prefix ?B (Some ''pw'') ?w = (w1, Inr k)"
    using g pv v j by (simp add: session_keys_def sbind_apply slift_def sctx_apply sret_def smb_platform_facts(2))
  moreover have "mf_obs (fw_remote w1) VAULT_KEY = Some ?d"
    using smb_put_result [OF mem_smb_write_law p] full by simp
  moreover have "length ?d < 2 ^ 64"
    using encrypted_short [OF length_ref_prefix _ c] by (simp add: as_bytes_def CANARY_def)
  ultimately show ?thesis using wf by (simp add: smb_platform_connect)
qed

lemma mem_smb_laws: "smb_file_law mem_smb mf_obs mf_hst mem_view" "smb_dial_law mem_smb mf_obs"
  by (simp_all add: smb_file_law_def mem_smb_write_law mem_smb_read_law smb_quiet_law_def smb_dial_law_def)
    (auto simp: mem_smb_def sret_def split: option.splits)

lemma mem_smb_load:
  assumes "ev_backend E = smb_backend mem_smb fuel []" "ms_get (cx_store c) [] = None"
    and "mf_obs (fw_remote (cx_world c)) MANIFEST_KEY = Some blob" "length blob < 2 ^ 64"
    and "Manifest_decrypt (ev_lib E) (ev_json E) k blob = Inr m"
  shows "\<exists>c'. load E k [] c = (c', Inr m)"
proof -
  have "smb_full [] MANIFEST_KEY = MANIFEST_KEY" by code_simp
  with assms(3,4) obtain w' where "smb_get mem_smb [] MANIFEST_KEY (cx_world c) = (w', Inr (Some blob))"
    using mem_smb_get_some [of "cx_world c" "[]" MANIFEST_KEY] by auto
  then have "be_get (ev_backend E) (manifest_object_key []) (cx_world c) = (w', Inr (Some blob))"
    by (simp add: assms(1) smb_backend_def smb_methods_def Let_def manifest_object_key_def)
  then show ?thesis using assms(2,5) by (simp add: load_def sbind_apply onw_apply slift_def load_insert_def)
qed

text \<open>A later connection to the share.\<close>

lemma smb_share_reopens:
  assumes "connect smb_platform 0 (replicate 16 1) ref_prefix ref_share ''s'' (Some ''pw'') 0 0 0 ref_fs = (w1, Inr s1)" "se_keys s1 = Some k"
    and "mf_obs (fw_remote w1) VAULT_KEY = Some vb" "mf_obs (fw_remote w) VAULT_KEY = Some vb" "length vb < 2 ^ 64"
  shows "\<exists>w2 s2. connect smb_platform 7 [] [] ref_share ''s'' (Some ''pw'') 0 0 0 w = (w2, Inr s2) \<and> se_keys s2 = Some k \<and>
    se_backend s2 = smb_backend mem_smb 5 [] \<and> se_store s2 = ManifestStore_new 10000 \<and> mf_obs (fw_remote w2) = mf_obs (fw_remote w)"
proof -
  let ?wb = "w\<lparr>fw_uploads := [], fw_seq := 0, fw_known := []\<rparr>" and ?B = "smb_backend mem_smb 5 []"
  have full: "smb_full [] VAULT_KEY = VAULT_KEY" by code_simp
  obtain w2 where gg: "smb_get mem_smb [] VAULT_KEY ?wb = (w2, Inr (Some vb))"
    using mem_smb_get_some [of ?wb "[]" VAULT_KEY] assms(4,5) full by auto
  then have g: "be_get_vault ?B ?wb = (w2, Inr (Some vb))" by (simp add: smb_backend_def smb_methods_def Let_def)
  obtain wa where "session_keys smb_platform (replicate 16 1) ref_prefix ?B (Some ''pw'') wa = (w1, Inr k)"
    using smb_session [OF smb_platform_facts(1) ref_share_facts(1,2) assms(1)] assms(2) by (metis option.inject ref_share_facts(4) no_base)
  from smb_vault.session_keys_vault [OF mem_smb_laws(1) this] full assms(3) obtain vault where
    "vault_from_slice (pf_vault_json smb_platform) vb = Some vault" "open_vault ref_lib vault ''pw'' = Inr k"
    using sample_vault_json by (auto simp: smb_platform_facts ref_lib_laws smb_objects_def)
  then have "session_keys smb_platform [] [] ?B (Some ''pw'') ?wb = (w2, Inr k)"
    using smb_vault.session_keys_open [where pw = "''pw''" and obs = mf_obs and P = smb_platform and blob = vb and vault = vault,
      OF mem_smb_laws(1) _ _ _ g] full assms(4)
    by (simp add: smb_objects_def smb_platform_facts)
  moreover have "mf_obs (fw_remote w2) = mf_obs (fw_remote w)"
    using smb_get_result [OF mem_smb_read_law _ gg] mem_smb_laws(1) by (simp add: smb_file_law_def)
  ultimately show ?thesis unfolding smb_platform_connect by simp
qed

theorem changes_survive_reconnect_witness:
  "\<forall>H. \<exists>w1 s1 st w2 s2 k c2.
     connect smb_platform 0 (replicate 16 1) ref_prefix ref_share ''s'' (Some ''pw'') 0 0 0 ref_fs = (w1, Inr s1) \<and>
     se_keys s1 = Some k \<and> ap_sessions st = [s1\<lparr>se_store := ms_put [] edited (se_store s1)\<rparr>] \<and> ap_timer st = Some 0 \<and>
     connect smb_platform 7 [] [] ref_share ''s'' (Some ''pw'') 0 0 0
       (ap_world (run_task smb_platform H (TFinalFlush 0) (handle_command smb_platform Disconnect st))) = (w2, Inr s2) \<and>
     se_keys s2 = Some k \<and> load (session_env smb_platform s2) k [] (session_ctx s2 (st\<lparr>ap_world := w2\<rparr>)) = (c2, Inr sample_manifest)"
proof
  fix H
  obtain w1 s1 k vb where f: "connect smb_platform 0 (replicate 16 1) ref_prefix ref_share ''s'' (Some ''pw'') 0 0 0 ref_fs = (w1, Inr s1)"
    and s1: "se_keys s1 = Some k" "se_backend s1 = smb_backend mem_smb 5 []" "keys_wf k"
    and vb: "mf_obs (fw_remote w1) VAULT_KEY = Some vb" "length vb < 2 ^ 64"
    using first_smb_connection by blast
  have st1: "se_store s1 = ManifestStore_new 10000" using f by (auto simp: smb_platform_connect split: prod.splits sum.splits)
  define s where "s = s1\<lparr>se_store := ms_put [] edited (se_store s1)\<rparr>"
  define st where "st = (dispatch_init Settings_default w1 Map.empty 0)\<lparr>ap_sessions := [s], ap_session := Some 0, ap_timer := Some 0\<rparr>"
  have S: "ap_sessions st = [s]" "ap_timer st = Some 0" "ap_session st = Some 0" "ap_world st = w1" "ap_now st = 0"
    "se_keys s = Some k" "se_backend s = smb_backend mem_smb 5 []" "se_store s = ms_put [] edited (ManifestStore_new 10000)"
    by (simp_all add: st_def s_def s1 st1 dispatch_init_def)
  let ?st' = "run_task smb_platform H (TFinalFlush 0) (handle_command smb_platform Disconnect st)"
  have E: "ev_backend (session_env smb_platform s) = smb_backend mem_smb 5 []" "ev_lib (session_env smb_platform s) = ref_lib"
    "ev_json (session_env smb_platform s) = ref_json" "ev_rnd (session_env smb_platform s) i = ref_prefix" for i
    by (simp_all add: session_env_def S smb_platform_facts)
  obtain c' n blob where fl: "flush (session_env smb_platform s) k Forced (session_ctx s st) = (c', Inr n)"
    and b: "mf_obs (fw_remote (cx_world c')) MANIFEST_KEY = Some blob" "length blob < 2 ^ 64"
    using smb_flush_stores [OF s1(3) E, of "session_ctx s st"] by (auto simp: session_ctx_def S)
  have e: "env_ok (session_env smb_platform s) k"
    by (simp add: env_ok_def E ref_lib_laws ref_json_correct s1(3))
  have so: "store_ok ref_json (ms_put [] edited (ManifestStore_new 10000))"
    by (rule store_ok_put) (auto simp: store_ok_def ManifestStore_new_def ms_get_def dir_ok_def)
  have sw: "fw_remote (session_world s st) = fw_remote w1"
    by (simp add: session_world_def S smb_backend_def smb_methods_def Let_def)
  have wz: "ap_world ?st' = cx_world c'"
    using fl S by (simp add: flush_session_def run_op_def Let_def put_ctx_def stop_timer_def push_task_def session_ctx_def session_world_def)
  have full: "smb_full [] VAULT_KEY = VAULT_KEY" "smb_full [] MANIFEST_KEY = MANIFEST_KEY" by code_simp+
  from smb_store.flush_keeps_vault [where J = ref_json and obs = mf_obs and base = "[]", OF E(1) mem_smb_laws(1) _ fl] so st1
  have "mf_obs (fw_remote (cx_world c')) VAULT_KEY = Some vb" using vb(1) full
    by (simp add: session_ctx_def smb_objects_def sw S(8))
  from smb_share_reopens [OF f s1(1) vb(1) this vb(2), folded wz] obtain w2 s2 where
    again: "connect smb_platform 7 [] [] ref_share ''s'' (Some ''pw'') 0 0 0 (ap_world ?st') = (w2, Inr s2)"
    and s2: "se_keys s2 = Some k" "se_backend s2 = smb_backend mem_smb 5 []" "se_store s2 = ManifestStore_new 10000"
    and o: "mf_obs (fw_remote w2) = mf_obs (fw_remote (cx_world c'))" unfolding wz by blast
  have t: "ap_sessions st ! 0 = s" by (simp add: S)
  note D = e so edited_facts
  have d: "env_ok (session_env smb_platform (ap_sessions st ! 0)) k" "store_ok (pf_json smb_platform) (se_store (ap_sessions st ! 0))"
    "ms_get (se_store (ap_sessions st ! 0)) [] = Some edited" "ds_dirty edited" "storable (pf_json smb_platform) (ds_manifest edited)"
    "fp_ok (pf_json smb_platform) (ds_manifest edited) \<noteq> ds_written_fingerprint edited"
    using D unfolding t by (simp_all add: S buffer.look_put smb_platform_facts)
  from smb_store.saved_at_disconnect [where st = st and i = 0 and H = H and obs = mf_obs and base = "[]",
      OF S(2) S(6) [folded t] S(7) [folded t] mem_smb_laws(1) d fl [folded t]]
  have m: "Manifest_decrypt ref_lib ref_json k blob = Inr sample_manifest"
    using b(1) full unfolding wz by (auto simp: smb_objects_def smb_platform_facts manifest_object_key_def)
  from o b(1) have "mf_obs (fw_remote w2) MANIFEST_KEY = Some blob" by simp
  moreover have "fw_remote (session_world s2 (st\<lparr>ap_world := w2\<rparr>)) = fw_remote w2"
    by (simp add: session_world_def s2(2) smb_backend_def smb_methods_def Let_def)
  ultimately obtain c2 m' where ld: "load (session_env smb_platform s2) k [] (session_ctx s2 (st\<lparr>ap_world := w2\<rparr>)) = (c2, Inr m')"
    using mem_smb_load [of "session_env smb_platform s2" 5 "session_ctx s2 (st\<lparr>ap_world := w2\<rparr>)" blob k sample_manifest] b(2) m s2
    by (auto simp: session_env_def session_ctx_def smb_platform_facts ManifestStore_new_def ms_get_def)
  have "m' = sample_manifest"
    using changes_survive_reconnect [where st = st and i = 0 and P = smb_platform and H = H,
      OF mem_smb_laws smb_platform_facts(1) _ _ _ length_ref_prefix ref_share_facts(1,2) f S(2) _ s1(1) _ _ d fl [folded t] again s2(1) _ ld]
    using sample_vault_json s1(2) by (simp add: smb_platform_facts ref_lib_laws t S)
  with f s1(1) S(1,2) again s2(1) ld show "\<exists>w1 s1 st w2 s2 k c2.
     connect smb_platform 0 (replicate 16 1) ref_prefix ref_share ''s'' (Some ''pw'') 0 0 0 ref_fs = (w1, Inr s1) \<and>
     se_keys s1 = Some k \<and> ap_sessions st = [s1\<lparr>se_store := ms_put [] edited (se_store s1)\<rparr>] \<and> ap_timer st = Some 0 \<and>
     connect smb_platform 7 [] [] ref_share ''s'' (Some ''pw'') 0 0 0
       (ap_world (run_task smb_platform H (TFinalFlush 0) (handle_command smb_platform Disconnect st))) = (w2, Inr s2) \<and>
     se_keys s2 = Some k \<and> load (session_env smb_platform s2) k [] (session_ctx s2 (st\<lparr>ap_world := w2\<rparr>)) = (c2, Inr sample_manifest)"
    by (intro exI [of _ w1] exI [of _ s1] exI [of _ st] exI [of _ w2] exI [of _ s2] exI [of _ k] exI [of _ c2]) (simp add: s_def)
qed

end
