(* ===== verification/Format.thy ===== *)
theory Format
  imports Operations
begin

text \<open>
  The texts of sizes and times (\<^verbatim>\<open>src/src/ui/mod.rs\<close>), and how far a size that is shown is from the real one.
\<close>

section \<open>Sizes and times\<close>

text \<open>Division rounded to the nearest, ties to even; the nearest \<open>f64\<close> of a \<open>u64\<close>; and \<open>{:.1}\<close> of
  its quotient by a power of 1024, which is exact.\<close>

definition round_div :: "nat \<Rightarrow> nat \<Rightarrow> nat" where
  "round_div n d =
     (let q = n div d; r = n mod d in if 2 * r < d \<or> (2 * r = d \<and> even q) then q else q + 1)"

fun f64_scale :: "nat \<Rightarrow> nat" where
  "f64_scale n = (if n < 2 ^ 53 then 0 else Suc (f64_scale (n div 2)))"

declare f64_scale.simps [simp del]

definition f64_of_nat :: "nat \<Rightarrow> nat" where
  "f64_of_nat n = (let e = f64_scale n in round_div n (2 ^ e) * 2 ^ e)"

definition UNITS :: "string list" where
  "UNITS = [''B'', ''KiB'', ''MiB'', ''GiB'', ''TiB'']"

function size_unit :: "nat \<Rightarrow> nat \<Rightarrow> nat" where
  "size_unit v u = (if 1024 ^ (u + 1) \<le> v \<and> u < length UNITS - 1 then size_unit v (u + 1) else u)"
  by pat_completeness auto
termination by (relation "measure (\<lambda>(v, u). length UNITS - u)") (auto simp: UNITS_def)

declare size_unit.simps [simp del]

definition size_tenths :: "nat \<Rightarrow> nat \<Rightarrow> nat" where
  "size_tenths v u = round_div (v * 10) (1024 ^ u)"

definition human_size :: "nat \<Rightarrow> string" where
  "human_size bytes =
     (let v = f64_of_nat bytes; u = size_unit v 0; t = size_tenths v u in
      if u = 0 then nat_str bytes @ '' B''
      else nat_str (t div 10) @ ''.'' @ nat_str (t mod 10) @ '' '' @ UNITS ! u)"

text \<open>\<open>human_time\<close> over glib's formatting of local times, which may fail.\<close>

definition human_time :: "(int \<Rightarrow> string option) \<Rightarrow> int option \<Rightarrow> string" where
  "human_time fmt epoch = (case Option.bind epoch fmt of None \<Rightarrow> [] | Some s \<Rightarrow> s)"

text \<open>\<open>human_eta\<close>; a number that is not finite is \<open>None\<close>. \<open>f64::round\<close> rounds halves up here, where
  the number is positive.\<close>

definition human_eta :: "rat option \<Rightarrow> string" where
  "human_eta seconds =
     (case seconds of
        None \<Rightarrow> ''-''
      | Some x \<Rightarrow>
          if x \<le> 0 then ''-''
          else let s = nat \<lfloor>x + 1 / 2\<rfloor> in
            if 3600 \<le> s then nat_str (s div 3600) @ ''h '' @ nat_str (s mod 3600 div 60) @ ''m''
            else if 60 \<le> s then nat_str (s div 60) @ ''m '' @ nat_str (s mod 60) @ ''s''
            else nat_str s @ ''s'')"

section \<open>Accuracy\<close>

lemma round_div_error: "0 < d \<Longrightarrow> 2 * round_div n d * d \<le> 2 * n + d \<and> 2 * n \<le> 2 * round_div n d * d + d"
proof -
  assume d: "0 < d"
  have n: "n = n div d * d + n mod d" by simp
  have m: "n mod d < d" using d by simp
  define q r where "q = n div d" and "r = n mod d"
  have nq: "n = q * d + r" "r < d" using n m by (simp_all add: q_def r_def)
  show ?thesis
  proof (cases "2 * r < d \<or> (2 * r = d \<and> even q)")
    case True
    then have "round_div n d = q" by (simp add: round_div_def Let_def q_def r_def)
    with nq True show ?thesis by auto
  next
    case False
    then have "round_div n d = q + 1" "d \<le> 2 * r" by (auto simp: round_div_def Let_def q_def r_def)
    with nq show ?thesis by (simp add: algebra_simps)
  qed
qed

lemma f64_of_nat_exact: "n < 2 ^ 53 \<Longrightarrow> f64_of_nat n = n"
  by (simp add: f64_of_nat_def f64_scale.simps [of n] round_div_def)

lemma size_unit_chosen: "1024 ^ u \<le> v \<Longrightarrow> u < length UNITS \<Longrightarrow>
   1024 ^ size_unit v u \<le> v \<and> (size_unit v u < length UNITS - 1 \<longrightarrow> v < 1024 ^ (size_unit v u + 1)) \<and> size_unit v u < length UNITS"
proof (induction v u rule: size_unit.induct)
  case (1 v u)
  show ?case
  proof (cases "1024 ^ (u + 1) \<le> v \<and> u < length UNITS - 1")
    case True
    then have "size_unit v u = size_unit v (u + 1)" by (subst size_unit.simps) simp
    with 1 True show ?thesis by auto
  next
    case False
    then have "size_unit v u = u" by (subst size_unit.simps) auto
    with 1 False show ?thesis by auto
  qed
qed

text \<open>The size a listing shows is in the largest unit that fits, and off by at most half a tenth of it.\<close>

theorem human_size_accurate:
  assumes "0 < b" "b < 2 ^ 53"
  shows "\<exists>u t. human_size b = (if u = 0 then nat_str b @ '' B''
        else nat_str (t div 10) @ ''.'' @ nat_str (t mod 10) @ '' '' @ UNITS ! u) \<and>
    1024 ^ u \<le> b \<and> (u < 4 \<longrightarrow> b < 1024 ^ (u + 1)) \<and>
    2 * t * 1024 ^ u \<le> 20 * b + 1024 ^ u \<and> 20 * b \<le> 2 * t * 1024 ^ u + 1024 ^ u"
proof -
  let ?u = "size_unit b 0"
  have u: "1024 ^ ?u \<le> b \<and> (?u < length UNITS - 1 \<longrightarrow> b < 1024 ^ (?u + 1)) \<and> ?u < length UNITS"
    by (rule size_unit_chosen) (use assms in \<open>simp_all add: UNITS_def\<close>)
  moreover have "2 * size_tenths b ?u * 1024 ^ ?u \<le> 20 * b + 1024 ^ ?u \<and>
      20 * b \<le> 2 * size_tenths b ?u * 1024 ^ ?u + 1024 ^ ?u"
    unfolding size_tenths_def using round_div_error [of "1024 ^ ?u" "b * 10"] by (simp add: algebra_simps)
  moreover have "human_size b = (if ?u = 0 then nat_str b @ '' B''
      else nat_str (size_tenths b ?u div 10) @ ''.'' @ nat_str (size_tenths b ?u mod 10) @ '' '' @ UNITS ! ?u)"
    by (simp add: human_size_def Let_def f64_of_nat_exact [OF assms(2)] del: nat_str.simps)
  moreover from u have "?u < 4 \<longrightarrow> b < 1024 ^ (?u + 1)" by (simp add: UNITS_def)
  ultimately show ?thesis using u by blast
qed

text \<open>The last bytes below a unit round up to 1024 of the one below it.\<close>

lemma human_size_1024: "size_unit (f64_of_nat 1048575) 0 = 1" "size_tenths (f64_of_nat 1048575) 1 = 10240"
proof -
  have f: "f64_of_nat 1048575 = 1048575" by (rule f64_of_nat_exact) simp
  show "size_unit (f64_of_nat 1048575) 0 = 1"
    unfolding f by (simp add: size_unit.simps [of _ 0] size_unit.simps [of _ "Suc 0"] UNITS_def)
  show "size_tenths (f64_of_nat 1048575) 1 = 10240" unfolding f by (simp add: size_tenths_def round_div_def Let_def)
qed

theorem human_size_accurate_witness:
  "\<exists>u t. 1024 ^ u \<le> (1536::nat) \<and> 2 * t * 1024 ^ u \<le> 20 * 1536 + 1024 ^ u \<and> 20 * 1536 \<le> 2 * t * 1024 ^ u + 1024 ^ u \<and>
     human_size 1536 = (if u = 0 then nat_str 1536 @ '' B''
       else nat_str (t div 10) @ ''.'' @ nat_str (t mod 10) @ '' '' @ UNITS ! u)"
proof -
  have "0 < (1536::nat)" "(1536::nat) < 2 ^ 53" by simp_all
  from human_size_accurate [OF this] show ?thesis by blast
qed

end
