(* ===== verification/Browser.thy ===== *)
theory Browser
  imports Dispatch RemoteFs Format
begin

text \<open>
  The browser page and the window's event loop (\<^verbatim>\<open>src/src/ui/browser_page.rs\<close>, \<^verbatim>\<open>transfer_item.rs\<close>,
  \<^verbatim>\<open>window.rs\<close>): navigation, listings, the commands the page sends to the worker, the rows of the
  transfers dialog, and how each event of the worker changes what is shown.

  Widgets are the values they show; layout and drawing are left out. Times and speeds are rationals.
  What the user does is a \<open>ui_action\<close>; entries come with it as the rows it concerns. \<open>lower\<close> is
  \<open>str::to_lowercase\<close>. A method returns the page it leaves and the commands it sends.
\<close>

text \<open>The middle dot, in UTF-8, between two spaces.\<close>

definition dot_sep :: string where
  "dot_sep = [CHR '' '', CHR 0xC2, CHR 0xB7, CHR '' '']"

section \<open>Rows of the transfers dialog\<close>

datatype item_state = Queued | Active | Done | Failed | Cancelled

record transfer_item =
  ti_id :: u64
  ti_kind :: transfer_kind
  ti_name :: string
  ti_total :: nat
  ti_done :: nat
  ti_state :: item_state
  ti_speed :: rat

definition TransferItem_new :: "u64 \<Rightarrow> transfer_kind \<Rightarrow> string \<Rightarrow> nat \<Rightarrow> transfer_item" where
  "TransferItem_new i k name total_bytes =
     \<lparr>ti_id = i, ti_kind = k, ti_name = name, ti_total = total_bytes, ti_done = 0, ti_state = Queued, ti_speed = 0\<rparr>"

definition set_active :: "nat \<Rightarrow> rat \<Rightarrow> transfer_item \<Rightarrow> transfer_item" where
  "set_active dn speed it =
     (if ti_state it = Cancelled then it else it\<lparr>ti_done := dn, ti_speed := speed, ti_state := Active\<rparr>)"

definition set_finished :: "bool \<Rightarrow> transfer_item \<Rightarrow> transfer_item" where
  "set_finished ok it =
     (if ti_state it = Cancelled then it
      else it\<lparr>ti_state := (if ok then Done else Failed), ti_done := (if ok then ti_total it else ti_done it),
              ti_speed := 0\<rparr>)"

definition set_cancelled :: "transfer_item \<Rightarrow> transfer_item" where
  "set_cancelled it = it\<lparr>ti_state := Cancelled, ti_speed := 0\<rparr>"

definition cancellable :: "transfer_item \<Rightarrow> bool" where
  "cancellable it \<longleftrightarrow> ti_state it = Queued \<or> ti_state it = Active"

section \<open>The page\<close>

record browser =
  bw_entries :: "remote_entry list"
  bw_path :: "(string \<times> string) list"
  bw_search :: string
  bw_search_timer :: bool
  bw_shown :: "remote_entry list"
  bw_crumbs :: "(string \<times> bool) list"
  bw_list_generation :: u64
  bw_list_pending :: bool
  bw_loading :: bool
  bw_bar :: bool
  bw_fraction :: rat
  bw_total_files :: nat
  bw_total_bytes :: nat
  bw_rows :: "u64 list"
  bw_items :: "(u64 \<times> transfer_item) list"
  bw_bytes_done :: nat
  bw_speed :: rat
  bw_transferring :: bool
  bw_stalled :: bool
  bw_last_progress :: rat

text \<open>The labels of the breadcrumbs, each with whether it is the heading.\<close>

definition rebuild_breadcrumbs :: "browser \<Rightarrow> browser" where
  "rebuild_breadcrumbs b =
     b\<lparr>bw_crumbs := map (\<lambda>i. (if i = 0 then ''Bucket'' else fst (bw_path b ! i), i = length (bw_path b) - 1))
        [0..<length (bw_path b)]\<rparr>"

definition browser_new :: "rat \<Rightarrow> browser" where
  "browser_new now = rebuild_breadcrumbs
     \<lparr>bw_entries = [], bw_path = [([], [])], bw_search = [], bw_search_timer = False, bw_shown = [], bw_crumbs = [],
      bw_list_generation = 0, bw_list_pending = False, bw_loading = False, bw_bar = False, bw_fraction = 0,
      bw_total_files = 0, bw_total_bytes = 0, bw_rows = [], bw_items = [], bw_bytes_done = 0, bw_speed = 0,
      bw_transferring = False, bw_stalled = False, bw_last_progress = now\<rparr>"

definition current_prefix :: "browser \<Rightarrow> string" where
  "current_prefix b = (if bw_path b = [] then [] else snd (last (bw_path b)))"

fun str_contains :: "string \<Rightarrow> string \<Rightarrow> bool" where
  "str_contains needle s = (starts_with needle s \<or> (case s of [] \<Rightarrow> False | c # t \<Rightarrow> str_contains needle t))"

declare str_contains.simps [simp del]

definition filtered :: "(string \<Rightarrow> string) \<Rightarrow> browser \<Rightarrow> remote_entry list" where
  "filtered lower b =
     (let needle = lower (bw_search b) in
      filter (\<lambda>e. needle = [] \<or> str_contains needle (lower (re_name e))) (bw_entries b))"

definition rebuild_store :: "(string \<Rightarrow> string) \<Rightarrow> browser \<Rightarrow> browser" where
  "rebuild_store lower b = b\<lparr>bw_shown := filtered lower b\<rparr>"

text \<open>
  A change of the text of the search entry runs \<open>rebuild_store\<close>: at once when the entry is cleared, else after the
  entry's delay (\<open>search_timer\<close>), which starts anew with every change.
\<close>

definition set_search :: "(string \<Rightarrow> string) \<Rightarrow> string \<Rightarrow> browser \<Rightarrow> browser" where
  "set_search lower s b =
     (if s = bw_search b then b
      else if s = [] then rebuild_store lower (b\<lparr>bw_search := [], bw_search_timer := False\<rparr>)
      else b\<lparr>bw_search := s, bw_search_timer := True\<rparr>)"

definition search_timer :: "(string \<Rightarrow> string) \<Rightarrow> browser \<Rightarrow> browser" where
  "search_timer lower b = (if bw_search_timer b then rebuild_store lower (b\<lparr>bw_search_timer := False\<rparr>) else b)"

definition request_list :: "browser \<Rightarrow> browser \<times> command list" where
  "request_list b =
     (rebuild_breadcrumbs (b\<lparr>bw_list_generation := bw_list_generation b + 1, bw_list_pending := True\<rparr>),
      [List (current_prefix b)])"

text \<open>The timer that \<open>request_list\<close> starts, when it fires.\<close>

definition spinner_timeout :: "u64 \<Rightarrow> browser \<Rightarrow> browser" where
  "spinner_timeout generation b =
     (if bw_list_pending b \<and> bw_list_generation b = generation then b\<lparr>bw_loading := True\<rparr> else b)"

definition finish_loading :: "browser \<Rightarrow> browser" where
  "finish_loading b = b\<lparr>bw_list_pending := False, bw_loading := False\<rparr>"

definition reset_to_root :: "(string \<Rightarrow> string) \<Rightarrow> browser \<Rightarrow> browser \<times> command list" where
  "reset_to_root lower b =
     request_list (rebuild_store lower ((set_search lower [] b)\<lparr>bw_path := [([], [])], bw_entries := []\<rparr>))"

definition set_listing :: "(string \<Rightarrow> string) \<Rightarrow> string \<Rightarrow> remote_entry list \<Rightarrow> browser \<Rightarrow> browser" where
  "set_listing lower prefix es b =
     (if prefix \<noteq> current_prefix b then b
      else rebuild_store lower ((finish_loading b)\<lparr>bw_entries := es\<rparr>))"

definition activate_row :: "(string \<Rightarrow> string) \<Rightarrow> remote_entry \<Rightarrow> browser \<Rightarrow> browser \<times> command list" where
  "activate_row lower e b =
     (if re_is_dir e
      then let b' = set_search lower [] b in request_list (b'\<lparr>bw_path := bw_path b' @ [(re_name e, re_key e)]\<rparr>)
      else (b, []))"

definition crumb_clicked :: "(string \<Rightarrow> string) \<Rightarrow> nat \<Rightarrow> browser \<Rightarrow> browser \<times> command list" where
  "crumb_clicked lower i b =
     (let b' = set_search lower [] b in request_list (b'\<lparr>bw_path := take (i + 1) (bw_path b')\<rparr>))"

definition entry_by_key :: "string \<Rightarrow> browser \<Rightarrow> remote_entry option" where
  "entry_by_key key b = find (\<lambda>e. re_key e = key) (bw_entries b)"

text \<open>The items of a move: the whole selection when the dragged row is part of a larger one.\<close>

definition dragged_items :: "remote_entry list \<Rightarrow> string \<Rightarrow> browser \<Rightarrow> remote_entry list" where
  "dragged_items sel key b =
     (if 1 < length sel \<and> (\<exists>e \<in> set sel. re_key e = key) then sel
      else case entry_by_key key b of Some e \<Rightarrow> [e] | None \<Rightarrow> [])"

definition perform_move :: "remote_entry list \<Rightarrow> string \<Rightarrow> string \<Rightarrow> browser \<Rightarrow> command list" where
  "perform_move sel dragged_key dest_prefix b =
     (let dest = trim_end_matches slash dest_prefix;
          items = filter (\<lambda>e. trim_end_matches slash (re_key e) \<noteq> dest) (dragged_items sel dragged_key b)
      in if items = [] then [] else [Move items dest_prefix])"

definition drop_on_row :: "remote_entry list \<Rightarrow> string \<Rightarrow> remote_entry \<Rightarrow> browser \<Rightarrow> command list" where
  "drop_on_row sel key dest b =
     (if \<not> re_is_dir dest \<or> re_key dest = key then [] else perform_move sel key (re_key dest) b)"

text \<open>Names the two dialogs accept, after trimming.\<close>

definition valid_name :: "string \<Rightarrow> bool" where
  "valid_name name \<longleftrightarrow> name \<noteq> [] \<and> slash \<notin> set name \<and> name \<noteq> ''.'' \<and> name \<noteq> ''..''"

definition new_folder :: "string \<Rightarrow> browser \<Rightarrow> command list" where
  "new_folder typed b =
     (let name = trim typed in if valid_name name then [CreateFolder (current_prefix b) name] else [])"

definition rename_entry_cmd :: "remote_entry \<Rightarrow> string \<Rightarrow> command list" where
  "rename_entry_cmd e typed =
     (let name = trim typed in
      if valid_name name \<and> name \<noteq> re_name e
      then [Rename (re_key e) (re_is_dir e) (re_name e) name (re_encrypted e = Some True)] else [])"

definition upload_cmd :: "string list list \<Rightarrow> browser \<Rightarrow> command list" where
  "upload_cmd paths b = (if paths = [] then [] else [Upload paths (current_prefix b)])"

definition download_cmd :: "remote_entry list \<Rightarrow> string list \<Rightarrow> command list" where
  "download_cmd items dest = (if items = [] then [] else [Download items dest])"

definition delete_cmd :: "remote_entry list \<Rightarrow> command list" where
  "delete_cmd items = (if items = [] then [] else [Delete items])"

text \<open>The entries of a row's menu: only encrypted folders have \<open>Info\<close>, only folders a size.\<close>

datatype menu_entry = MDownload | MRename | MInfo | MSize | MDelete

definition row_menu :: "remote_entry \<Rightarrow> menu_entry list" where
  "row_menu e =
     [MDownload, MRename] @ (if re_is_dir e \<and> re_encrypted e = Some True then [MInfo] else []) @
     (if re_is_dir e then [MSize] else []) @ [MDelete]"

definition info_cmd :: "remote_entry \<Rightarrow> command list" where
  "info_cmd e = (if MInfo \<in> set (row_menu e) then [FolderInfo (re_key e) (re_name e)] else [])"

definition size_cmd :: "remote_entry \<Rightarrow> command list" where
  "size_cmd e = (if MSize \<in> set (row_menu e) then [CalculateSize (re_key e) (re_name e) (re_encrypted e = Some True)] else [])"

text \<open>
  The texts of the columns and the order of the rows: folders before files, then by the column. An ordering is
  negative, zero or positive.
\<close>

definition size_column :: "remote_entry \<Rightarrow> string" where
  "size_column e =
     (if re_is_dir e then if 0 < re_size e then human_size (unat (re_size e)) else [] else human_size (unat (re_size e)))"

definition modified_column :: "(int \<Rightarrow> string option) \<Rightarrow> remote_entry \<Rightarrow> string" where
  "modified_column fmt e = human_time fmt (map_option sint (re_modified e))"

definition entry_sorter :: "(remote_entry \<Rightarrow> remote_entry \<Rightarrow> int) \<Rightarrow> remote_entry \<Rightarrow> remote_entry \<Rightarrow> int" where
  "entry_sorter ord a b =
     (let d = of_bool (re_is_dir b) - of_bool (re_is_dir a) in if d \<noteq> 0 then d else ord a b)"

section \<open>Transfers\<close>

definition add_row :: "browser \<Rightarrow> file_progress \<Rightarrow> browser" where
  "add_row b f =
     b\<lparr>bw_rows := bw_rows b @ [fp_id f],
       bw_items := AList.update (fp_id f) (TransferItem_new (fp_id f) (fp_kind f) (fp_name f) (fp_total f)) (bw_items b)\<rparr>"

definition append_transfer_rows :: "file_progress list \<Rightarrow> browser \<Rightarrow> browser" where
  "append_transfer_rows fs b = foldl add_row b fs"

definition transfer_started :: "rat \<Rightarrow> nat \<Rightarrow> nat \<Rightarrow> file_progress list \<Rightarrow> browser \<Rightarrow> browser" where
  "transfer_started now total_files total_bytes fs b =
     (append_transfer_rows fs (b\<lparr>bw_total_files := total_files, bw_total_bytes := total_bytes, bw_bytes_done := 0,
        bw_speed := 0, bw_fraction := 0, bw_transferring := True, bw_stalled := False, bw_last_progress := now,
        bw_rows := []\<rparr>))\<lparr>bw_bar := True\<rparr>"

definition transfer_extended :: "nat \<Rightarrow> nat \<Rightarrow> file_progress list \<Rightarrow> browser \<Rightarrow> browser" where
  "transfer_extended total_files total_bytes added b =
     (append_transfer_rows added (b\<lparr>bw_total_files := total_files, bw_total_bytes := total_bytes,
        bw_transferring := True\<rparr>))\<lparr>bw_bar := True\<rparr>"

definition clamp01 :: "rat \<Rightarrow> rat" where
  "clamp01 x = max 0 (min x 1)"

definition on_item :: "(transfer_item \<Rightarrow> transfer_item) \<Rightarrow> u64 \<Rightarrow> browser \<Rightarrow> browser" where
  "on_item f i b =
     (case map_of (bw_items b) i of
        None \<Rightarrow> b
      | Some it \<Rightarrow> b\<lparr>bw_items := AList.update i (f it) (bw_items b)\<rparr>)"

definition progress_fraction :: "nat \<Rightarrow> nat \<Rightarrow> nat \<Rightarrow> browser \<Rightarrow> rat" where
  "progress_fraction dn failed bytes b =
     (if 0 < bw_total_bytes b then clamp01 (of_nat bytes / of_nat (bw_total_bytes b))
      else clamp01 (of_nat (dn + failed) / of_nat (max (bw_total_files b) 1)))"

definition transfer_progress ::
  "rat \<Rightarrow> nat \<Rightarrow> nat \<Rightarrow> nat \<Rightarrow> file_progress list \<Rightarrow> (u64 \<times> bool) option \<Rightarrow> browser \<Rightarrow> browser" where
  "transfer_progress now dn failed bytes fs finished b =
     (let b1 = b\<lparr>bw_last_progress := now, bw_stalled := False, bw_fraction := progress_fraction dn failed bytes b,
                bw_bytes_done := bytes, bw_speed := sum_list (map fp_speed_bps fs)\<rparr>;
          b2 = foldl (\<lambda>b f. on_item (set_active (fp_done f) (fp_speed_bps f)) (fp_id f) b) b1 fs
      in case finished of None \<Rightarrow> b2 | Some (i, ok) \<Rightarrow> on_item (set_finished ok) i b2)"

definition transfer_finished :: "browser \<Rightarrow> browser \<times> command list" where
  "transfer_finished b =
     request_list (b\<lparr>bw_transferring := False, bw_stalled := False, bw_bar := False, bw_rows := [], bw_items := [],
       bw_speed := 0\<rparr>)"

definition cancel_row :: "u64 \<Rightarrow> browser \<Rightarrow> browser \<times> command list" where
  "cancel_row i b =
     (case map_of (bw_items b) i of
        None \<Rightarrow> (b, [])
      | Some it \<Rightarrow> if i \<in> set (bw_rows b) \<and> cancellable it then (on_item set_cancelled i b, [CancelFile i]) else (b, []))"

definition STALL_AFTER :: rat where
  "STALL_AFTER = 3"

definition check_stall :: "rat \<Rightarrow> browser \<Rightarrow> browser" where
  "check_stall now b =
     (if \<not> bw_transferring b then b else b\<lparr>bw_stalled := STALL_AFTER \<le> now - bw_last_progress b\<rparr>)"

text \<open>
  What a row of the transfers dialog and its three totals show; a fraction or a speed that is formatted as a
  decimal is left as a number, \<open>None\<close> where the row keeps the old fraction or the label is a dash.
\<close>

record row_view =
  rv_status :: string
  rv_class :: string
  rv_fraction :: "rat option"
  rv_cancel :: bool

definition size_of_total :: "nat \<Rightarrow> nat \<Rightarrow> string" where
  "size_of_total dn whole = human_size dn @ '' / '' @ human_size whole"

definition populate_row :: "transfer_item \<Rightarrow> row_view" where
  "populate_row it =
     (case ti_state it of
        Queued \<Rightarrow> \<lparr>rv_status = ''Waiting'', rv_class = ''dim-label'', rv_fraction = Some 0, rv_cancel = cancellable it\<rparr>
      | Active \<Rightarrow>
          \<lparr>rv_status = size_of_total (ti_done it) (ti_total it) @ dot_sep @ human_size (nat \<lfloor>ti_speed it\<rfloor>) @ ''/s'',
           rv_class = [],
           rv_fraction = Some (if 0 < ti_total it then of_nat (ti_done it) / of_nat (ti_total it) else 0),
           rv_cancel = cancellable it\<rparr>
      | Done \<Rightarrow> \<lparr>rv_status = ''Done'', rv_class = ''success'', rv_fraction = Some 1, rv_cancel = cancellable it\<rparr>
      | Failed \<Rightarrow> \<lparr>rv_status = ''Failed'', rv_class = ''error'', rv_fraction = None, rv_cancel = cancellable it\<rparr>
      | Cancelled \<Rightarrow>
          \<lparr>rv_status = ''Cancelled'', rv_class = ''dim-label'', rv_fraction = Some 0, rv_cancel = cancellable it\<rparr>)"

record stats_view =
  sv_mbps :: "rat option"
  sv_transferred :: string
  sv_eta :: string

definition update_stats_widgets :: "rat \<Rightarrow> browser \<Rightarrow> stats_view" where
  "update_stats_widgets now b =
     (let transferred = size_of_total (bw_bytes_done b) (bw_total_bytes b);
          remaining = bw_total_bytes b - bw_bytes_done b in
      if bw_stalled b then
        \<lparr>sv_mbps = None, sv_transferred = transferred,
         sv_eta = ''Stalled for '' @ human_eta (Some (now - bw_last_progress b))\<rparr>
      else
        \<lparr>sv_mbps = (if 0 < bw_speed b then Some (bw_speed b * 8 / 1000000) else None), sv_transferred = transferred,
         sv_eta = (if 0 < bw_speed b \<and> 0 < remaining then human_eta (Some (of_nat remaining / bw_speed b)) else ''-'')\<rparr>)"

section \<open>What the user does\<close>

datatype ui_action =
    Activate remote_entry
  | CrumbClick nat
  | CrumbDrop "remote_entry list" string nat
  | RowDrop "remote_entry list" string remote_entry
  | Refresh
  | SearchText string
  | SearchTimer
  | NewFolderName string
  | RenameTo remote_entry string
  | UploadPaths "string list list"
  | DownloadTo "remote_entry list" "string list"
  | DeleteConfirmed "remote_entry list"
  | AskInfo remote_entry
  | AskSize remote_entry
  | CancelRow u64
  | CancelEverything
  | SpinnerTimer u64
  | StallTick rat

definition ui_step :: "(string \<Rightarrow> string) \<Rightarrow> ui_action \<Rightarrow> browser \<Rightarrow> browser \<times> command list" where
  "ui_step lower a b =
     (case a of
        Activate e \<Rightarrow> activate_row lower e b
      | CrumbClick i \<Rightarrow> if i < length (bw_path b) then crumb_clicked lower i b else (b, [])
      | CrumbDrop sel key i \<Rightarrow>
          (b, if i < length (bw_path b) then perform_move sel key (snd (bw_path b ! i)) b else [])
      | RowDrop sel key dest \<Rightarrow> (b, drop_on_row sel key dest b)
      | Refresh \<Rightarrow> request_list b
      | SearchText s \<Rightarrow> (set_search lower s b, [])
      | SearchTimer \<Rightarrow> (search_timer lower b, [])
      | NewFolderName s \<Rightarrow> (b, new_folder s b)
      | RenameTo e s \<Rightarrow> (b, rename_entry_cmd e s)
      | UploadPaths ps \<Rightarrow> (b, upload_cmd ps b)
      | DownloadTo es dest \<Rightarrow> (b, download_cmd es dest)
      | DeleteConfirmed es \<Rightarrow> (b, delete_cmd es)
      | AskInfo e \<Rightarrow> (b, info_cmd e)
      | AskSize e \<Rightarrow> (b, size_cmd e)
      | CancelRow i \<Rightarrow> cancel_row i b
      | CancelEverything \<Rightarrow> (b, [CancelTransfers])
      | SpinnerTimer g \<Rightarrow> (spinner_timeout g b, [])
      | StallTick now \<Rightarrow> (check_stall now b, []))"

section \<open>The window\<close>

datatype toast = ToastText string | ToastError string error

record window =
  wn_browser :: browser
  wn_stack :: string
  wn_subtitle :: string
  wn_busy :: bool
  wn_disconnect_visible :: bool
  wn_folder_info :: "folder_info option"
  wn_toasts :: "toast list"

definition finished_message :: "nat \<Rightarrow> nat \<Rightarrow> nat \<Rightarrow> string" where
  "finished_message uploaded downloaded failed =
     (let parts = (if 0 < uploaded then [''Uploaded '' @ nat_str uploaded @ '' file(s)''] else []) @
                  (if 0 < downloaded then [''Downloaded '' @ nat_str downloaded @ '' file(s)''] else []);
          msg = (case parts of [] \<Rightarrow> ''Transfer complete'' | [p] \<Rightarrow> p | p # q # ps \<Rightarrow> p @ dot_sep @ q)
      in msg @ (if 0 < failed then dot_sep @ nat_str failed @ '' failed'' else []))"

definition sizes_message :: "u64 \<Rightarrow> u64 \<Rightarrow> string" where
  "sizes_message p e = ''Size: '' @ human_size (unat p) @ '' ('' @ human_size (unat e) @ '' on disk)''"

definition say :: "toast \<Rightarrow> window \<Rightarrow> window" where
  "say t w = w\<lparr>wn_toasts := wn_toasts w @ [t]\<rparr>"

definition with_page :: "browser \<times> command list \<Rightarrow> window \<Rightarrow> window \<times> command list" where
  "with_page r w = (w\<lparr>wn_browser := fst r\<rparr>, snd r)"

definition handle_event :: "(string \<Rightarrow> string) \<Rightarrow> rat \<Rightarrow> event \<Rightarrow> window \<Rightarrow> window \<times> command list" where
  "handle_event lower now ev w =
     (let b = wn_browser w in
      case ev of
        Connected label e2ee \<Rightarrow>
          with_page (reset_to_root lower b)
            (w\<lparr>wn_busy := False, wn_subtitle := (if e2ee then label @ dot_sep @ ''encrypted'' else label),
               wn_disconnect_visible := True, wn_stack := ''browser''\<rparr>)
      | ConnectFailed e \<Rightarrow> (say (ToastError [] e) (w\<lparr>wn_busy := False\<rparr>), [])
      | Listed prefix es \<Rightarrow> (w\<lparr>wn_browser := set_listing lower prefix es b\<rparr>, [])
      | ListFailed e \<Rightarrow> (say (ToastError [] e) (w\<lparr>wn_browser := finish_loading b\<rparr>), [])
      | TransferStarted tf tb fs \<Rightarrow> (w\<lparr>wn_browser := transfer_started now tf tb fs b\<rparr>, [])
      | TransferExtended tf tb fs \<Rightarrow> (w\<lparr>wn_browser := transfer_extended tf tb fs b\<rparr>, [])
      | TransferProgress dn failed bytes fs finished \<Rightarrow>
          (w\<lparr>wn_browser := transfer_progress now dn failed bytes fs finished b\<rparr>, [])
      | TransferFinished up dl failed errors \<Rightarrow>
          (case with_page (transfer_finished b) w of (w', cmds) \<Rightarrow>
             (let w1 = say (ToastText (finished_message up dl failed)) w' in
              (case errors of [] \<Rightarrow> w1 | (name, e) # es \<Rightarrow> say (ToastError name e) w1, cmds)))
      | FolderCreated \<Rightarrow> with_page (request_list b) (say (ToastText ''Folder created'') w)
      | Deleted n \<Rightarrow> with_page (request_list b) (say (ToastText (''Deleted '' @ nat_str n @ '' object(s)'')) w)
      | Moved n \<Rightarrow> with_page (request_list b) (say (ToastText (''Moved '' @ nat_str n @ '' item(s)'')) w)
      | Renamed \<Rightarrow> with_page (request_list b) w
      | SizeCalculated p e \<Rightarrow> with_page (request_list b) (say (ToastText (sizes_message p e)) w)
      | FolderInfoEv info \<Rightarrow> (w\<lparr>wn_folder_info := Some info\<rparr>, [])
      | Toast m \<Rightarrow> (say (ToastText m) w, [])
      | ToastErr m e \<Rightarrow> (say (ToastError m e) w, []))"

definition disconnect_clicked :: "window \<Rightarrow> window \<times> command list" where
  "disconnect_clicked w =
     (w\<lparr>wn_subtitle := [], wn_disconnect_visible := False, wn_stack := ''connect''\<rparr>, [Disconnect])"

text \<open>What the window reacts to: the worker's events and the user's actions on the page.\<close>

datatype stimulus = FromWorker rat event | ByUser ui_action | DisconnectClick

definition window_step :: "(string \<Rightarrow> string) \<Rightarrow> window \<Rightarrow> stimulus \<Rightarrow> window" where
  "window_step lower w s =
     (case s of
        FromWorker now ev \<Rightarrow> fst (handle_event lower now ev w)
      | ByUser a \<Rightarrow> w\<lparr>wn_browser := fst (ui_step lower a (wn_browser w))\<rparr>
      | DisconnectClick \<Rightarrow> fst (disconnect_clicked w))"

definition window_cmds :: "(string \<Rightarrow> string) \<Rightarrow> window \<Rightarrow> stimulus \<Rightarrow> command list" where
  "window_cmds lower w s =
     (case s of
        FromWorker now ev \<Rightarrow> snd (handle_event lower now ev w)
      | ByUser a \<Rightarrow> snd (ui_step lower a (wn_browser w))
      | DisconnectClick \<Rightarrow> snd (disconnect_clicked w))"

definition window_new :: "rat \<Rightarrow> window" where
  "window_new now = \<lparr>wn_browser = browser_new now, wn_stack = ''connect'', wn_subtitle = [], wn_busy = False,
     wn_disconnect_visible = False, wn_folder_info = None, wn_toasts = []\<rparr>"

end
