(* ===== verification/Browser_Correct.thy ===== *)
theory Browser_Correct
  imports Browser
begin

text \<open>
  Invariants of the browser page over every sequence of worker events and user actions (\<open>window_step\<close>),
  by the locale \<open>inv_machine\<close>: what is shown is the filtered listing of the folder the breadcrumbs
  name, a cancelled row stays cancelled; and the commands the page sends for a move.
\<close>

section \<open>What is shown\<close>

lemma page_frames [simp]:
  "bw_path (rebuild_store lower b) = bw_path b" "bw_entries (rebuild_store lower b) = bw_entries b"
  "bw_list_pending (rebuild_store lower b) = bw_list_pending b" "bw_fraction (rebuild_store lower b) = bw_fraction b"
  "bw_search_timer (rebuild_store lower b) = bw_search_timer b" "bw_search_timer (rebuild_breadcrumbs b) = bw_search_timer b"
  "bw_search (rebuild_store lower b) = bw_search b" "bw_items (rebuild_store lower b) = bw_items b"
  "bw_path (rebuild_breadcrumbs b) = bw_path b" "bw_entries (rebuild_breadcrumbs b) = bw_entries b"
  "bw_list_pending (rebuild_breadcrumbs b) = bw_list_pending b" "bw_fraction (rebuild_breadcrumbs b) = bw_fraction b"
  "bw_search (rebuild_breadcrumbs b) = bw_search b" "bw_shown (rebuild_breadcrumbs b) = bw_shown b"
  "bw_items (rebuild_breadcrumbs b) = bw_items b"
  "bw_path (set_search lower s b) = bw_path b" "bw_entries (set_search lower s b) = bw_entries b"
  "bw_list_pending (set_search lower s b) = bw_list_pending b" "bw_fraction (set_search lower s b) = bw_fraction b"
  "bw_items (set_search lower s b) = bw_items b"
  "bw_path (search_timer lower b) = bw_path b" "bw_entries (search_timer lower b) = bw_entries b"
  "bw_list_pending (search_timer lower b) = bw_list_pending b" "bw_items (search_timer lower b) = bw_items b"
  by (simp_all add: rebuild_store_def rebuild_breadcrumbs_def set_search_def search_timer_def)

lemma row_frames [simp]:
  "bw_path (on_item f i b) = bw_path b" "bw_entries (on_item f i b) = bw_entries b"
  "bw_list_pending (on_item f i b) = bw_list_pending b" "bw_fraction (on_item f i b) = bw_fraction b"
  "bw_search_timer (on_item f i b) = bw_search_timer b" "bw_search_timer (add_row b p) = bw_search_timer b"
  "bw_search (on_item f i b) = bw_search b" "bw_shown (on_item f i b) = bw_shown b"
  "bw_path (add_row b p) = bw_path b" "bw_entries (add_row b p) = bw_entries b"
  "bw_list_pending (add_row b p) = bw_list_pending b" "bw_fraction (add_row b p) = bw_fraction b"
  "bw_search (add_row b p) = bw_search b" "bw_shown (add_row b p) = bw_shown b"
  by (simp_all add: on_item_def add_row_def split: option.splits)

text \<open>Two pages that agree on what navigation works with.\<close>

definition same_view :: "browser \<Rightarrow> browser \<Rightarrow> bool" where
  "same_view b c \<longleftrightarrow> bw_path c = bw_path b \<and> bw_entries c = bw_entries b \<and> bw_list_pending c = bw_list_pending b \<and>
     bw_search c = bw_search b \<and> bw_search_timer c = bw_search_timer b \<and> bw_shown c = bw_shown b"

lemma foldl_same_view:
  "(\<And>b x. same_view b (f b x)) \<Longrightarrow> same_view b (foldl f b xs)"
  by (induction xs arbitrary: b) (auto simp: same_view_def)

lemma foldl_fraction:
  "(\<And>b x. bw_fraction (f b x) = bw_fraction b) \<Longrightarrow> bw_fraction (foldl f b xs) = bw_fraction b"
  by (induction xs arbitrary: b) auto

lemma append_rows_view: "same_view b (append_transfer_rows fs b)" "bw_fraction (append_transfer_rows fs b) = bw_fraction b"
  unfolding append_transfer_rows_def by (rule foldl_same_view foldl_fraction, simp add: same_view_def)+

lemma transfer_views:
  "same_view b (transfer_started now tf tb fs b)" "same_view b (transfer_extended tf tb fs b)"
  "same_view b (transfer_progress now dn failed bytes fs fin b)" "same_view b (fst (cancel_row i b))"
  "same_view b (check_stall now b)" "same_view b (spinner_timeout g b)"
proof -
  note A = append_rows_view(1) [unfolded same_view_def]
  show "same_view b (transfer_started now tf tb fs b)" "same_view b (transfer_extended tf tb fs b)"
    by (simp_all add: transfer_started_def transfer_extended_def same_view_def A)
  have "same_view c (foldl (\<lambda>b f. on_item (set_active (fp_done f) (fp_speed_bps f)) (fp_id f) b) c fs)" for c
    by (rule foldl_same_view) (simp add: same_view_def)
  then show "same_view b (transfer_progress now dn failed bytes fs fin b)"
    by (auto simp: transfer_progress_def Let_def same_view_def split: option.splits)
  show "same_view b (fst (cancel_row i b))" by (simp add: cancel_row_def same_view_def split: option.splits)
  show "same_view b (check_stall now b)" "same_view b (spinner_timeout g b)"
    by (simp_all add: check_stall_def spinner_timeout_def same_view_def)
qed

lemma filtered_view: "same_view b c \<Longrightarrow> filtered lower c = filtered lower b"
  by (simp add: same_view_def filtered_def)

text \<open>The state of a page that shows a listing of \<open>tr\<close>.\<close>

definition view_ok :: "(string \<Rightarrow> string) \<Rightarrow> browser \<Rightarrow> bool" where
  "view_ok lower b \<longleftrightarrow> bw_path b \<noteq> [] \<and> hd (bw_path b) = ([], []) \<and> (\<not> bw_search_timer b \<longrightarrow> bw_shown b = filtered lower b) \<and>
     0 \<le> bw_fraction b \<and> bw_fraction b \<le> 1"

text \<open>What makes the rows of a folder out of date, or new: a connection, a listing of that folder, a change of the
  store the worker reports, a refresh.\<close>

definition relists :: "string \<Rightarrow> stimulus \<Rightarrow> bool" where
  "relists prefix s =
     (case s of
        FromWorker _ ev \<Rightarrow>
          (case ev of
             Listed p _ \<Rightarrow> p = prefix
           | Connected _ _ \<Rightarrow> True | TransferFinished _ _ _ _ \<Rightarrow> True | FolderCreated \<Rightarrow> True | Deleted _ \<Rightarrow> True
           | Moved _ \<Rightarrow> True | Renamed \<Rightarrow> True | SizeCalculated _ _ \<Rightarrow> True
           | _ \<Rightarrow> False)
      | ByUser a \<Rightarrow> a = Refresh
      | DisconnectClick \<Rightarrow> False)"

text \<open>The rows are those of the last listing of the folder, which nothing has outdated since.\<close>

definition latest :: "stimulus list \<Rightarrow> string \<Rightarrow> remote_entry list \<Rightarrow> bool" where
  "latest tr prefix es \<longleftrightarrow>
     (prefix = [] \<and> es = [] \<and> (\<forall>s \<in> set tr. \<not> relists prefix s)) \<or>
     (\<exists>pre now post. tr = pre @ FromWorker now (Listed prefix es) # post \<and> (\<forall>s \<in> set post. \<not> relists prefix s))"

definition fresh :: "stimulus list \<Rightarrow> browser \<Rightarrow> bool" where
  "fresh tr b \<longleftrightarrow> bw_list_pending b \<or> latest tr (current_prefix b) (bw_entries b)"

lemma latest_snoc: "latest tr p es \<Longrightarrow> \<not> relists p s \<Longrightarrow> latest (tr @ [s]) p es"
  unfolding latest_def by (elim disjE exE conjE, rule disjI1, simp, rule disjI2) (force intro: exI [of _ "_ @ [s]"])

lemma latest_listed: "latest (tr @ [FromWorker now (Listed p es)]) p es"
  unfolding latest_def by (intro disjI2 exI [of _ tr] exI [of _ now] exI [of _ "[]"]) simp

lemma current_prefix_path: "bw_path c = bw_path b \<Longrightarrow> current_prefix c = current_prefix b"
  by (simp add: current_prefix_def)

lemma view_ok_view: "same_view b c \<Longrightarrow> 0 \<le> bw_fraction c \<Longrightarrow> bw_fraction c \<le> 1 \<Longrightarrow> view_ok lower b \<Longrightarrow> view_ok lower c"
  using filtered_view [of b c lower] by (simp add: view_ok_def same_view_def)

lemma clamp01_bounds: "0 \<le> clamp01 x" "clamp01 x \<le> 1"
  by (auto simp: clamp01_def)

lemma set_search_view_ok:
  "view_ok lower b \<Longrightarrow> view_ok lower (set_search lower s b)" "view_ok lower b \<Longrightarrow> view_ok lower (search_timer lower b)"
  by (simp_all add: view_ok_def set_search_def search_timer_def rebuild_store_def filtered_def)

lemma request_list_page:
  "bw_list_pending (fst (request_list b))" "view_ok lower b \<Longrightarrow> view_ok lower (fst (request_list b))"
  by (simp_all add: request_list_def view_ok_def filtered_def)

lemma request_fresh: "fresh tr (fst (request_list b))"
  by (simp add: fresh_def request_list_page(1))

lemma rebuild_shows: "bw_shown (rebuild_store lower b) = filtered lower (rebuild_store lower b)"
  by (simp add: rebuild_store_def filtered_def)

lemma fresh_core:
  assumes "bw_path c = bw_path b" "bw_entries c = bw_entries b" "bw_list_pending c = bw_list_pending b"
    and "fresh tr b" "\<not> relists (current_prefix b) s"
  shows "fresh (tr @ [s]) c"
  using assms latest_snoc current_prefix_path [OF assms(1)] by (auto simp: fresh_def)

lemma fresh_view:
  "same_view b c \<Longrightarrow> fresh tr b \<Longrightarrow> \<not> relists (current_prefix b) s \<Longrightarrow> fresh (tr @ [s]) c"
  using fresh_core by (simp add: same_view_def)

lemma goto_view_ok:
  assumes "view_ok lower b" "p \<noteq> []" "hd p = ([], [])"
  shows "view_ok lower (fst (request_list (b\<lparr>bw_path := p\<rparr>)))"
  by (rule request_list_page(2)) (use assms in \<open>simp add: view_ok_def filtered_def\<close>)

lemma navigation_view_ok:
  assumes "view_ok lower b"
  shows "view_ok lower (fst (activate_row lower e b))" "view_ok lower (fst (crumb_clicked lower i b))"
    and "view_ok lower (fst (reset_to_root lower b))"
proof -
  have p: "bw_path b \<noteq> []" "hd (bw_path b) = ([], [])" using assms by (auto simp: view_ok_def)
  note v = set_search_view_ok(1) [OF assms, of "[]"]
  show "view_ok lower (fst (activate_row lower e b))"
    using assms v p by (simp add: activate_row_def Let_def goto_view_ok)
  show "view_ok lower (fst (crumb_clicked lower i b))"
    using v p by (simp add: crumb_clicked_def Let_def goto_view_ok take_Suc)
  show "view_ok lower (fst (reset_to_root lower b))"
    unfolding reset_to_root_def
    by (rule request_list_page(2)) (use assms in \<open>simp add: view_ok_def rebuild_shows\<close>)
qed

lemma progress_bounds:
  "bw_fraction (transfer_progress now dn failed bytes fs fin b) = progress_fraction dn failed bytes b"
proof -
  have "bw_fraction (foldl (\<lambda>b f. on_item (set_active (fp_done f) (fp_speed_bps f)) (fp_id f) b) c fs) = bw_fraction c" for c
    by (rule foldl_fraction) simp
  then show ?thesis by (simp add: transfer_progress_def Let_def split: option.splits)
qed

lemma view_frames:
  "bw_fraction (transfer_extended tf tb fs b) = bw_fraction b" "bw_fraction (transfer_started now tf tb fs b) = 0"
  "bw_fraction (fst (cancel_row i b)) = bw_fraction b" "bw_fraction (check_stall now b) = bw_fraction b"
  "bw_fraction (spinner_timeout g b) = bw_fraction b"
  by (simp_all add: transfer_extended_def transfer_started_def append_rows_view(2) cancel_row_def check_stall_def
      spinner_timeout_def split: option.splits)

lemma transfer_view_ok:
  assumes "view_ok lower b"
  shows "view_ok lower (transfer_extended tf tb fs b)" "view_ok lower (transfer_started now tf tb fs b)"
    and "view_ok lower (fst (cancel_row i b))" "view_ok lower (check_stall t b)" "view_ok lower (spinner_timeout g b)"
    and "view_ok lower (transfer_progress now dn failed bytes fs fin b)"
  using assms transfer_views [where b = b]
  by (auto intro!: view_ok_view [where b = b] simp: view_frames progress_bounds progress_fraction_def clamp01_bounds)
    (auto simp: view_ok_def)

lemma listing_view_ok:
  "view_ok lower b \<Longrightarrow> view_ok lower (set_listing lower p es b)" "view_ok lower b \<Longrightarrow> view_ok lower (finish_loading b)"
  "view_ok lower b \<Longrightarrow> view_ok lower (fst (transfer_finished b))"
proof -
  show "view_ok lower b \<Longrightarrow> view_ok lower (set_listing lower p es b)"
    by (simp add: set_listing_def view_ok_def rebuild_shows finish_loading_def)
  show "view_ok lower b \<Longrightarrow> view_ok lower (finish_loading b)"
    by (simp add: view_ok_def finish_loading_def filtered_def)
  show "view_ok lower (fst (transfer_finished b))" if "view_ok lower b"
    unfolding transfer_finished_def by (rule request_list_page(2)) (use that in \<open>simp add: view_ok_def filtered_def\<close>)
qed

lemma ui_view_ok:
  assumes "view_ok lower b"
  shows "view_ok lower (fst (ui_step lower a b))"
  using assms by (cases a) (simp_all add: ui_step_def navigation_view_ok request_list_page(2) set_search_view_ok
      transfer_view_ok)

lemma say_page [simp]: "wn_browser (say t w) = wn_browser w"
  by (simp add: say_def)

lemma event_view_ok:
  assumes "view_ok lower (wn_browser w)"
  shows "view_ok lower (wn_browser (fst (handle_event lower now ev w)))"
  using assms by (cases ev) (simp_all add: handle_event_def Let_def with_page_def navigation_view_ok
      request_list_page(2) listing_view_ok transfer_view_ok split: list.splits prod.splits)

lemma window_view_ok:
  assumes "view_ok lower (wn_browser w)"
  shows "view_ok lower (wn_browser (window_step lower w s))"
  using assms by (cases s) (simp_all add: window_step_def event_view_ok ui_view_ok disconnect_clicked_def)

section \<open>Which folder the rows come from\<close>

lemma fresh_append: "fresh tr b \<Longrightarrow> \<not> relists (current_prefix b) s \<Longrightarrow> fresh (tr @ [s]) b"
  by (rule fresh_core) simp_all

lemma set_listing_fresh:
  assumes "fresh tr b"
  shows "fresh (tr @ [FromWorker now (Listed p es)]) (set_listing lower p es b)"
proof (cases "p = current_prefix b")
  case True
  then have "current_prefix (set_listing lower p es b) = p" "bw_entries (set_listing lower p es b) = es"
    by (simp_all add: set_listing_def current_prefix_def rebuild_store_def finish_loading_def)
  then show ?thesis by (simp add: fresh_def latest_listed)
qed (use assms in \<open>simp add: set_listing_def fresh_append relists_def\<close>)

lemma transfer_fresh:
  assumes "fresh tr b" "\<not> relists (current_prefix b) s"
  shows "fresh (tr @ [s]) (transfer_extended tf tb fs b)" "fresh (tr @ [s]) (transfer_started now tf tb fs b)"
    and "fresh (tr @ [s]) (fst (cancel_row i b))" "fresh (tr @ [s]) (check_stall t b)" "fresh (tr @ [s]) (spinner_timeout g b)"
    and "fresh (tr @ [s]) (transfer_progress now dn failed bytes fs fin b)"
  using transfer_views [where b = b] assms fresh_view by blast+

lemma ui_fresh:
  assumes "fresh tr b"
  shows "fresh (tr @ [ByUser a]) (fst (ui_step lower a b))"
proof (cases "a = Refresh")
  case False
  then have q: "\<not> relists (current_prefix b) (ByUser a)" by (simp add: relists_def)
  have "fresh (tr @ [ByUser a]) (set_search lower s b)" "fresh (tr @ [ByUser a]) (search_timer lower b)" for s
    by (rule fresh_core [OF _ _ _ assms q]; simp)+
  with False show ?thesis using transfer_fresh [OF assms q] fresh_append [OF assms q]
    by (cases a) (simp_all add: ui_step_def activate_row_def crumb_clicked_def Let_def request_fresh)
qed (simp add: ui_step_def request_fresh)

lemma event_fresh:
  assumes "fresh tr (wn_browser w)" "\<forall>e. ev \<noteq> ListFailed e"
  shows "fresh (tr @ [FromWorker now ev]) (wn_browser (fst (handle_event lower now ev w)))"
proof (cases "relists (current_prefix (wn_browser w)) (FromWorker now ev)")
  case True
  then show ?thesis
    by (cases ev) (simp_all add: relists_def handle_event_def Let_def with_page_def reset_to_root_def transfer_finished_def
        request_fresh set_listing_fresh [OF assms(1)] split: list.splits prod.splits)
next
  case False
  note q = transfer_fresh [OF assms(1) False] fresh_append [OF assms(1) False]
  show ?thesis
    using assms(2) q False by (cases ev) (simp_all add: handle_event_def Let_def with_page_def reset_to_root_def transfer_finished_def
        request_fresh set_listing_fresh [OF assms(1)] split: list.splits prod.splits)
qed

definition failed_listing :: "stimulus \<Rightarrow> bool" where
  "failed_listing s = (case s of FromWorker _ (ListFailed _) \<Rightarrow> True | _ \<Rightarrow> False)"

lemma window_fresh:
  assumes "fresh tr (wn_browser w)" "\<not> failed_listing s"
  shows "fresh (tr @ [s]) (wn_browser (window_step lower w s))"
proof (cases s)
  case (FromWorker now ev)
  with assms(2) have "\<forall>e. ev \<noteq> ListFailed e" by (auto simp: failed_listing_def)
  with FromWorker assms(1) show ?thesis by (simp add: window_step_def event_fresh)
qed (use assms in \<open>simp_all add: window_step_def ui_fresh disconnect_clicked_def fresh_append relists_def\<close>)

text \<open>The window beside the stimuli it has seen.\<close>

definition traced :: "(string \<Rightarrow> string) \<Rightarrow> stimulus list \<times> window \<Rightarrow> stimulus \<Rightarrow> stimulus list \<times> window" where
  "traced lower x s = (fst x @ [s], window_step lower (snd x) s)"

lemma traced_run: "foldl (traced lower) (tr, w) ss = (tr @ ss, foldl (window_step lower) w ss)"
  by (induction ss arbitrary: tr w) (simp_all add: traced_def)

interpretation shown: inv_machine "window_step lower" "\<lambda>w. view_ok lower (wn_browser w)" "\<lambda>_ _. True" for lower
  by unfold_locales (rule window_view_ok)

interpretation source: inv_machine "traced lower" "\<lambda>x. fresh (fst x) (wn_browser (snd x))" "\<lambda>_ s. \<not> failed_listing s"
  for lower
  by unfold_locales (simp add: traced_def window_fresh)

lemma source_admissible: "\<forall>s \<in> set ss. \<not> failed_listing s \<Longrightarrow> source.admissible lower x ss"
  by (induction ss arbitrary: x) simp_all

lemma window_new_ok: "view_ok lower (wn_browser (window_new now))" "fresh [] (wn_browser (window_new now))"
  by (simp_all add: window_new_def browser_new_def view_ok_def fresh_def latest_def filtered_def current_prefix_def rebuild_breadcrumbs_def)

text \<open>What the window shows after any sequence of worker events and user actions: the breadcrumbs
  start at the root, the rows are the page's entries filtered by the search text (but for the delay of the search
  entry after a change of its text), and the progress bar's
  fraction is between 0 and 1.\<close>

theorem shown_rows:
  "let b = wn_browser (foldl (window_step lower) (window_new now) ss)
   in bw_path b \<noteq> [] \<and> hd (bw_path b) = ([], []) \<and> (bw_search_timer b \<or> bw_shown b = filtered lower b) \<and> 0 \<le> bw_fraction b \<and> bw_fraction b \<le> 1"
proof -
  have "view_ok lower (wn_browser (foldl (window_step lower) (window_new now) ss))"
    by (rule shown.run_inv_free) (simp_all add: window_new_ok)
  then show ?thesis by (auto simp: view_ok_def Let_def)
qed

text \<open>C12. As long as no listing has failed, a page that is not waiting for a listing shows the rows of the
  last \<open>Listed\<close> event for exactly the folder its breadcrumbs name, after which there has been no connection,
  no change of the store reported by the worker and no refresh; or no rows, in the root of a window that has
  seen none of these. The event carries the folder but no connection, so this says when the listing arrived,
  not which connection it was read over.\<close>

theorem rows_of_current_folder:
  assumes "\<forall>s \<in> set ss. \<not> failed_listing s"
    and "b = wn_browser (foldl (window_step lower) (window_new now) ss)" "\<not> bw_list_pending b"
  shows "(\<exists>pre t post. ss = pre @ FromWorker t (Listed (current_prefix b) (bw_entries b)) # post \<and>
        (\<forall>s \<in> set post. \<not> relists (current_prefix b) s)) \<or>
     current_prefix b = [] \<and> bw_entries b = [] \<and> (\<forall>s \<in> set ss. \<not> relists [] s)"
proof -
  have "fresh ss b"
    using source.run_inv [where s = "([], window_new now)", OF _ source_admissible, OF _ assms(1), of lower] window_new_ok(2)
    by (simp add: traced_run assms(2))
  with assms(3) have "latest ss (current_prefix b) (bw_entries b)" by (simp add: fresh_def)
  then show ?thesis unfolding latest_def by metis
qed

text \<open>A listing of the root that an earlier connection was still reading when the user disconnected is taken for
  the new connection's: its rows are shown, and a deletion confirmed on them goes to the new connection's worker
  with the keys of the old one.\<close>

theorem late_listing_of_other_connection:
  "let b = wn_browser (foldl (window_step lower) w [DisconnectClick, FromWorker t1 (Connected lbl e), FromWorker t2 (Listed [] es)])
   in bw_shown b = filter (\<lambda>e. lower [] = [] \<or> str_contains (lower []) (lower (re_name e))) es \<and> bw_entries b = es \<and>
     \<not> bw_list_pending b"
  by (simp add: Let_def window_step_def disconnect_clicked_def handle_event_def with_page_def reset_to_root_def
      request_list_def rebuild_breadcrumbs_def set_search_def rebuild_store_def set_listing_def current_prefix_def
      finish_loading_def filtered_def)

text \<open>When it fails, the rows of the folder the user has left stay under the breadcrumbs of the new one,
  where they can be selected, and an upload goes to the new one.\<close>

text \<open>A listing that fails after the user opened a folder leaves the breadcrumbs at the new folder and the
  rows of the old one on the page.\<close>

theorem failed_listing_shows_other_folder:
  assumes "re_is_dir e" "bw_search (wn_browser w) = []"
    and "b = wn_browser (foldl (window_step lower) w [ByUser (Activate e), FromWorker t (ListFailed err)])"
  shows "current_prefix b = re_key e \<and> bw_entries b = bw_entries (wn_browser w) \<and> bw_shown b = bw_shown (wn_browser w) \<and>
     \<not> bw_list_pending b \<and> upload_cmd [p] b = [Upload [p] (re_key e)]"
  using assms by (simp add: window_step_def ui_step_def activate_row_def set_search_def request_list_def
      handle_event_def finish_loading_def current_prefix_def upload_cmd_def rebuild_breadcrumbs_def Let_def)

section \<open>Cancelled rows\<close>

definition row_cancelled :: "u64 \<Rightarrow> browser \<Rightarrow> bool" where
  "row_cancelled i b = (case map_of (bw_items b) i of None \<Rightarrow> False | Some it \<Rightarrow> ti_state it = Cancelled)"

text \<open>Stimuli that neither add the row anew nor end the batch.\<close>

definition keeps_row :: "u64 \<Rightarrow> stimulus \<Rightarrow> bool" where
  "keeps_row i s =
     (case s of
        FromWorker _ (TransferStarted _ _ fs) \<Rightarrow> i \<notin> fp_id ` set fs
      | FromWorker _ (TransferExtended _ _ fs) \<Rightarrow> i \<notin> fp_id ` set fs
      | FromWorker _ (TransferFinished _ _ _ _) \<Rightarrow> False
      | _ \<Rightarrow> True)"

lemma row_cancelled_items: "bw_items c = bw_items b \<Longrightarrow> row_cancelled i c = row_cancelled i b"
  by (simp add: row_cancelled_def)

lemma add_row_cancelled: "fp_id f \<noteq> i \<Longrightarrow> row_cancelled i (add_row b f) = row_cancelled i b"
  by (simp add: row_cancelled_def add_row_def update_conv')

lemma append_rows_cancelled:
  "i \<notin> fp_id ` set fs \<Longrightarrow> row_cancelled i (append_transfer_rows fs b) = row_cancelled i b"
  unfolding append_transfer_rows_def by (induction fs arbitrary: b) (auto simp: add_row_cancelled)

lemma on_item_cancelled:
  "(\<And>it. ti_state it = Cancelled \<Longrightarrow> ti_state (f it) = Cancelled) \<Longrightarrow> row_cancelled i b \<Longrightarrow> row_cancelled i (on_item f j b)"
  by (auto simp: row_cancelled_def on_item_def update_conv' split: option.splits)

lemma foldl_cancelled:
  "(\<And>b x. row_cancelled i b \<Longrightarrow> row_cancelled i (f b x)) \<Longrightarrow> row_cancelled i b \<Longrightarrow> row_cancelled i (foldl f b xs)"
  by (induction xs arbitrary: b) auto

lemma progress_cancelled:
  assumes "row_cancelled i b"
  shows "row_cancelled i (transfer_progress now dn failed bytes fs fin b)"
proof -
  have "row_cancelled i (b\<lparr>bw_last_progress := now, bw_stalled := False, bw_fraction := progress_fraction dn failed bytes b,
      bw_bytes_done := bytes, bw_speed := sum_list (map fp_speed_bps fs)\<rparr>)"
    using assms by (simp add: row_cancelled_def)
  then have "row_cancelled i (foldl (\<lambda>b f. on_item (set_active (fp_done f) (fp_speed_bps f)) (fp_id f) b)
      (b\<lparr>bw_last_progress := now, bw_stalled := False, bw_fraction := progress_fraction dn failed bytes b,
      bw_bytes_done := bytes, bw_speed := sum_list (map fp_speed_bps fs)\<rparr>) fs)"
    by (rule foldl_cancelled [rotated]) (rule on_item_cancelled, simp_all add: set_active_def)
  then show ?thesis
    by (auto simp: transfer_progress_def Let_def split: option.splits intro!: on_item_cancelled simp: set_finished_def)
qed

lemma navigation_items [simp]:
  "bw_items (fst (request_list b)) = bw_items b" "bw_items (fst (activate_row lower e b)) = bw_items b"
  "bw_items (fst (crumb_clicked lower k b)) = bw_items b" "bw_items (fst (reset_to_root lower b)) = bw_items b"
  "bw_items (set_listing lower p es b) = bw_items b" "bw_items (finish_loading b) = bw_items b"
  "bw_items (spinner_timeout g b) = bw_items b" "bw_items (check_stall t b) = bw_items b"
  by (simp_all add: request_list_def activate_row_def crumb_clicked_def reset_to_root_def set_listing_def finish_loading_def
      spinner_timeout_def check_stall_def Let_def)

lemma navigation_cancelled [simp]:
  "row_cancelled i (fst (request_list b)) = row_cancelled i b"
  "row_cancelled i (fst (activate_row lower e b)) = row_cancelled i b"
  "row_cancelled i (fst (crumb_clicked lower k b)) = row_cancelled i b"
  "row_cancelled i (fst (reset_to_root lower b)) = row_cancelled i b"
  "row_cancelled i (set_listing lower p es b) = row_cancelled i b"
  "row_cancelled i (finish_loading b) = row_cancelled i b" "row_cancelled i (spinner_timeout g b) = row_cancelled i b"
  "row_cancelled i (check_stall t b) = row_cancelled i b" "row_cancelled i (set_search lower s b) = row_cancelled i b"
  "row_cancelled i (search_timer lower b) = row_cancelled i b"
  by (simp_all add: row_cancelled_def)

lemma cancel_row_cancelled: "row_cancelled i b \<Longrightarrow> row_cancelled i (fst (cancel_row j b))"
  by (auto simp: cancel_row_def split: option.splits intro!: on_item_cancelled simp: set_cancelled_def)

lemma ui_cancelled: "row_cancelled i b \<Longrightarrow> row_cancelled i (fst (ui_step lower a b))"
  by (cases a) (simp_all add: ui_step_def cancel_row_cancelled)

lemma batch_cancelled:
  "i \<notin> fp_id ` set fs \<Longrightarrow> row_cancelled i b \<Longrightarrow> row_cancelled i (transfer_started now tf tb fs b)"
  "i \<notin> fp_id ` set fs \<Longrightarrow> row_cancelled i b \<Longrightarrow> row_cancelled i (transfer_extended tf tb fs b)"
proof -
  assume i: "i \<notin> fp_id ` set fs" and b: "row_cancelled i b"
  note A = append_rows_cancelled [OF i]
  have "row_cancelled i (transfer_started now tf tb fs b) = row_cancelled i (append_transfer_rows fs (b\<lparr>bw_total_files := tf,
      bw_total_bytes := tb, bw_bytes_done := 0, bw_speed := 0, bw_fraction := 0, bw_transferring := True, bw_stalled := False,
      bw_last_progress := now, bw_rows := []\<rparr>))"
    unfolding transfer_started_def by (rule row_cancelled_items) simp
  also have "\<dots>" unfolding A using b by (simp add: row_cancelled_def)
  finally show "row_cancelled i (transfer_started now tf tb fs b)" .
  have "row_cancelled i (transfer_extended tf tb fs b) = row_cancelled i (append_transfer_rows fs (b\<lparr>bw_total_files := tf,
      bw_total_bytes := tb, bw_transferring := True\<rparr>))"
    unfolding transfer_extended_def by (rule row_cancelled_items) simp
  also have "\<dots>" unfolding A using b by (simp add: row_cancelled_def)
  finally show "row_cancelled i (transfer_extended tf tb fs b)" .
qed

lemma event_cancelled:
  assumes "row_cancelled i (wn_browser (w :: window))" "keeps_row i (FromWorker now ev)"
  shows "row_cancelled i (wn_browser (fst (handle_event lower now ev w)))"
  using assms by (cases ev) (simp_all add: handle_event_def Let_def with_page_def keeps_row_def batch_cancelled
      progress_cancelled)

interpretation cancelled_row: inv_machine "window_step lower" "\<lambda>w. row_cancelled i (wn_browser w)" "\<lambda>_ s. keeps_row i s"
  for lower i
proof
  fix w :: window and s
  assume "row_cancelled i (wn_browser w)" "keeps_row i s"
  then show "row_cancelled i (wn_browser (window_step lower w s))"
    by (cases s) (simp_all add: window_step_def event_cancelled ui_cancelled disconnect_clicked_def)
qed

lemma cancelled_admissible: "\<forall>s \<in> set ss. keeps_row i s \<Longrightarrow> cancelled_row.admissible lower i w ss"
  by (induction ss arbitrary: w) simp_all

lemma cancel_row_first: "cancel_row i b = (c, [CancelFile i]) \<Longrightarrow> row_cancelled i c"
  by (auto simp: cancel_row_def row_cancelled_def on_item_def update_conv' set_cancelled_def split: option.splits if_splits)

text \<open>The commands the window sends over a run.\<close>

fun window_run :: "(string \<Rightarrow> string) \<Rightarrow> window \<Rightarrow> stimulus list \<Rightarrow> command list" where
  "window_run lower w [] = []"
| "window_run lower w (s # ss) = window_cmds lower w s @ window_run lower (window_step lower w s) ss"

text \<open>The one command that cancels a file comes from its row's button, on a row still cancellable.\<close>

lemma page_cancels:
  "CancelFile i \<in> set (snd (ui_step lower a b)) \<Longrightarrow> \<not> row_cancelled i b"
  by (cases a) (auto simp: ui_step_def activate_row_def crumb_clicked_def request_list_def Let_def perform_move_def
      drop_on_row_def new_folder_def rename_entry_cmd_def upload_cmd_def download_cmd_def delete_cmd_def info_cmd_def
      size_cmd_def cancel_row_def row_cancelled_def cancellable_def split: if_splits option.splits)

lemma event_cancels: "CancelFile i \<notin> set (snd (handle_event lower now ev w))"
  by (cases ev) (auto simp: handle_event_def Let_def with_page_def reset_to_root_def transfer_finished_def request_list_def
      split: list.splits)

lemma window_cancels: "row_cancelled i (wn_browser w) \<Longrightarrow> CancelFile i \<notin> set (window_cmds lower w s)"
  using page_cancels by (cases s) (auto simp: window_cmds_def event_cancels disconnect_clicked_def)

lemma run_cancels:
  "row_cancelled i (wn_browser (w :: window)) \<Longrightarrow> \<forall>s \<in> set ss. keeps_row i s \<Longrightarrow> CancelFile i \<notin> set (window_run lower w ss)"
  by (induction ss arbitrary: w) (simp_all add: window_cancels cancelled_row.step_inv)

text \<open>C18. A row whose cancel button sent its command stays cancelled whatever the worker still reports of the
  file (late progress, its end), and its button sends nothing again, until the batch ends.\<close>

theorem cancelled_row_stays:
  assumes "window_cmds lower (w :: window) (ByUser (CancelRow i)) = [CancelFile i]" "\<forall>s \<in> set ss. keeps_row i s"
    and "w1 = window_step lower w (ByUser (CancelRow i))"
  shows "row_cancelled i (wn_browser (foldl (window_step lower) w1 ss)) \<and> CancelFile i \<notin> set (window_run lower w1 ss)"
proof -
  have "row_cancelled i (wn_browser w1)"
    using assms(1,3) cancel_row_first [of i "wn_browser w" "fst (cancel_row i (wn_browser w))"]
    by (cases "cancel_row i (wn_browser w)") (auto simp: window_cmds_def window_step_def ui_step_def)
  then show ?thesis using cancelled_row.run_inv [OF _ cancelled_admissible] run_cancels assms(2) by blast
qed

section \<open>Moves\<close>

lemma leaf_no_slash: "slash \<notin> set (leaf_of key)"
  by (simp add: leaf_of_def last_part_no_slash)

lemma dir_key_ends: "\<exists>u. dir_key key = u @ [slash]"
  by (metis append_butlast_last_id dir_key_def ends_with_def)

text \<open>A folder's target, which is its destination, its last name and a slash, is below the folder only when the
  destination is.\<close>

lemma target_outside:
  assumes "starts_with (u @ [c]) (d @ l @ [c])" "c \<notin> set l" "d @ l @ [c] \<noteq> u @ [c]"
  shows "starts_with (u @ [c]) d"
proof -
  obtain t where t: "d @ l @ [c] = u @ [c] @ t" using assms(1) by (auto simp: starts_with_iff)
  with assms(3) have "t \<noteq> []" by auto
  then obtain t' where t': "t = t' @ [last t]" by (metis append_butlast_last_id)
  have "d @ l @ [c] = (u @ [c] @ t') @ [last t]" using t t' by simp
  then have "d @ l = u @ [c] @ t'" by (metis append.assoc append1_eq_conv)
  then have eq: "d @ l = (u @ [c]) @ t'" by simp
  from append_eq_append_conv2 [THEN iffD1, OF eq]
  obtain v where "d = (u @ [c]) @ v \<or> d @ v = u @ [c] \<and> l = v @ t'" by blast
  then show ?thesis
  proof
    assume v: "d @ v = u @ [c] \<and> l = v @ t'"
    have "v = []"
    proof (rule ccontr)
      assume "v \<noteq> []"
      with v have "last v = c" by (metis last_appendR last_snoc)
      with \<open>v \<noteq> []\<close> v assms(2) show False by (metis UnCI last_in_set set_append)
    qed
    with v show ?thesis by (simp add: starts_with_iff)
  qed (simp add: starts_with_iff)
qed

text \<open>C21. Dropping rows on a folder never moves anything into itself or below itself. Every item the page sends
  is one of those dragged and, be it a folder or a file, does not have the key of the destination, slash at the
  end or not. Of the items sent the worker leaves a folder that contains the destination where it is; every
  rename it does for another one changes the key, takes the item from its own key, and takes a folder to a
  place that is not below the folder.\<close>

theorem move_never_into_itself:
  assumes "Move items dest \<in> set (perform_move sel key prefix b)" "item \<in> set items"
  shows "dest = prefix \<and> item \<in> set (dragged_items sel key b) \<and>
     trim_end_matches slash (re_key item) \<noteq> trim_end_matches slash dest \<and>
     (re_is_dir item \<and> starts_with (dir_key (re_key item)) dest \<longrightarrow> move_target dest item = None) \<and>
     (\<forall>src dst. move_target dest item = Some (src, dst) \<longrightarrow> src \<noteq> dst \<and>
        src = (if re_is_dir item then dir_key (re_key item) else re_key item) \<and>
        (re_is_dir item \<longrightarrow> \<not> starts_with src dst))"
proof -
  obtain u where u: "dir_key (re_key item) = u @ [slash]" using dir_key_ends by blast
  have "\<not> starts_with src dst" if m: "move_target dest item = Some (src, dst)" "re_is_dir item" for src dst
  proof -
    have "src = u @ [slash]" "dst = dest @ leaf_of (re_key item) @ [slash]" "dst \<noteq> src" "\<not> starts_with src dest"
      using m unfolding move_target_def Let_def by (auto simp: u split: if_splits)
    then show ?thesis using target_outside leaf_no_slash by metis
  qed
  moreover have "src \<noteq> dst \<and> src = (if re_is_dir item then dir_key (re_key item) else re_key item)"
    if "move_target dest item = Some (src, dst)" for src dst
    using that by (auto simp: move_target_def Let_def split: if_splits)
  moreover have "re_is_dir item \<and> starts_with (dir_key (re_key item)) dest \<longrightarrow> move_target dest item = None"
    by (simp add: move_target_def Let_def)
  moreover have "dest = prefix \<and> item \<in> set (dragged_items sel key b) \<and>
      trim_end_matches slash (re_key item) \<noteq> trim_end_matches slash dest"
    using assms by (auto simp: perform_move_def Let_def split: if_splits)
  ultimately show ?thesis by blast
qed

section \<open>Witnesses\<close>

definition page_entry :: "string \<Rightarrow> string \<Rightarrow> bool \<Rightarrow> remote_entry" where
  "page_entry key name dir = \<lparr>re_key = key, re_name = name, re_is_dir = dir, re_size = 0, re_modified = None,
     re_encrypted = None\<rparr>"

definition page_listing :: "remote_entry list" where
  "page_listing = [page_entry ''a/'' ''a'' True, page_entry ''b'' ''b'' False]"

definition page_stimuli :: "stimulus list" where
  "page_stimuli = [FromWorker 0 (Connected ''s3'' False), FromWorker 1 (Listed [] page_listing)]"

definition page_window :: window where
  "page_window = foldl (window_step id) (window_new 0) page_stimuli"

lemmas page_eval = page_window_def page_stimuli_def page_listing_def page_entry_def window_new_def browser_new_def
  window_step_def handle_event_def with_page_def reset_to_root_def set_listing_def request_list_def rebuild_store_def
  rebuild_breadcrumbs_def set_search_def finish_loading_def current_prefix_def filtered_def

lemma page_window_state:
  "bw_entries (wn_browser page_window) = page_listing" "\<not> bw_list_pending (wn_browser page_window)"
  "bw_search (wn_browser page_window) = []" "bw_path (wn_browser page_window) = [([], [])]"
  by (simp_all add: page_eval)

theorem rows_of_current_folder_witness:
  "let b = wn_browser page_window
   in bw_entries b = page_listing \<and> (\<exists>pre t post. page_stimuli = pre @ FromWorker t (Listed [] page_listing) # post)"
proof -
  have "\<forall>s \<in> set page_stimuli. \<not> failed_listing s" by (simp add: page_stimuli_def failed_listing_def)
  from rows_of_current_folder [OF this, of "wn_browser page_window" id 0] page_window_state
  show ?thesis by (auto simp: page_window_def [symmetric] current_prefix_def page_listing_def Let_def)
qed

theorem failed_listing_shows_other_folder_witness:
  "let b = wn_browser (foldl (window_step id) page_window
      [ByUser (Activate (page_entry ''a/'' ''a'' True)), FromWorker 2 (ListFailed (Other ''refused''))])
   in current_prefix b = ''a/'' \<and> map re_key (bw_entries b) = [''a/'', ''b''] \<and>
     upload_cmd [[''x'']] b = [Upload [[''x'']] ''a/'']"
  using failed_listing_shows_other_folder [OF _ page_window_state(3) refl, of "page_entry ''a/'' ''a'' True" id 2
      "Other ''refused''" "[''x'']"]
  by (simp add: page_window_state Let_def) (simp add: page_listing_def page_entry_def)

definition page_progress :: "u64 \<Rightarrow> file_progress" where
  "page_progress i = \<lparr>fp_id = i, fp_name = ''b'', fp_kind = transfer_kind.Download, fp_done = 5, fp_total = 9, fp_speed_bps = 1\<rparr>"

definition page_transfer :: window where
  "page_transfer = window_step id page_window (FromWorker 2 (TransferStarted 1 9 [page_progress 3]))"

theorem cancelled_row_stays_witness:
  "row_cancelled 3 (wn_browser (foldl (window_step id) (window_step id page_transfer (ByUser (CancelRow 3)))
      [FromWorker 3 (TransferProgress 0 0 5 [page_progress 3] (Some (3, True))), ByUser (CancelRow 3)]))"
proof -
  have "window_cmds id page_transfer (ByUser (CancelRow 3)) = [CancelFile 3]"
    by (simp add: window_cmds_def page_transfer_def window_step_def handle_event_def transfer_started_def Let_def
        append_transfer_rows_def add_row_def page_progress_def TransferItem_new_def ui_step_def cancel_row_def
        cancellable_def update_conv')
  from cancelled_row_stays [OF this _ refl, of "[FromWorker 3 (TransferProgress 0 0 5 [page_progress 3] (Some (3, True))),
      ByUser (CancelRow 3)]"]
  show ?thesis by (simp add: keeps_row_def)
qed

theorem move_never_into_itself_witness:
  "\<exists>items dest from to. perform_move page_listing ''a/'' ''c/'' (wn_browser page_window) = [Move items dest] \<and>
     map re_key items = [''a/'', ''b''] \<and> move_target dest (hd items) = Some (from, to) \<and> \<not> starts_with from to"
proof -
  have m: "perform_move page_listing ''a/'' ''c/'' (wn_browser page_window) = [Move page_listing ''c/'']"
    by (simp add: perform_move_def dragged_items_def page_listing_def page_entry_def trim_end_matches_def)
  have t: "move_target ''c/'' (page_entry ''a/'' ''a'' True) = Some (''a/'', ''c/a/'')"
    by (simp add: move_target_def page_entry_def leaf_of_def dir_key_def ends_with_def trim_end_matches_def
        last_part_def split_on.simps starts_with_def)
  have "Move page_listing ''c/'' \<in> set (perform_move page_listing ''a/'' ''c/'' (wn_browser page_window))"
    "page_entry ''a/'' ''a'' True \<in> set page_listing" by (simp_all only: m) (simp_all add: page_listing_def)
  note move_never_into_itself [OF this, THEN conjunct2, THEN conjunct2, THEN conjunct2, THEN conjunct2, rule_format, OF t]
  then have "\<not> starts_with ''a/'' ''c/a/''" by (simp add: page_entry_def)
  with m t show ?thesis by (auto simp: page_listing_def page_entry_def)
qed

end
