(* ===== verification/Dialogs.thy ===== *)
theory Dialogs
  imports Browser
begin

text \<open>
  The connection page, the settings dialog and the folder information (\<^verbatim>\<open>src/src/ui/connection_page.rs\<close>,
  \<^verbatim>\<open>settings_dialog.rs\<close>, \<^verbatim>\<open>window.rs\<close>): what the form shows and sends, and what the spin rows let through.

  The form is a record of what its rows hold. A combo row holds the index of its choice, a spin row a
  number, here a rational. Which number an \<open>adw::SpinRow\<close> holds after \<open>set_value\<close> or an edit is up to the
  toolkit: a parameter \<open>G\<close> gives it from the range and the value. The page
  reads and writes the configuration of theory \<open>Settings\<close> and sends through the window of \<open>Browser\<close>.
\<close>

section \<open>Folder information\<close>

definition info_overhead :: "folder_info \<Rightarrow> u64" where
  "info_overhead info = saturating_sub (fin_encrypted_total info) (fin_plaintext_total info)"

definition info_overhead_pct :: "folder_info \<Rightarrow> rat" where
  "info_overhead_pct info =
     (if 0 < fin_plaintext_total info
      then of_nat (unat (info_overhead info)) / of_nat (unat (fin_plaintext_total info)) * 100 else 0)"

definition info_meta :: "(int \<Rightarrow> string option) \<Rightarrow> folder_info \<Rightarrow> string" where
  "info_meta fmt info =
     (let w = (case fin_computed info of
                 Some ms \<Rightarrow> ''size last calculated '' @ human_time fmt (Some (int (unat (ms div 1000))))
               | None \<Rightarrow> ''size not yet calculated'')
      in nat_str (fin_file_count info) @ '' file(s)'' @ dot_sep @ nat_str (fin_folder_count info) @ '' folder(s)'' @
         dot_sep @ w)"

definition MAX_ROWS :: nat where
  "MAX_ROWS = 500"

text \<open>An arrow between spaces and an ellipsis before one, in UTF-8.\<close>

definition arrow_sep :: string where
  "arrow_sep = [CHR '' '', CHR 0xE2, CHR 0x86, CHR 0x92, CHR '' '']"

definition ellipsis_and :: string where
  "ellipsis_and = [CHR 0xE2, CHR 0x80, CHR 0xA6] @ '' and ''"

text \<open>The rows of the list, each with its title and subtitle.\<close>

definition info_rows :: "folder_info \<Rightarrow> (string \<times> string) list" where
  "info_rows info =
     map (\<lambda>f. (fi_rel_path f, human_size (unat (fi_plaintext f)) @ arrow_sep @ human_size (unat (fi_encrypted f)) @ '' on disk''))
       (take MAX_ROWS (fin_files info)) @
     (if MAX_ROWS < length (fin_files info)
      then [(ellipsis_and @ nat_str (length (fin_files info) - MAX_ROWS) @ '' more file(s)'', [])] else []) @
     (if fin_files info = [] then [(''This folder contains no files.'', [])] else [])"

section \<open>Settings dialog\<close>

datatype setting_row =
    RUp | RDown | RDlLimit | RUlLimit | RRetries | RReconnect | RStall | RFlush | RThreshold | RPart

definition row_range :: "setting_row \<Rightarrow> rat \<times> rat" where
  "row_range r =
     (case r of
        RUp \<Rightarrow> (1, 64) | RDown \<Rightarrow> (1, 64) | RDlLimit \<Rightarrow> (0, 10000) | RUlLimit \<Rightarrow> (0, 10000)
      | RRetries \<Rightarrow> (0, 1000000) | RReconnect \<Rightarrow> (1, 600) | RStall \<Rightarrow> (0, 600) | RFlush \<Rightarrow> (1, 300)
      | RThreshold \<Rightarrow> (5, 4096) | RPart \<Rightarrow> (5, 512))"

type_synonym spin = "rat \<times> rat \<Rightarrow> rat \<Rightarrow> rat"

text \<open>The documentation of the row's \<open>GtkAdjustment\<close>: the value lies between the bounds; a whole number that
  does so is kept.\<close>

definition spin_law :: "spin \<Rightarrow> bool" where
  "spin_law G \<longleftrightarrow> (\<forall>rg v. fst rg \<le> snd rg \<longrightarrow> fst rg \<le> G rg v \<and> G rg v \<le> snd rg) \<and>
     (\<forall>rg n. fst rg \<le> of_nat n \<and> of_nat n \<le> snd rg \<longrightarrow> G rg (of_nat n) = of_nat n)"

definition row_initial :: "settings \<Rightarrow> setting_row \<Rightarrow> rat" where
  "row_initial s r =
     (case r of
        RUp \<Rightarrow> of_nat (upload_parallelism s) | RDown \<Rightarrow> of_nat (download_parallelism s)
      | RDlLimit \<Rightarrow> of_nat (unat (max_download_mbps s)) | RUlLimit \<Rightarrow> of_nat (unat (max_upload_mbps s))
      | RRetries \<Rightarrow> of_nat (unat (retries s)) | RReconnect \<Rightarrow> of_nat (unat (reconnect_interval_secs s))
      | RStall \<Rightarrow> of_nat (unat (stall_timeout_secs s)) | RFlush \<Rightarrow> of_nat (unat (manifest_flush_secs s))
      | RThreshold \<Rightarrow> of_nat (unat (multipart_threshold_mib s)) | RPart \<Rightarrow> of_nat (unat (part_size_mib s)))"

definition dialog_open :: "spin \<Rightarrow> settings \<Rightarrow> setting_row \<Rightarrow> rat" where
  "dialog_open G s r = G (row_range r) (row_initial s r)"

definition dialog_edit :: "spin \<Rightarrow> (setting_row \<Rightarrow> rat) \<Rightarrow> setting_row \<times> rat \<Rightarrow> setting_row \<Rightarrow> rat" where
  "dialog_edit G d e = d(fst e := G (row_range (fst e)) (snd e))"

text \<open>\<open>as\<close> from a float to an unsigned type cuts off the fraction and saturates.\<close>

definition cut :: "rat \<Rightarrow> 'a::len word" where
  "cut x = of_nat (min (nat \<lfloor>x\<rfloor>) (2 ^ LENGTH('a) - 1))"

definition dialog_closed :: "(setting_row \<Rightarrow> rat) \<Rightarrow> settings" where
  "dialog_closed d = \<lparr>
     upload_parallelism = unat (cut (d RUp) :: u64), download_parallelism = unat (cut (d RDown) :: u64),
     max_download_mbps = cut (d RDlLimit), max_upload_mbps = cut (d RUlLimit),
     multipart_threshold_mib = cut (d RThreshold), part_size_mib = cut (d RPart),
     retries = cut (d RRetries), reconnect_interval_secs = cut (d RReconnect),
     stall_timeout_secs = cut (d RStall), manifest_flush_secs = cut (d RFlush)\<rparr>"

text \<open>The dialog from opening to closing, and what the window does with its result.\<close>

definition run_dialog :: "spin \<Rightarrow> settings \<Rightarrow> (setting_row \<times> rat) list \<Rightarrow> settings" where
  "run_dialog G s edits = dialog_closed (foldl (dialog_edit G) (dialog_open G s) edits)"

definition settings_closed :: "conf_json \<Rightarrow> settings \<Rightarrow> conf \<Rightarrow> conf \<times> command list" where
  "settings_closed J new c = (Settings_save J new c, [SetSettings new])"

section \<open>The connection form\<close>

record form =
  fm_editing :: "string option"
  fm_title :: string
  fm_selected :: nat
  fm_name :: string
  fm_endpoint :: string
  fm_bucket :: string
  fm_access_key :: string
  fm_host :: string
  fm_port :: rat
  fm_username :: string
  fm_root_path :: string
  fm_key_path :: string
  fm_privileged :: bool
  fm_uid :: rat
  fm_gid :: rat
  fm_share :: string
  fm_domain :: string
  fm_secret :: string
  fm_e2ee :: bool
  fm_password :: string
  fm_remember :: bool

datatype field =
    FName | FEndpoint | FBucket | FAccessKey | FHost | FPort | FUsername | FRootPath | FKeyPath | FPrivileged | FUid
  | FGid | FShare | FDomain | FSecret | FEncryption | FPassword | FRemember

definition selected_kind :: "form \<Rightarrow> backend_kind" where
  "selected_kind f =
     (if fm_selected f = 0 then backend_kind.S3 else if fm_selected f = 1 then Sftp
      else if fm_selected f = 2 then Nfs else Smb)"

definition kind_index :: "backend_kind \<Rightarrow> nat" where
  "kind_index k = (case k of backend_kind.S3 \<Rightarrow> 0 | Sftp \<Rightarrow> 1 | Nfs \<Rightarrow> 2 | Smb \<Rightarrow> 3)"

text \<open>Which rows \<open>update_kind_ui\<close> shows, and the port it puts in.\<close>

definition field_shown :: "backend_kind \<Rightarrow> field \<Rightarrow> bool" where
  "field_shown kind x =
     (if x \<in> {FEndpoint, FBucket, FAccessKey} then kind = backend_kind.S3
      else if x \<in> {FHost, FPort, FRootPath} then kind \<noteq> backend_kind.S3
      else if x = FUsername then kind \<noteq> backend_kind.S3 \<and> (kind = Sftp \<or> kind = Smb)
      else if x = FKeyPath then kind = Sftp
      else if x \<in> {FUid, FGid, FPrivileged} then kind = Nfs
      else if x \<in> {FShare, FDomain} then kind = Smb
      else if x = FSecret then kind \<noteq> Nfs
      else True)"

definition update_kind_ui :: "spin \<Rightarrow> form \<Rightarrow> form" where
  "update_kind_ui G f =
     f\<lparr>fm_port := G (0, 65535) (case selected_kind f of Sftp \<Rightarrow> 22 | Smb \<Rightarrow> 445 | Nfs \<Rightarrow> 0 | backend_kind.S3 \<Rightarrow> fm_port f)\<rparr>"

text \<open>Choosing a kind runs \<open>update_kind_ui\<close> when the choice changes.\<close>

definition select_kind :: "spin \<Rightarrow> nat \<Rightarrow> form \<Rightarrow> form" where
  "select_kind G i f = (if i = fm_selected f then f else update_kind_ui G (f\<lparr>fm_selected := i\<rparr>))"

definition fill_form :: "spin \<Rightarrow> conf \<Rightarrow> connection_profile option \<Rightarrow> form \<Rightarrow> form" where
  "fill_form G c profile f =
     (let p = (case profile of Some p \<Rightarrow> p | None \<Rightarrow> ConnectionProfile_default);
          f1 = select_kind G (kind_index (cp_kind p))
                 (f\<lparr>fm_editing := map_option cp_name profile,
                    fm_title := (case profile of Some _ \<Rightarrow> ''Edit connection'' | None \<Rightarrow> ''Add connection'')\<rparr>);
          f2 = update_kind_ui G (f1\<lparr>fm_name := cp_name p, fm_endpoint := cp_endpoint p, fm_bucket := cp_bucket p,
                 fm_access_key := cp_access_key_id p, fm_host := cp_host p, fm_username := cp_username p,
                 fm_key_path := cp_key_path p, fm_root_path := cp_root_path p, fm_share := cp_share p,
                 fm_domain := cp_domain p, fm_privileged := cp_nfs_privileged_port p,
                 fm_uid := G (0, 4294967295) (of_nat (unat (cp_nfs_uid p))), fm_gid := G (0, 4294967295) (of_nat (unat (cp_nfs_gid p))),
                 fm_e2ee := cp_e2ee p, fm_password := [],
                 fm_secret := (case Option.bind profile (\<lambda>q. load_secret (cp_name q) c) of None \<Rightarrow> [] | Some s \<Rightarrow> s)\<rparr>)
      in f2\<lparr>fm_port := G (0, 65535) (of_nat (unat (cp_port p)))\<rparr>)"

definition nonempty_or :: "string \<Rightarrow> string \<Rightarrow> string" where
  "nonempty_or s fallback = (let t = trim s in if t = [] then fallback else t)"

definition profile_of_form :: "form \<Rightarrow> connection_profile" where
  "profile_of_form f = \<lparr>
     cp_name = nonempty_or (fm_name f) ''default'', cp_kind = selected_kind f,
     cp_endpoint = trim_end_matches slash (trim (fm_endpoint f)), cp_bucket = trim (fm_bucket f),
     cp_access_key_id = trim (fm_access_key f), cp_host = trim (fm_host f), cp_port = cut (fm_port f),
     cp_username = trim (fm_username f), cp_key_path = trim (fm_key_path f), cp_root_path = trim (fm_root_path f),
     cp_share = trim (fm_share f), cp_domain = trim (fm_domain f), cp_nfs_privileged_port = fm_privileged f,
     cp_nfs_uid = cut (fm_uid f), cp_nfs_gid = cut (fm_gid f), cp_e2ee = fm_e2ee f\<rparr>"

text \<open>What has to be filled in, with the row that gets the focus when it is empty.\<close>

definition required_fields :: "connection_profile \<Rightarrow> string \<Rightarrow> (string \<times> field) list" where
  "required_fields p secret =
     (case cp_kind p of
        backend_kind.S3 \<Rightarrow> [(cp_endpoint p, FEndpoint), (cp_bucket p, FBucket), (cp_access_key_id p, FAccessKey),
          (secret, FSecret)]
      | Sftp \<Rightarrow> [(cp_host p, FHost), (cp_username p, FUsername)] @
          (if cp_key_path p = [] then [(secret, FSecret)] else [])
      | Nfs \<Rightarrow> [(cp_host p, FHost), (cp_root_path p, FRootPath)]
      | Smb \<Rightarrow> [(cp_host p, FHost), (cp_share p, FShare), (cp_username p, FUsername), (secret, FSecret)])"

section \<open>The connection page\<close>

record ui_app =
  ap_window :: window
  ap_conf :: conf
  ap_form :: form
  ap_view :: string
  ap_profiles :: "connection_profile list"
  ap_focus :: "field option"
  ap_asking :: "(connection_profile \<times> string) option"

definition send_connect :: "connection_profile \<Rightarrow> string \<Rightarrow> string option \<Rightarrow> ui_app \<Rightarrow> ui_app \<times> command list" where
  "send_connect p secret password a =
     (a\<lparr>ap_window := (ap_window a)\<lparr>wn_busy := True\<rparr>\<rparr>, [Connect p secret password])"

definition rebuild_profile_rows :: "conf_json \<Rightarrow> ui_app \<Rightarrow> ui_app" where
  "rebuild_profile_rows J a = (case load_all J (ap_conf a) of (c, ps) \<Rightarrow> a\<lparr>ap_conf := c, ap_profiles := ps\<rparr>)"

definition show_start_view :: "spin \<Rightarrow> conf_json \<Rightarrow> ui_app \<Rightarrow> ui_app" where
  "show_start_view G J a =
     (case load_all J (ap_conf a) of (c, ps) \<Rightarrow>
        let a1 = rebuild_profile_rows J (a\<lparr>ap_conf := c\<rparr>) in
        if ps \<noteq> [] then a1\<lparr>ap_view := ''list''\<rparr>
        else a1\<lparr>ap_view := ''form'', ap_form := fill_form G (ap_conf a1) None (ap_form a1)\<rparr>)"

definition reset_page :: "spin \<Rightarrow> conf_json \<Rightarrow> ui_app \<Rightarrow> ui_app" where
  "reset_page G J a = show_start_view G J (rebuild_profile_rows J a)"

definition profile_subtitle :: "connection_profile \<Rightarrow> string" where
  "profile_subtitle p =
     (case cp_kind p of
        backend_kind.S3 \<Rightarrow> cp_bucket p @ dot_sep @ cp_endpoint p
      | Sftp \<Rightarrow> cp_username p @ ''@'' @ cp_host p @ '':'' @ nat_str (unat (cp_port p)) @ dot_sep @
          (if cp_root_path p = [] then ''~'' else cp_root_path p)
      | Nfs \<Rightarrow> cp_host p @ '':'' @ cp_root_path p
      | Smb \<Rightarrow> cp_username p @ ''@'' @ cp_host p @ ''/'' @ cp_share p)"

definition edit_profile :: "spin \<Rightarrow> connection_profile option \<Rightarrow> ui_app \<Rightarrow> ui_app" where
  "edit_profile G p a = a\<lparr>ap_form := fill_form G (ap_conf a) p (ap_form a), ap_view := ''form''\<rparr>"

definition delete_confirmed :: "conf_json \<Rightarrow> string \<Rightarrow> ui_app \<Rightarrow> ui_app" where
  "delete_confirmed J name a = rebuild_profile_rows J (a\<lparr>ap_conf := remove_profile J name (ap_conf a)\<rparr>)"

definition prompt_password :: "connection_profile \<Rightarrow> string \<Rightarrow> ui_app \<Rightarrow> ui_app \<times> command list" where
  "prompt_password p secret a = (a\<lparr>ap_asking := Some (p, secret)\<rparr>, [])"

text \<open>The Connect button of the prompt, which closes it; and the enter key, which keeps an empty prompt open.\<close>

definition answer_prompt :: "string \<Rightarrow> ui_app \<Rightarrow> ui_app \<times> command list" where
  "answer_prompt password a =
     (case ap_asking a of
        None \<Rightarrow> (a, [])
      | Some (p, secret) \<Rightarrow>
          let a1 = a\<lparr>ap_asking := None\<rparr> in
          if password = [] then (a1, []) else send_connect p secret (Some password) a1)"

definition activate_prompt :: "string \<Rightarrow> ui_app \<Rightarrow> ui_app \<times> command list" where
  "activate_prompt password a = (if password = [] then (a, []) else answer_prompt password a)"

definition connect_saved :: "spin \<Rightarrow> connection_profile \<Rightarrow> ui_app \<Rightarrow> ui_app \<times> command list" where
  "connect_saved G p a =
     (if cp_kind p = Nfs
      then if cp_e2ee p then prompt_password p [] a else send_connect p [] None a
      else case load_secret (cp_name p) (ap_conf a) of
        None \<Rightarrow> ((edit_profile G (Some p) a)\<lparr>ap_focus := Some FSecret\<rparr>, [])
      | Some secret \<Rightarrow> if cp_e2ee p then prompt_password p secret a else send_connect p secret None a)"

definition remember_profile :: "conf_json \<Rightarrow> connection_profile \<Rightarrow> string \<Rightarrow> ui_app \<Rightarrow> ui_app" where
  "remember_profile J p secret a =
     (let c1 = (case fm_editing (ap_form a) of
                  Some old \<Rightarrow> if old \<noteq> cp_name p then remove_profile J old (ap_conf a) else ap_conf a
                | None \<Rightarrow> ap_conf a);
          c2 = upsert_profile J p c1
      in case store_secret (cp_name p) secret c2 of
           (c3, Inr _) \<Rightarrow> a\<lparr>ap_conf := c3\<rparr>
         | (c3, Inl e) \<Rightarrow> a\<lparr>ap_conf := c3, ap_window := say (ToastError
             ''Couldn't save the secret to the keychain. You will be asked for it next time'' e) (ap_window a)\<rparr>)"

definition connect_from_form :: "conf_json \<Rightarrow> ui_app \<Rightarrow> ui_app \<times> command list" where
  "connect_from_form J a =
     (let f = ap_form a; p = profile_of_form f; secret = fm_secret f in
      case find (\<lambda>(v, x). v = []) (required_fields p secret) of
        Some (_, x) \<Rightarrow> (a\<lparr>ap_focus := Some x\<rparr>, [])
      | None \<Rightarrow>
          if cp_e2ee p \<and> fm_password f = [] then (a\<lparr>ap_focus := Some FPassword\<rparr>, [])
          else send_connect p secret (if cp_e2ee p then Some (fm_password f) else None)
                 (if fm_remember f then remember_profile J p secret a else a))"

text \<open>What the user does on the page: editing the form is a new form.\<close>

datatype connect_action =
    AddClicked | BackClicked | EditClicked connection_profile | DeleteProfile string | RowActivated connection_profile
  | Answered string | EntryActivated string | FormEdited form | KindSelected nat | ConnectClicked | SettingsClosed settings "(setting_row \<times> rat) list"
  | DisconnectPressed

definition connect_step :: "spin \<Rightarrow> conf_json \<Rightarrow> connect_action \<Rightarrow> ui_app \<Rightarrow> ui_app \<times> command list" where
  "connect_step G J act a =
     (case act of
        AddClicked \<Rightarrow> (edit_profile G None a, [])
      | BackClicked \<Rightarrow> (show_start_view G J a, [])
      | EditClicked p \<Rightarrow> (edit_profile G (Some p) a, [])
      | DeleteProfile name \<Rightarrow> (delete_confirmed J name a, [])
      | RowActivated p \<Rightarrow> connect_saved G p a
      | Answered s \<Rightarrow> answer_prompt s a
      | EntryActivated s \<Rightarrow> activate_prompt s a
      | FormEdited f \<Rightarrow> (a\<lparr>ap_form := f\<rparr>, [])
      | KindSelected i \<Rightarrow> (a\<lparr>ap_form := select_kind G i (ap_form a)\<rparr>, [])
      | ConnectClicked \<Rightarrow> connect_from_form J a
      | SettingsClosed s edits \<Rightarrow>
          (case settings_closed J (run_dialog G s edits) (ap_conf a) of (c, cmds) \<Rightarrow> (a\<lparr>ap_conf := c\<rparr>, cmds))
      | DisconnectPressed \<Rightarrow>
          (case disconnect_clicked (ap_window a) of (w, cmds) \<Rightarrow> (reset_page G J (a\<lparr>ap_window := w\<rparr>), cmds)))"

end
