(* ===== verification/Dialogs_Correct.thy ===== *)
theory Dialogs_Correct
  imports Dialogs
begin

text \<open>
  The settings dialog returns what its rows hold, within ranges in which the worker's arithmetic is exact, and keeps
  the settings nobody touched; the
  connection page sends \<open>Connect\<close> only when what the kind of storage needs is filled in, with a password
  exactly for encrypted storage; editing a saved connection without changing it gives it back; a
  connection that was remembered is sent again from the list.
\<close>

section \<open>Settings dialog\<close>

definition settings_ok :: "settings \<Rightarrow> bool" where
  "settings_ok s \<longleftrightarrow>
     upload_parallelism s \<in> {1..64} \<and> download_parallelism s \<in> {1..64} \<and>
     max_download_mbps s \<le> 10000 \<and> max_upload_mbps s \<le> 10000 \<and> retries s \<le> 1000000 \<and>
     1 \<le> reconnect_interval_secs s \<and> reconnect_interval_secs s \<le> 600 \<and> stall_timeout_secs s \<le> 600 \<and>
     1 \<le> manifest_flush_secs s \<and> manifest_flush_secs s \<le> 300 \<and>
     5 \<le> multipart_threshold_mib s \<and> multipart_threshold_mib s \<le> 4096 \<and> 5 \<le> part_size_mib s \<and> part_size_mib s \<le> 512"




lemma spin_keeps:
  "spin_law G \<Longrightarrow> fst rg \<le> of_nat n \<Longrightarrow> of_nat n \<le> snd rg \<Longrightarrow> G rg (of_nat n) = of_nat n"
  unfolding spin_law_def by blast



lemma cut_bounds:
  assumes "of_nat m \<le> x" "x \<le> of_nat n" "n < 2 ^ LENGTH('a)"
  shows "m \<le> unat (cut x :: 'a::len word)" "unat (cut x :: 'a word) \<le> n"
proof -
  have f: "m \<le> nat \<lfloor>x\<rfloor>" "nat \<lfloor>x\<rfloor> \<le> n" using assms by (simp_all add: le_nat_iff le_floor_iff nat_le_iff floor_le_iff)
  with assms(3) have "nat \<lfloor>x\<rfloor> < 2 ^ LENGTH('a)" by linarith
  then have "min (nat \<lfloor>x\<rfloor>) (2 ^ LENGTH('a) - 1) = nat \<lfloor>x\<rfloor>" by linarith
  with \<open>nat \<lfloor>x\<rfloor> < 2 ^ LENGTH('a)\<close> have "unat (cut x :: 'a word) = nat \<lfloor>x\<rfloor>"
    unfolding cut_def by (simp add: unsigned_of_nat take_bit_nat_eq_self)
  with f show "m \<le> unat (cut x :: 'a word)" "unat (cut x :: 'a word) \<le> n" by simp_all
qed

lemma cut_of_nat: "n < 2 ^ LENGTH('a) \<Longrightarrow> unat (cut (of_nat n) :: 'a::len word) = n"
  using cut_bounds [of n "of_nat n" n, where 'a = 'a] by simp

lemma range_ends:
  "\<exists>m n. row_range r = (of_nat m, of_nat n) \<and> n < 2 ^ 32"
  by (cases r) (auto simp: row_range_def intro: exI [of _ "0 :: nat"] exI [of _ "1 :: nat"] exI [of _ "5 :: nat"]
      exI [of _ "64 :: nat"] exI [of _ "10000 :: nat"] exI [of _ "1000000 :: nat"] exI [of _ "600 :: nat"]
      exI [of _ "300 :: nat"] exI [of _ "4096 :: nat"] exI [of _ "512 :: nat"])



lemma row_initial_closed:
  assumes "d r = of_nat n" "of_nat n \<le> snd (row_range r)"
  shows "row_initial (dialog_closed d) r = of_nat n"
proof -
  obtain m k where k: "row_range r = (of_nat m, of_nat k)" "k < 2 ^ 32" using range_ends by blast
  with assms(2) have n: "n < 2 ^ 32" by simp
  then have "unat (cut (of_nat n) :: u64) = n" "unat (cut (of_nat n) :: u32) = n"
    by (simp_all add: cut_of_nat)
  with assms(1) show ?thesis
    by (cases r) (simp_all add: row_initial_def dialog_closed_def del: of_nat_unat)
qed

lemma initial_within:
  assumes "settings_ok s"
  shows "\<exists>n. row_initial s r = of_nat n \<and> fst (row_range r) \<le> of_nat n \<and> of_nat n \<le> snd (row_range r)"
proof -
  have u: "(of_nat (unat w) :: rat) \<le> of_nat n \<longleftrightarrow> unat w \<le> n" "of_nat n \<le> (of_nat (unat w) :: rat) \<longleftrightarrow> n \<le> unat w"
    for w :: "'a::len word" and n by (rule of_nat_le_iff)+
  note n = u [of _ 10000] u [of _ 1000000] u [of _ 600] u [of _ 1] u [of _ 300] u [of _ 5] u [of _ 4096] u [of _ 512]
  show ?thesis
    using assms n
    by (cases r) (auto simp: row_initial_def row_range_def settings_ok_def word_le_nat_alt simp del: of_nat_unat)
qed

lemma untouched: "r \<notin> fst ` set edits \<Longrightarrow> foldl (dialog_edit G) d edits r = d r"
  by (induction edits arbitrary: d) (auto simp: dialog_edit_def)

lemma dialog_untouched:
  assumes "spin_law G" "settings_ok s" "r \<notin> fst ` set edits"
  shows "row_initial (run_dialog G s edits) r = row_initial s r"
proof -
  obtain n where n: "row_initial s r = of_nat n" "fst (row_range r) \<le> of_nat n" "of_nat n \<le> snd (row_range r)"
    using initial_within [OF assms(2)] by blast
  have "foldl (dialog_edit G) (dialog_open G s) edits r = of_nat n"
    using n spin_keeps [OF assms(1)] by (simp add: untouched [OF assms(3)] dialog_open_def)
  then show ?thesis unfolding run_dialog_def n(1) by (rule row_initial_closed) (rule n(3))
qed




lemma default_settings_ok: "settings_ok Settings_default"
  by (simp add: settings_ok_def Settings_default_def)

text \<open>Closing the dialog without an edit keeps settings that are within the ranges.\<close>

lemma settings_of_rows: "(\<And>r. row_initial s r = row_initial t r) \<Longrightarrow> s = t"
proof -
  assume r: "\<And>r. row_initial s r = row_initial t r"
  from r [of RUp] r [of RDown] r [of RDlLimit] r [of RUlLimit] r [of RRetries] r [of RReconnect] r [of RStall] r [of RFlush]
    r [of RThreshold] r [of RPart] show "s = t"
    by (intro settings.equality) (simp_all add: row_initial_def unsigned_word_eqI del: of_nat_unat)
qed

theorem dialog_unchanged:
  assumes "spin_law G" "settings_ok s"
  shows "run_dialog G s [] = s"
  by (rule settings_of_rows) (simp add: dialog_untouched [OF assms])

text \<open>A row that moves a number outside its range to the nearer end.\<close>

definition clamp_row :: spin where
  "clamp_row rg v = max (fst rg) (min (snd rg) v)"

lemma clamp_row_law: "spin_law clamp_row"
  by (auto simp: spin_law_def clamp_row_def)

theorem dialog_unchanged_witness: "run_dialog clamp_row Settings_default [] = Settings_default"
  by (rule dialog_unchanged [OF clamp_row_law default_settings_ok])


section \<open>Connecting\<close>

text \<open>The commands of a run of the page.\<close>

fun connect_run :: "spin \<Rightarrow> conf_json \<Rightarrow> ui_app \<Rightarrow> connect_action list \<Rightarrow> command list" where
  "connect_run G J a [] = []"
| "connect_run G J a (x # xs) = snd (connect_step G J x a) @ connect_run G J (fst (connect_step G J x a)) xs"

definition asks_encrypted :: "ui_app \<Rightarrow> bool" where
  "asks_encrypted a \<longleftrightarrow> (case ap_asking a of None \<Rightarrow> True | Some (p, _) \<Rightarrow> cp_e2ee p)"

text \<open>A \<open>Connect\<close> has a password exactly when the storage is encrypted, and then not an empty one.\<close>

definition password_fits :: "command \<Rightarrow> bool" where
  "password_fits c = (case c of Connect p _ pw \<Rightarrow> (case pw of None \<Rightarrow> \<not> cp_e2ee p | Some s \<Rightarrow> cp_e2ee p \<and> s \<noteq> []) | _ \<Rightarrow> True)"

lemma page_asking [simp]:
  "ap_asking (rebuild_profile_rows J a) = ap_asking a" "ap_asking (show_start_view G J a) = ap_asking a"
  "ap_asking (edit_profile G q a) = ap_asking a" "ap_asking (remember_profile J p secret a) = ap_asking a"
  "ap_asking (delete_confirmed J name a) = ap_asking a" "ap_asking (reset_page G J a) = ap_asking a"
  by (auto simp: reset_page_def rebuild_profile_rows_def show_start_view_def edit_profile_def remember_profile_def delete_confirmed_def
      Let_def split: prod.splits sum.splits option.splits)

lemma connect_step_asks: "asks_encrypted a \<Longrightarrow> asks_encrypted (fst (connect_step G J x a))"
  by (cases x) (auto simp: connect_step_def asks_encrypted_def answer_prompt_def activate_prompt_def connect_saved_def
      prompt_password_def send_connect_def connect_from_form_def disconnect_clicked_def Let_def split: option.splits prod.splits)

lemma connect_step_fits: "asks_encrypted a \<Longrightarrow> \<forall>c \<in> set (snd (connect_step G J x a)). password_fits c"
  by (cases x) (auto simp: connect_step_def asks_encrypted_def answer_prompt_def activate_prompt_def connect_saved_def
      prompt_password_def send_connect_def connect_from_form_def settings_closed_def disconnect_clicked_def password_fits_def Let_def
      split: option.splits prod.splits)

interpretation asking: inv_machine "\<lambda>a x. fst (connect_step G J x a)" asks_encrypted "\<lambda>_ _. True" for G J
  by unfold_locales (rule connect_step_asks)

lemma connect_run_fits: "asks_encrypted a \<Longrightarrow> \<forall>c \<in> set (connect_run G J a xs). password_fits c"
proof (induction xs arbitrary: a)
  case (Cons x xs)
  then show ?case using connect_step_fits [OF Cons.prems] asking.step_inv [OF Cons.prems TrueI] by fastforce
qed simp

text \<open>Every \<open>Connect\<close> the connection page sends, from the form, from a saved connection or from the
  password prompt, has a password exactly when the storage is encrypted, and then not the empty one, which
  the session would refuse.\<close>

theorem connect_password_fits:
  assumes "ap_asking a = None" "Connect p secret pw \<in> set (connect_run G J a xs)"
  shows "(cp_e2ee p \<longleftrightarrow> pw \<noteq> None) \<and> pw \<noteq> Some []"
  using connect_run_fits [of a G J xs] assms by (fastforce simp: asks_encrypted_def password_fits_def split: option.splits)

lemma required_fields_shown: "(v, x) \<in> set (required_fields p secret) \<Longrightarrow> field_shown (cp_kind p) x"
  by (auto simp: required_fields_def field_shown_def split: backend_kind.splits if_splits)

text \<open>The Connect button either sends one \<open>Connect\<close> with the form's profile, in which nothing its kind of storage
  requires is empty, or sends nothing and puts the focus on an empty row, one that this kind shows.\<close>

theorem connect_from_form_outcome:
  "case connect_from_form J a of (a', cmds) \<Rightarrow>
     let p = profile_of_form (ap_form a); secret = fm_secret (ap_form a) in
     (\<exists>pw. cmds = [Connect p secret pw] \<and> (\<forall>(v, x) \<in> set (required_fields p secret). v \<noteq> []) \<and> wn_busy (ap_window a')) \<or>
     (cmds = [] \<and> ap_conf a' = ap_conf a \<and> (\<exists>x. ap_focus a' = Some x \<and> field_shown (cp_kind p) x))"
proof -
  let ?p = "profile_of_form (ap_form a)" and ?s = "fm_secret (ap_form a)"
  show ?thesis
  proof (cases "find (\<lambda>(v, x). v = []) (required_fields ?p ?s)")
    case None
    then have "\<forall>(v, x) \<in> set (required_fields ?p ?s). v \<noteq> []" by (auto simp: find_None_iff)
    with None show ?thesis by (auto simp: connect_from_form_def Let_def send_connect_def field_shown_def)
  next
    case (Some y)
    then have "y \<in> set (required_fields ?p ?s)" by (metis find_Some_iff nth_mem)
    with Some show ?thesis
      by (cases y) (auto simp: connect_from_form_def Let_def dest: required_fields_shown)
  qed
qed

section \<open>Editing and remembering\<close>

definition trimmed :: "connection_profile \<Rightarrow> bool" where
  "trimmed p \<longleftrightarrow> cp_name p \<noteq> [] \<and>
     (\<forall>s \<in> {cp_name p, cp_endpoint p, cp_bucket p, cp_access_key_id p, cp_host p, cp_username p, cp_key_path p,
        cp_root_path p, cp_share p, cp_domain p}. trim s = s) \<and> \<not> ends_with slash (cp_endpoint p)"

lemma kind_index_selected: "fm_selected f = kind_index k \<Longrightarrow> selected_kind f = k"
  by (cases k) (simp_all add: kind_index_def selected_kind_def)

lemma filled_fields:
  fixes G c p f
  defines "f' \<equiv> fill_form G c (Some p) f"
  shows "selected_kind f' = cp_kind p" "fm_name f' = cp_name p" "fm_endpoint f' = cp_endpoint p" "fm_bucket f' = cp_bucket p"
    "fm_access_key f' = cp_access_key_id p" "fm_host f' = cp_host p" "fm_username f' = cp_username p"
    "fm_key_path f' = cp_key_path p" "fm_root_path f' = cp_root_path p" "fm_share f' = cp_share p"
    "fm_domain f' = cp_domain p" "fm_privileged f' = cp_nfs_privileged_port p" "fm_e2ee f' = cp_e2ee p"
    "fm_uid f' = G (0, 4294967295) (of_nat (unat (cp_nfs_uid p)))" "fm_gid f' = G (0, 4294967295) (of_nat (unat (cp_nfs_gid p)))"
    "fm_port f' = G (0, 65535) (of_nat (unat (cp_port p)))" "fm_editing f' = Some (cp_name p)"
    "fm_secret f' = (case load_secret (cp_name p) c of None \<Rightarrow> [] | Some s \<Rightarrow> s)"
proof -
  show "selected_kind f' = cp_kind p"
    by (rule kind_index_selected) (simp add: f'_def fill_form_def Let_def update_kind_ui_def select_kind_def)
qed (simp_all add: f'_def fill_form_def Let_def update_kind_ui_def select_kind_def del: of_nat_unat)

lemma word_rows:
  assumes "spin_law G"
  shows "cut (G (0, 65535) (of_nat (unat w))) = (w :: u16)" "cut (G (0, 4294967295) (of_nat (unat v))) = (v :: u32)"
proof -
  have b: "unat w \<le> 65535" "unat v \<le> 4294967295"
    using unsigned_less [of w, where ?'a = nat] unsigned_less [of v, where ?'a = nat] by simp_all
  then have "(of_nat (unat w) :: rat) \<le> 65535" "(of_nat (unat v) :: rat) \<le> 4294967295"
    by (simp_all del: of_nat_unat add: of_nat_le_iff [of _ "65535", where 'a = rat, simplified]
        of_nat_le_iff [of _ "4294967295", where 'a = rat, simplified])
  then have "G (0, 65535) (of_nat (unat w)) = of_nat (unat w)" "G (0, 4294967295) (of_nat (unat v)) = of_nat (unat v)"
    using spin_keeps [OF assms, of "(0, 65535)" "unat w"] spin_keeps [OF assms, of "(0, 4294967295)" "unat v"]
    by (simp_all del: of_nat_unat)
  moreover have "unat (cut (of_nat (unat w)) :: u16) = unat w" "unat (cut (of_nat (unat v)) :: u32) = unat v"
    by (rule cut_of_nat, rule unsigned_less)+
  ultimately show "cut (G (0, 65535) (of_nat (unat w))) = w" "cut (G (0, 4294967295) (of_nat (unat v))) = v"
    by (simp_all add: unsigned_word_eqI del: of_nat_unat)
qed

text \<open>Editing a saved connection: the form filled from a profile whose texts carry no white space around them
  and whose endpoint does not end in a slash, left as it is, gives that profile back, whatever it held before.\<close>

theorem edit_unchanged:
  assumes "spin_law G" "trimmed p"
  shows "profile_of_form (fill_form G c (Some p) f) = p"
  using assms(2) by (simp add: profile_of_form_def filled_fields word_rows [OF assms(1)] trimmed_def nonempty_or_def
      trim_end_no_match ends_with_def del: of_nat_unat)

text \<open>What a saved connection sends: NFS has no secret, an encrypted one asks for its password first.\<close>

definition saved_secret :: "connection_profile \<Rightarrow> string \<Rightarrow> string" where
  "saved_secret p secret = (if cp_kind p = Nfs then [] else secret)"

lemma connect_saved_known:
  assumes "load_secret (cp_name p) (ap_conf a) = Some secret"
  shows "\<not> cp_e2ee p \<Longrightarrow> snd (connect_saved G p a) = [Connect p (saved_secret p secret) None]"
    and "cp_e2ee p \<Longrightarrow> snd (connect_saved G p a) = [] \<and>
       (w \<noteq> [] \<longrightarrow> snd (answer_prompt w (fst (connect_saved G p a))) = [Connect p (saved_secret p secret) (Some w)])"
  using assms by (auto simp: connect_saved_def send_connect_def saved_secret_def prompt_password_def answer_prompt_def Let_def)

lemma store_secret_load:
  assumes "cf_keychain_up c"
  shows "store_secret n s c = (fst (store_secret n s c), Inr ())" "load_secret n (fst (store_secret n s c)) = Some s"
    and "cf_files (fst (store_secret n s c)) = cf_files c"
  using assms by (simp_all add: store_secret_def load_secret_def)

lemma load_all_files:
  assumes "cf_files d = cf_files c" "load_all J c = (c, ps)" "ps \<noteq> []"
    and "read_json (js_profiles_of J) [] ''profiles.json'' c = ps"
  shows "load_all J d = (d, ps)"
  using assms by (simp add: load_all_def Let_def read_json_def)

text \<open>C19. A connection that was remembered connects again: after \<open>Connect\<close> from the form with \<open>remember\<close> on, for a new
  connection or one edited under its name, on a writable configuration with a reachable keychain, the list
  holds the form's profile under its name. Activating it sends the command the form had sent, but with the
  empty secret for NFS, which has none; for an encrypted connection it sends nothing and asks for the
  password, and the same password as in the form makes it that command.\<close>

theorem remembered_connects_again:
  assumes "conf_json_correct J" "cf_writable (ap_conf a)" "cf_keychain_up (ap_conf a)"
    and "p = profile_of_form (ap_form a)" "fm_remember (ap_form a)" "fm_editing (ap_form a) \<in> {None, Some (cp_name p)}"
    and "load_all J (ap_conf a) = (c1, ps)" "js_profiles J (replace_or_push p ps) \<noteq> None"
    and "connect_from_form J a = (a', [Connect p secret pw])"
    and "b = rebuild_profile_rows J a'" "sent = [Connect p (if cp_kind p = Nfs then [] else secret) pw]"
  shows "find (\<lambda>q. cp_name q = cp_name p) (ap_profiles b) = Some p \<and>
    (case pw of
       None \<Rightarrow> \<not> cp_e2ee p \<and> snd (connect_saved G p b) = sent
     | Some w \<Rightarrow> cp_e2ee p \<and> snd (connect_saved G p b) = [] \<and> snd (answer_prompt w (fst (connect_saved G p b))) = sent)"
proof -
  let ?qs = "replace_or_push p ps" and ?c2 = "upsert_profile J p (ap_conf a)"
  let ?c3 = "fst (store_secret (cp_name p) secret ?c2)"
  note F = load_all_frame [OF assms(7)]
  have c2: "?c2 = save_all J ?qs c1" by (simp add: upsert_profile_def assms(7))
  have up: "cf_keychain_up ?c2" using F(3) assms(3) by (simp add: c2 save_all_def)
  have l2: "load_all J ?c2 = (?c2, ?qs)"
    unfolding c2 by (rule load_saved) (use assms F replace_or_push_names(3) in auto)
  have r2: "read_json (js_profiles_of J) [] ''profiles.json'' ?c2 = ?qs"
    unfolding c2 save_all_def by (rule read_write_json(1)) (use assms F in \<open>auto simp: conf_json_correct_def\<close>)
  note S = store_secret_load [OF up, of "cp_name p" secret]
  have l3: "load_all J ?c3 = (?c3, ?qs)" by (rule load_all_files [OF S(3) l2 replace_or_push_names(3) r2])
  have sent: "secret = fm_secret (ap_form a)" "ap_conf a' = ap_conf (remember_profile J p secret a)"
    "case pw of None \<Rightarrow> \<not> cp_e2ee p | Some w \<Rightarrow> cp_e2ee p \<and> w \<noteq> []"
    using assms(4,5,9) by (auto simp: connect_from_form_def Let_def send_connect_def split: option.splits if_splits)
  have "ap_conf (remember_profile J p secret a) = ?c3"
    using assms(6) S(1) by (auto simp: remember_profile_def Let_def split: prod.splits)
  with sent l3 have ps: "ap_profiles b = ?qs" "ap_conf b = ?c3"
    by (simp_all add: rebuild_profile_rows_def assms(10))
  then have l: "load_secret (cp_name p) (ap_conf b) = Some secret" using S(2) by simp
  show ?thesis
    using connect_saved_known [OF l, of G] sent(3) replace_or_push_find [of "cp_name p" p ps] ps(1)
    by (auto simp: assms(11) saved_secret_def split: option.splits)
qed

section \<open>Witnesses\<close>

definition demo_profile :: connection_profile where
  "demo_profile = ConnectionProfile_default\<lparr>cp_name := ''n'', cp_kind := Sftp, cp_host := ''h'', cp_username := ''u''\<rparr>"

definition demo_json :: conf_json where
  "demo_json = ref_conf_json\<lparr>js_profiles := (\<lambda>ps. if ps = [demo_profile] then Some ''D'' else None),
     js_profiles_of := (\<lambda>t. if t = ''D'' then Some [demo_profile] else None)\<rparr>"

definition demo_app :: ui_app where
  "demo_app = \<lparr>ap_window = window_new 0, ap_conf = empty_conf,
     ap_form = (fill_form clamp_row empty_conf (Some demo_profile) \<lparr>fm_editing = None, fm_title = [], fm_selected = 0, fm_name = [],
       fm_endpoint = [], fm_bucket = [], fm_access_key = [], fm_host = [], fm_port = 22, fm_username = [],
       fm_root_path = [], fm_key_path = [], fm_privileged = True, fm_uid = 1000, fm_gid = 1000, fm_share = [],
       fm_domain = [], fm_secret = [], fm_e2ee = False, fm_password = [], fm_remember = True\<rparr>)\<lparr>fm_secret := ''s''\<rparr>,
     ap_view = ''form'', ap_profiles = [], ap_focus = None, ap_asking = None\<rparr>"

lemma trim_letter: "trim [] = []" "trim ''n'' = ''n''" "trim ''h'' = ''h''" "trim ''u'' = ''u''"
  by (rule trim_nil) (rule trim_plain; simp)+

lemma demo_trimmed: "trimmed demo_profile"
  by (simp add: trimmed_def demo_profile_def ConnectionProfile_default_def trim_letter ends_with_def)

theorem edit_unchanged_witness:
  "profile_of_form (fill_form clamp_row empty_conf (Some demo_profile) (ap_form demo_app)) = demo_profile"
  by (rule edit_unchanged [OF clamp_row_law demo_trimmed])

lemma demo_form:
  "profile_of_form (ap_form demo_app) = demo_profile" "fm_secret (ap_form demo_app) = ''s''" "fm_remember (ap_form demo_app)"
  "fm_editing (ap_form demo_app) = Some ''n''"
proof -
  have s: "profile_of_form (f\<lparr>fm_secret := x\<rparr>) = profile_of_form f" for f x
    by (simp add: profile_of_form_def selected_kind_def)
  show "profile_of_form (ap_form demo_app) = demo_profile"
    by (simp add: demo_app_def s edit_unchanged [OF clamp_row_law demo_trimmed])
qed (simp_all add: demo_app_def fill_form_def Let_def update_kind_ui_def select_kind_def demo_profile_def)

lemma demo_connects:
  "\<exists>a'. connect_from_form demo_json demo_app = (a', [Connect demo_profile ''s'' None])"
proof -
  have r: "required_fields demo_profile ''s'' = [(''h'', FHost), (''u'', FUsername), (''s'', FSecret)]"
    and e: "\<not> cp_e2ee demo_profile"
    by (simp_all add: required_fields_def demo_profile_def ConnectionProfile_default_def)
  show ?thesis unfolding connect_from_form_def demo_form Let_def r by (simp add: e send_connect_def)
qed

theorem connect_password_fits_witness:
  "Connect demo_profile ''s'' None \<in> set (connect_run clamp_row demo_json demo_app [ConnectClicked]) \<and>
     \<not> cp_e2ee demo_profile"
proof -
  have c: "Connect demo_profile ''s'' None \<in> set (connect_run clamp_row demo_json demo_app [ConnectClicked])"
    using demo_connects by (auto simp: connect_step_def)
  have "ap_asking demo_app = None" by (simp add: demo_app_def)
  from connect_password_fits [OF this c] c show ?thesis by simp
qed

theorem remembered_connects_again_witness:
  "\<exists>a'. connect_from_form demo_json demo_app = (a', [Connect demo_profile ''s'' None]) \<and>
     snd (connect_saved clamp_row demo_profile (rebuild_profile_rows demo_json a')) = [Connect demo_profile ''s'' None]"
proof -
  obtain a' where a: "connect_from_form demo_json demo_app = (a', [Connect demo_profile ''s'' None])"
    using demo_connects by blast
  have J: "conf_json_correct demo_json"
    using ref_conf_json_correct by (auto simp: demo_json_def conf_json_correct_def split: if_splits)
  have l: "load_all demo_json (ap_conf demo_app) = (empty_conf, [])"
    by (simp add: load_all_def read_json_def empty_conf_def demo_app_def ConnectionProfile_default_def)
  have "cf_writable (ap_conf demo_app)" "cf_keychain_up (ap_conf demo_app)"
    "fm_editing (ap_form demo_app) \<in> {None, Some (cp_name demo_profile)}"
    "js_profiles demo_json (replace_or_push demo_profile []) \<noteq> None"
    unfolding demo_form
    by (simp_all add: demo_app_def empty_conf_def demo_profile_def ConnectionProfile_default_def)
      (simp_all add: demo_json_def demo_profile_def ConnectionProfile_default_def)
  note h = this
  have "cp_kind demo_profile \<noteq> Nfs" by (simp add: demo_profile_def)
  with remembered_connects_again [OF J h(1,2) demo_form(1) [symmetric] demo_form(3) h(3) l h(4) a refl refl, of clamp_row] a
  show ?thesis by auto
qed

end
